(* ===== verification/HumPrelude.thy ===== *)
theory HumPrelude
  imports Main "HOL-Library.Sublist" "HOL-Library.Char_ord" "HOL-Library.List_Lexorder" "HOL-Library.AList"
begin

text \<open>
  What the components of the development share.

  \<^item> JavaScript values: a string is a list of characters (code units below 256), an optional or
    nullable field is an \<open>option\<close>, a time stamp (\<open>Date.now()\<close>, milliseconds) is an \<open>int\<close> passed
    as an argument, and \<open>truthy\<close> is the truth value of a possibly missing string.
  \<^item> The string functions of the language the source calls: case conversion, \<open>startsWith\<close>,
    \<open>indexOf\<close>, \<open>split\<close>, \<open>join\<close>, \<open>trim\<close>.
  \<^item> Tables: the rows of an SQLite table in row order, and the statement shapes the stores use
    (update with a where clause, the change count of the last statement, the first matching row,
    the first row in descending order).
  \<^item> Sequences of state operations and events, and the interfaces the components share: a store that
    is resolved by compare-and-swap (\<open>cas_store\<close>), a machine with an invariant (\<open>event_machine\<close>) and
    one with an accounting argument (\<open>credit_machine\<close>).
  \<^item> JavaScript maps and array updates.
\<close>

named_theorems table_simps "equations of the table operations"
named_theorems js_simps "equations of the string functions"

type_synonym millis = int

section \<open>Strings and optional values\<close>

text \<open>JavaScript's truth value of \<open>string | null | undefined\<close>: the empty string is false.\<close>

definition truthy :: "string option \<Rightarrow> bool" where
  "truthy x = (case x of None \<Rightarrow> False | Some s \<Rightarrow> s \<noteq> [])"

lemma truthy_simps [simp]:
  "truthy None = False" "truthy (Some s) = (s \<noteq> [])"
  by (simp_all add: truthy_def)

lemma truthyE: "truthy x \<Longrightarrow> (\<And>s. x = Some s \<Longrightarrow> s \<noteq> [] \<Longrightarrow> P) \<Longrightarrow> P"
  by (cases x) auto

text \<open>The nullish coalescing operator: \<open>a ?? b\<close> with an optional and with a plain right side.\<close>

definition orElse :: "'a option \<Rightarrow> 'a option \<Rightarrow> 'a option" where
  "orElse a b = (case a of None \<Rightarrow> b | Some x \<Rightarrow> Some x)"

definition orDefault :: "'a option \<Rightarrow> 'a \<Rightarrow> 'a" where
  "orDefault a d = (case a of None \<Rightarrow> d | Some x \<Rightarrow> x)"

lemma orElse_simps [simp]: "orElse None b = b" "orElse (Some x) b = Some x"
  by (simp_all add: orElse_def)

lemma orDefault_simps [simp]: "orDefault None d = d" "orDefault (Some x) d = x"
  by (simp_all add: orDefault_def)

text \<open>
  \<open>toLowerCase\<close> on code units below 256: the ASCII letters and the Latin-1 letters 0xC0 to 0xDE
  but the multiplication sign. \<open>toUpperCase\<close> is modelled on ASCII, which is what the source feeds
  it (HTTP methods).
\<close>

definition char_lower :: "char \<Rightarrow> char" where
  "char_lower c = (let n = (of_char c :: nat) in
     if (65 \<le> n \<and> n \<le> 90) \<or> (192 \<le> n \<and> n \<le> 222 \<and> n \<noteq> 215) then char_of (n + 32) else c)"

definition char_upper :: "char \<Rightarrow> char" where
  "char_upper c = (let n = (of_char c :: nat) in if 97 \<le> n \<and> n \<le> 122 then char_of (n - 32) else c)"

definition toLowerCase :: "string \<Rightarrow> string" where
  "toLowerCase s = map char_lower s"

definition toUpperCase :: "string \<Rightarrow> string" where
  "toUpperCase s = map char_upper s"

lemma of_char_char_lower:
  "(of_char (char_lower c) :: nat) = (let n = (of_char c :: nat) in
     if (65 \<le> n \<and> n \<le> 90) \<or> (192 \<le> n \<and> n \<le> 222 \<and> n \<noteq> 215) then n + 32 else n)"
  by (auto simp: char_lower_def Let_def of_char_of take_bit_eq_mod)

lemma char_lower_idem [js_simps]: "char_lower (char_lower c) = char_lower c"
proof -
  have "((65 \<le> (of_char (char_lower c) :: nat) \<and> (of_char (char_lower c) :: nat) \<le> 90) \<or>
      (192 \<le> (of_char (char_lower c) :: nat) \<and> (of_char (char_lower c) :: nat) \<le> 222
        \<and> (of_char (char_lower c) :: nat) \<noteq> 215)) = False"
    by (auto simp: of_char_char_lower Let_def)
  then show ?thesis unfolding char_lower_def [of "char_lower c"] Let_def by (simp only: if_False)
qed

lemma toLowerCase_idem [js_simps]: "toLowerCase (toLowerCase s) = toLowerCase s"
  by (simp add: toLowerCase_def js_simps)

lemma of_char_char_upper:
  "(of_char (char_upper c) :: nat) =
    (let n = (of_char c :: nat) in if 97 \<le> n \<and> n \<le> 122 then n - 32 else n)"
  by (auto simp: char_upper_def Let_def of_char_of take_bit_eq_mod)

lemma char_upper_idem [js_simps]: "char_upper (char_upper c) = char_upper c"
proof -
  have "\<not> (97 \<le> (of_char (char_upper c) :: nat) \<and> (of_char (char_upper c) :: nat) \<le> 122)"
    by (auto simp: of_char_char_upper Let_def)
  then show ?thesis unfolding char_upper_def [of "char_upper c"] Let_def by (simp only: if_False)
qed

lemma toUpperCase_idem [js_simps]: "toUpperCase (toUpperCase s) = toUpperCase s"
  by (simp add: toUpperCase_def js_simps)

lemma space_toUpperCase [js_simps]: "CHR '' '' \<in> set (toUpperCase s) \<longleftrightarrow> CHR '' '' \<in> set s"
proof -
  have "char_upper c = CHR '' '' \<longleftrightarrow> c = CHR '' ''" for c
  proof -
    have "(of_char (char_upper c) :: nat) = 32 \<longleftrightarrow> (of_char c :: nat) = 32"
      by (auto simp: of_char_char_upper Let_def)
    moreover have "(of_char CHR '' '' :: nat) = 32" by simp
    ultimately show ?thesis by (metis of_char_eq_iff)
  qed
  then show ?thesis unfolding toUpperCase_def set_map image_iff by metis
qed

lemma length_toLowerCase [js_simps]: "length (toLowerCase s) = length s"
  by (simp add: toLowerCase_def)

text \<open>\<open>s.startsWith(p)\<close>, \<open>s.endsWith(p)\<close>, \<open>s.includesStr(p)\<close>.\<close>

definition startsWith :: "string \<Rightarrow> string \<Rightarrow> bool" where
  "startsWith s p = (take (length p) s = p)"

definition endsWith :: "string \<Rightarrow> string \<Rightarrow> bool" where
  "endsWith s p = (length p \<le> length s \<and> drop (length s - length p) s = p)"

fun includesStr :: "string \<Rightarrow> string \<Rightarrow> bool" where
  "includesStr [] p = (p = [])"
| "includesStr (c # s) p = (startsWith (c # s) p \<or> includesStr s p)"

lemma startsWith_iff [js_simps]: "startsWith s p \<longleftrightarrow> (\<exists>t. s = p @ t)"
proof
  assume "startsWith s p"
  then have "s = p @ drop (length p) s"
    by (metis append_take_drop_id startsWith_def)
  then show "\<exists>t. s = p @ t" ..
qed (auto simp: startsWith_def)

lemma endsWith_iff [js_simps]: "endsWith s p \<longleftrightarrow> (\<exists>t. s = t @ p)"
proof
  assume "endsWith s p"
  then have "s = take (length s - length p) s @ p"
    by (metis append_take_drop_id endsWith_def)
  then show "\<exists>t. s = t @ p" ..
qed (auto simp: endsWith_def)

lemma includes_iff: "includesStr s p \<longleftrightarrow> (\<exists>a b. s = a @ p @ b)"
proof (induction s)
  case Nil
  then show ?case by auto
next
  case (Cons c s)
  have "(\<exists>a b. c # s = a @ p @ b) \<longleftrightarrow> (\<exists>b. c # s = p @ b) \<or> (\<exists>a b. s = a @ p @ b)"
    by (metis append_Cons append_Nil neq_Nil_conv list.inject)
  with Cons show ?case by (simp add: startsWith_iff)
qed

text \<open>\<open>s.indexOf(c)\<close> for one character: \<open>None\<close> stands for \<open>-1\<close>.\<close>

fun indexOf :: "char \<Rightarrow> string \<Rightarrow> nat option" where
  "indexOf c [] = None"
| "indexOf c (d # s) = (if c = d then Some 0 else map_option Suc (indexOf c s))"

lemma indexOf_None [js_simps]: "indexOf c s = None \<longleftrightarrow> c \<notin> set s"
  by (induction s) auto

lemma indexOf_append [js_simps]: "c \<notin> set s \<Longrightarrow> indexOf c (s @ c # t) = Some (length s)"
  by (induction s) auto

text \<open>\<open>s.split(c)\<close> and \<open>parts.join(sep)\<close>.\<close>

fun splitOn :: "char \<Rightarrow> string \<Rightarrow> string list" where
  "splitOn c [] = [[]]"
| "splitOn c (d # s) =
     (if c = d then [] # splitOn c s
      else (case splitOn c s of [] \<Rightarrow> [[d]] | p # ps \<Rightarrow> (d # p) # ps))"

fun join :: "string \<Rightarrow> string list \<Rightarrow> string" where
  "join sep [] = []"
| "join sep [x] = x"
| "join sep (x # y # zs) = x @ sep @ join sep (y # zs)"

lemma splitOn_nonempty [simp]: "splitOn c s \<noteq> []"
  by (induction s) (auto split: list.splits)

lemma splitOn_no_sep: "x \<in> set (splitOn c s) \<Longrightarrow> c \<notin> set x"
proof (induction s arbitrary: x)
  case (Cons d s)
  then show ?case by (cases "splitOn c s") (auto split: if_splits)
qed simp

lemma splitOn_subset: "s \<in> set (splitOn c p) \<Longrightarrow> set s \<subseteq> set p"
proof (induction p arbitrary: s)
  case (Cons d p)
  obtain q qs where q: "splitOn c p = q # qs" using splitOn_nonempty neq_Nil_conv by metis
  have "s = [] \<or> s \<in> set (q # qs) \<or> s = d # q"
    using Cons.prems q by (auto split: if_splits)
  then show ?case using Cons.IH q by fastforce
qed simp

lemma splitOn_append: "c \<notin> set x \<Longrightarrow> splitOn c (x @ c # s) = x # splitOn c s"
  by (induction x) auto

lemma splitOn_single: "c \<notin> set x \<Longrightarrow> splitOn c x = [x]"
  by (induction x) auto

lemma splitOn_join:
  "xs \<noteq> [] \<Longrightarrow> (\<And>x. x \<in> set xs \<Longrightarrow> c \<notin> set x) \<Longrightarrow> splitOn c (join [c] xs) = xs"
  by (induction "[c]" xs rule: join.induct) (auto simp: splitOn_single splitOn_append)

lemma set_join: "set (join sep xs) \<subseteq> set sep \<union> \<Union> (set ` set xs)"
  by (induction sep xs rule: join.induct) auto

text \<open>White space (\<open>\s\<close> and \<open>trim\<close>) on code units below 256.\<close>

definition is_ws :: "char \<Rightarrow> bool" where
  "is_ws c = (let n = (of_char c :: nat) in n \<in> {9, 10, 11, 12, 13, 32, 160})"

definition trim :: "string \<Rightarrow> string" where
  "trim s = rev (dropWhile is_ws (rev (dropWhile is_ws s)))"

text \<open>\<open>!s || s.trim().length === 0\<close>\<close>

definition blank :: "string \<Rightarrow> bool" where
  "blank s = (s = [] \<or> trim s = [])"

lemma trim_Nil_iff: "trim s = [] \<longleftrightarrow> (\<forall>c \<in> set s. is_ws c)"
proof (cases "dropWhile is_ws s")
  case Nil
  then have "\<forall>c \<in> set s. is_ws c" by (simp add: dropWhile_eq_Nil_conv)
  moreover have "trim s = []" by (simp only: trim_def Nil) simp
  ultimately show ?thesis by simp
next
  case (Cons c t)
  then have c: "\<not> is_ws c" using hd_dropWhile [of is_ws s] by simp
  have "c \<in> set s" using Cons set_dropWhileD [of c is_ws s] by simp
  moreover have "trim s \<noteq> []" by (simp add: trim_def Cons c dropWhile_append)
  ultimately show ?thesis using c by blast
qed

lemma blank_iff [js_simps]: "blank s \<longleftrightarrow> (\<forall>c \<in> set s. is_ws c)"
  by (auto simp: blank_def trim_Nil_iff)

text \<open>\<open>s.split(/\s+/)\<close>: the pieces between maximal runs of white space.\<close>

fun splitWsAux :: "string \<Rightarrow> string \<Rightarrow> string list" where
  "splitWsAux acc [] = [rev acc]"
| "splitWsAux acc (c # s) =
     (if is_ws c
      then (case s of [] \<Rightarrow> [rev acc, []]
            | d # _ \<Rightarrow> if is_ws d then splitWsAux acc s else rev acc # splitWsAux [] s)
      else splitWsAux (c # acc) s)"

definition splitWs :: "string \<Rightarrow> string list" where
  "splitWs s = splitWsAux [] s"

section \<open>Tables\<close>

text \<open>
  A table is the list of its rows in row order. \<open>updateWhere p f\<close> is an SQL update with the where
  clause \<open>p\<close>, and \<open>changesOf p\<close> the count that \<open>changes()\<close> reports after it.
\<close>

definition updateWhere :: "('r \<Rightarrow> bool) \<Rightarrow> ('r \<Rightarrow> 'r) \<Rightarrow> 'r list \<Rightarrow> 'r list" where
  "updateWhere p f rows = map (\<lambda>r. if p r then f r else r) rows"

definition changesOf :: "('r \<Rightarrow> bool) \<Rightarrow> 'r list \<Rightarrow> nat" where
  "changesOf p rows = length (filter p rows)"

text \<open>\<open>ORDER BY key DESC\<close> followed by \<open>get()\<close>: the first row with the greatest key.\<close>

fun firstDesc :: "('r \<Rightarrow> int) \<Rightarrow> 'r list \<Rightarrow> 'r option" where
  "firstDesc k [] = None"
| "firstDesc k (r # rs) =
     (case firstDesc k rs of None \<Rightarrow> Some r | Some q \<Rightarrow> if k q \<le> k r then Some r else Some q)"

lemma firstDesc_in: "firstDesc k rs = Some r \<Longrightarrow> r \<in> set rs"
  by (induction rs arbitrary: r) (auto split: option.splits if_splits)

lemma firstDesc_None: "firstDesc k rs = None \<longleftrightarrow> rs = []"
  by (cases rs) (auto split: option.splits if_splits)

lemma firstDesc_max: "firstDesc k rs = Some r \<Longrightarrow> q \<in> set rs \<Longrightarrow> k q \<le> k r"
proof (induction rs arbitrary: r q)
  case (Cons x rs)
  then show ?case
    by (cases "firstDesc k rs") (fastforce simp: firstDesc_None split: if_splits)+
qed simp

lemma updateWhere_simps [table_simps]:
  "updateWhere p f [] = []"
  "updateWhere p f (r # rs) = (if p r then f r else r) # updateWhere p f rs"
  "length (updateWhere p f rs) = length rs"
  "set (updateWhere p f rs) = (\<lambda>r. if p r then f r else r) ` set rs"
  by (simp_all add: updateWhere_def)

lemma updateWhere_id: "(\<And>r. r \<in> set rs \<Longrightarrow> \<not> p r) \<Longrightarrow> updateWhere p f rs = rs"
  by (simp add: updateWhere_def map_idI)

lemma changesOf_0 [table_simps]: "changesOf p rs = 0 \<longleftrightarrow> (\<forall>r \<in> set rs. \<not> p r)"
  by (simp add: changesOf_def filter_empty_conv)

lemma map_updateWhere_key:
  "(\<And>r. p r \<Longrightarrow> key (f r) = key r) \<Longrightarrow> map key (updateWhere p f rs) = map key rs"
  by (simp add: updateWhere_def)

text \<open>A row found by its primary key, and how an update moves it.\<close>

definition byKey :: "('r \<Rightarrow> 'k) \<Rightarrow> 'k \<Rightarrow> 'r list \<Rightarrow> 'r option" where
  "byKey key k rows = find (\<lambda>r. key r = k) rows"

lemma byKey_Some: "byKey key k rs = Some r \<Longrightarrow> r \<in> set rs \<and> key r = k"
  by (auto simp: byKey_def find_Some_iff)

lemma byKey_None: "byKey key k rs = None \<longleftrightarrow> k \<notin> key ` set rs"
  by (auto simp: byKey_def find_None_iff)

lemma byKey_in:
  "distinct (map key rs) \<Longrightarrow> r \<in> set rs \<Longrightarrow> byKey key (key r) rs = Some r"
proof (induction rs)
  case (Cons x rs)
  show ?case
  proof (cases "r = x")
    case False
    with Cons.prems have "key x \<noteq> key r" by auto
    with Cons False show ?thesis by (simp add: byKey_def)
  qed (simp add: byKey_def)
qed simp

lemma byKey_updateWhere:
  assumes "\<And>r. p r \<Longrightarrow> key (f r) = key r"
  shows "byKey key k (updateWhere p f rs) =
    map_option (\<lambda>r. if p r then f r else r) (byKey key k rs)"
  using assms by (induction rs) (auto simp: byKey_def updateWhere_def)

lemma byKey_append:
  "byKey key k (rs @ [r]) =
    (case byKey key k rs of Some q \<Rightarrow> Some q | None \<Rightarrow> if key r = k then Some r else None)"
  by (induction rs) (auto simp: byKey_def)

section \<open>Sequences of operations\<close>

text \<open>Operations run one after the other on a state, with the list of their results.\<close>

fun runOps :: "('s \<Rightarrow> 'r \<times> 's) list \<Rightarrow> 's \<Rightarrow> 'r list \<times> 's" where
  "runOps [] s = ([], s)"
| "runOps (f # fs) s = (let (r, s') = f s; (rs, t) = runOps fs s' in (r # rs, t))"

lemma runOps_Cons [simp]:
  "fst (runOps (f # fs) s) = fst (f s) # fst (runOps fs (snd (f s)))"
  "snd (runOps (f # fs) s) = snd (runOps fs (snd (f s)))"
  by (simp_all add: case_prod_beta Let_def)

declare runOps.simps(2) [simp del]

lemma length_runOps [simp]: "length (fst (runOps fs s)) = length fs"
  by (induction fs arbitrary: s) simp_all

definition wins :: "'r option list \<Rightarrow> nat" where
  "wins rs = length (filter (\<lambda>r. r \<noteq> None) rs)"

lemma wins_simps [simp]:
  "wins [] = 0" "wins (None # rs) = wins rs" "wins (Some r # rs) = Suc (wins rs)"
  by (simp_all add: wins_def)

text \<open>
  The interface of a store that is resolved by compare-and-swap. The client sees a look-up by key,
  the status of a record and the swap; the provider promises that a swap against the expected
  status succeeds and moves the record, that any other swap changes nothing, and that other keys
  keep their records.
\<close>

locale cas_store =
  fixes ok :: "'s \<Rightarrow> bool"
    and lookup :: "'s \<Rightarrow> 'k \<Rightarrow> 'r option"
    and status :: "'r \<Rightarrow> 'st"
    and target :: "'d \<Rightarrow> 'st"
    and cas :: "'k \<Rightarrow> 'st \<Rightarrow> 'd \<Rightarrow> 's \<Rightarrow> 'r option \<times> 's"
  assumes cas_ok: "ok s \<Longrightarrow> ok (snd (cas k e d s))"
    and cas_hit: "ok s \<Longrightarrow> lookup s k = Some r \<Longrightarrow> status r = e \<Longrightarrow>
      \<exists>r'. fst (cas k e d s) = Some r' \<and> status r' = target d \<and>
        lookup (snd (cas k e d s)) k = Some r'"
    and cas_miss: "ok s \<Longrightarrow> (\<And>r. lookup s k = Some r \<Longrightarrow> status r \<noteq> e) \<Longrightarrow> cas k e d s = (None, s)"
    and cas_frame: "ok s \<Longrightarrow> k' \<noteq> k \<Longrightarrow> lookup (snd (cas k e d s)) k' = lookup s k'"
begin

lemma cas_loses:
  assumes "ok s" "\<And>r. lookup s k = Some r \<Longrightarrow> status r \<noteq> e"
  shows "runOps (map (cas k e) ds) s = (replicate (length ds) None, s)"
  using assms by (induction ds) (simp_all add: cas_miss runOps.simps(2))

text \<open>When the record has the expected status, the first writer wins and its decision stays.\<close>

lemma first_writer_wins:
  assumes "ok s" "lookup s k = Some r" "status r = e" "target d \<noteq> e"
  shows "\<exists>r'. fst (runOps (map (cas k e) (d # ds)) s) = Some r' # replicate (length ds) None \<and>
    lookup (snd (runOps (map (cas k e) (d # ds)) s)) k = Some r' \<and> status r' = target d"
proof -
  obtain r' where r': "fst (cas k e d s) = Some r'" "status r' = target d"
      "lookup (snd (cas k e d s)) k = Some r'"
    using cas_hit assms by blast
  have "runOps (map (cas k e) ds) (snd (cas k e d s)) = (replicate (length ds) None, snd (cas k e d s))"
    using r' assms(4) cas_ok [OF assms(1)] by (intro cas_loses) auto
  with r' show ?thesis by simp
qed

lemma wins_replicate [simp]: "wins (replicate n None) = 0"
  by (induction n) simp_all

text \<open>However many writers race, at most one of them wins.\<close>

lemma at_most_one_winner:
  assumes "ok s" "\<And>d. d \<in> set ds \<Longrightarrow> target d \<noteq> e"
  shows "wins (fst (runOps (map (cas k e) ds) s)) \<le> 1"
proof (cases "\<exists>r. lookup s k = Some r \<and> status r = e")
  case True
  then obtain r where r: "lookup s k = Some r" "status r = e" by blast
  show ?thesis
  proof (cases ds)
    case (Cons d ds')
    then have "target d \<noteq> e" using assms(2) by simp
    from first_writer_wins [OF assms(1) r this, of ds'] Cons show ?thesis
      by (auto simp del: runOps_Cons list.map)
  qed simp
next
  case False
  then have "runOps (map (cas k e) ds) s = (replicate (length ds) None, s)"
    using assms(1) by (intro cas_loses) auto
  then show ?thesis by simp
qed

end

text \<open>
  Machines given by a step function over events, and a quantity summed along a run. An accounting
  argument bounds what a run spends by what it gains: the client of the interface gives a credit
  that every step keeps in balance. The single-use properties of the grant stores rest on it.
\<close>

fun runEvents :: "('s \<Rightarrow> 'e \<Rightarrow> 's) \<Rightarrow> 's \<Rightarrow> 'e list \<Rightarrow> 's" where
  "runEvents step s [] = s"
| "runEvents step s (e # es) = runEvents step (step s e) es"

fun tally :: "('s \<Rightarrow> 'e \<Rightarrow> 's) \<Rightarrow> ('s \<Rightarrow> 'e \<Rightarrow> nat) \<Rightarrow> 's \<Rightarrow> 'e list \<Rightarrow> nat" where
  "tally step f s [] = 0"
| "tally step f s (e # es) = f s e + tally step f (step s e) es"

lemma runEvents_append: "runEvents step s (es @ fs) = runEvents step (runEvents step s es) fs"
  by (induction es arbitrary: s) simp_all

locale event_machine =
  fixes step :: "'s \<Rightarrow> 'e \<Rightarrow> 's"
    and inv :: "'s \<Rightarrow> bool"
  assumes inv_step: "inv s \<Longrightarrow> inv (step s e)"
begin

lemma inv_run: "inv s \<Longrightarrow> inv (runEvents step s es)"
  by (induction es arbitrary: s) (simp_all add: inv_step)

end

locale credit_machine = event_machine +
  fixes credit :: "'a \<Rightarrow> nat"
    and spend gain :: "'a \<Rightarrow> 'b \<Rightarrow> nat"
  assumes balance: "inv s \<Longrightarrow> spend s e + credit (step s e) \<le> credit s + gain s e"
begin

lemma spend_bounded: "inv s \<Longrightarrow> tally step spend s es + credit (runEvents step s es) \<le>
    credit s + tally step gain s es"
proof (induction es arbitrary: s)
  case (Cons e es)
  then show ?case using Cons.IH [OF inv_step [OF Cons.prems, of e]] balance [OF Cons.prems, of e] by simp
qed simp

lemma spend_le_gain:
  assumes "inv s" "credit s = 0"
  shows "tally step spend s es \<le> tally step gain s es"
  using spend_bounded [OF assms(1), of es] assms(2) by simp

end

section \<open>JavaScript maps and arrays\<close>

text \<open>
  A \<open>Map\<close> that is iterated or counted is its list of entries in insertion order: \<open>set\<close> keeps the
  place of an existing key and appends a new one, as \<open>AList.update\<close> does; \<open>delete\<close> drops the entry.
\<close>

type_synonym ('k, 'v) jsMap = "('k \<times> 'v) list"

abbreviation mapGet :: "('k, 'v) jsMap \<Rightarrow> 'k \<Rightarrow> 'v option" where
  "mapGet \<equiv> map_of"

abbreviation mapSet :: "'k \<Rightarrow> 'v \<Rightarrow> ('k, 'v) jsMap \<Rightarrow> ('k, 'v) jsMap" where
  "mapSet \<equiv> AList.update"

abbreviation mapDelete :: "'k \<Rightarrow> ('k, 'v) jsMap \<Rightarrow> ('k, 'v) jsMap" where
  "mapDelete \<equiv> AList.delete"

abbreviation mapHas :: "('k, 'v) jsMap \<Rightarrow> 'k \<Rightarrow> bool" where
  "mapHas m k \<equiv> map_of m k \<noteq> None"

lemma mapGet_mapSet [simp]: "mapGet (mapSet k v m) k' = (if k' = k then Some v else mapGet m k')"
  by (simp add: update_conv)

lemma mapGet_mapDelete [simp]: "mapGet (mapDelete k m) k' = (if k' = k then None else mapGet m k')"
  by (simp add: delete_conv)

lemma mapGet_filter_keys:
  "mapGet (filter (\<lambda>(k, v). P k) m) k' = (if P k' then mapGet m k' else None)"
  by (induction m) auto

text \<open>An object found by \<open>find\<close> and mutated in its array, and \<open>findIndex\<close> followed by \<open>splice\<close>.\<close>

fun updateFirst :: "('a \<Rightarrow> bool) \<Rightarrow> ('a \<Rightarrow> 'a) \<Rightarrow> 'a list \<Rightarrow> 'a list" where
  "updateFirst p f [] = []"
| "updateFirst p f (x # xs) = (if p x then f x # xs else x # updateFirst p f xs)"

fun removeFirst :: "('a \<Rightarrow> bool) \<Rightarrow> 'a list \<Rightarrow> 'a list" where
  "removeFirst p [] = []"
| "removeFirst p (x # xs) = (if p x then xs else x # removeFirst p xs)"

lemma length_updateFirst [simp]: "length (updateFirst p f xs) = length xs"
  by (induction xs) simp_all

lemma map_updateFirst: "(\<And>x. p x \<Longrightarrow> g (f x) = g x) \<Longrightarrow> map g (updateFirst p f xs) = map g xs"
  by (induction xs) simp_all

lemma byKey_updateFirst:
  assumes "\<And>x. key (f x) = key x"
  shows "byKey key k' (updateFirst (\<lambda>x. key x = k) f xs) =
    (if k' = k then map_option f (byKey key k xs) else byKey key k' xs)"
  using assms by (induction xs) (auto simp: byKey_def)

lemma set_removeFirst: "set (removeFirst p xs) \<subseteq> set xs"
  by (induction xs) auto

lemma distinct_removeFirst: "distinct (map g xs) \<Longrightarrow> distinct (map g (removeFirst p xs))"
  by (induction xs) (use set_removeFirst in fastforce)+

lemma byKey_removeFirst:
  assumes "distinct (map key xs)"
  shows "byKey key k' (removeFirst (\<lambda>x. key x = k) xs) = (if k' = k then None else byKey key k' xs)"
  using assms
proof (induction xs)
  case (Cons x xs)
  then show ?case using byKey_None [of key k xs] by (auto simp: byKey_def)
qed (simp add: byKey_def)

section \<open>Texts with separators\<close>

definition NUL :: char where
  "NUL = CHR 0x00"

lemma split_first: "c \<notin> set a \<Longrightarrow> c \<notin> set b \<Longrightarrow> a @ c # x = b @ c # y \<Longrightarrow> a = b \<and> x = y"
proof (induction a arbitrary: b)
  case Nil
  then show ?case by (cases b) auto
next
  case (Cons d a)
  then show ?case by (cases b) auto
qed

lemma split_last: "c \<notin> set x \<Longrightarrow> c \<notin> set y \<Longrightarrow> a @ c # x = b @ c # y \<Longrightarrow> a = b \<and> x = y"
proof -
  assume "c \<notin> set x" "c \<notin> set y" "a @ c # x = b @ c # y"
  moreover from this(3) have "rev x @ c # rev a = rev y @ c # rev b"
    by (metis rev.simps(2) rev_append append_Cons append_Nil append_assoc)
  ultimately show ?thesis using split_first [of c "rev x" "rev y" "rev a" "rev b"] by simp
qed

text \<open>\<open>String(n)\<close> of a natural number.\<close>

fun showNat :: "nat \<Rightarrow> string" where
  "showNat n = (if n < 10 then [char_of (48 + n)] else showNat (n div 10) @ [char_of (48 + n mod 10)])"

declare showNat.simps [simp del]

lemma showNat_not_Nil: "showNat n \<noteq> []"
  by (subst showNat.simps) simp

lemma showNat_digits: "set (showNat n) \<subseteq> char_of ` {48..57::nat}"
proof (induction n rule: showNat.induct)
  case (1 n)
  show ?case
  proof (cases "n < 10")
    case True
    then show ?thesis by (subst showNat.simps) auto
  next
    case False
    have "n mod 10 < 10" by simp
    then have "char_of (48 + n mod 10) \<in> char_of ` {48..57::nat}" by (intro imageI) auto
    then show ?thesis using 1 False by (subst showNat.simps) simp
  qed
qed

lemma NUL_showNat: "NUL \<notin> set (showNat n)"
proof
  assume "NUL \<in> set (showNat n)"
  then obtain k :: nat where k: "char_of k = NUL" "48 \<le> k" "k \<le> 57" using showNat_digits[of n] by force
  then have "(of_char (char_of k :: char) :: nat) = 0" by (simp add: NUL_def)
  then show False using k(2,3) by (simp add: of_char_of)
qed

lemma showNat_inj: "showNat m = showNat n \<Longrightarrow> m = n"
proof (induction m arbitrary: n rule: showNat.induct)
  case (1 m)
  have digit: "(char_of (48 + i) :: char) = char_of (48 + j) \<Longrightarrow> i = j" if "i < 10" "j < 10" for i j :: nat
  proof -
    assume "(char_of (48 + i) :: char) = char_of (48 + j)"
    then have "(of_char (char_of (48 + i) :: char) :: nat) = of_char (char_of (48 + j) :: char)" by simp
    then show "i = j" using that by (simp add: of_char_of)
  qed
  show ?case
  proof (cases "m < 10")
    case True
    then have "length (showNat n) = 1" using "1.prems" by (metis length_0_conv length_Cons One_nat_def showNat.simps)
    then have "n < 10" by (subst (asm) showNat.simps) (auto simp: showNat_not_Nil split: if_splits)
    then show ?thesis using True "1.prems" digit[of m n] by (simp add: showNat.simps)
  next
    case False
    then have "length (showNat m) \<noteq> 1" by (subst showNat.simps) (simp add: showNat_not_Nil)
    then have n: "\<not> n < 10" using "1.prems" by (auto simp: showNat.simps[of n])
    then have "showNat (m div 10) = showNat (n div 10)" "(char_of (48 + m mod 10) :: char) = char_of (48 + n mod 10)"
      using "1.prems" False by (simp_all add: showNat.simps[of m] showNat.simps[of n])
    then have "m div 10 = n div 10" "m mod 10 = n mod 10" using "1.IH" False digit by auto
    then show ?thesis by (metis div_mult_mod_eq)
  qed
qed

end
