(* ===== verification/HostPolicy.thy ===== *)
theory HostPolicy
  imports HumPrelude
begin

text \<open>
  The outbound proxy's decision core (\<open>assistant/src/outbound-proxy\<close>): the host pattern matcher
  (\<open>host-pattern-match.ts\<close>), the policy engine that picks the credential to inject (\<open>policy.ts\<close>)
  and the CONNECT router that decides between interception and a plain tunnel (\<open>router.ts\<close>).
  The templates are those of \<open>packages/egress-proxy/src/types.ts\<close>; a JavaScript \<open>Map\<close> is a map.
\<close>

section \<open>Host patterns\<close>

datatype hostMatchKind = HMNone | HMWildcard | HMExact

definition matchHostPattern :: "string \<Rightarrow> string \<Rightarrow> bool \<Rightarrow> hostMatchKind" where
  "matchHostPattern host pat includeApex =
    (let lHost = toLowerCase host; lPattern = toLowerCase pat in
     if lHost = lPattern then HMExact
     else if startsWith lPattern ''*.'' then
       (let suffix = drop 1 lPattern in
        if endsWith lHost suffix \<and> length suffix < length lHost then HMWildcard
        else if includeApex \<and> lHost = drop 2 lPattern then HMWildcard
        else HMNone)
     else HMNone)"

fun rankOf :: "hostMatchKind \<Rightarrow> int" where
  "rankOf HMExact = 2"
| "rankOf HMWildcard = 1"
| "rankOf HMNone = 0"

definition compareMatchSpecificity :: "hostMatchKind \<Rightarrow> hostMatchKind \<Rightarrow> int" where
  "compareMatchSpecificity a b = rankOf b - rankOf a"

text \<open>What a wildcard pattern covers: proper subdomains, and the apex when it is included.\<close>

lemma matchHostPattern_exact:
  "matchHostPattern h p a = HMExact \<longleftrightarrow> toLowerCase h = toLowerCase p"
  by (auto simp: matchHostPattern_def Let_def)

lemma matchHostPattern_wildcard:
  "matchHostPattern h p a = HMWildcard \<longleftrightarrow>
    toLowerCase h \<noteq> toLowerCase p \<and>
    (\<exists>d. toLowerCase p = ''*.'' @ d \<and>
      ((\<exists>sub. sub \<noteq> [] \<and> toLowerCase h = sub @ ''.'' @ d) \<or> (a \<and> toLowerCase h = d)))"
  by (auto simp: matchHostPattern_def Let_def startsWith_iff endsWith_iff)

lemma matchHostPattern_case_insensitive:
  "matchHostPattern (toLowerCase h) (toLowerCase p) a = matchHostPattern h p a"
  by (simp add: matchHostPattern_def toLowerCase_idem)

lemma rankOf_pos [simp]: "0 < rankOf k \<longleftrightarrow> k \<noteq> HMNone" "rankOf k = 0 \<longleftrightarrow> k = HMNone"
  by (cases k; simp)+

lemma rankOf_inj [simp]: "rankOf a = rankOf b \<longleftrightarrow> a = b"
  by (cases a; cases b) simp_all

section \<open>Templates and decisions\<close>

datatype injectionType = InjHeader | InjQuery

record template =
  hostPattern :: string
  injectionType :: injectionType
  headerName :: "string option"
  valuePrefix :: "string option"
  queryParamName :: "string option"

datatype scheme = Http | Https

record targetContext =
  tHostname :: string
  tPort :: "nat option"
  tPath :: string
  tScheme :: scheme

datatype policyDecision =
    Matched string template
  | Ambiguous "(string \<times> template) list"
  | Missing
  | Unauthenticated
  | AskMissingCredential targetContext "string list"
  | AskUnauthenticated targetContext

type_synonym templates = "string \<rightharpoonup> template list"

section \<open>The policy engine\<close>

text \<open>The inner loop: the best header templates of one credential.\<close>

fun bestLoop :: "string \<Rightarrow> template list \<Rightarrow> hostMatchKind \<Rightarrow> template list \<Rightarrow> template list" where
  "bestLoop h [] best acc = acc"
| "bestLoop h (t # ts) best acc =
    (if injectionType t = InjQuery then bestLoop h ts best acc
     else let m = matchHostPattern h (hostPattern t) True in
       if m = HMNone then bestLoop h ts best acc
       else let cmp = compareMatchSpecificity m best in
         if cmp < 0 then bestLoop h ts m [t]
         else if cmp = 0 then bestLoop h ts best (acc @ [t])
         else bestLoop h ts best acc)"

text \<open>The outer loop: \<open>Inl\<close> is the early return on a tie inside one credential.\<close>

fun credLoop :: "string \<Rightarrow> templates \<Rightarrow> string list \<Rightarrow> (string \<times> template) list \<Rightarrow>
    (string \<times> template) list + (string \<times> template) list" where
  "credLoop h tm [] acc = Inr acc"
| "credLoop h tm (i # ids) acc =
    (case tm i of
       None \<Rightarrow> credLoop h tm ids acc
     | Some tpls \<Rightarrow>
        (case bestLoop h tpls HMNone [] of
           [] \<Rightarrow> credLoop h tm ids acc
         | [t] \<Rightarrow> credLoop h tm ids (acc @ [(i, t)])
         | ts \<Rightarrow> Inl (map (\<lambda>t. (i, t)) ts)))"

definition evaluateRequest :: "string \<Rightarrow> string list \<Rightarrow> templates \<Rightarrow> policyDecision" where
  "evaluateRequest h ids tm =
    (if ids = [] then Unauthenticated
     else (case credLoop h tm ids [] of
        Inl cs \<Rightarrow> Ambiguous cs
      | Inr [] \<Rightarrow> Missing
      | Inr [(i, t)] \<Rightarrow> Matched i t
      | Inr cs \<Rightarrow> Ambiguous cs))"

text \<open>\<open>[...new Set(xs)]\<close>: the first occurrences, in order.\<close>

fun uniq :: "'a list \<Rightarrow> 'a list" where
  "uniq [] = []"
| "uniq (x # xs) = x # filter (\<lambda>y. y \<noteq> x) (uniq xs)"

definition evaluateRequestWithApproval ::
  "string \<Rightarrow> nat option \<Rightarrow> string \<Rightarrow> string list \<Rightarrow> templates \<Rightarrow> template list \<Rightarrow> scheme \<Rightarrow> policyDecision" where
  "evaluateRequestWithApproval h port path ids tm known sch =
    (let base = evaluateRequest h ids tm in
     if base \<noteq> Missing \<and> base \<noteq> Unauthenticated then base
     else
       let target = \<lparr>tHostname = h, tPort = port, tPath = path, tScheme = sch\<rparr>;
           pats = uniq (map hostPattern (filter (\<lambda>t. injectionType t \<noteq> InjQuery \<and>
             matchHostPattern h (hostPattern t) True \<noteq> HMNone) known)) in
       if pats \<noteq> [] then AskMissingCredential target pats else AskUnauthenticated target)"

section \<open>The router\<close>

datatype routeDecision = MitmCredentialInjection | TunnelNoRewrite | TunnelNoCredentials

fun routeLoop :: "string \<Rightarrow> templates \<Rightarrow> string list \<Rightarrow> routeDecision" where
  "routeLoop h tm [] = TunnelNoRewrite"
| "routeLoop h tm (i # ids) =
    (case tm i of
       None \<Rightarrow> routeLoop h tm ids
     | Some tpls \<Rightarrow>
         if list_ex (\<lambda>t. matchHostPattern h (hostPattern t) True \<noteq> HMNone) tpls
         then MitmCredentialInjection else routeLoop h tm ids)"

definition routeConnection :: "string \<Rightarrow> string list \<Rightarrow> templates \<Rightarrow> routeDecision" where
  "routeConnection h ids tm = (if ids = [] then TunnelNoCredentials else routeLoop h tm ids)"

section \<open>Reference definitions\<close>

text \<open>The templates of a credential that apply to a host, and the most specific of them.\<close>

definition applicable :: "string \<Rightarrow> template list \<Rightarrow> template list" where
  "applicable h ts = filter (\<lambda>t. injectionType t \<noteq> InjQuery \<and>
     matchHostPattern h (hostPattern t) True \<noteq> HMNone) ts"

definition kindOf :: "string \<Rightarrow> template \<Rightarrow> hostMatchKind" where
  "kindOf h t = matchHostPattern h (hostPattern t) True"

definition mostSpecific :: "string \<Rightarrow> template list \<Rightarrow> template list" where
  "mostSpecific h ts = (let ms = applicable h ts in
     filter (\<lambda>t. list_all (\<lambda>u. rankOf (kindOf h u) \<le> rankOf (kindOf h t)) ms) ms)"

definition bestOf :: "string \<Rightarrow> templates \<Rightarrow> string \<Rightarrow> template list" where
  "bestOf h tm i = (case tm i of None \<Rightarrow> [] | Some ts \<Rightarrow> mostSpecific h ts)"

text \<open>
  The decision by cases on the whole candidate set: a tie inside a credential is ambiguous at the
  first credential that has one; otherwise the single candidate of all credentials matches.
\<close>

definition evaluateSpec :: "string \<Rightarrow> string list \<Rightarrow> templates \<Rightarrow> policyDecision" where
  "evaluateSpec h ids tm =
    (if ids = [] then Unauthenticated
     else (case find (\<lambda>i. 1 < length (bestOf h tm i)) ids of
        Some i \<Rightarrow> Ambiguous (map (\<lambda>t. (i, t)) (bestOf h tm i))
      | None \<Rightarrow>
         (case concat (map (\<lambda>i. map (\<lambda>t. (i, t)) (bestOf h tm i)) ids) of
            [] \<Rightarrow> Missing
          | [(i, t)] \<Rightarrow> Matched i t
          | cs \<Rightarrow> Ambiguous cs)))"

section \<open>The one-pass loops compute the reference\<close>

lemma applicable_kind: "t \<in> set (applicable h ts) \<Longrightarrow> kindOf h t \<noteq> HMNone"
  by (simp add: applicable_def kindOf_def)

text \<open>The loop without the filter: keep the elements of the greatest rank seen so far.\<close>

fun topLoop :: "('a \<Rightarrow> int) \<Rightarrow> 'a list \<Rightarrow> int \<Rightarrow> 'a list \<Rightarrow> 'a list" where
  "topLoop r [] b acc = acc"
| "topLoop r (x # xs) b acc =
    (if b < r x then topLoop r xs (r x) [x]
     else if r x = b then topLoop r xs b (acc @ [x])
     else topLoop r xs b acc)"

definition topRank :: "('a \<Rightarrow> int) \<Rightarrow> int \<Rightarrow> 'a list \<Rightarrow> int" where
  "topRank r b xs = foldl max b (map r xs)"

lemma topRank_simps [simp]:
  "topRank r b [] = b" "topRank r b (x # xs) = topRank r (max b (r x)) xs"
  by (simp_all add: topRank_def)

lemma topRank_base: "b \<le> topRank r b xs"
proof (induction xs arbitrary: b)
  case (Cons y xs)
  show ?case using Cons.IH [of "max b (r y)"] by simp
qed simp

lemma topRank_ge: "x \<in> set xs \<Longrightarrow> r x \<le> topRank r b xs"
proof (induction xs arbitrary: b)
  case (Cons y xs)
  then show ?case using topRank_base [of "max b (r y)" r xs] by auto
qed simp

lemma topRank_in: "topRank r b xs = b \<or> topRank r b xs \<in> r ` set xs"
  by (induction xs arbitrary: b) (simp, fastforce simp: max_def split: if_splits)

lemma topLoop_topRank:
  "topLoop r xs b acc =
    (if topRank r b xs = b then acc else []) @ filter (\<lambda>x. r x = topRank r b xs) xs"
proof (induction xs arbitrary: b acc)
  case (Cons x xs)
  consider "b < r x" | "r x = b" | "r x < b" by linarith
  then show ?case
    using topRank_base [of b r xs] topRank_base [of "r x" r xs] by cases (auto simp: Cons.IH)
qed simp

lemma topLoop_filter:
  assumes "\<And>x. x \<in> set xs \<Longrightarrow> b < r x"
  shows "topLoop r xs b [] = filter (\<lambda>x. list_all (\<lambda>y. r y \<le> r x) xs) xs"
proof -
  have "r x = topRank r b xs \<longleftrightarrow> (\<forall>y \<in> set xs. r y \<le> r x)" if x: "x \<in> set xs" for x
  proof
    assume "r x = topRank r b xs"
    then show "\<forall>y \<in> set xs. r y \<le> r x" by (simp add: topRank_ge)
  next
    assume all: "\<forall>y \<in> set xs. r y \<le> r x"
    have "topRank r b xs \<noteq> b" using topRank_ge [OF x, of r b] assms [OF x] by auto
    then obtain z where "z \<in> set xs" "topRank r b xs = r z" using topRank_in by blast
    with all topRank_ge [OF x, of r b] show "r x = topRank r b xs" by fastforce
  qed
  then show ?thesis by (simp add: topLoop_topRank list_all_iff cong: filter_cong)
qed

lemma bestLoop_topLoop:
  "bestLoop h ts best acc = topLoop (\<lambda>t. rankOf (kindOf h t)) (applicable h ts) (rankOf best) acc"
  by (induction ts arbitrary: best acc)
     (auto simp: applicable_def kindOf_def compareMatchSpecificity_def Let_def)

lemma bestLoop_mostSpecific: "bestLoop h ts HMNone [] = mostSpecific h ts"
  using topLoop_filter [of "applicable h ts" 0 "\<lambda>t. rankOf (kindOf h t)"]
  by (simp add: bestLoop_topLoop mostSpecific_def applicable_kind Let_def)

lemma mostSpecific_in:
  "t \<in> set (mostSpecific h ts) \<Longrightarrow>
    t \<in> set ts \<and> injectionType t = InjHeader \<and> kindOf h t \<noteq> HMNone"
  by (cases "injectionType t") (auto simp: mostSpecific_def applicable_def kindOf_def Let_def)

text \<open>The outer loop against the reference.\<close>

lemma bestOf_eq:
  "bestOf h tm i = (case tm i of None \<Rightarrow> [] | Some ts \<Rightarrow> bestLoop h ts HMNone [])"
  by (simp add: bestOf_def bestLoop_mostSpecific split: option.splits)

lemma credLoop_Cons:
  "credLoop h tm (i # ids) acc =
    (case bestOf h tm i of
       [] \<Rightarrow> credLoop h tm ids acc
     | [t] \<Rightarrow> credLoop h tm ids (acc @ [(i, t)])
     | ts \<Rightarrow> Inl (map (\<lambda>t. (i, t)) ts))"
  by (simp add: bestOf_eq split: option.splits list.splits)

lemma credLoop_eq:
  "credLoop h tm ids acc =
    (case find (\<lambda>i. 1 < length (bestOf h tm i)) ids of
       Some i \<Rightarrow> Inl (map (\<lambda>t. (i, t)) (bestOf h tm i))
     | None \<Rightarrow> Inr (acc @ concat (map (\<lambda>i. map (\<lambda>t. (i, t)) (bestOf h tm i)) ids)))"
proof (induction ids arbitrary: acc)
  case (Cons i ids)
  then show ?case
    by (simp only: credLoop_Cons find.simps)
       (auto split: list.splits option.splits)
qed simp

lemma bestOf_in:
  "t \<in> set (bestOf h tm i) \<Longrightarrow> \<exists>ts. tm i = Some ts \<and> t \<in> set ts \<and> injectionType t = InjHeader \<and>
     matchHostPattern h (hostPattern t) True \<noteq> HMNone"
  using mostSpecific_in [of t h] by (cases "tm i") (auto simp: bestOf_def kindOf_def)

lemma mostSpecific_Nil: "mostSpecific h ts = [] \<longleftrightarrow> applicable h ts = []"
proof -
  have "applicable h ts = []" if "mostSpecific h ts = []"
  proof (rule ccontr)
    let ?r = "\<lambda>t. rankOf (kindOf h t)"
    assume "applicable h ts \<noteq> []"
    then have "Max (?r ` set (applicable h ts)) \<in> ?r ` set (applicable h ts)"
      by (intro Max_in) auto
    then obtain t where "t \<in> set (applicable h ts)" "?r t = Max (?r ` set (applicable h ts))"
      by auto
    then have "t \<in> set (applicable h ts)" "\<forall>u \<in> set (applicable h ts). ?r u \<le> ?r t"
      by auto
    with that show False
      by (auto simp: mostSpecific_def Let_def filter_empty_conv list_all_iff)
  qed
  then show ?thesis by (auto simp: mostSpecific_def Let_def)
qed

lemma routeLoop_eq:
  "routeLoop h tm ids = (if \<exists>i \<in> set ids. \<exists>ts. tm i = Some ts \<and>
     (\<exists>t \<in> set ts. matchHostPattern h (hostPattern t) True \<noteq> HMNone)
   then MitmCredentialInjection else TunnelNoRewrite)"
  by (induction ids) (auto split: option.splits simp: list_ex_iff)

lemma uniq_set [simp]: "set (uniq xs) = set xs"
  by (induction xs) auto

lemma uniq_distinct [simp]: "distinct (uniq xs)"
  by (induction xs) auto

section \<open>Properties\<close>

text \<open>C35: the one-pass credential selection of \<open>evaluateRequest\<close>, with its running best match and its
  early return, computes the declarative decision: the most specific header templates of each
  credential are compared, a tie inside a credential is ambiguous, and a match needs exactly one
  candidate over all credentials.\<close>

theorem evaluateRequest_refines_spec: "evaluateRequest h ids tm = evaluateSpec h ids tm"
  by (simp add: evaluateRequest_def evaluateSpec_def credLoop_eq split: option.splits)

lemma evaluateRequest_candidates:
  assumes "evaluateRequest h ids tm = Matched i t \<or>
    (\<exists>cs. evaluateRequest h ids tm = Ambiguous cs \<and> (i, t) \<in> set cs)"
  shows "i \<in> set ids \<and> t \<in> set (bestOf h tm i)"
  using assms
  by (auto simp: evaluateRequest_refines_spec evaluateSpec_def find_Some_iff
      split: if_splits option.splits list.splits prod.splits)
     (fastforce dest!: arg_cong [where f = set])+

text \<open>A credential is injected only where its template allows it. When the policy engine matches,
  the credential is one the session is authorised for, the template is a header template of that
  credential, and the host is the pattern's host, a proper subdomain of its wildcard domain, or the
  apex of that domain, compared without case.\<close>

theorem evaluateRequest_injects_in_scope:
  assumes "evaluateRequest h ids tm = Matched i t"
  shows "i \<in> set ids \<and> (\<exists>ts. tm i = Some ts \<and> t \<in> set ts) \<and> injectionType t = InjHeader \<and>
    (toLowerCase h = toLowerCase (hostPattern t) \<or>
     (\<exists>d. toLowerCase (hostPattern t) = ''*.'' @ d \<and>
        (toLowerCase h = d \<or> (\<exists>sub. sub \<noteq> [] \<and> toLowerCase h = sub @ ''.'' @ d))))"
proof -
  have "i \<in> set ids" and t: "t \<in> set (bestOf h tm i)"
    using evaluateRequest_candidates assms by blast+
  from bestOf_in [OF t] obtain ts where ts: "tm i = Some ts" "t \<in> set ts"
      "injectionType t = InjHeader" "matchHostPattern h (hostPattern t) True \<noteq> HMNone"
    by blast
  have "matchHostPattern h (hostPattern t) True = HMExact \<or>
      matchHostPattern h (hostPattern t) True = HMWildcard"
    using ts(4) by (cases "matchHostPattern h (hostPattern t) True") auto
  then show ?thesis using \<open>i \<in> set ids\<close> ts
    by (auto simp: matchHostPattern_exact matchHostPattern_wildcard)
qed

definition ex_template :: template where
  "ex_template = \<lparr>hostPattern = ''*.Fal.run'', injectionType = InjHeader,
     headerName = Some ''Authorization'', valuePrefix = Some ''Key '', queryParamName = None\<rparr>"

theorem evaluateRequest_injects_in_scope_witness:
  "evaluateRequest ''api.fal.run'' [''c1''] [''c1'' \<mapsto> [ex_template]] = Matched ''c1'' ex_template \<and>
   injectionType ex_template = InjHeader"
proof -
  have m: "evaluateRequest ''api.fal.run'' [''c1''] [''c1'' \<mapsto> [ex_template]] =
      Matched ''c1'' ex_template"
    by code_simp
  with evaluateRequest_injects_in_scope [OF m] show ?thesis by simp
qed

text \<open>The router never tunnels past the policy. Whenever the policy engine would inject a
  credential, or reports the choice as ambiguous, the router intercepts the connection.\<close>

theorem route_covers_policy:
  assumes "evaluateRequest h ids tm = Matched i t \<or> evaluateRequest h ids tm = Ambiguous cs"
  shows "routeConnection h ids tm = MitmCredentialInjection"
proof -
  obtain j u where "j \<in> set ids" "u \<in> set (bestOf h tm j)"
  proof (cases "evaluateRequest h ids tm = Matched i t")
    case True
    then show ?thesis using evaluateRequest_candidates that by blast
  next
    case False
    then have "evaluateRequest h ids tm = Ambiguous cs" using assms by blast
    moreover from this obtain c where "c \<in> set cs"
      by (cases cs) (auto simp: evaluateRequest_refines_spec evaluateSpec_def find_Some_iff
          split: if_splits option.splits list.splits prod.splits)
    ultimately show ?thesis using evaluateRequest_candidates that by (metis surj_pair)
  qed
  then show ?thesis
    using bestOf_in [of u h tm j] by (cases ids) (auto simp: routeConnection_def routeLoop_eq)
qed

theorem route_covers_policy_witness:
  "routeConnection ''FAL.run'' [''c1''] [''c1'' \<mapsto> [ex_template]] = MitmCredentialInjection"
proof -
  have "evaluateRequest ''FAL.run'' [''c1''] [''c1'' \<mapsto> [ex_template]] = Matched ''c1'' ex_template"
    by code_simp
  then show ?thesis by (intro route_covers_policy [where i = "''c1''" and t = ex_template]) simp
qed

text \<open>The approval-aware policy is total in the sense its callers need: it never answers
  \<open>missing\<close> or \<open>unauthenticated\<close>, and it asks for a missing credential exactly when the session has
  no decision and some known header template covers the host; the patterns it then reports are
  distinct and each covers the host.\<close>

theorem evaluateRequestWithApproval_asks:
  fixes h port path ids tm known sch
  defines "r \<equiv> evaluateRequestWithApproval h port path ids tm known sch"
  shows "r \<noteq> Missing \<and> r \<noteq> Unauthenticated \<and>
    ((\<exists>tc ps. r = AskMissingCredential tc ps) \<longleftrightarrow>
       evaluateRequest h ids tm \<in> {Missing, Unauthenticated} \<and> applicable h known \<noteq> []) \<and>
    (\<forall>tc ps. r = AskMissingCredential tc ps \<longrightarrow> tHostname tc = h \<and> distinct ps \<and>
       set ps = hostPattern ` set (applicable h known) \<and>
       (\<forall>p \<in> set ps. matchHostPattern h p True \<noteq> HMNone))"
proof -
  have base: "evaluateRequest h ids tm \<noteq> AskMissingCredential tc ps"
    "evaluateRequest h ids tm \<noteq> AskUnauthenticated tc" for tc ps
    by (auto simp: evaluateRequest_def split: sum.splits list.splits prod.splits)
  have "uniq xs = [] \<longleftrightarrow> xs = []" for xs :: "string list" by (cases xs) simp_all
  then show ?thesis
    by (auto simp: r_def evaluateRequestWithApproval_def Let_def base applicable_def)
qed

end
