(* ===== verification/TempGrants.thy ===== *)
theory TempGrants
  imports HumPrelude
begin

text \<open>
  The in-memory temporary grants of the credential execution service
  (\<open>credential-executor/src/grants/temporary-store.ts\<close>): a \<open>Map\<close> from storage keys to grants. The
  clock is read once per operation and is an argument.
\<close>

datatype grantKind = AllowOnce | Allow10m | AllowConversation

record tempGrant =
  tgKind :: grantKind
  tgProposalHash :: string
  tgConversationId :: "string option"
  tgCreatedAt :: millis
  tgExpiresAt :: "millis option"

type_synonym tempStore = "(string, tempGrant) jsMap"

definition DEFAULT_TIMED_DURATION_MS :: millis where
  "DEFAULT_TIMED_DURATION_MS = 10 * 60 * 1000"

datatype tempError = ConversationIdRequired

fun kindName :: "grantKind \<Rightarrow> string" where
  "kindName AllowOnce = ''allow_once''"
| "kindName Allow10m = ''allow_10m''"
| "kindName AllowConversation = ''allow_conversation''"

definition storageKey :: "grantKind \<Rightarrow> string \<Rightarrow> string option \<Rightarrow> tempError + string" where
  "storageKey k h conv =
    (if k = AllowConversation then
       (if \<not> truthy conv then Inl ConversationIdRequired
        else Inr (''conversation:'' @ orDefault conv [] @ '':'' @ h))
     else Inr (kindName k @ '':'' @ h))"

definition tempAdd ::
  "grantKind \<Rightarrow> string \<Rightarrow> string option \<Rightarrow> millis option \<Rightarrow> millis \<Rightarrow> tempStore \<Rightarrow> (tempError + unit) \<times> tempStore" where
  "tempAdd k h conv dur now st =
    (case storageKey k h conv of
       Inl e \<Rightarrow> (Inl e, st)
     | Inr key \<Rightarrow>
        (Inr (), mapSet key
          \<lparr>tgKind = k, tgProposalHash = h,
           tgConversationId = (if truthy conv then conv else None),
           tgCreatedAt = now,
           tgExpiresAt = (case k of
              Allow10m \<Rightarrow> Some (now + orDefault dur DEFAULT_TIMED_DURATION_MS)
            | AllowOnce \<Rightarrow> map_option (\<lambda>d. now + d) dur
            | AllowConversation \<Rightarrow> None)\<rparr> st))"

definition expiredAt :: "tempGrant \<Rightarrow> millis \<Rightarrow> bool" where
  "expiredAt g now = (case tgExpiresAt g of None \<Rightarrow> False | Some t \<Rightarrow> t \<le> now)"

definition tempCheck ::
  "grantKind \<Rightarrow> string \<Rightarrow> string option \<Rightarrow> millis \<Rightarrow> tempStore \<Rightarrow> (tempError + bool) \<times> tempStore" where
  "tempCheck k h conv now st =
    (case storageKey k h conv of
       Inl e \<Rightarrow> (Inl e, st)
     | Inr key \<Rightarrow>
        (case mapGet st key of
           None \<Rightarrow> (Inr False, st)
         | Some g \<Rightarrow>
            (case tgKind g of
               AllowOnce \<Rightarrow> (Inr (\<not> expiredAt g now), mapDelete key st)
             | Allow10m \<Rightarrow> if expiredAt g now then (Inr False, mapDelete key st) else (Inr True, st)
             | AllowConversation \<Rightarrow> (Inr True, st))))"

text \<open>\<open>checkAny\<close>: the two kinds without a conversation cannot throw.\<close>

definition tempCheckAny ::
  "string \<Rightarrow> string option \<Rightarrow> millis \<Rightarrow> tempStore \<Rightarrow> grantKind option \<times> tempStore" where
  "tempCheckAny h conv now st =
    (let (r1, st1) = tempCheck AllowOnce h None now st in
     if r1 = Inr True then (Some AllowOnce, st1)
     else
       let (r2, st2) = tempCheck Allow10m h None now st1 in
       if r2 = Inr True then (Some Allow10m, st2)
       else if truthy conv then
         (let (r3, st3) = tempCheck AllowConversation h conv now st2 in
          if r3 = Inr True then (Some AllowConversation, st3) else (None, st3))
       else (None, st2))"

definition tempRemove ::
  "grantKind \<Rightarrow> string \<Rightarrow> string option \<Rightarrow> tempStore \<Rightarrow> (tempError + bool) \<times> tempStore" where
  "tempRemove k h conv st =
    (case storageKey k h conv of
       Inl e \<Rightarrow> (Inl e, st)
     | Inr key \<Rightarrow> (Inr (mapHas st key), mapDelete key st))"

definition clearConversation :: "string \<Rightarrow> tempStore \<Rightarrow> tempStore" where
  "clearConversation conv st =
    filter (\<lambda>(key, g). \<not> startsWith key (''conversation:'' @ conv @ '':'')) st"

definition tempClear :: "tempStore \<Rightarrow> tempStore" where
  "tempClear st = []"

definition tempSize :: "tempStore \<Rightarrow> nat" where
  "tempSize st = length st"

section \<open>Storage keys\<close>

definition onceKey :: "string \<Rightarrow> string" where "onceKey h = ''allow_once:'' @ h"
definition timedKey :: "string \<Rightarrow> string" where "timedKey h = ''allow_10m:'' @ h"
definition convKey :: "string \<Rightarrow> string \<Rightarrow> string" where
  "convKey c h = ''conversation:'' @ c @ '':'' @ h"

lemma storageKey_simps [simp]:
  "storageKey AllowOnce h c = Inr (onceKey h)"
  "storageKey Allow10m h c = Inr (timedKey h)"
  "storageKey AllowConversation h None = Inl ConversationIdRequired"
  "storageKey AllowConversation h (Some c') =
     (if c' = [] then Inl ConversationIdRequired else Inr (convKey c' h))"
  by (simp_all add: storageKey_def onceKey_def timedKey_def convKey_def)

lemma key_kinds_distinct [simp]:
  "onceKey h \<noteq> timedKey h'" "onceKey h \<noteq> convKey c h'" "timedKey h \<noteq> convKey c h'"
  "timedKey h \<noteq> onceKey h'" "convKey c h \<noteq> onceKey h'" "convKey c h \<noteq> timedKey h'"
  "onceKey h = onceKey h' \<longleftrightarrow> h = h'" "timedKey h = timedKey h' \<longleftrightarrow> h = h'"
  by (simp_all add: onceKey_def timedKey_def convKey_def)

lemma append_sep_inject:
  "x \<notin> set b \<Longrightarrow> x \<notin> set d \<Longrightarrow> a @ x # b = c @ x # d \<longleftrightarrow> a = c \<and> b = d"
  by (auto simp: append_eq_append_conv2 append_eq_Cons_conv Cons_eq_append_conv)

lemma convKey_inject:
  "CHR '':'' \<notin> set h \<Longrightarrow> CHR '':'' \<notin> set h' \<Longrightarrow> convKey c h = convKey c' h' \<longleftrightarrow> c = c' \<and> h = h'"
  by (simp add: convKey_def append_sep_inject)

section \<open>Well-formed stores\<close>

text \<open>Every grant sits under the key of its own kind, so a check meets the kind it asked for.\<close>

definition tempWf :: "tempStore \<Rightarrow> bool" where
  "tempWf st \<longleftrightarrow> (\<forall>key g. mapGet st key = Some g \<longrightarrow>
     storageKey (tgKind g) (tgProposalHash g) (tgConversationId g) = Inr key \<and>
     (tgKind g = Allow10m \<longrightarrow> tgExpiresAt g \<noteq> None))"

lemma tempWf_delete: "tempWf st \<Longrightarrow> tempWf (mapDelete key st)"
  by (simp add: tempWf_def)

lemma tempWf_kind:
  assumes "tempWf st"
  shows "mapGet st (onceKey h) = Some g \<Longrightarrow> tgKind g = AllowOnce \<and> tgProposalHash g = h"
    and "mapGet st (timedKey h) = Some g \<Longrightarrow> tgKind g = Allow10m \<and> tgProposalHash g = h"
    and "mapGet st (convKey c h) = Some g \<Longrightarrow> tgKind g = AllowConversation"
proof -
  have key: "storageKey (tgKind g) (tgProposalHash g) (tgConversationId g) = Inr key"
    if "mapGet st key = Some g" for key
    using assms that by (simp add: tempWf_def)
  show "mapGet st (onceKey h) = Some g \<Longrightarrow> tgKind g = AllowOnce \<and> tgProposalHash g = h"
    and "mapGet st (timedKey h) = Some g \<Longrightarrow> tgKind g = Allow10m \<and> tgProposalHash g = h"
    and "mapGet st (convKey c h) = Some g \<Longrightarrow> tgKind g = AllowConversation"
    by (cases "tgKind g"; cases "tgConversationId g"; drule key; simp split: if_splits)+
qed

lemma tempWf_add: "tempWf st \<Longrightarrow> tempWf (snd (tempAdd k h c d now st))"
  by (cases k; cases c) (auto simp: tempWf_def tempAdd_def)

lemma tempCheck_snd:
  "snd (tempCheck k h c now st) = st \<or> (\<exists>key. snd (tempCheck k h c now st) = mapDelete key st)"
  by (auto simp: tempCheck_def split: sum.splits option.splits grantKind.splits)

lemma tempWf_check: "tempWf st \<Longrightarrow> tempWf (snd (tempCheck k h c now st))"
  using tempCheck_snd [of k h c now st] tempWf_delete [of st] by metis

text \<open>The checks of the three kinds on a well-formed store.\<close>

lemma tempCheck_once:
  "tempWf st \<Longrightarrow> tempCheck AllowOnce h c now st =
    (case mapGet st (onceKey h) of
       None \<Rightarrow> (Inr False, st)
     | Some g \<Rightarrow> (Inr (\<not> expiredAt g now), mapDelete (onceKey h) st))"
  using tempWf_kind(1) [of st h] by (auto simp: tempCheck_def split: option.splits)

lemma tempCheck_timed:
  "tempWf st \<Longrightarrow> tempCheck Allow10m h c now st =
    (case mapGet st (timedKey h) of
       None \<Rightarrow> (Inr False, st)
     | Some g \<Rightarrow> if expiredAt g now then (Inr False, mapDelete (timedKey h) st) else (Inr True, st))"
  using tempWf_kind(2) [of st h] by (auto simp: tempCheck_def split: option.splits)

lemma tempCheck_conv:
  "tempWf st \<Longrightarrow> c \<noteq> [] \<Longrightarrow> tempCheck AllowConversation h (Some c) now st =
    (Inr (mapHas st (convKey c h)), st)"
  using tempWf_kind(3) [of st c h] by (auto simp: tempCheck_def split: option.splits)

text \<open>A grant that is present under a key and has not expired.\<close>

definition live :: "tempStore \<Rightarrow> millis \<Rightarrow> string \<Rightarrow> bool" where
  "live st now key = (case mapGet st key of None \<Rightarrow> False | Some g \<Rightarrow> \<not> expiredAt g now)"

lemma tempCheckAny_eq:
  assumes "tempWf st"
  shows "fst (tempCheckAny h conv now st) =
    (if live st now (onceKey h) then Some AllowOnce
     else if live st now (timedKey h) then Some Allow10m
     else case conv of None \<Rightarrow> None
        | Some c \<Rightarrow> if c \<noteq> [] \<and> mapHas st (convKey c h) then Some AllowConversation else None)"
proof -
  note wf = tempWf_check [OF assms] tempWf_delete [OF assms] tempWf_delete [OF tempWf_delete [OF assms]]
  show ?thesis using assms
    by (cases conv; cases "mapGet st (onceKey h)"; cases "mapGet st (timedKey h)")
      (simp_all add: tempCheckAny_def Let_def tempCheck_once tempCheck_timed tempCheck_conv wf live_def)
qed

lemma tempCheckAny_snd:
  assumes "tempWf st"
  shows "tempWf (snd (tempCheckAny h conv now st))"
    and "mapGet (snd (tempCheckAny h conv now st)) key =
      (if key = onceKey h \<or>
          (key = timedKey h \<and> \<not> live st now (onceKey h) \<and> \<not> live st now (timedKey h))
       then None else mapGet st key)"
proof -
  note wf = tempWf_check [OF assms] tempWf_delete [OF assms] tempWf_delete [OF tempWf_delete [OF assms]]
  show "tempWf (snd (tempCheckAny h conv now st))" using assms
    by (cases conv; cases "mapGet st (onceKey h)"; cases "mapGet st (timedKey h)")
      (simp_all add: tempCheckAny_def Let_def tempCheck_once tempCheck_timed tempCheck_conv wf)
  show "mapGet (snd (tempCheckAny h conv now st)) key =
      (if key = onceKey h \<or>
          (key = timedKey h \<and> \<not> live st now (onceKey h) \<and> \<not> live st now (timedKey h))
       then None else mapGet st key)" using assms
    by (cases conv; cases "mapGet st (onceKey h)"; cases "mapGet st (timedKey h)")
      (auto simp: tempCheckAny_def Let_def tempCheck_once tempCheck_timed tempCheck_conv wf live_def)
qed

section \<open>The store as a machine\<close>

datatype tempEvent =
    TAdd grantKind string "string option" "millis option" millis
  | TCheck grantKind string "string option" millis
  | TCheckAny string "string option" millis
  | TRemove grantKind string "string option"
  | TClearConversation string
  | TClear

fun tempStep :: "tempStore \<Rightarrow> tempEvent \<Rightarrow> tempStore" where
  "tempStep st (TAdd k h c d now) = snd (tempAdd k h c d now st)"
| "tempStep st (TCheck k h c now) = snd (tempCheck k h c now st)"
| "tempStep st (TCheckAny h c now) = snd (tempCheckAny h c now st)"
| "tempStep st (TRemove k h c) = snd (tempRemove k h c st)"
| "tempStep st (TClearConversation c) = clearConversation c st"
| "tempStep st TClear = tempClear st"

text \<open>The single uses of a proposal hash that an event hands out, and the grants it records.\<close>

fun onceUsed :: "string \<Rightarrow> tempStore \<Rightarrow> tempEvent \<Rightarrow> nat" where
  "onceUsed h st (TCheck AllowOnce h' c now) =
     (if h' = h \<and> fst (tempCheck AllowOnce h' c now st) = Inr True then 1 else 0)"
| "onceUsed h st (TCheckAny h' c now) =
     (if h' = h \<and> fst (tempCheckAny h' c now st) = Some AllowOnce then 1 else 0)"
| "onceUsed h st _ = 0"

fun onceAdded :: "string \<Rightarrow> tempStore \<Rightarrow> tempEvent \<Rightarrow> nat" where
  "onceAdded h st (TAdd AllowOnce h' c d now) = (if h' = h then 1 else 0)"
| "onceAdded h st _ = 0"

definition onceHeld :: "string \<Rightarrow> tempStore \<Rightarrow> nat" where
  "onceHeld h st = (if mapHas st (onceKey h) then 1 else 0)"

lemma mapGet_clearConversation:
  "mapGet (clearConversation c st) key =
    (if startsWith key (''conversation:'' @ c @ '':'') then None else mapGet st key)"
  by (simp add: clearConversation_def mapGet_filter_keys)

lemma tempStep_wf: "tempWf st \<Longrightarrow> tempWf (tempStep st e)"
  by (cases e)
     (auto simp: tempWf_add tempWf_check tempCheckAny_snd tempRemove_def tempWf_delete tempClear_def
        mapGet_clearConversation tempWf_def [of "clearConversation _ _"] tempWf_def [of "[]"]
        split: sum.splits dest: tempWf_def [THEN iffD1])

lemma once_balance:
  assumes "tempWf st"
  shows "onceUsed h st e + onceHeld h (tempStep st e) \<le> onceHeld h st + onceAdded h st e"
proof (cases e)
  case (TAdd k h' c d now)
  then show ?thesis by (cases k; cases c) (auto simp: onceHeld_def tempAdd_def)
next
  case (TCheck k h' c now)
  then show ?thesis using assms tempCheck_snd [of k h' c now st]
    by (cases k) (auto simp: onceHeld_def tempCheck_once split: option.splits if_splits)
next
  case (TCheckAny h' c now)
  then show ?thesis using assms
    by (auto simp: onceHeld_def tempCheckAny_eq tempCheckAny_snd live_def split: option.splits)
next
  case (TRemove k h' c)
  then show ?thesis by (auto simp: onceHeld_def tempRemove_def split: sum.splits)
qed (auto simp: onceHeld_def mapGet_clearConversation tempClear_def)

interpretation onceMachine: credit_machine tempStep tempWf "onceHeld h" "onceUsed h" "onceAdded h"
  for h
  by unfold_locales (simp_all add: tempStep_wf once_balance)

lemma tempWf_empty [simp]: "tempWf []"
  by (simp add: tempWf_def)

section \<open>Properties\<close>

text \<open>A single-use grant is single-use. Over every history of the store, from an empty store, the
  checks that answered yes by consuming an \<open>allow_once\<close> grant of a proposal are at most as many as
  the \<open>allow_once\<close> grants recorded for that proposal.\<close>

theorem allow_once_is_single_use:
  "tally tempStep (onceUsed h) [] es \<le> tally tempStep (onceAdded h) [] es"
  by (rule onceMachine.spend_le_gain) (simp_all add: onceHeld_def)

text \<open>The answer of \<open>checkAny\<close> in full: the single-use grant wins over the timed grant and the
  timed grant over the conversation grant; expired grants never answer; a conversation grant answers
  only with a non-empty conversation id.\<close>

theorem checkAny_priority:
  "fst (tempCheckAny h conv now (runEvents tempStep [] es)) =
    (let st = runEvents tempStep [] es in
     if live st now (onceKey h) then Some AllowOnce
     else if live st now (timedKey h) then Some Allow10m
     else case conv of None \<Rightarrow> None
        | Some c \<Rightarrow> if c \<noteq> [] \<and> mapHas st (convKey c h) then Some AllowConversation else None)"
proof -
  have "tempWf (runEvents tempStep [] es)" by (rule onceMachine.inv_run) simp
  from tempCheckAny_eq [OF this] show ?thesis by (simp add: Let_def)
qed

text \<open>C7: what ending a conversation removes. After \<open>clearConversation c\<close> a conversation grant for the
  conversation \<open>c'\<close> and the proposal \<open>h\<close> survives exactly when the text \<open>c':h\<close> does not start with
  \<open>c:\<close>; single-use and timed grants all survive. So the grants of \<open>c\<close> itself are always removed, and
  with conversation ids free of colons nothing else is, but a conversation whose id extends \<open>c:\<close>
  loses its grants too.\<close>

theorem clearConversation_exact:
  "mapGet (clearConversation c st) (convKey c' h) =
     (if startsWith (c' @ '':'' @ h) (c @ '':'') then None else mapGet st (convKey c' h)) \<and>
   mapGet (clearConversation c st) (convKey c h) = None \<and>
   mapGet (clearConversation c st) (onceKey h) = mapGet st (onceKey h) \<and>
   mapGet (clearConversation c st) (timedKey h) = mapGet st (timedKey h)"
  by (simp add: mapGet_clearConversation convKey_def onceKey_def timedKey_def startsWith_def)

end
