(* ===== verification/Proposals.thy ===== *)
theory Proposals
  imports HumPrelude "HOL-Library.Multiset"
begin

text \<open>
  Grant proposals, their canonical JSON, hash and rendering
  (\<open>packages/service-contracts/src/grants.ts\<close> and \<open>rendering.ts\<close>). The digest of \<open>node:crypto\<close> is a
  parameter \<open>sha256\<close>. A JSON value is the datatype \<open>json\<close>, an object the list of its own fields in
  the order in which they are enumerated. Numbers are integers that JavaScript prints without an exponent (a proposal
  holds none; the tool inputs of \<open>RiskCache\<close> share the type).
\<close>

section \<open>Proposals\<close>

record httpGrantProposal =
  hpCredentialHandle :: string
  hpMethod :: string
  hpUrl :: string
  hpPurpose :: string
  hpAllowedUrlPatterns :: "string list option"

record commandGrantProposal =
  cpCredentialHandle :: string
  cpCommand :: string
  cpPurpose :: string
  cpAllowedCommandPatterns :: "string list option"

datatype grantProposal = HttpProposal httpGrantProposal | CommandProposal commandGrantProposal

section \<open>Canonical JSON\<close>

datatype json =
    JNull
  | JBool bool
  | JInt int
  | JStr string
  | JArr "json list"
  | JObj "(string \<times> json) list"

text \<open>\<open>JSON.stringify\<close> escapes the quote, the backslash and the control characters.\<close>

definition hexDigit :: "nat \<Rightarrow> char" where
  "hexDigit n = (if n < 10 then char_of (48 + n) else char_of (87 + n))"

definition escapeChar :: "char \<Rightarrow> string" where
  "escapeChar c =
    (if c = CHR 0x22 then [CHR 0x5C, CHR 0x22]
     else if c = CHR 0x5C then [CHR 0x5C, CHR 0x5C]
     else if c = CHR 0x08 then [CHR 0x5C, CHR ''b'']
     else if c = CHR 0x09 then [CHR 0x5C, CHR ''t'']
     else if c = CHR 0x0A then [CHR 0x5C, CHR ''n'']
     else if c = CHR 0x0C then [CHR 0x5C, CHR ''f'']
     else if c = CHR 0x0D then [CHR 0x5C, CHR ''r'']
     else
       let n = (of_char c :: nat) in
       if n < 32 then CHR 0x5C # ''u00'' @ [hexDigit (n div 16), hexDigit (n mod 16)] else [c])"

definition quoteStr :: "string \<Rightarrow> string" where
  "quoteStr s = CHR 0x22 # concat (map escapeChar s) @ [CHR 0x22]"

definition showInt :: "int \<Rightarrow> string" where
  "showInt i = (if i < 0 then CHR ''-'' # showNat (nat (- i)) else showNat (nat i))"

fun stringify :: "json \<Rightarrow> string" where
  "stringify JNull = ''null''"
| "stringify (JBool b) = (if b then ''true'' else ''false'')"
| "stringify (JInt i) = showInt i"
| "stringify (JStr s) = quoteStr s"
| "stringify (JArr xs) = ''['' @ join '','' (map stringify xs) @ '']''"
| "stringify (JObj kvs) = ''{'' @ join '','' (map (\<lambda>kv. quoteStr (fst kv) @ '':'' @ stringify (snd kv)) kvs) @ ''}''"

text \<open>An object enumerates its keys that are array indices first, in numeric order, and then the others in the
  order in which they were assigned. The assignment \<open>sorted[key] = \<dots>\<close> to the key \<open>__proto__\<close> sets the
  prototype and makes no field.\<close>

definition decimalDigit :: "char \<Rightarrow> bool" where
  "decimalDigit c = (48 \<le> (of_char c :: nat) \<and> (of_char c :: nat) \<le> 57)"

definition decimal :: "string \<Rightarrow> nat" where
  "decimal k = foldl (\<lambda>n c. 10 * n + (of_char c - 48)) 0 k"

definition isIndexKey :: "string \<Rightarrow> bool" where
  "isIndexKey k = (k \<noteq> [] \<and> list_all decimalDigit k \<and> (hd k \<noteq> CHR ''0'' \<or> tl k = []) \<and> decimal k < 4294967295)"

definition assignFields :: "(string \<times> json) list \<Rightarrow> (string \<times> json) list" where
  "assignFields kvs =
    (let own = filter (\<lambda>kv. fst kv \<noteq> ''__proto__'') kvs in
     sort_key (\<lambda>kv. decimal (fst kv)) (filter (\<lambda>kv. isIndexKey (fst kv)) own) @
     filter (\<lambda>kv. \<not> isIndexKey (fst kv)) own)"

fun sortKeysDeep :: "json \<Rightarrow> json" where
  "sortKeysDeep JNull = JNull"
| "sortKeysDeep (JBool b) = JBool b"
| "sortKeysDeep (JInt i) = JInt i"
| "sortKeysDeep (JStr s) = JStr s"
| "sortKeysDeep (JArr xs) = JArr (map sortKeysDeep xs)"
| "sortKeysDeep (JObj kvs) = JObj (assignFields (sort_key fst (map (\<lambda>kv. (fst kv, sortKeysDeep (snd kv))) kvs)))"

definition canonicalJsonSerialize :: "json \<Rightarrow> string" where
  "canonicalJsonSerialize v = stringify (sortKeysDeep v)"

text \<open>The object a proposal is: an absent optional field is omitted.\<close>

definition patternsField :: "string \<Rightarrow> string list option \<Rightarrow> (string \<times> json) list" where
  "patternsField k ps = (case ps of None \<Rightarrow> [] | Some xs \<Rightarrow> [(k, JArr (map JStr xs))])"

fun proposalJson :: "grantProposal \<Rightarrow> json" where
  "proposalJson (HttpProposal p) = JObj
    ([(''type'', JStr ''http''), (''credentialHandle'', JStr (hpCredentialHandle p)),
      (''method'', JStr (hpMethod p)), (''url'', JStr (hpUrl p)), (''purpose'', JStr (hpPurpose p))] @
     patternsField ''allowedUrlPatterns'' (hpAllowedUrlPatterns p))"
| "proposalJson (CommandProposal p) = JObj
    ([(''type'', JStr ''command''), (''credentialHandle'', JStr (cpCredentialHandle p)),
      (''command'', JStr (cpCommand p)), (''purpose'', JStr (cpPurpose p))] @
     patternsField ''allowedCommandPatterns'' (cpAllowedCommandPatterns p))"

definition hashProposal :: "(string \<Rightarrow> string) \<Rightarrow> grantProposal \<Rightarrow> string" where
  "hashProposal sha256 p = sha256 (canonicalJsonSerialize (proposalJson p))"

section \<open>Rendering\<close>

definition renderPatterns :: "string \<Rightarrow> string list option \<Rightarrow> string list" where
  "renderPatterns title ps = (case ps of None \<Rightarrow> []
     | Some xs \<Rightarrow> if 0 < length xs then title # map (\<lambda>x. ''    - '' @ x) xs else [])"

definition renderHttpProposal :: "httpGrantProposal \<Rightarrow> string" where
  "renderHttpProposal p = join [CHR 0x0A]
    ([''Authenticated HTTP Request'', ''  Method: '' @ hpMethod p, ''  URL: '' @ hpUrl p,
      ''  Credential: '' @ hpCredentialHandle p, ''  Purpose: '' @ hpPurpose p] @
     renderPatterns ''  Allowed URL patterns:'' (hpAllowedUrlPatterns p))"

definition renderCommandProposal :: "commandGrantProposal \<Rightarrow> string" where
  "renderCommandProposal p = join [CHR 0x0A]
    ([''Authenticated Command Execution'', ''  Command: '' @ cpCommand p,
      ''  Credential: '' @ cpCredentialHandle p, ''  Purpose: '' @ cpPurpose p] @
     renderPatterns ''  Allowed command patterns:'' (cpAllowedCommandPatterns p))"

fun renderProposal :: "grantProposal \<Rightarrow> string" where
  "renderProposal (HttpProposal p) = renderHttpProposal p"
| "renderProposal (CommandProposal p) = renderCommandProposal p"

section \<open>The serialisation is prefix-free\<close>

text \<open>Reading one escaped character back.\<close>

definition unhex :: "char \<Rightarrow> nat" where
  "unhex c = (let n = (of_char c :: nat) in if n < 58 then n - 48 else n - 87)"

lemma unhex_hexDigit: "n < 16 \<Longrightarrow> unhex (hexDigit n) = n"
  by (simp add: unhex_def hexDigit_def of_char_of take_bit_eq_mod Let_def)

definition unescape1 :: "string \<Rightarrow> char \<times> string" where
  "unescape1 s =
    (if hd s \<noteq> CHR 0x5C then (hd s, tl s)
     else let e = s ! 1 in
       if e = CHR ''b'' then (CHR 0x08, drop 2 s) else if e = CHR ''t'' then (CHR 0x09, drop 2 s)
       else if e = CHR ''n'' then (CHR 0x0A, drop 2 s) else if e = CHR ''f'' then (CHR 0x0C, drop 2 s)
       else if e = CHR ''r'' then (CHR 0x0D, drop 2 s)
       else if e = CHR ''u'' then (char_of (16 * unhex (s ! 4) + unhex (s ! 5)), drop 6 s)
       else (e, drop 2 s))"

lemma unescape1_escape: "unescape1 (escapeChar c @ u) = (c, u)"
proof -
  have "char_of (16 * unhex (hexDigit (n div 16)) + unhex (hexDigit (n mod 16))) = c"
    if "n = of_char c" "n < 32" for n :: nat
  proof -
    have "n div 16 < 16" "n mod 16 < 16" using that(2) by simp_all
    then have "16 * unhex (hexDigit (n div 16)) + unhex (hexDigit (n mod 16)) = n"
      by (simp add: unhex_hexDigit)
    then show ?thesis using that(1) by simp
  qed
  then show ?thesis
    by (simp add: unescape1_def escapeChar_def Let_def)
qed

lemma escapeChar_unique:
  assumes "escapeChar c @ u = escapeChar d @ v"
  shows "c = d \<and> u = v"
proof -
  have "(c, u) = unescape1 (escapeChar c @ u)" by (simp only: unescape1_escape)
  also have "\<dots> = unescape1 (escapeChar d @ v)" by (simp only: assms)
  also have "\<dots> = (d, v)" by (simp only: unescape1_escape)
  finally show ?thesis by simp
qed

lemma escapeChar_no_quote: "escapeChar c @ u \<noteq> CHR 0x22 # v"
  by (simp add: escapeChar_def Let_def)

lemma body_unique:
  "concat (map escapeChar a) @ CHR 0x22 # x = concat (map escapeChar b) @ CHR 0x22 # y \<Longrightarrow> a = b \<and> x = y"
proof (induction a arbitrary: b)
  case eq: Nil
  show ?case
  proof (cases b)
    case (Cons d b')
    have "escapeChar d @ (concat (map escapeChar b') @ CHR 0x22 # y) \<noteq> CHR 0x22 # x"
      by (rule escapeChar_no_quote)
    then show ?thesis using eq Cons by (metis append_assoc append_Nil concat.simps list.simps(8,9))
  qed (use eq in simp)
next
  case (Cons c a)
  show ?case
  proof (cases b)
    case Nil
    then show ?thesis using Cons.prems escapeChar_no_quote [of c] by simp
  next
    case (Cons d b')
    then show ?thesis
      using Cons.prems escapeChar_unique [of c _ d] Cons.IH [of b'] by fastforce
  qed
qed

lemma quoteStr_unique: "quoteStr a @ x = quoteStr b @ y \<Longrightarrow> a = b \<and> x = y"
  using body_unique [of a x b y] by (simp add: quoteStr_def)

lemma join_Cons: "join sep (x # xs) = x @ concat (map (\<lambda>y. sep @ y) xs)"
  by (induction xs arbitrary: x) simp_all

text \<open>What may stand after a value: nothing, or a character that no number contains.\<close>

definition ends :: "string \<Rightarrow> bool" where
  "ends x = (x = [] \<or> hd x \<in> {CHR '','', CHR '']'', CHR ''}''})"

lemma ends_simps [simp]: "ends []" "ends (CHR '','' # x)" "ends (CHR '']'' # x)" "ends (CHR ''}'' # x)"
  by (simp_all add: ends_def)

lemma ends_items: "ends (cl # x) \<Longrightarrow> ends (concat (map (\<lambda>a. CHR '','' # S a) xs) @ cl # x)"
  by (cases xs) (simp_all add: ends_def)

definition numChar :: "char \<Rightarrow> bool" where
  "numChar c = (c = CHR ''-'' \<or> decimalDigit c)"

lemma showNat_decimal: "c \<in> set (showNat n) \<Longrightarrow> decimalDigit c"
proof -
  assume "c \<in> set (showNat n)"
  then obtain k :: nat where "c = char_of k" "48 \<le> k" "k \<le> 57" using showNat_digits [of n] by auto
  then show ?thesis by (simp add: decimalDigit_def of_char_of)
qed

lemma digits_not_minus: "CHR ''-'' # t \<noteq> showNat n"
proof
  assume "CHR ''-'' # t = showNat n"
  then have "CHR ''-'' \<in> set (showNat n)" by (metis list.set_intros(1))
  from showNat_decimal [OF this] show False by (simp add: decimalDigit_def)
qed

lemma showInt_chars: "c \<in> set (showInt i) \<Longrightarrow> numChar c"
  using showNat_decimal by (auto simp: showInt_def numChar_def split: if_splits)

lemma showInt_not_Nil [simp]: "showInt i \<noteq> []"
  using showNat_not_Nil by (auto simp: showInt_def)

lemma showInt_inj: "showInt i = showInt j \<Longrightarrow> i = j"
proof -
  assume eq: "showInt i = showInt j"
  consider "i < 0" "j < 0" | "i < 0" "\<not> j < 0" | "\<not> i < 0" "j < 0" | "\<not> i < 0" "\<not> j < 0" by blast
  then show ?thesis
  proof cases
    case 1
    then have "showNat (nat (- i)) = showNat (nat (- j))" using eq by (simp add: showInt_def)
    from showNat_inj [OF this] show ?thesis using 1 by simp
  next
    case 2
    then show ?thesis using eq digits_not_minus [of "showNat (nat (- i))" "nat j"] by (simp add: showInt_def)
  next
    case 3
    then show ?thesis using eq digits_not_minus [of "showNat (nat (- j))" "nat i"] by (simp add: showInt_def)
  next
    case 4
    then have "showNat (nat i) = showNat (nat j)" using eq by (simp add: showInt_def)
    from showNat_inj [OF this] show ?thesis using 4 by simp
  qed
qed

lemma ends_not_num: "ends x \<Longrightarrow> x \<noteq> [] \<Longrightarrow> \<not> numChar (hd x)"
  by (auto simp: ends_def numChar_def decimalDigit_def)

lemma takeWhile_number: "ends x \<Longrightarrow> takeWhile numChar (showInt i @ x) = showInt i"
proof -
  assume x: "ends x"
  have "takeWhile numChar x = []" using ends_not_num [OF x] by (cases x) auto
  then show ?thesis using showInt_chars by (simp add: takeWhile_append2)
qed

lemma showInt_unique:
  assumes "showInt i @ x = showInt j @ y" "ends x" "ends y"
  shows "i = j \<and> x = y"
proof -
  have eq: "showInt i = showInt j"
    using takeWhile_number [OF assms(2), of i] takeWhile_number [OF assms(3), of j] assms(1) by metis
  then have "x = y" using assms(1) by (metis append_eq_append_conv)
  then show ?thesis using showInt_inj [OF eq] by blast
qed

text \<open>Lists of prefix-free items, separated by commas and closed by a bracket, are prefix-free.\<close>

lemma items_unique:
  assumes "\<And>a b x y. a \<in> set xs \<Longrightarrow> S a @ x = S b @ y \<Longrightarrow> ends x \<Longrightarrow> ends y \<Longrightarrow> a = b \<and> x = y"
    "cl \<noteq> CHR '',''" "ends (cl # x)" "ends (cl # y)"
    "concat (map (\<lambda>a. CHR '','' # S a) xs) @ cl # x = concat (map (\<lambda>a. CHR '','' # S a) ys) @ cl # y"
  shows "xs = ys \<and> x = y"
  using assms
proof (induction xs arbitrary: ys)
  case Nil
  then show ?case by (cases ys) auto
next
  case (Cons a xs)
  then show ?case
  proof (cases ys)
    case Nil
    then show ?thesis using Cons.prems by simp
  next
    case (Cons b ys')
    then have eq: "S a @ concat (map (\<lambda>a. CHR '','' # S a) xs) @ cl # x =
        S b @ concat (map (\<lambda>a. CHR '','' # S a) ys') @ cl # y"
      using Cons.prems(5) by simp
    have "a = b \<and> concat (map (\<lambda>a. CHR '','' # S a) xs) @ cl # x =
        concat (map (\<lambda>a. CHR '','' # S a) ys') @ cl # y"
      by (rule Cons.prems(1) [OF _ eq]) (use Cons.prems(3,4) in \<open>simp_all add: ends_items\<close>)
    then have ab: "a = b" "concat (map (\<lambda>a. CHR '','' # S a) xs) @ cl # x =
        concat (map (\<lambda>a. CHR '','' # S a) ys') @ cl # y" by blast+
    then show ?thesis using Cons.IH [OF _ Cons.prems(2-4) ab(2)] Cons.prems(1) Cons by auto
  qed
qed

lemma bracketed_unique:
  assumes pf: "\<And>a b x y. a \<in> set xs \<Longrightarrow> S a @ x = S b @ y \<Longrightarrow> ends x \<Longrightarrow> ends y \<Longrightarrow> a = b \<and> x = y"
    and cl: "cl \<noteq> CHR '',''" "ends (cl # x)" "ends (cl # y)" and ne: "\<And>a u v. S a @ u \<noteq> cl # v"
    and eq: "join '','' (map S xs) @ cl # x = join '','' (map S ys) @ cl # y"
  shows "xs = ys \<and> x = y"
proof (cases xs)
  case Nil
  then show ?thesis using eq ne by (cases ys) (auto simp: join_Cons, metis)
next
  case (Cons a as)
  show ?thesis
  proof (cases ys)
    case Nil
    then show ?thesis using eq Cons ne [of a] by (simp add: join_Cons)
  next
    fix b bs assume ys: "ys = b # bs"
    have e: "S a @ concat (map (\<lambda>a. CHR '','' # S a) as) @ cl # x =
        S b @ concat (map (\<lambda>a. CHR '','' # S a) bs) @ cl # y"
      using eq Cons ys by (simp add: join_Cons comp_def)
    have "a = b \<and> concat (map (\<lambda>a. CHR '','' # S a) as) @ cl # x =
        concat (map (\<lambda>a. CHR '','' # S a) bs) @ cl # y"
      by (rule pf [OF _ e]) (use Cons cl in \<open>simp_all add: ends_items\<close>)
    then have "a = b" "concat (map (\<lambda>a. CHR '','' # S a) as) @ cl # x =
        concat (map (\<lambda>a. CHR '','' # S a) bs) @ cl # y" by blast+
    moreover have "as = bs \<and> x = y"
      by (rule items_unique [OF _ cl calculation(2)]) (use pf Cons in auto)
    ultimately show ?thesis using Cons ys by simp
  qed
qed

text \<open>The first character of a serialisation tells its constructor.\<close>

lemma stringify_start:
  "\<exists>c t. stringify v = c # t \<and> (case v of JNull \<Rightarrow> c = CHR ''n'' | JBool b \<Rightarrow> c = (if b then CHR ''t'' else CHR ''f'')
     | JInt i \<Rightarrow> numChar c | JStr s \<Rightarrow> c = CHR 0x22 | JArr xs \<Rightarrow> c = CHR ''['' | JObj kvs \<Rightarrow> c = CHR ''{'')"
proof (cases v)
  case (JInt i)
  then show ?thesis using showInt_chars [of "hd (showInt i)" i] by (cases "showInt i") auto
qed (auto simp: quoteStr_def)

lemma not_numChar [simp]:
  "\<not> numChar CHR ''n''" "\<not> numChar CHR ''t''" "\<not> numChar CHR ''f''" "\<not> numChar CHR 0x22" "\<not> numChar CHR ''[''"
  "\<not> numChar CHR ''{''" "\<not> numChar CHR '']''" "\<not> numChar CHR ''}''"
  by (simp_all add: numChar_def decimalDigit_def)

lemma stringify_not_close: "stringify v @ u \<noteq> CHR '']'' # w"
proof -
  obtain c t where c: "stringify v = c # t" and k: "case v of JNull \<Rightarrow> c = CHR ''n'' | JBool b \<Rightarrow> c = (if b then CHR ''t'' else CHR ''f'')
     | JInt i \<Rightarrow> numChar c | JStr s \<Rightarrow> c = CHR 0x22 | JArr xs \<Rightarrow> c = CHR ''['' | JObj kvs \<Rightarrow> c = CHR ''{''"
    using stringify_start [of v] by blast
  have "c \<noteq> CHR '']''" using k by (cases v) (auto split: if_splits)
  then show ?thesis using c by simp
qed

lemma startE:
  assumes "stringify a @ x = stringify b @ y"
  shows "a = JNull \<Longrightarrow> b = JNull" "a = JBool c \<Longrightarrow> b = JBool c" "a = JInt i \<Longrightarrow> \<exists>j. b = JInt j"
    "a = JStr s \<Longrightarrow> \<exists>s'. b = JStr s'" "a = JArr xs \<Longrightarrow> \<exists>ys. b = JArr ys" "a = JObj kvs \<Longrightarrow> \<exists>ks. b = JObj ks"
proof -
  obtain d t u where d: "stringify a = d # t" "stringify b = d # u"
    using stringify_start [of a] stringify_start [of b] assms by auto
  note starts = stringify_start [of a, unfolded d(1)] stringify_start [of b, unfolded d(2)]
  show "a = JNull \<Longrightarrow> b = JNull" using starts by (cases b) (auto split: if_splits)
  show "a = JBool c \<Longrightarrow> b = JBool c" using starts by (cases b; cases c) (auto split: if_splits)
  show "a = JInt i \<Longrightarrow> \<exists>j. b = JInt j" using starts by (cases b) (auto split: if_splits)
  show "a = JStr s \<Longrightarrow> \<exists>s'. b = JStr s'" using starts by (cases b) (auto split: if_splits)
  show "a = JArr xs \<Longrightarrow> \<exists>ys. b = JArr ys" using starts by (cases b) (auto split: if_splits)
  show "a = JObj kvs \<Longrightarrow> \<exists>ks. b = JObj ks" using starts by (cases b) (auto split: if_splits)
qed

lemma stringify_unique: "stringify a @ x = stringify b @ y \<Longrightarrow> ends x \<Longrightarrow> ends y \<Longrightarrow> a = b \<and> x = y"
proof (induction a arbitrary: b x y)
  case JNull
  then show ?case using startE(1) [OF JNull(1)] by auto
next
  case (JBool c)
  then show ?case using startE(2) [OF JBool(1)] by auto
next
  case (JInt i)
  then obtain j where b: "b = JInt j" using startE(3) by blast
  then show ?case using JInt showInt_unique [of i x j y] by simp
next
  case (JStr s)
  then obtain s' where b: "b = JStr s'" using startE(4) by blast
  have "quoteStr s @ x = quoteStr s' @ y" using JStr.prems unfolding b by simp
  from quoteStr_unique [OF this] show ?case using b by simp
next
  case (JArr xs)
  then obtain ys where b: "b = JArr ys" using startE(5) by blast
  have eq: "join '','' (map stringify xs) @ CHR '']'' # x = join '','' (map stringify ys) @ CHR '']'' # y"
    using JArr.prems unfolding b by simp
  have "xs = ys \<and> x = y"
  proof (rule bracketed_unique [of xs stringify "CHR '']''" x y ys])
    show "\<And>a b x y. a \<in> set xs \<Longrightarrow> stringify a @ x = stringify b @ y \<Longrightarrow> ends x \<Longrightarrow> ends y \<Longrightarrow> a = b \<and> x = y"
      by (rule JArr.IH)
    show "\<And>a u v. stringify a @ u \<noteq> CHR '']'' # v" by (rule stringify_not_close)
  qed (use eq in simp_all)
  then show ?case using b by simp
next
  case (JObj kvs)
  then obtain ks where b: "b = JObj ks" using startE(6) by blast
  let ?S = "\<lambda>kv. quoteStr (fst kv) @ '':'' @ stringify (snd kv)"
  have eq: "join '','' (map ?S kvs) @ CHR ''}'' # x = join '','' (map ?S ks) @ CHR ''}'' # y"
    using JObj.prems unfolding b by simp
  have "kvs = ks \<and> x = y"
  proof (rule bracketed_unique [of kvs ?S "CHR ''}''", OF _ _ _ _ _ eq])
    fix p q :: "string \<times> json" and u v
    assume p: "p \<in> set kvs" "?S p @ u = ?S q @ v" "ends u" "ends v"
    then have f: "fst p = fst q" "stringify (snd p) @ u = stringify (snd q) @ v"
      using quoteStr_unique [of "fst p" "'':'' @ stringify (snd p) @ u" "fst q"] by auto
    have "snd p \<in> Basic_BNFs.snds p" by (cases p) simp
    then show "p = q \<and> u = v" using JObj.IH [OF p(1) _ f(2) p(3,4)] f(1) by (simp add: prod_eq_iff)
  qed (simp_all add: quoteStr_def)
  then show ?case using b by simp
qed

lemma stringify_inj: "stringify a = stringify b \<Longrightarrow> a = b"
  using stringify_unique [of a "[]" b "[]"] by simp

section \<open>The same value\<close>

text \<open>Two values are the same for a reader of JSON: arrays item by item, objects key by key, in whatever order
  the keys stand. The key \<open>__proto__\<close> is not compared.\<close>

inductive sameJson :: "json \<Rightarrow> json \<Rightarrow> bool" where
  same_null: "sameJson JNull JNull"
| same_bool: "sameJson (JBool b) (JBool b)"
| same_int: "sameJson (JInt i) (JInt i)"
| same_str: "sameJson (JStr s) (JStr s)"
| same_arr: "list_all2 sameJson xs ys \<Longrightarrow> sameJson (JArr xs) (JArr ys)"
| same_obj: "\<forall>k. k \<noteq> ''__proto__'' \<longrightarrow> rel_option sameJson (map_of kvs k) (map_of ks k) \<Longrightarrow>
    sameJson (JObj kvs) (JObj ks)"
  monos list_all2_mono option.rel_mono

inductive_simps sameJson_null: "sameJson JNull w"
inductive_simps sameJson_bool: "sameJson (JBool b) w"
inductive_simps sameJson_int: "sameJson (JInt i) w"
inductive_simps sameJson_str: "sameJson (JStr s) w"
inductive_simps sameJson_arr: "sameJson (JArr xs) w"
inductive_simps sameJson_obj: "sameJson (JObj kvs) w"

lemmas sameJson_simps = sameJson_null sameJson_bool sameJson_int sameJson_str sameJson_arr sameJson_obj

text \<open>No object holds two fields of the same key.\<close>

fun distinctKeys :: "json \<Rightarrow> bool" where
  "distinctKeys (JArr xs) = list_all distinctKeys xs"
| "distinctKeys (JObj kvs) = (distinct (map fst kvs) \<and> list_all (\<lambda>kv. distinctKeys (snd kv)) kvs)"
| "distinctKeys _ = True"

text \<open>The fields of a sorted object are those of the object.\<close>

lemma set_assignFields: "set (assignFields kvs) = {kv \<in> set kvs. fst kv \<noteq> ''__proto__''}"
  by (auto simp: assignFields_def Let_def)

lemma sort_fields_eq:
  assumes "distinct (map fst xs)" "distinct (map fst ys)" "set xs = set ys"
  shows "sort_key fst xs = sort_key (fst :: string \<times> 'a \<Rightarrow> string) ys"
proof (rule map_sorted_distinct_set_unique [where f = fst])
  have "inj_on fst (set ys)" using assms(2) by (simp add: distinct_map)
  then show "inj_on fst (set (sort_key fst xs) \<union> set (sort_key fst ys))" using assms(3) by simp
  have d: "distinct (map fst (sort_key fst zs))" if "distinct (map fst zs)" for zs :: "(string \<times> 'a) list"
    using that by (simp add: distinct_map)
  show "distinct (map fst (sort_key fst xs))" "distinct (map fst (sort_key fst ys))" using d assms(1,2) by blast+
qed (use assms(3) in simp_all)

lemma assignFields_own: "assignFields (filter (\<lambda>kv. fst kv \<noteq> ''__proto__'') kvs) = assignFields kvs"
  by (simp add: assignFields_def)

lemma assign_sorted_eq:
  assumes "distinct (map fst xs)" "distinct (map fst ys)"
  shows "assignFields (sort_key fst xs) = assignFields (sort_key fst ys) \<longleftrightarrow>
    (\<forall>k. k \<noteq> ''__proto__'' \<longrightarrow> map_of xs k = map_of ys k)"
proof -
  let ?own = "filter (\<lambda>kv. fst kv \<noteq> ''__proto__'')"
  have m: "map_of (?own zs) k = (if k = ''__proto__'' then None else map_of zs k)" for zs :: "(string \<times> json) list" and k
    by (induction zs) auto
  have d: "distinct (map fst (?own xs))" "distinct (map fst (?own ys))"
    using assms by (simp_all add: distinct_map_filter)
  have "(\<forall>k. k \<noteq> ''__proto__'' \<longrightarrow> map_of xs k = map_of ys k) \<longleftrightarrow> map_of (?own xs) = map_of (?own ys)"
    by (auto simp: fun_eq_iff m)
  also have "\<dots> \<longleftrightarrow> set (?own xs) = set (?own ys)" using d by (rule map_of_inject_set)
  also have "\<dots> \<longleftrightarrow> assignFields (sort_key fst xs) = assignFields (sort_key fst ys)"
  proof
    assume "set (?own xs) = set (?own ys)"
    with d have "sort_key fst (?own xs) = sort_key fst (?own ys)" by (rule sort_fields_eq)
    then have "?own (sort_key fst xs) = ?own (sort_key fst ys)" by (simp add: filter_sort)
    then show "assignFields (sort_key fst xs) = assignFields (sort_key fst ys)" by (metis assignFields_own)
  next
    assume "assignFields (sort_key fst xs) = assignFields (sort_key fst ys)"
    from arg_cong [OF this, of set] show "set (?own xs) = set (?own ys)" by (simp add: set_assignFields)
  qed
  finally show ?thesis by blast
qed

lemma sortKeysDeep_leaf:
  "JNull = sortKeysDeep w \<longleftrightarrow> w = JNull" "JBool b = sortKeysDeep w \<longleftrightarrow> w = JBool b"
  "JInt i = sortKeysDeep w \<longleftrightarrow> w = JInt i" "JStr s = sortKeysDeep w \<longleftrightarrow> w = JStr s"
  by (cases w; auto)+

lemma sortKeysDeep_same:
  "distinctKeys v \<Longrightarrow> distinctKeys w \<Longrightarrow> sortKeysDeep v = sortKeysDeep w \<longleftrightarrow> sameJson v w"
proof (induction v arbitrary: w)
  case (JArr xs)
  show ?case
  proof (cases w)
    case w: (JArr ys)
    have "map sortKeysDeep xs = map sortKeysDeep ys \<longleftrightarrow> list_all2 (\<lambda>x y. sortKeysDeep x = sortKeysDeep y) xs ys"
      by (auto simp: list_all2_conv_all_nth list_eq_iff_nth_eq)
    also have "\<dots> \<longleftrightarrow> list_all2 sameJson xs ys"
    proof (rule list.rel_cong [OF refl refl])
      fix x y assume "x \<in> set xs" "y \<in> set ys"
      then show "(sortKeysDeep x = sortKeysDeep y) = sameJson x y"
        using JArr.IH [of x y] JArr.prems w by (simp add: list_all_iff)
    qed
    finally show ?thesis by (simp add: w sameJson_arr)
  qed (simp_all add: sameJson_arr)
next
  case (JObj kvs)
  show ?case
  proof (cases w)
    case w: (JObj ks)
    let ?f = "\<lambda>kv. (fst kv, sortKeysDeep (snd kv))"
    have m: "map_of (map ?f zs) k = map_option sortKeysDeep (map_of zs k)" for zs k
      by (induction zs) auto
    have k: "map_option sortKeysDeep (map_of kvs k) = map_option sortKeysDeep (map_of ks k) \<longleftrightarrow>
        rel_option sameJson (map_of kvs k) (map_of ks k)" for k
    proof (cases "map_of kvs k"; cases "map_of ks k")
      fix a b assume a: "map_of kvs k = Some a" and b: "map_of ks k = Some b"
      have "distinctKeys a" "distinctKeys b"
        using JObj.prems map_of_SomeD [OF a] map_of_SomeD [OF b] w by (auto simp: list_all_iff)
      then have "sortKeysDeep a = sortKeysDeep b \<longleftrightarrow> sameJson a b"
        using JObj.IH [OF map_of_SomeD [OF a]] by simp
      then show ?thesis using a b by simp
    qed simp_all
    have "distinct (map fst (map ?f kvs))" "distinct (map fst (map ?f ks))"
      using JObj.prems w by (simp_all add: comp_def)
    from assign_sorted_eq [OF this] show ?thesis
      unfolding m k by (simp add: w sameJson_obj)
  qed (simp_all add: sameJson_obj)
qed (simp_all only: sortKeysDeep.simps sortKeysDeep_leaf sameJson_simps)

text \<open>The canonical form of a proposal determines it.\<close>

lemma patternsField_inj: "patternsField k ps = patternsField k qs \<longleftrightarrow> ps = qs"
  by (cases ps; cases qs) (auto simp: patternsField_def inj_map_eq_map inj_def)

lemma sort_proposal:
  "sortKeysDeep (proposalJson (HttpProposal p)) = JObj
    (patternsField ''allowedUrlPatterns'' (hpAllowedUrlPatterns p) @
     [(''credentialHandle'', JStr (hpCredentialHandle p)), (''method'', JStr (hpMethod p)),
      (''purpose'', JStr (hpPurpose p)), (''type'', JStr ''http''), (''url'', JStr (hpUrl p))])"
  "sortKeysDeep (proposalJson (CommandProposal c)) = JObj
    (patternsField ''allowedCommandPatterns'' (cpAllowedCommandPatterns c) @
     [(''command'', JStr (cpCommand c)), (''credentialHandle'', JStr (cpCredentialHandle c)),
      (''purpose'', JStr (cpPurpose c)), (''type'', JStr ''command'')])"
  by (cases "hpAllowedUrlPatterns p") (simp_all add: patternsField_def comp_def less_char_def assignFields_def
      isIndexKey_def decimalDigit_def,
    cases "cpAllowedCommandPatterns c", simp_all add: patternsField_def comp_def less_char_def assignFields_def
      isIndexKey_def decimalDigit_def)

lemma proposalJson_inj:
  "sortKeysDeep (proposalJson p) = sortKeysDeep (proposalJson q) \<Longrightarrow> p = q"
proof (cases p; cases q)
  fix a b assume "sortKeysDeep (proposalJson p) = sortKeysDeep (proposalJson q)"
    "p = HttpProposal a" "q = HttpProposal b"
  then show "p = q"
    using patternsField_inj [of _ "hpAllowedUrlPatterns a" "hpAllowedUrlPatterns b"]
    by (simp only: sort_proposal append_same_eq) (cases a; cases b; simp add: append_eq_append_conv)
next
  fix a b assume "sortKeysDeep (proposalJson p) = sortKeysDeep (proposalJson q)"
    "p = CommandProposal a" "q = CommandProposal b"
  then show "p = q"
    using patternsField_inj [of _ "cpAllowedCommandPatterns a" "cpAllowedCommandPatterns b"]
    by (simp only: sort_proposal append_same_eq) (cases a; cases b; simp add: append_eq_append_conv)
next
  fix a b assume "sortKeysDeep (proposalJson p) = sortKeysDeep (proposalJson q)"
    "p = HttpProposal a" "q = CommandProposal b"
  then show "p = q"
    by (cases "hpAllowedUrlPatterns a"; cases "cpAllowedCommandPatterns b")
      (simp_all only: sort_proposal, simp_all add: patternsField_def)
next
  fix a b assume "sortKeysDeep (proposalJson p) = sortKeysDeep (proposalJson q)"
    "p = CommandProposal a" "q = HttpProposal b"
  then show "p = q"
    by (cases "cpAllowedCommandPatterns a"; cases "hpAllowedUrlPatterns b")
      (simp_all only: sort_proposal, simp_all add: patternsField_def)
qed

text \<open>Fields on one line, and proposals up to an empty list of patterns.\<close>

definition oneLine :: "string \<Rightarrow> bool" where
  "oneLine s = (CHR 0x0A \<notin> set s)"

fun singleLine :: "grantProposal \<Rightarrow> bool" where
  "singleLine (HttpProposal p) = (oneLine (hpMethod p) \<and> oneLine (hpUrl p) \<and>
     oneLine (hpCredentialHandle p) \<and> oneLine (hpPurpose p) \<and>
     list_all oneLine (orDefault (hpAllowedUrlPatterns p) []))"
| "singleLine (CommandProposal p) = (oneLine (cpCommand p) \<and> oneLine (cpCredentialHandle p) \<and>
     oneLine (cpPurpose p) \<and> list_all oneLine (orDefault (cpAllowedCommandPatterns p) []))"

definition noEmpty :: "string list option \<Rightarrow> string list option" where
  "noEmpty ps = (if ps = Some [] then None else ps)"

fun normalProposal :: "grantProposal \<Rightarrow> grantProposal" where
  "normalProposal (HttpProposal p) =
     HttpProposal (p\<lparr>hpAllowedUrlPatterns := noEmpty (hpAllowedUrlPatterns p)\<rparr>)"
| "normalProposal (CommandProposal p) =
     CommandProposal (p\<lparr>cpAllowedCommandPatterns := noEmpty (cpAllowedCommandPatterns p)\<rparr>)"

lemma renderPatterns_inj:
  "renderPatterns t ps = renderPatterns t qs \<longleftrightarrow> noEmpty ps = noEmpty qs"
  by (cases ps; cases qs) (auto simp: renderPatterns_def noEmpty_def inj_map_eq_map inj_def)

lemma renderPatterns_oneLine:
  "oneLine t \<Longrightarrow> list_all oneLine (orDefault ps []) \<Longrightarrow> x \<in> set (renderPatterns t ps) \<Longrightarrow> CHR 0x0A \<notin> set x"
  by (cases ps) (auto simp: renderPatterns_def oneLine_def list_all_iff split: if_splits)

text \<open>The lines a proposal is rendered to.\<close>

fun renderLines :: "grantProposal \<Rightarrow> string list" where
  "renderLines (HttpProposal p) =
    [''Authenticated HTTP Request'', ''  Method: '' @ hpMethod p, ''  URL: '' @ hpUrl p,
      ''  Credential: '' @ hpCredentialHandle p, ''  Purpose: '' @ hpPurpose p] @
     renderPatterns ''  Allowed URL patterns:'' (hpAllowedUrlPatterns p)"
| "renderLines (CommandProposal p) =
    [''Authenticated Command Execution'', ''  Command: '' @ cpCommand p,
      ''  Credential: '' @ cpCredentialHandle p, ''  Purpose: '' @ cpPurpose p] @
     renderPatterns ''  Allowed command patterns:'' (cpAllowedCommandPatterns p)"

lemma render_join: "renderProposal p = join [CHR 0x0A] (renderLines p)"
  by (cases p) (simp_all only: renderProposal.simps renderHttpProposal_def renderCommandProposal_def
      renderLines.simps)

lemma render_lines: "singleLine p \<Longrightarrow> splitOn CHR 0x0A (renderProposal p) = renderLines p"
proof -
  assume s: "singleLine p"
  have "CHR 0x0A \<notin> set x" if "x \<in> set (renderLines p)" for x
    using that s
    by (cases p) (auto simp: oneLine_def dest!: renderPatterns_oneLine [rotated 2])
  moreover have "renderLines p \<noteq> []" by (cases p) simp_all
  ultimately show ?thesis unfolding render_join using splitOn_join by simp
qed

lemma renderLines_inj: "renderLines p = renderLines q \<longleftrightarrow> normalProposal p = normalProposal q"
proof (cases p; cases q)
  fix a b assume pq: "p = HttpProposal a" "q = HttpProposal b"
  show ?thesis unfolding pq
    by (cases a; cases b) (auto simp: renderPatterns_inj)
next
  fix a b assume pq: "p = CommandProposal a" "q = CommandProposal b"
  show ?thesis unfolding pq
    by (cases a; cases b) (auto simp: renderPatterns_inj)
qed simp_all

definition collides :: "('a \<Rightarrow> 'b) \<Rightarrow> 'a \<Rightarrow> 'a \<Rightarrow> bool" where
  "collides f x y = (x \<noteq> y \<and> f x = f y)"

section \<open>Properties\<close>

text \<open>C16: The canonical serialisation identifies exactly the values that are the same: two values, none of whose
  objects holds a key twice, have the same text exactly when they agree item by item and key by key, whatever the order
  of the keys at any depth. The key \<open>__proto__\<close> of an object is the one part that is not covered.\<close>

theorem canonical_json_injective:
  assumes "distinctKeys v" "distinctKeys w"
  shows "canonicalJsonSerialize v = canonicalJsonSerialize w \<longleftrightarrow> sameJson v w"
  using sortKeysDeep_same [OF assms] stringify_inj [of "sortKeysDeep v" "sortKeysDeep w"]
  by (auto simp: canonicalJsonSerialize_def)

definition ex_object :: "bool \<Rightarrow> json" where
  "ex_object x = JArr [JObj (if x then [(''b'', JNull), (''10'', JInt 7), (''a'', JObj [])]
     else [(''a'', JObj []), (''__proto__'', JNull), (''b'', JNull), (''10'', JInt 7)])]"

theorem canonical_json_injective_witness:
  "canonicalJsonSerialize (ex_object True) = canonicalJsonSerialize (ex_object False) \<and>
   canonicalJsonSerialize (ex_object True) \<noteq> canonicalJsonSerialize (JArr [JObj [(''b'', JNull), (''10'', JInt 7)]])"
proof
  have d: "distinctKeys (ex_object x)" for x by (simp add: ex_object_def)
  have "sameJson (ex_object True) (ex_object False)"
    by (simp add: ex_object_def sameJson_simps)
  then show "canonicalJsonSerialize (ex_object True) = canonicalJsonSerialize (ex_object False)"
    unfolding canonical_json_injective [OF d d] .
  have e: "distinctKeys (JArr [JObj [(''b'', JNull), (''10'', JInt 7)]])" by simp
  have "\<not> sameJson (ex_object True) (JArr [JObj [(''b'', JNull), (''10'', JInt 7)]])"
    by (auto simp: ex_object_def sameJson_simps intro!: exI [of _ "''a''"])
  then show "canonicalJsonSerialize (ex_object True) \<noteq> canonicalJsonSerialize (JArr [JObj [(''b'', JNull), (''10'', JInt 7)]])"
    unfolding canonical_json_injective [OF d e] .
qed

text \<open>Two proposals with the same proposal hash are the same proposal, unless the digest collides:
  a decision recorded under a hash never stands for another method, URL, credential, purpose or
  pattern list.\<close>

theorem proposal_hash_binds:
  "hashProposal sha256 p = hashProposal sha256 q \<longleftrightarrow>
    p = q \<or> collides sha256 (canonicalJsonSerialize (proposalJson p)) (canonicalJsonSerialize (proposalJson q))"
proof -
  have "canonicalJsonSerialize (proposalJson p) = canonicalJsonSerialize (proposalJson q) \<Longrightarrow> p = q"
    using stringify_inj [of "sortKeysDeep (proposalJson p)" "sortKeysDeep (proposalJson q)"]
    by (auto simp: canonicalJsonSerialize_def intro: proposalJson_inj)
  then show ?thesis by (auto simp: hashProposal_def collides_def)
qed

text \<open>C30: For proposals whose fields hold no line break, the text shown to the guardian determines the
  proposal, up to the difference between no pattern list and an empty one.\<close>

theorem rendering_determines_proposal:
  assumes "singleLine p" "singleLine q"
  shows "renderProposal p = renderProposal q \<longleftrightarrow> normalProposal p = normalProposal q"
proof
  assume "renderProposal p = renderProposal q"
  then show "normalProposal p = normalProposal q"
    using render_lines [OF assms(1)] render_lines [OF assms(2)] renderLines_inj by metis
next
  assume "normalProposal p = normalProposal q"
  then have "renderLines p = renderLines q" by (simp only: renderLines_inj)
  then show "renderProposal p = renderProposal q" by (simp only: render_join)
qed

definition ex_proposal :: "string \<Rightarrow> string list option \<Rightarrow> grantProposal" where
  "ex_proposal purpose ps = HttpProposal \<lparr>hpCredentialHandle = ''gh'', hpMethod = ''GET'',
     hpUrl = ''https://a.com/x'', hpPurpose = purpose, hpAllowedUrlPatterns = ps\<rparr>"

theorem rendering_determines_proposal_witness:
  "renderProposal (ex_proposal ''read'' (Some [])) = renderProposal (ex_proposal ''read'' None)"
proof -
  have s: "singleLine (ex_proposal ''read'' (Some []))" "singleLine (ex_proposal ''read'' None)"
    by code_simp+
  show ?thesis
    unfolding rendering_determines_proposal [OF s] by (simp add: ex_proposal_def noEmpty_def)
qed

text \<open>A purpose with line breaks renders as a pattern list: the text for a proposal that has none
  is the text for one that has it.\<close>

theorem rendering_spoofable:
  "renderHttpProposal (p\<lparr>hpPurpose := purpose @ [CHR 0x0A] @ ''  Allowed URL patterns:'' @
      [CHR 0x0A] @ ''    - '' @ pat, hpAllowedUrlPatterns := None\<rparr>) =
   renderHttpProposal (p\<lparr>hpPurpose := purpose, hpAllowedUrlPatterns := Some [pat]\<rparr>)"
  by (simp add: renderHttpProposal_def renderPatterns_def)

end
