(* ===== verification/GrantStores.thy ===== *)
theory GrantStores
  imports HumPrelude
begin

text \<open>
  The two grant stores of the credential execution service (\<open>credential-executor/src/grants\<close>).

  \<^item> \<open>PersistentGrantStore\<close> (\<open>persistent-store.ts\<close>): the file \<open>grants.json\<close> is the value of type
    \<open>grantsDisk\<close> that reading and parsing it gives, and the object is that file with the flag
    \<open>corrupt\<close>. An operation returns an error or a result, and the new store. Creating the directory
    and writing the file are taken to succeed.
  \<^item> \<open>TemporaryGrantStore\<close> (\<open>temporary-store.ts\<close>): a \<open>Map\<close> from storage keys to grants. The clock is
    read once per operation and is an argument.
\<close>

section \<open>The persistent store\<close>

record persistentGrant =
  gId :: string
  gTool :: string
  gPattern :: string
  gScope :: string
  gCreatedAt :: millis
  gSessionId :: "string option"
  gRevokedAt :: "millis option"
  gRevokedReason :: "string option"

text \<open>
  What the file holds: nothing, text that cannot be read or parsed, a JSON value without the two
  fields, or a version number with a \<open>grants\<close> field that is an array or not (\<open>None\<close>).
\<close>

datatype grantsDisk =
    Absent
  | Unparsable
  | FieldsMissing
  | GrantsFile int "persistentGrant list option"

record grantStore =
  disk :: grantsDisk
  corrupt :: bool

datatype storeError =
    CorruptRefused
  | MalformedFields
  | UnsupportedVersion int
  | GrantsNotArray
  | ReadFailed
  | ReadFailedAgain

type_synonym 'a storeResult = "(storeError + 'a) \<times> grantStore"

definition GRANTS_FILE_VERSION :: int where
  "GRANTS_FILE_VERSION = 1"

definition writeToDisk :: "persistentGrant list \<Rightarrow> grantStore \<Rightarrow> grantStore" where
  "writeToDisk gs st = st\<lparr>disk := GrantsFile GRANTS_FILE_VERSION (Some gs)\<rparr>"

definition assertNotCorrupt :: "grantStore \<Rightarrow> storeError option" where
  "assertNotCorrupt st = (if corrupt st then Some CorruptRefused else None)"

text \<open>
  The shape checks throw inside the \<open>try\<close> after setting the flag, and the \<open>catch\<close> rethrows them; a
  read or parse error is wrapped when the flag was clear, and rethrown as it is when it was set.
\<close>

definition loadFromDisk :: "grantStore \<Rightarrow> persistentGrant list storeResult" where
  "loadFromDisk st =
    (case disk st of
       Absent \<Rightarrow> (Inl (if corrupt st then ReadFailedAgain else ReadFailed), st\<lparr>corrupt := True\<rparr>)
     | Unparsable \<Rightarrow> (Inl (if corrupt st then ReadFailedAgain else ReadFailed), st\<lparr>corrupt := True\<rparr>)
     | FieldsMissing \<Rightarrow> (Inl MalformedFields, st\<lparr>corrupt := True\<rparr>)
     | GrantsFile v gs \<Rightarrow>
         if v \<noteq> GRANTS_FILE_VERSION then (Inl (UnsupportedVersion v), st\<lparr>corrupt := True\<rparr>)
         else (case gs of
            None \<Rightarrow> (Inl GrantsNotArray, st\<lparr>corrupt := True\<rparr>)
          | Some xs \<Rightarrow> (Inr xs, st)))"

definition backfill :: "persistentGrant \<Rightarrow> persistentGrant" where
  "backfill g = (if gSessionId g = None then g\<lparr>gSessionId := Some ''unknown''\<rparr> else g)"

definition initStore :: "grantStore \<Rightarrow> unit storeResult" where
  "initStore st =
    (if disk st = Absent then (Inr (), writeToDisk [] st)
     else (case loadFromDisk st of
        (Inl e, st') \<Rightarrow> (Inl e, st')
      | (Inr gs, st') \<Rightarrow>
          if list_ex (\<lambda>g. gSessionId g = None) gs
          then (Inr (), writeToDisk (map backfill gs) st') else (Inr (), st')))"

definition getAllIncludingRevoked :: "grantStore \<Rightarrow> persistentGrant list storeResult" where
  "getAllIncludingRevoked st =
    (case assertNotCorrupt st of
       Some e \<Rightarrow> (Inl e, st)
     | None \<Rightarrow> if disk st = Absent then (Inr [], st) else loadFromDisk st)"

definition getAll :: "grantStore \<Rightarrow> persistentGrant list storeResult" where
  "getAll st =
    (case getAllIncludingRevoked st of
       (Inl e, st') \<Rightarrow> (Inl e, st')
     | (Inr gs, st') \<Rightarrow> (Inr (filter (\<lambda>g. gRevokedAt g = None) gs), st'))"

definition getById :: "string \<Rightarrow> grantStore \<Rightarrow> persistentGrant option storeResult" where
  "getById i st =
    (case getAll st of
       (Inl e, st') \<Rightarrow> (Inl e, st')
     | (Inr gs, st') \<Rightarrow> (Inr (byKey gId i gs), st'))"

definition hasGrant :: "string \<Rightarrow> grantStore \<Rightarrow> bool storeResult" where
  "hasGrant i st =
    (case getById i st of (Inl e, st') \<Rightarrow> (Inl e, st') | (Inr g, st') \<Rightarrow> (Inr (g \<noteq> None), st'))"

text \<open>A writer first refuses a corrupt store and then loads the file.\<close>

definition loadForWrite :: "grantStore \<Rightarrow> persistentGrant list storeResult" where
  "loadForWrite st =
    (case assertNotCorrupt st of Some e \<Rightarrow> (Inl e, st) | None \<Rightarrow> loadFromDisk st)"

definition reactivate :: "persistentGrant \<Rightarrow> persistentGrant \<Rightarrow> persistentGrant" where
  "reactivate g old = old\<lparr>gTool := gTool g, gPattern := gPattern g, gScope := gScope g,
     gCreatedAt := gCreatedAt g, gSessionId := gSessionId g,
     gRevokedAt := None, gRevokedReason := None\<rparr>"

definition addGrant :: "persistentGrant \<Rightarrow> grantStore \<Rightarrow> bool storeResult" where
  "addGrant g st =
    (case loadForWrite st of
       (Inl e, st') \<Rightarrow> (Inl e, st')
     | (Inr gs, st') \<Rightarrow>
        (case byKey gId (gId g) gs of
           Some old \<Rightarrow>
             if gRevokedAt old = None then (Inr False, st')
             else (Inr True, writeToDisk (updateFirst (\<lambda>x. gId x = gId g) (reactivate g) gs) st')
         | None \<Rightarrow> (Inr True, writeToDisk (gs @ [g]) st')))"

definition removeGrant :: "string \<Rightarrow> grantStore \<Rightarrow> bool storeResult" where
  "removeGrant i st =
    (case loadForWrite st of
       (Inl e, st') \<Rightarrow> (Inl e, st')
     | (Inr gs, st') \<Rightarrow>
        if byKey gId i gs = None then (Inr False, st')
        else (Inr True, writeToDisk (removeFirst (\<lambda>x. gId x = i) gs) st'))"

definition markRevoked :: "string \<Rightarrow> string option \<Rightarrow> millis \<Rightarrow> grantStore \<Rightarrow> bool storeResult" where
  "markRevoked i reason now st =
    (case loadForWrite st of
       (Inl e, st') \<Rightarrow> (Inl e, st')
     | (Inr gs, st') \<Rightarrow>
        (case byKey gId i gs of
           None \<Rightarrow> (Inr False, st')
         | Some g \<Rightarrow>
             if gRevokedAt g \<noteq> None then (Inr False, st')
             else (Inr True, writeToDisk
               (updateFirst (\<lambda>x. gId x = i) (\<lambda>x. x\<lparr>gRevokedAt := Some now, gRevokedReason := reason\<rparr>) gs)
               st')))"

definition clearGrants :: "grantStore \<Rightarrow> unit storeResult" where
  "clearGrants st =
    (case assertNotCorrupt st of Some e \<Rightarrow> (Inl e, st) | None \<Rightarrow> (Inr (), writeToDisk [] st))"

text \<open>The operations as events of one machine; a read has no effect on the file.\<close>

datatype storeEvent =
    EInit | EGetAll | EGetById string | EAdd persistentGrant | ERemove string
  | ERevoke string "string option" millis | EClear

fun storeStep :: "grantStore \<Rightarrow> storeEvent \<Rightarrow> grantStore" where
  "storeStep st EInit = snd (initStore st)"
| "storeStep st EGetAll = snd (getAll st)"
| "storeStep st (EGetById i) = snd (getById i st)"
| "storeStep st (EAdd g) = snd (addGrant g st)"
| "storeStep st (ERemove i) = snd (removeGrant i st)"
| "storeStep st (ERevoke i r now) = snd (markRevoked i r now st)"
| "storeStep st EClear = snd (clearGrants st)"

subsection \<open>Healthy stores\<close>

text \<open>A healthy store has a readable file of the right version, with at most one grant per id.\<close>

fun grantsOf :: "grantsDisk \<Rightarrow> persistentGrant list" where
  "grantsOf (GrantsFile v (Some gs)) = gs"
| "grantsOf _ = []"

definition healthy :: "grantStore \<Rightarrow> bool" where
  "healthy st \<longleftrightarrow> \<not> corrupt st \<and> (\<exists>gs. disk st = GrantsFile GRANTS_FILE_VERSION (Some gs) \<and>
     distinct (map gId gs))"

text \<open>The abstract view: the record of each id, and the active ones.\<close>

definition recordOf :: "grantStore \<Rightarrow> string \<Rightarrow> persistentGrant option" where
  "recordOf st i = byKey gId i (grantsOf (disk st))"

definition activeOf :: "grantStore \<Rightarrow> string \<Rightarrow> persistentGrant option" where
  "activeOf st i = (case recordOf st i of
     Some g \<Rightarrow> if gRevokedAt g = None then Some g else None | None \<Rightarrow> None)"

lemma writeToDisk_simps [simp]:
  "corrupt (writeToDisk gs st) = corrupt st"
  "disk (writeToDisk gs st) = GrantsFile 1 (Some gs)"
  by (simp_all add: writeToDisk_def GRANTS_FILE_VERSION_def)

lemma healthyE:
  assumes "healthy st"
  obtains gs where "\<not> corrupt st" "disk st = GrantsFile 1 (Some gs)" "distinct (map gId gs)"
  using assms by (auto simp: healthy_def GRANTS_FILE_VERSION_def)

lemma healthy_load:
  assumes "healthy st"
  shows "loadFromDisk st = (Inr (grantsOf (disk st)), st)"
    "loadForWrite st = (Inr (grantsOf (disk st)), st)"
    "getAllIncludingRevoked st = (Inr (grantsOf (disk st)), st)"
    "getAll st = (Inr (filter (\<lambda>g. gRevokedAt g = None) (grantsOf (disk st))), st)"
  using assms by (auto elim!: healthyE simp: loadFromDisk_def loadForWrite_def assertNotCorrupt_def
      getAllIncludingRevoked_def getAll_def GRANTS_FILE_VERSION_def)

lemma healthy_distinct: "healthy st \<Longrightarrow> distinct (map gId (grantsOf (disk st)))"
  by (auto elim!: healthyE)

lemma healthy_writeToDisk:
  "healthy st \<Longrightarrow> distinct (map gId gs) \<Longrightarrow> healthy (writeToDisk gs st)"
  by (auto elim!: healthyE simp: healthy_def GRANTS_FILE_VERSION_def)

lemma byKey_filter_distinct:
  assumes "distinct (map key xs)"
  shows "byKey key k (filter p xs) =
    (case byKey key k xs of Some x \<Rightarrow> if p x then Some x else None | None \<Rightarrow> None)"
  using assms
proof (induction xs)
  case (Cons x xs)
  then show ?case using byKey_None [of key k xs] by (auto simp: byKey_def split: option.splits)
qed (simp add: byKey_def)

lemma getById_activeOf: "healthy st \<Longrightarrow> getById i st = (Inr (activeOf st i), st)"
  using byKey_filter_distinct [OF healthy_distinct, of st i "\<lambda>g. gRevokedAt g = None"]
  by (simp add: getById_def healthy_load activeOf_def recordOf_def split: option.splits)

lemma gId_backfill [simp]: "gId (backfill g) = gId g"
  by (simp add: backfill_def)

lemma initStore_healthy: "healthy st \<Longrightarrow> healthy (snd (initStore st)) \<and> fst (initStore st) = Inr ()"
  using healthy_distinct [of st]
  by (auto simp: initStore_def healthy_load comp_def elim: healthyE intro!: healthy_writeToDisk)

lemma addGrant_healthy:
  assumes "healthy st"
  shows "healthy (snd (addGrant g st))"
    and "recordOf (snd (addGrant g st)) i =
      (if i = gId g then (case recordOf st i of
           None \<Rightarrow> Some g
         | Some old \<Rightarrow> if gRevokedAt old = None then Some old else Some (reactivate g old))
       else recordOf st i)"
    and "fst (addGrant g st) = Inr (activeOf st (gId g) = None)"
proof -
  let ?gs = "grantsOf (disk st)"
  have upd: "map gId (updateFirst p (reactivate g) ?gs) = map gId ?gs" for p
    by (rule map_updateFirst) (simp add: reactivate_def)
  note d = healthy_distinct [OF assms]
  show "healthy (snd (addGrant g st))"
    using assms d upd byKey_None [of gId "gId g" ?gs]
    by (auto simp: addGrant_def healthy_load intro!: healthy_writeToDisk split: option.splits)
  show "recordOf (snd (addGrant g st)) i =
      (if i = gId g then (case recordOf st i of
           None \<Rightarrow> Some g
         | Some old \<Rightarrow> if gRevokedAt old = None then Some old else Some (reactivate g old))
       else recordOf st i)"
    using assms byKey_updateFirst [of gId "reactivate g" i "gId g" ?gs]
    by (auto simp: addGrant_def healthy_load recordOf_def byKey_append reactivate_def
        split: option.splits)
  show "fst (addGrant g st) = Inr (activeOf st (gId g) = None)"
    using assms by (auto simp: addGrant_def healthy_load activeOf_def recordOf_def split: option.splits)
qed

lemma removeGrant_healthy:
  assumes "healthy st"
  shows "healthy (snd (removeGrant i st))"
    and "recordOf (snd (removeGrant i st)) j = (if j = i then None else recordOf st j)"
    and "fst (removeGrant i st) = Inr (recordOf st i \<noteq> None)"
  using assms healthy_distinct [OF assms] byKey_removeFirst [OF healthy_distinct [OF assms], of j i]
  by (auto simp: removeGrant_def healthy_load recordOf_def
      intro!: healthy_writeToDisk distinct_removeFirst)

lemma markRevoked_healthy:
  assumes "healthy st"
  shows "healthy (snd (markRevoked i r now st))"
    and "recordOf (snd (markRevoked i r now st)) j =
      (if j = i \<and> activeOf st i \<noteq> None
       then map_option (\<lambda>g. g\<lparr>gRevokedAt := Some now, gRevokedReason := r\<rparr>) (recordOf st j)
       else recordOf st j)"
    and "fst (markRevoked i r now st) = Inr (activeOf st i \<noteq> None)"
proof -
  let ?gs = "grantsOf (disk st)" and ?f = "\<lambda>g. g\<lparr>gRevokedAt := Some now, gRevokedReason := r\<rparr>"
  have upd: "map gId (updateFirst p ?f ?gs) = map gId ?gs" for p
    by (rule map_updateFirst) simp
  show "healthy (snd (markRevoked i r now st))"
    using assms healthy_distinct [OF assms] upd
    by (auto simp: markRevoked_def healthy_load intro!: healthy_writeToDisk split: option.splits)
  show "recordOf (snd (markRevoked i r now st)) j =
      (if j = i \<and> activeOf st i \<noteq> None
       then map_option (\<lambda>g. g\<lparr>gRevokedAt := Some now, gRevokedReason := r\<rparr>) (recordOf st j)
       else recordOf st j)"
    using assms byKey_updateFirst [of gId ?f j i ?gs]
    by (auto simp: markRevoked_def healthy_load recordOf_def activeOf_def split: option.splits)
  show "fst (markRevoked i r now st) = Inr (activeOf st i \<noteq> None)"
    using assms by (auto simp: markRevoked_def healthy_load activeOf_def recordOf_def split: option.splits)
qed

lemma clearGrants_healthy:
  "healthy st \<Longrightarrow> healthy (snd (clearGrants st)) \<and> recordOf (snd (clearGrants st)) i = None"
  by (auto elim!: healthyE simp: clearGrants_def assertNotCorrupt_def healthy_def recordOf_def byKey_def
      GRANTS_FILE_VERSION_def)

lemma storeStep_healthy: "healthy st \<Longrightarrow> healthy (storeStep st e)"
  by (cases e) (simp_all add: initStore_healthy healthy_load getById_activeOf addGrant_healthy
      removeGrant_healthy markRevoked_healthy clearGrants_healthy)

text \<open>A corrupt store is never repaired, and a damaged file is never accepted.\<close>

definition damaged :: "grantsDisk \<Rightarrow> bool" where
  "damaged d = (case d of Absent \<Rightarrow> False | Unparsable \<Rightarrow> True | FieldsMissing \<Rightarrow> True
     | GrantsFile v gs \<Rightarrow> v \<noteq> GRANTS_FILE_VERSION \<or> gs = None)"

lemma damaged_load: "damaged (disk st) \<Longrightarrow> \<exists>e. loadFromDisk st = (Inl e, st\<lparr>corrupt := True\<rparr>)"
  by (auto simp: damaged_def loadFromDisk_def split: grantsDisk.splits option.splits)

lemma corrupt_init: "corrupt st \<Longrightarrow> corrupt (snd (initStore st))"
  by (simp add: initStore_def loadFromDisk_def split: grantsDisk.split option.split)

interpretation healthyStore: event_machine storeStep healthy
  by unfold_locales (rule storeStep_healthy)

section \<open>Abstract specification: a map from ids to records\<close>

fun specStep :: "(string \<Rightarrow> persistentGrant option) \<Rightarrow> storeEvent \<Rightarrow> (string \<Rightarrow> persistentGrant option)" where
  "specStep m EInit = (\<lambda>i. map_option backfill (m i))"
| "specStep m EGetAll = m"
| "specStep m (EGetById i) = m"
| "specStep m (EAdd g) =
    (case m (gId g) of
       None \<Rightarrow> m(gId g \<mapsto> g)
     | Some old \<Rightarrow> if gRevokedAt old = None then m else m(gId g \<mapsto> reactivate g old))"
| "specStep m (ERemove i) = m(i := None)"
| "specStep m (ERevoke i r now) =
    (case m i of
       None \<Rightarrow> m
     | Some g \<Rightarrow> if gRevokedAt g = None
         then m(i \<mapsto> g\<lparr>gRevokedAt := Some now, gRevokedReason := r\<rparr>) else m)"
| "specStep m EClear = (\<lambda>i. None)"

lemma byKey_map:
  "(\<And>x. key (f x) = key x) \<Longrightarrow> byKey key k (map f xs) = map_option f (byKey key k xs)"
  by (induction xs) (auto simp: byKey_def)

lemma backfill_id: "gSessionId g \<noteq> None \<Longrightarrow> backfill g = g"
  by (simp add: backfill_def)

lemma recordOf_init:
  assumes "healthy st"
  shows "recordOf (snd (initStore st)) i = map_option backfill (recordOf st i)"
proof (cases "list_ex (\<lambda>g. gSessionId g = None) (grantsOf (disk st))")
  case True
  then show ?thesis using assms
    by (auto elim!: healthyE simp: initStore_def healthy_load recordOf_def byKey_map)
next
  case False
  then have "map_option backfill (byKey gId i (grantsOf (disk st))) = byKey gId i (grantsOf (disk st))"
    using byKey_Some [of gId i "grantsOf (disk st)"]
    by (cases "byKey gId i (grantsOf (disk st))") (auto simp: list_ex_iff backfill_id)
  with False assms show ?thesis
    by (auto elim!: healthyE simp: initStore_def healthy_load recordOf_def)
qed

lemma storeStep_spec: "healthy st \<Longrightarrow> recordOf (storeStep st e) = specStep (recordOf st) e"
  by (cases e)
     (auto simp: fun_eq_iff recordOf_init healthy_load getById_activeOf addGrant_healthy
        removeGrant_healthy markRevoked_healthy clearGrants_healthy activeOf_def split: option.splits)

lemma run_spec:
  assumes "healthy st"
  shows "recordOf (runEvents storeStep st es) = runEvents specStep (recordOf st) es"
    and "getById i (runEvents storeStep st es) =
      (Inr (case runEvents specStep (recordOf st) es i of
              Some g \<Rightarrow> if gRevokedAt g = None then Some g else None | None \<Rightarrow> None),
       runEvents storeStep st es)"
proof -
  show abs: "recordOf (runEvents storeStep st es) = runEvents specStep (recordOf st) es"
    using assms by (induction es arbitrary: st) (simp_all add: storeStep_spec storeStep_healthy)
  have "healthy (runEvents storeStep st es)" using assms by (rule healthyStore.inv_run)
  then show "getById i (runEvents storeStep st es) =
      (Inr (case runEvents specStep (recordOf st) es i of
              Some g \<Rightarrow> if gRevokedAt g = None then Some g else None | None \<Rightarrow> None),
       runEvents storeStep st es)"
    by (simp add: getById_activeOf activeOf_def abs)
qed

section \<open>Properties\<close>

text \<open>C34: over every history of operations the persistent store implements a map from grant ids to
  records: adding an active id changes nothing, adding a revoked id reactivates its record with the
  new fields, revocation keeps the record and stamps it, removal forgets it, the migration of legacy
  grants fills in the session id, and look-ups change nothing. A look-up answers with the record
  exactly while it is not revoked.\<close>

theorem persistent_store_refines_map:
  assumes "healthy st"
  shows "recordOf (runEvents storeStep st es) = runEvents specStep (recordOf st) es \<and>
    fst (getById i (runEvents storeStep st es)) =
      Inr (case runEvents specStep (recordOf st) es i of
             Some g \<Rightarrow> if gRevokedAt g = None then Some g else None | None \<Rightarrow> None)"
  using run_spec [OF assms] by simp

definition ex_grant :: "string \<Rightarrow> persistentGrant" where
  "ex_grant i = \<lparr>gId = i, gTool = ''http'', gPattern = ''GET https://api.x.io/a'', gScope = ''cred1'',
     gCreatedAt = 1, gSessionId = Some ''s1'', gRevokedAt = None, gRevokedReason = None\<rparr>"

definition empty_store :: grantStore where
  "empty_store = \<lparr>disk = GrantsFile 1 (Some []), corrupt = False\<rparr>"

lemma healthy_empty [simp]: "healthy empty_store"
  by (simp add: healthy_def empty_store_def GRANTS_FILE_VERSION_def)

theorem persistent_store_refines_map_witness:
  "fst (getById ''g'' (runEvents storeStep empty_store
     [EAdd (ex_grant ''g''), ERevoke ''g'' None 5, EAdd (ex_grant ''g'')])) = Inr (Some (ex_grant ''g''))"
  using persistent_store_refines_map [OF healthy_empty, of
      "[EAdd (ex_grant ''g''), ERevoke ''g'' None 5, EAdd (ex_grant ''g'')]" "''g''"]
  by (simp add: ex_grant_def empty_store_def recordOf_def byKey_def reactivate_def)

text \<open>Fail closed. Once the store has seen a corrupt file, every later look-up, addition, removal,
  revocation and reset is refused with an error and changes nothing, whatever happened in between,
  re-initialisation included.\<close>

theorem corrupt_store_fails_closed:
  assumes "corrupt st" and "st' = runEvents storeStep st es"
  shows "corrupt st' \<and> getAllIncludingRevoked st' = (Inl CorruptRefused, st') \<and>
    getAll st' = (Inl CorruptRefused, st') \<and> getById i st' = (Inl CorruptRefused, st') \<and>
    addGrant g st' = (Inl CorruptRefused, st') \<and> removeGrant i st' = (Inl CorruptRefused, st') \<and>
    markRevoked i r now st' = (Inl CorruptRefused, st') \<and> clearGrants st' = (Inl CorruptRefused, st')"
proof -
  have step: "corrupt (storeStep s e)" if "corrupt s" for s e
    using that by (cases e) (simp_all add: corrupt_init getAllIncludingRevoked_def getAll_def
        getById_def addGrant_def removeGrant_def markRevoked_def clearGrants_def loadForWrite_def assertNotCorrupt_def)
  have "corrupt (runEvents storeStep st es)" using assms(1)
    by (induction es arbitrary: st) (simp_all add: step)
  then show ?thesis using assms(2)
    by (simp add: getAllIncludingRevoked_def getAll_def getById_def addGrant_def removeGrant_def
        markRevoked_def clearGrants_def loadForWrite_def assertNotCorrupt_def)
qed

theorem corrupt_store_fails_closed_witness:
  "fst (addGrant (ex_grant ''g'') (runEvents storeStep \<lparr>disk = Unparsable, corrupt = True\<rparr> [EInit, EClear])) =
   Inl CorruptRefused"
  using corrupt_store_fails_closed [OF _ refl, of "\<lparr>disk = Unparsable, corrupt = True\<rparr>"
    "[EInit, EClear]" "''g''" "ex_grant ''g''" None 0]
  by (simp del: runEvents.simps)

text \<open>A damaged file is noticed by the first operation that reads it: the operation returns an
  error, does not touch the file, and leaves the store corrupt.\<close>

theorem damaged_file_detected:
  assumes "damaged (disk st)" "\<not> corrupt st"
  shows "(\<exists>e. initStore st = (Inl e, st\<lparr>corrupt := True\<rparr>)) \<and>
    (\<exists>e. getAll st = (Inl e, st\<lparr>corrupt := True\<rparr>)) \<and>
    (\<exists>e. getById i st = (Inl e, st\<lparr>corrupt := True\<rparr>)) \<and>
    (\<exists>e. addGrant g st = (Inl e, st\<lparr>corrupt := True\<rparr>)) \<and>
    (\<exists>e. removeGrant i st = (Inl e, st\<lparr>corrupt := True\<rparr>)) \<and>
    (\<exists>e. markRevoked i r now st = (Inl e, st\<lparr>corrupt := True\<rparr>))"
proof -
  obtain e where "loadFromDisk st = (Inl e, st\<lparr>corrupt := True\<rparr>)"
    using damaged_load [OF assms(1)] by blast
  moreover have "disk st \<noteq> Absent" using assms(1) by (auto simp: damaged_def)
  ultimately show ?thesis using assms(2)
    by (simp add: initStore_def getAll_def getById_def getAllIncludingRevoked_def addGrant_def
        removeGrant_def markRevoked_def loadForWrite_def assertNotCorrupt_def)
qed

theorem damaged_file_detected_witness:
  "\<exists>e. getAll \<lparr>disk = GrantsFile 2 (Some []), corrupt = False\<rparr> =
     (Inl e, \<lparr>disk = GrantsFile 2 (Some []), corrupt = True\<rparr>)"
  using damaged_file_detected [of "\<lparr>disk = GrantsFile 2 (Some []), corrupt = False\<rparr>"]
  by (simp add: damaged_def GRANTS_FILE_VERSION_def)

text \<open>A revocation holds. After a grant has been revoked, no look-up of its id answers, over every
  later history that does not add a grant with this id again.\<close>

theorem revoked_stays_revoked:
  assumes "healthy st" and "\<forall>g. EAdd g \<in> set es \<longrightarrow> gId g \<noteq> i"
  shows "fst (getById i (runEvents storeStep (snd (markRevoked i r now st)) es)) = Inr None"
proof -
  define P where "P = (\<lambda>m :: string \<Rightarrow> persistentGrant option. \<forall>g. m i = Some g \<longrightarrow> gRevokedAt g \<noteq> None)"
  let ?st = "snd (markRevoked i r now st)"
  have step: "P (specStep m e)" if "P m" "\<forall>g. e = EAdd g \<longrightarrow> gId g \<noteq> i" for m e
    using that by (cases e) (auto simp: P_def backfill_def split: option.splits)
  have "P (recordOf ?st)"
    using markRevoked_healthy(2) [OF assms(1)] by (auto simp: P_def activeOf_def split: option.splits)
  moreover have "P (runEvents specStep m es)" if "P m" for m
    using that assms(2) by (induction es arbitrary: m) (auto simp: step)
  ultimately have "P (runEvents specStep (recordOf ?st) es)" by blast
  moreover have "healthy ?st" using assms(1) by (rule markRevoked_healthy)
  ultimately show ?thesis using run_spec(2) [of ?st i es] by (auto simp: P_def split: option.splits)
qed

theorem revoked_stays_revoked_witness:
  "fst (getById ''g'' (runEvents storeStep
     (snd (markRevoked ''g'' None 5 (snd (addGrant (ex_grant ''g'') empty_store))))
     [EInit, EAdd (ex_grant ''h'')])) = Inr None"
  by (rule revoked_stays_revoked) (simp_all add: addGrant_healthy ex_grant_def)

end
