(* ===== verification/PathTemplate.thy ===== *)
theory PathTemplate
  imports HumPrelude
begin

text \<open>
  Path templates for HTTP grants (\<open>credential-executor/src/http/path-template.ts\<close>).

  The URL parser is the \<open>URL\<close> class of the runtime (the WHATWG URL standard), a parameter \<open>parse\<close>
  of the definitions; what the code relies on is the interface \<open>url_api\<close>. Strings are the UTF-8
  bytes of the JavaScript strings here; the path name of a parsed URL is ASCII, so
  \<open>decodeURIComponent\<close> is percent decoding with the check that the escaped bytes are UTF-8.
\<close>

section \<open>The parsed URL\<close>

record url =
  protocol :: string
  hostname :: string
  port :: string
  pathname :: string

section \<open>decodeURIComponent\<close>

definition hexVal :: "char \<Rightarrow> nat option" where
  "hexVal c = (let n = (of_char c :: nat) in
     if 48 \<le> n \<and> n \<le> 57 then Some (n - 48)
     else if 97 \<le> n \<and> n \<le> 102 then Some (n - 87)
     else if 65 \<le> n \<and> n \<le> 70 then Some (n - 55)
     else None)"

datatype pctToken = Lit char | Byte nat

fun pctTokens :: "string \<Rightarrow> pctToken list option" where
  "pctTokens [] = Some []"
| "pctTokens (c # s) =
    (if c \<noteq> CHR ''%'' then map_option ((#) (Lit c)) (pctTokens s)
     else (case s of
        a # b # rest \<Rightarrow>
          (case (hexVal a, hexVal b) of
             (Some x, Some y) \<Rightarrow> map_option ((#) (Byte (16 * x + y))) (pctTokens rest)
           | _ \<Rightarrow> None)
      | _ \<Rightarrow> None))"

definition isCont :: "nat \<Rightarrow> bool" where
  "isCont b = (128 \<le> b \<and> b < 192)"

text \<open>The lead bytes and second bytes that UTF-8 allows: no overlong form, no surrogate, no value
  above 0x10FFFF.\<close>

fun utf8Tokens :: "pctToken list \<Rightarrow> string option" where
  "utf8Tokens [] = Some []"
| "utf8Tokens (Lit c # ts) = map_option ((#) c) (utf8Tokens ts)"
| "utf8Tokens (Byte a # ts) =
    (if a < 128 then map_option ((#) (char_of a)) (utf8Tokens ts)
     else (case ts of
        Byte b # us \<Rightarrow>
          if 194 \<le> a \<and> a < 224 then
            (if isCont b then map_option (\<lambda>r. char_of a # char_of b # r) (utf8Tokens us) else None)
          else (case us of
             Byte c # vs \<Rightarrow>
               if 224 \<le> a \<and> a < 240 then
                 (if isCont b \<and> isCont c \<and> (a = 224 \<longrightarrow> 160 \<le> b) \<and> (a = 237 \<longrightarrow> b < 160)
                  then map_option (\<lambda>r. char_of a # char_of b # char_of c # r) (utf8Tokens vs) else None)
               else (case vs of
                  Byte d # ws \<Rightarrow>
                    if 240 \<le> a \<and> a < 245 \<and> isCont b \<and> isCont c \<and> isCont d \<and>
                       (a = 240 \<longrightarrow> 144 \<le> b) \<and> (a = 244 \<longrightarrow> b < 144)
                    then map_option (\<lambda>r. char_of a # char_of b # char_of c # char_of d # r) (utf8Tokens ws)
                    else None
                | _ \<Rightarrow> None)
           | _ \<Rightarrow> None)
      | _ \<Rightarrow> None))"

definition decodeURIComponent :: "string \<Rightarrow> string option" where
  "decodeURIComponent s = Option.bind (pctTokens s) utf8Tokens"

definition safeDecodeSegment :: "string \<Rightarrow> string option" where
  "safeDecodeSegment s = decodeURIComponent s"

section \<open>Segment classes\<close>

definition isDigit :: "char \<Rightarrow> bool" where
  "isDigit c = (let n = (of_char c :: nat) in 48 \<le> n \<and> n \<le> 57)"

definition isHex :: "char \<Rightarrow> bool" where
  "isHex c = (hexVal c \<noteq> None)"

text \<open>\<open>/^[0-9a-f]{8}-[0-9a-f]{4}-[0-9a-f]{4}-[0-9a-f]{4}-[0-9a-f]{12}$/i\<close>, \<open>/^[0-9]+$/\<close> and
  \<open>/^[0-9a-f]{16,}$/i\<close>.\<close>

definition UUID_RE :: "string \<Rightarrow> bool" where
  "UUID_RE s = (map length (splitOn CHR ''-'' s) = [8, 4, 4, 4, 12] \<and>
     list_all (list_all isHex) (splitOn CHR ''-'' s))"

definition NUMERIC_RE :: "string \<Rightarrow> bool" where
  "NUMERIC_RE s = (s \<noteq> [] \<and> list_all isDigit s)"

definition HEX_LONG_RE :: "string \<Rightarrow> bool" where
  "HEX_LONG_RE s = (16 \<le> length s \<and> list_all isHex s)"

definition PLACEHOLDER_LITERALS :: "string list" where
  "PLACEHOLDER_LITERALS = [''{:num}'', ''{:uuid}'', ''{:hex}'']"

definition classifySegment :: "string \<Rightarrow> string" where
  "classifySegment s =
    (if UUID_RE s then ''{:uuid}'' else if NUMERIC_RE s then ''{:num}''
     else if HEX_LONG_RE s then ''{:hex}'' else s)"

section \<open>Template derivation and matching\<close>

datatype templateError = InvalidUrl | ReservedPlaceholder string

definition segmentsOf :: "string \<Rightarrow> string list" where
  "segmentsOf p = filter (\<lambda>s. 0 < length s) (splitOn CHR ''/'' p)"

text \<open>\<open>protocol.replace(/:$/, "")\<close>\<close>

definition stripColon :: "string \<Rightarrow> string" where
  "stripColon p = (if p \<noteq> [] \<and> last p = CHR '':'' then butlast p else p)"

definition hostWithPort :: "string \<Rightarrow> string \<Rightarrow> string" where
  "hostWithPort h p = h @ (if p \<noteq> [] then '':'' @ p else [])"

definition renderTemplate :: "url \<Rightarrow> string list \<Rightarrow> string" where
  "renderTemplate u segs = stripColon (protocol u) @ ''://'' @ hostWithPort (hostname u) (port u) @
     (if segs \<noteq> [] then ''/'' @ join ''/'' segs else ''/'')"

definition decodeOrRaw :: "string \<Rightarrow> string" where
  "decodeOrRaw seg = orDefault (safeDecodeSegment seg) seg"

definition templateSegment :: "string \<Rightarrow> string" where
  "templateSegment raw = (let decoded = decodeOrRaw raw; classified = classifySegment decoded in
     if classified \<noteq> decoded then classified else raw)"

definition derivePathTemplate :: "(string \<Rightarrow> url option) \<Rightarrow> string \<Rightarrow> templateError + string" where
  "derivePathTemplate parse raw =
    (case parse raw of
       None \<Rightarrow> Inl InvalidUrl
     | Some u \<Rightarrow>
        (let rawSegments = segmentsOf (pathname u) in
         case find (\<lambda>s. s \<in> set PLACEHOLDER_LITERALS) (map decodeOrRaw rawSegments) of
           Some s \<Rightarrow> Inl (ReservedPlaceholder s)
         | None \<Rightarrow> Inr (renderTemplate u (map templateSegment rawSegments))))"

definition deriveAllowedUrlPatterns ::
  "(string \<Rightarrow> url option) \<Rightarrow> string \<Rightarrow> templateError + string list" where
  "deriveAllowedUrlPatterns parse raw =
    (case derivePathTemplate parse raw of Inl e \<Rightarrow> Inl e | Inr t \<Rightarrow> Inr [t])"

definition segmentMatches :: "string \<Rightarrow> string \<Rightarrow> bool" where
  "segmentMatches t u =
    (if t = ''{:num}'' then NUMERIC_RE u
     else if t = ''{:uuid}'' then UUID_RE u
     else if t = ''{:hex}'' then HEX_LONG_RE u
     else t = u)"

definition urlMatchesTemplate :: "(string \<Rightarrow> url option) \<Rightarrow> string \<Rightarrow> string \<Rightarrow> bool" where
  "urlMatchesTemplate parse raw template =
    (case parse raw of
       None \<Rightarrow> False
     | Some u \<Rightarrow>
        (case parse template of
           None \<Rightarrow> False
         | Some t \<Rightarrow>
            if protocol u \<noteq> protocol t then False
            else if hostWithPort (toLowerCase (hostname u)) (port u) \<noteq>
                    hostWithPort (toLowerCase (hostname t)) (port t) then False
            else
              let us = map safeDecodeSegment (segmentsOf (pathname u));
                  ts = map safeDecodeSegment (segmentsOf (pathname t)) in
              if None \<in> set us then False
              else if None \<in> set ts then False
              else if length us \<noteq> length ts then False
              else list_all2 (\<lambda>x y. segmentMatches (the x) (the y)) ts us))"

section \<open>What the code relies on of the URL parser\<close>

text \<open>A template segment as the parser stores it: the path percent-encode set holds the braces.\<close>

definition encodeBraces :: "string \<Rightarrow> string" where
  "encodeBraces s = concat (map (\<lambda>c. if c = CHR ''{'' then ''%7B'' else if c = CHR ''}'' then ''%7D'' else [c]) s)"

definition webProtocol :: "string \<Rightarrow> bool" where
  "webProtocol p = (p = ''http:'' \<or> p = ''https:'')"

text \<open>
  What the standard says of the two web schemes, whose paths are never opaque: the path holds no raw brace, because
  the path percent-encode set contains the braces; and a string put together from
  the scheme, host and port of a parsed URL and from path segments that are segments of a parsed URL or
  placeholders parses back to that scheme, host and port, with the segments as its path and the
  braces of the placeholders percent-encoded.
\<close>

locale url_api =
  fixes parse :: "string \<Rightarrow> url option"
  assumes no_braces: "parse raw = Some u \<Longrightarrow> webProtocol (protocol u) \<Longrightarrow> CHR ''{'' \<notin> set (pathname u) \<and> CHR ''}'' \<notin> set (pathname u)"
    and reparse: "parse raw = Some u \<Longrightarrow> webProtocol (protocol u) \<Longrightarrow>
      (\<And>s. s \<in> set segs \<Longrightarrow> s \<in> set (segmentsOf (pathname u)) \<or> s \<in> set PLACEHOLDER_LITERALS) \<Longrightarrow>
      parse (renderTemplate u segs) =
        Some (u\<lparr>pathname := ''/'' @ join ''/'' (map encodeBraces segs)\<rparr>)"

lemma segmentsOf_slash:
  assumes "\<And>s. s \<in> set xs \<Longrightarrow> s \<noteq> [] \<and> CHR ''/'' \<notin> set s"
  shows "segmentsOf (''/'' @ join ''/'' xs) = xs"
proof (cases "xs = []")
  case False
  then have "splitOn CHR ''/'' (join ''/'' xs) = xs"
    using assms by (intro splitOn_join) auto
  then show ?thesis using assms by (simp add: segmentsOf_def filter_id_conv)
qed (simp add: segmentsOf_def)

lemma segmentsOf_in: "s \<in> set (segmentsOf p) \<Longrightarrow> s \<noteq> [] \<and> CHR ''/'' \<notin> set s \<and> set s \<subseteq> set p"
  using splitOn_subset [of s "CHR ''/''" p] splitOn_no_sep [of s "CHR ''/''" p]
  by (simp add: segmentsOf_def)

lemma encodeBraces_id: "CHR ''{'' \<notin> set s \<Longrightarrow> CHR ''}'' \<notin> set s \<Longrightarrow> encodeBraces s = s"
  by (induction s) (auto simp: encodeBraces_def)

lemma placeholder_decode:
  "s \<in> set PLACEHOLDER_LITERALS \<Longrightarrow> safeDecodeSegment (encodeBraces s) = Some s"
  "s \<in> set PLACEHOLDER_LITERALS \<Longrightarrow> encodeBraces s \<noteq> [] \<and> CHR ''/'' \<notin> set (encodeBraces s)"
proof -
  have "safeDecodeSegment (encodeBraces ''{:num}'') = Some ''{:num}''"
    "safeDecodeSegment (encodeBraces ''{:uuid}'') = Some ''{:uuid}''"
    "safeDecodeSegment (encodeBraces ''{:hex}'') = Some ''{:hex}''"
    by code_simp+
  then show "s \<in> set PLACEHOLDER_LITERALS \<Longrightarrow> safeDecodeSegment (encodeBraces s) = Some s"
    by (auto simp: PLACEHOLDER_LITERALS_def)
qed (auto simp: PLACEHOLDER_LITERALS_def encodeBraces_def)

lemma templateSegment_cases:
  "templateSegment raw = raw \<or> templateSegment raw \<in> set PLACEHOLDER_LITERALS"
  by (auto simp: templateSegment_def classifySegment_def PLACEHOLDER_LITERALS_def Let_def)

lemma classify_placeholder:
  "s \<in> set PLACEHOLDER_LITERALS \<Longrightarrow> classifySegment s = s"
proof -
  have "\<not> isHex CHR ''{'' \<and> \<not> isDigit CHR ''{''" by code_simp
  then have "\<not> UUID_RE (CHR ''{'' # s) \<and> \<not> NUMERIC_RE (CHR ''{'' # s) \<and> \<not> HEX_LONG_RE (CHR ''{'' # s)" for s
    by (auto simp: UUID_RE_def NUMERIC_RE_def HEX_LONG_RE_def split: list.splits)
  then show "s \<in> set PLACEHOLDER_LITERALS \<Longrightarrow> classifySegment s = s"
    by (auto simp: PLACEHOLDER_LITERALS_def classifySegment_def)
qed

text \<open>A segment that does not decode holds a percent sign, so no class takes it.\<close>

lemma decode_no_percent:
  assumes "CHR ''%'' \<notin> set s"
  shows "safeDecodeSegment s = Some s"
proof -
  have p: "pctTokens s = Some (map Lit s)" using assms by (induction s) auto
  have "utf8Tokens (map Lit s) = Some s" by (induction s) auto
  with p show ?thesis by (simp add: safeDecodeSegment_def decodeURIComponent_def)
qed

lemma splitOn_cover: "x \<in> set s \<Longrightarrow> x = c \<or> (\<exists>p \<in> set (splitOn c s). x \<in> set p)"
proof (induction s)
  case (Cons d s)
  obtain q qs where "splitOn c s = q # qs" using splitOn_nonempty neq_Nil_conv by metis
  with Cons show ?case by (cases "d = c") auto
qed simp

lemma classify_hex_chars:
  assumes "classifySegment s \<noteq> s"
  shows "CHR ''%'' \<notin> set s"
proof
  assume pc: "CHR ''%'' \<in> set s"
  have no: "\<not> isHex CHR ''%''" "\<not> isDigit CHR ''%''" by code_simp+
  have "\<not> NUMERIC_RE s" "\<not> HEX_LONG_RE s"
    using pc no by (auto simp: NUMERIC_RE_def HEX_LONG_RE_def list_all_iff)
  moreover have "\<not> UUID_RE s"
    using splitOn_cover [OF pc, of "CHR ''-''"] no by (auto simp: UUID_RE_def list_all_iff)
  ultimately show False using assms by (simp add: classifySegment_def)
qed

text \<open>What a template segment decodes to: the class of the decoded segment.\<close>

lemma classify_cases: "classifySegment d = d \<or> classifySegment d \<in> set PLACEHOLDER_LITERALS"
  by (auto simp: classifySegment_def PLACEHOLDER_LITERALS_def)

lemma decode_templateSegment:
  assumes "CHR ''{'' \<notin> set raw" "CHR ''}'' \<notin> set raw"
  shows "safeDecodeSegment (encodeBraces (templateSegment raw)) =
    map_option classifySegment (safeDecodeSegment raw)"
proof (cases "safeDecodeSegment raw")
  case None
  then have "classifySegment raw = raw"
    using classify_hex_chars [of raw] decode_no_percent [of raw] by fastforce
  with None show ?thesis
    using assms by (simp add: templateSegment_def decodeOrRaw_def Let_def encodeBraces_id)
next
  case (Some d)
  then show ?thesis
    using assms classify_cases [of d] placeholder_decode(1) [of "classifySegment d"]
    by (cases "classifySegment d = d")
      (simp_all add: templateSegment_def decodeOrRaw_def Let_def encodeBraces_id)
qed

text \<open>Two segments of the same shape: of the same class, or the same text when the first has none.\<close>

definition sameShape :: "string \<Rightarrow> string \<Rightarrow> bool" where
  "sameShape d e =
    (if UUID_RE d then UUID_RE e else if NUMERIC_RE d then NUMERIC_RE e
     else if HEX_LONG_RE d then HEX_LONG_RE e else e = d)"

lemma segmentMatches_classify:
  "d \<notin> set PLACEHOLDER_LITERALS \<Longrightarrow> segmentMatches (classifySegment d) e = sameShape d e"
  by (auto simp: sameShape_def classifySegment_def segmentMatches_def PLACEHOLDER_LITERALS_def)

lemma map_Some_the: "None \<notin> set xs \<Longrightarrow> xs = map Some (map the xs)"
proof (induction xs)
  case (Cons x xs)
  then show ?case by (cases x) auto
qed simp

lemma map_option_all:
  "map (map_option g) (map h xs) = map Some cs \<longleftrightarrow> (\<exists>ds. map h xs = map Some ds \<and> cs = map g ds)"
proof (induction xs arbitrary: cs)
  case (Cons x xs)
  show ?case
  proof (cases cs)
    case (Cons c cs')
    then show ?thesis using Cons.IH [of cs'] by (auto simp: Cons_eq_map_conv map_eq_Cons_conv)
  qed auto
qed auto

lemma decoded_match:
  "None \<notin> set us \<and> None \<notin> set ts \<and> length us = length ts \<and>
    list_all2 (\<lambda>x y. M (the x) (the y)) ts us \<longleftrightarrow>
    (\<exists>es cs. us = map Some es \<and> ts = map Some cs \<and> list_all2 M cs es)" (is "?l = ?r")
proof
  assume l: ?l
  then have "us = map Some (map the us)" "ts = map Some (map the ts)"
    using map_Some_the by blast+
  moreover have "list_all2 M (map the ts) (map the us)"
    using l by (simp add: list_all2_map1 list_all2_map2)
  ultimately show ?r by blast
next
  assume ?r
  then show ?l by (auto simp: list_all2_map1 list_all2_map2 dest: list_all2_lengthD)
qed

definition sameHost :: "url \<Rightarrow> url \<Rightarrow> bool" where
  "sameHost u v = (hostWithPort (toLowerCase (hostname u)) (port u) =
     hostWithPort (toLowerCase (hostname v)) (port v))"

text \<open>Matching of two parsed URLs, over the decoded segments.\<close>

definition urlsMatch :: "url \<Rightarrow> url \<Rightarrow> bool" where
  "urlsMatch v t = (protocol v = protocol t \<and> sameHost v t \<and>
     (\<exists>es cs. map safeDecodeSegment (segmentsOf (pathname v)) = map Some es \<and>
       map safeDecodeSegment (segmentsOf (pathname t)) = map Some cs \<and> list_all2 segmentMatches cs es))"

lemma urlMatchesTemplate_parsed:
  "urlMatchesTemplate parse raw t \<longleftrightarrow>
    (\<exists>v w. parse raw = Some v \<and> parse t = Some w \<and> urlsMatch v w)"
proof (cases "\<exists>v w. parse raw = Some v \<and> parse t = Some w")
  case True
  then obtain v w where vw: "parse raw = Some v" "parse t = Some w" by blast
  let ?us = "map safeDecodeSegment (segmentsOf (pathname v))"
  let ?ts = "map safeDecodeSegment (segmentsOf (pathname w))"
  have eq: "urlMatchesTemplate parse raw t \<longleftrightarrow>
      protocol v = protocol w \<and> sameHost v w \<and> None \<notin> set ?us \<and> None \<notin> set ?ts \<and>
      length ?us = length ?ts \<and> list_all2 (\<lambda>x y. segmentMatches (the x) (the y)) ?ts ?us"
    using vw by (simp add: urlMatchesTemplate_def sameHost_def Let_def del: set_map)
  have "None \<notin> set ?us \<and> None \<notin> set ?ts \<and> length ?us = length ?ts \<and>
      list_all2 (\<lambda>x y. segmentMatches (the x) (the y)) ?ts ?us \<longleftrightarrow>
      (\<exists>es cs. ?us = map Some es \<and> ?ts = map Some cs \<and> list_all2 segmentMatches cs es)"
    by (rule decoded_match)
  then show ?thesis unfolding eq using vw by (simp add: urlsMatch_def del: set_map)
qed (auto simp: urlMatchesTemplate_def split: option.splits)

context url_api
begin

text \<open>The template of a URL parses to that URL with the template segments.\<close>

lemma parse_template:
  assumes "parse raw = Some u" "webProtocol (protocol u)" "derivePathTemplate parse raw = Inr t"
  shows "parse t = Some (u\<lparr>pathname :=
    ''/'' @ join ''/'' (map (\<lambda>s. encodeBraces (templateSegment s)) (segmentsOf (pathname u)))\<rparr>)"
proof -
  have t: "t = renderTemplate u (map templateSegment (segmentsOf (pathname u)))"
    using assms by (simp add: derivePathTemplate_def Let_def split: option.splits)
  have "parse t = Some (u\<lparr>pathname := ''/'' @ join ''/''
      (map encodeBraces (map templateSegment (segmentsOf (pathname u))))\<rparr>)"
    unfolding t
  proof (rule reparse [OF assms(1,2)])
    fix s assume "s \<in> set (map templateSegment (segmentsOf (pathname u)))"
    then obtain x where "s = templateSegment x" "x \<in> set (segmentsOf (pathname u))" by auto
    then show "s \<in> set (segmentsOf (pathname u)) \<or> s \<in> set PLACEHOLDER_LITERALS"
      using templateSegment_cases [of x] by auto
  qed
  then show ?thesis by (simp add: comp_def)
qed

lemma template_segments:
  assumes "parse raw = Some u" "webProtocol (protocol u)"
  shows "segmentsOf (''/'' @ join ''/''
      (map (\<lambda>s. encodeBraces (templateSegment s)) (segmentsOf (pathname u)))) =
    map (\<lambda>s. encodeBraces (templateSegment s)) (segmentsOf (pathname u))"
proof (rule segmentsOf_slash)
  fix x assume "x \<in> set (map (\<lambda>s. encodeBraces (templateSegment s)) (segmentsOf (pathname u)))"
  then obtain s where s: "s \<in> set (segmentsOf (pathname u))" "x = encodeBraces (templateSegment s)"
    by auto
  then have "encodeBraces s = s" "s \<noteq> []" "CHR ''/'' \<notin> set s"
    using segmentsOf_in [OF s(1)] no_braces [OF assms] by (auto intro: encodeBraces_id)
  then show "x \<noteq> [] \<and> CHR ''/'' \<notin> set x"
    using templateSegment_cases [of s] placeholder_decode(2) s(2) by metis
qed

lemma match_derived:
  assumes "parse raw = Some u" "webProtocol (protocol u)" "derivePathTemplate parse raw = Inr t"
  shows "urlMatchesTemplate parse raw' t \<longleftrightarrow>
    (\<exists>v ds es. parse raw' = Some v \<and> protocol v = protocol u \<and> sameHost v u \<and>
      map safeDecodeSegment (segmentsOf (pathname u)) = map Some ds \<and>
      map safeDecodeSegment (segmentsOf (pathname v)) = map Some es \<and> list_all2 sameShape ds es)"
proof -
  let ?segs = "segmentsOf (pathname u)"
  have dec: "map safeDecodeSegment (map (\<lambda>s. encodeBraces (templateSegment s)) ?segs) =
      map (map_option classifySegment) (map safeDecodeSegment ?segs)"
    using no_braces [OF assms(1,2)] segmentsOf_in [of _ "pathname u"]
    by (auto intro!: decode_templateSegment)
  have fresh: "safeDecodeSegment s = Some d \<Longrightarrow> d \<notin> set PLACEHOLDER_LITERALS" if "s \<in> set ?segs" for s d
    using assms that by (auto simp: derivePathTemplate_def Let_def find_None_iff decodeOrRaw_def
        split: option.splits)
  have cls: "map (map_option classifySegment) (map safeDecodeSegment ?segs) = map Some cs \<longleftrightarrow>
      (\<exists>ds. map safeDecodeSegment ?segs = map Some ds \<and> cs = map classifySegment ds)" for cs
    by (rule map_option_all)
  have shape: "list_all2 segmentMatches (map classifySegment ds) es = list_all2 sameShape ds es"
    if "map safeDecodeSegment ?segs = map Some ds" for ds es
  proof -
    have "d \<notin> set PLACEHOLDER_LITERALS" if "d \<in> set ds" for d
    proof -
      have "Some d \<in> set (map safeDecodeSegment ?segs)" using \<open>map _ ?segs = _\<close> that by simp
      then show ?thesis using fresh by auto
    qed
    then show ?thesis
      by (simp add: list_all2_map1 segmentMatches_classify list_all2_conv_all_nth)
  qed
  let ?w = "u\<lparr>pathname := ''/'' @ join ''/'' (map (\<lambda>s. encodeBraces (templateSegment s)) ?segs)\<rparr>"
  have w: "map safeDecodeSegment (segmentsOf (pathname ?w)) =
      map (map_option classifySegment) (map safeDecodeSegment ?segs)"
    using dec template_segments [OF assms(1,2)] by simp
  have host: "sameHost v ?w = sameHost v u" "protocol ?w = protocol u" for v
    by (simp_all add: sameHost_def)
  have "urlsMatch v ?w \<longleftrightarrow> protocol v = protocol u \<and> sameHost v u \<and>
      (\<exists>ds es. map safeDecodeSegment ?segs = map Some ds \<and>
        map safeDecodeSegment (segmentsOf (pathname v)) = map Some es \<and> list_all2 sameShape ds es)" for v
    unfolding urlsMatch_def w cls host using shape by blast
  then show ?thesis
    unfolding urlMatchesTemplate_parsed parse_template [OF assms] by blast
qed

end

section \<open>A parser that meets the interface\<close>

text \<open>
  The part of the WHATWG parser that a request to a named host over one of the web schemes uses:
  a lower-case host ending in a letter, no user, no port, a path of URL characters without dot
  segments, a query and a fragment that are dropped. Every other string is refused. It shows that
  the interface has a model and gives the concrete inputs of the properties.
\<close>

definition hostChar :: "char \<Rightarrow> bool" where
  "hostChar c = (let n = (of_char c :: nat) in (97 \<le> n \<and> n \<le> 122) \<or> (48 \<le> n \<and> n \<le> 57) \<or> n = 45 \<or> n = 46)"

definition hostOk :: "string \<Rightarrow> bool" where
  "hostOk h = (h \<noteq> [] \<and> list_all hostChar h \<and> \<not> isDigit (last h) \<and> last h \<noteq> CHR ''.'')"

definition pathChar :: "char \<Rightarrow> bool" where
  "pathChar c = (let n = (of_char c :: nat) in 33 \<le> n \<and> n \<le> 126 \<and> n \<notin> {34, 35, 60, 62, 63, 92, 94, 96})"

definition dotSegment :: "string \<Rightarrow> bool" where
  "dotSegment s = (toLowerCase s \<in> {''.'', ''..'', ''%2e'', ''.%2e'', ''%2e.'', ''%2e%2e''})"

definition parsePath :: "string \<Rightarrow> string option" where
  "parsePath s = (let p = takeWhile (\<lambda>c. c \<noteq> CHR ''?'' \<and> c \<noteq> CHR ''#'') s;
       q = encodeBraces (if p = [] then ''/'' else p) in
     if list_all pathChar q \<and> list_all (\<lambda>x. \<not> dotSegment x) (splitOn CHR ''/'' q) then Some q else None)"

definition hostEnd :: "char \<Rightarrow> bool" where
  "hostEnd c = (c = CHR ''/'' \<or> c = CHR ''?'' \<or> c = CHR ''#'')"

definition parseRest :: "string \<Rightarrow> string \<Rightarrow> url option" where
  "parseRest proto s = (let h = takeWhile (\<lambda>c. \<not> hostEnd c) s in
     if hostOk h then map_option (\<lambda>q. \<lparr>protocol = proto, hostname = h, port = [], pathname = q\<rparr>)
       (parsePath (drop (length h) s))
     else None)"

definition httpParse :: "string \<Rightarrow> url option" where
  "httpParse s =
    (if startsWith s ''http://'' then parseRest ''http:'' (drop 7 s)
     else if startsWith s ''https://'' then parseRest ''https:'' (drop 8 s)
     else None)"

lemma encodeBraces_append [simp]: "encodeBraces (a @ b) = encodeBraces a @ encodeBraces b"
  by (simp add: encodeBraces_def)

lemma encodeBraces_clean: "CHR ''{'' \<notin> set (encodeBraces s) \<and> CHR ''}'' \<notin> set (encodeBraces s)"
  by (induction s) (auto simp: encodeBraces_def)

lemma encodeBraces_join: "encodeBraces (join ''/'' xs) = join ''/'' (map encodeBraces xs)"
  by (induction "''/''" xs rule: join.induct) (simp_all add: encodeBraces_def)

lemma parsePathD:
  "parsePath s = Some q \<Longrightarrow> list_all pathChar q \<and> (\<forall>x \<in> set (splitOn CHR ''/'' q). \<not> dotSegment x) \<and>
    (\<exists>p. q = encodeBraces p)"
  by (auto simp: parsePath_def Let_def list_all_iff split: if_splits)

lemma placeholder_path:
  "s \<in> set PLACEHOLDER_LITERALS \<Longrightarrow> list_all pathChar (encodeBraces s) \<and> \<not> dotSegment (encodeBraces s) \<and>
    CHR ''?'' \<notin> set s \<and> CHR ''#'' \<notin> set s"
proof -
  have "list_all (\<lambda>s. list_all pathChar (encodeBraces s) \<and> \<not> dotSegment (encodeBraces s) \<and>
      CHR ''?'' \<notin> set s \<and> CHR ''#'' \<notin> set s) PLACEHOLDER_LITERALS"
    by code_simp
  then show "s \<in> set PLACEHOLDER_LITERALS \<Longrightarrow> ?thesis" by (simp add: list_all_iff)
qed

text \<open>A path made of the segments of a parsed path and placeholders parses to itself, encoded.\<close>

lemma parsePath_segments:
  assumes "parsePath p = Some q"
    "\<And>s. s \<in> set segs \<Longrightarrow> s \<in> set (segmentsOf q) \<or> s \<in> set PLACEHOLDER_LITERALS"
  shows "parsePath (''/'' @ join ''/'' segs) = Some (''/'' @ join ''/'' (map encodeBraces segs))"
proof -
  let ?t = "''/'' @ join ''/'' segs"
  have q: "list_all pathChar q" "\<And>x. x \<in> set (splitOn CHR ''/'' q) \<Longrightarrow> \<not> dotSegment x"
      "\<exists>p. q = encodeBraces p"
    using parsePathD [OF assms(1)] by auto
  have sl: "pathChar CHR ''/''" "\<not> pathChar CHR ''?''" "\<not> pathChar CHR ''#''" "\<not> dotSegment []"
    by code_simp+
  have seg: "list_all pathChar (encodeBraces s) \<and> \<not> dotSegment (encodeBraces s) \<and>
      CHR ''?'' \<notin> set s \<and> CHR ''#'' \<notin> set s \<and> CHR ''/'' \<notin> set (encodeBraces s)"
    if "s \<in> set segs" for s
  proof (cases "s \<in> set PLACEHOLDER_LITERALS")
    case False
    then have s: "s \<in> set (segmentsOf q)" using assms(2) that by blast
    have sub: "set s \<subseteq> set q" "CHR ''/'' \<notin> set s" using segmentsOf_in [OF s] by auto
    then have "CHR ''{'' \<notin> set s" "CHR ''}'' \<notin> set s" using q(3) encodeBraces_clean by blast+
    then have "encodeBraces s = s" by (rule encodeBraces_id)
    moreover have "list_all pathChar s" using q(1) sub by (auto simp: list_all_iff)
    moreover have "\<not> dotSegment s" using s q(2) by (simp add: segmentsOf_def)
    ultimately show ?thesis using sub sl by (auto simp: list_all_iff)
  next
    case True
    then show ?thesis using placeholder_path placeholder_decode(2) by blast
  qed
  have "set ?t \<subseteq> insert CHR ''/'' (\<Union> (set ` set segs))"
    using set_join [of "''/''" segs] by auto
  then have "\<forall>c \<in> set ?t. c \<noteq> CHR ''?'' \<and> c \<noteq> CHR ''#''" using seg by fastforce
  then have tw: "takeWhile (\<lambda>c. c \<noteq> CHR ''?'' \<and> c \<noteq> CHR ''#'') ?t = ?t"
    by (subst takeWhile_eq_all_conv) blast
  have enc: "encodeBraces ?t = CHR ''/'' # join ''/'' (map encodeBraces segs)"
    using encodeBraces_join [of segs] by (simp add: encodeBraces_def)
  have chars: "list_all pathChar (encodeBraces ?t)"
    unfolding enc using set_join [of "''/''" "map encodeBraces segs"] seg sl
    by (fastforce simp: list_all_iff)
  have "splitOn CHR ''/'' (encodeBraces ?t) =
      [] # (if segs = [] then [[]] else map encodeBraces segs)"
  proof (cases "segs = []")
    case False
    then have "splitOn CHR ''/'' (join ''/'' (map encodeBraces segs)) = map encodeBraces segs"
      using seg by (intro splitOn_join) auto
    then show ?thesis unfolding enc using False by simp
  qed (simp add: encodeBraces_def)
  then have "list_all (\<lambda>x. \<not> dotSegment x) (splitOn CHR ''/'' (encodeBraces ?t))"
    using seg sl by (auto simp: list_all_iff)
  then show ?thesis unfolding parsePath_def Let_def tw using chars enc by simp
qed

lemma hostChar_not_end: "hostChar c \<Longrightarrow> \<not> hostEnd c"
  by (auto simp: hostChar_def hostEnd_def Let_def)

lemma parseRest_template:
  assumes "hostOk h" "parsePath p = Some q"
    "\<And>s. s \<in> set segs \<Longrightarrow> s \<in> set (segmentsOf q) \<or> s \<in> set PLACEHOLDER_LITERALS"
  shows "parseRest proto (h @ ''/'' @ join ''/'' segs) =
    Some \<lparr>protocol = proto, hostname = h, port = [],
      pathname = ''/'' @ join ''/'' (map encodeBraces segs)\<rparr>"
proof -
  have "\<forall>c \<in> set h. \<not> hostEnd c" using assms(1) hostChar_not_end by (auto simp: hostOk_def list_all_iff)
  then have "takeWhile (\<lambda>c. \<not> hostEnd c) (h @ CHR ''/'' # join ''/'' segs) = h"
    by (simp add: takeWhile_append2 hostEnd_def)
  then show ?thesis
    using parsePath_segments [OF assms(2,3)] assms(1) by (simp add: parseRest_def Let_def)
qed

lemma parseRestD:
  "parseRest proto s = Some u \<Longrightarrow> hostOk (hostname u) \<and> protocol u = proto \<and> port u = [] \<and>
    (\<exists>p. parsePath p = Some (pathname u))"
  by (auto simp: parseRest_def Let_def split: if_splits)

lemma httpParseD:
  "httpParse s = Some u \<Longrightarrow> webProtocol (protocol u) \<and> hostOk (hostname u) \<and> port u = [] \<and>
    (\<exists>p. parsePath p = Some (pathname u))"
  by (auto simp: httpParse_def webProtocol_def dest: parseRestD split: if_splits)

lemma renderTemplate_eq:
  "renderTemplate u segs = stripColon (protocol u) @ ''://'' @ hostWithPort (hostname u) (port u) @
    ''/'' @ join ''/'' segs"
  by (simp add: renderTemplate_def)

lemma startsWith_append [simp]: "startsWith (p @ s) p"
  by (simp add: startsWith_def)

interpretation httpUrl: url_api httpParse
proof unfold_locales
  fix raw u assume "httpParse raw = Some u" "webProtocol (protocol u)"
  then obtain p where "parsePath p = Some (pathname u)" using httpParseD by blast
  then show "CHR ''{'' \<notin> set (pathname u) \<and> CHR ''}'' \<notin> set (pathname u)"
    using parsePathD [of p "pathname u"] encodeBraces_clean by metis
next
  fix raw u segs
  assume u: "httpParse raw = Some u" and web: "webProtocol (protocol u)"
    and segs: "\<And>s. s \<in> set segs \<Longrightarrow> s \<in> set (segmentsOf (pathname u)) \<or> s \<in> set PLACEHOLDER_LITERALS"
  obtain p where p: "parsePath p = Some (pathname u)" and h: "hostOk (hostname u)" "port u = []"
    using httpParseD [OF u] by blast
  note r = parseRest_template [OF h(1) p segs]
  from web consider "protocol u = ''http:''" | "protocol u = ''https:''" by (auto simp: webProtocol_def)
  then show "httpParse (renderTemplate u segs) =
      Some (u\<lparr>pathname := ''/'' @ join ''/'' (map encodeBraces segs)\<rparr>)"
    using r [where proto = "protocol u"] h(2)
    by cases (cases u; simp add: renderTemplate_eq hostWithPort_def stripColon_def httpParse_def
        startsWith_def)+
qed

section \<open>Properties\<close>

text \<open>C33: A template approved for one URL covers exactly the URLs of the same scheme, host and port whose
  decoded path has the same number of segments, each equal to the approved segment or of the same
  dynamic class: it never widens to a host or to a longer path, it covers its own URL, and a segment
  with a malformed escape makes it cover nothing.\<close>

theorem derived_template_exact:
  assumes "url_api parse" "parse raw = Some u" "webProtocol (protocol u)"
    "derivePathTemplate parse raw = Inr t"
  shows "urlMatchesTemplate parse raw' t \<longleftrightarrow>
    (\<exists>v ds es. parse raw' = Some v \<and> protocol v = protocol u \<and> sameHost v u \<and>
      map safeDecodeSegment (segmentsOf (pathname u)) = map Some ds \<and>
      map safeDecodeSegment (segmentsOf (pathname v)) = map Some es \<and> list_all2 sameShape ds es)"
  using assms by (rule url_api.match_derived)

definition ex_url :: url where
  "ex_url = \<lparr>protocol = ''https:'', hostname = ''api.a.com'', port = [], pathname = ''/users/42''\<rparr>"

lemma ex_url_parsed: "httpParse ''https://api.a.com/users/42?x=1'' = Some ex_url"
  "derivePathTemplate httpParse ''https://api.a.com/users/42?x=1'' = Inr ''https://api.a.com/users/{:num}''"
  by code_simp+

theorem derived_template_exact_witness:
  "urlMatchesTemplate httpParse ''https://api.a.com/users/7'' ''https://api.a.com/users/{:num}'' \<longleftrightarrow>
    (\<exists>v ds es. httpParse ''https://api.a.com/users/7'' = Some v \<and> protocol v = protocol ex_url \<and>
      sameHost v ex_url \<and>
      map safeDecodeSegment (segmentsOf (pathname ex_url)) = map Some ds \<and>
      map safeDecodeSegment (segmentsOf (pathname v)) = map Some es \<and> list_all2 sameShape ds es)"
proof -
  have "webProtocol (protocol ex_url)" by (simp add: ex_url_def webProtocol_def)
  then show ?thesis
    by (rule derived_template_exact [OF httpUrl.url_api_axioms ex_url_parsed(1) _ ex_url_parsed(2)])
qed

text \<open>A URL that smuggles a placeholder in percent-encoding gets no template: derivation succeeds
  exactly when the URL parses and no decoded segment is a placeholder literal.\<close>

theorem spoofed_placeholder_refused:
  "(\<exists>t. derivePathTemplate parse raw = Inr t) \<longleftrightarrow>
    (\<exists>u. parse raw = Some u \<and>
      set (map decodeOrRaw (segmentsOf (pathname u))) \<inter> set PLACEHOLDER_LITERALS = {})"
  by (auto simp: derivePathTemplate_def Let_def find_None_iff find_Some_iff disjoint_iff
      split: option.splits)

end
