(* ===== verification/HttpPolicy.thy ===== *)
theory HttpPolicy
  imports Proposals GrantStores TempGrants PathTemplate
begin

text \<open>
  The HTTP policy of the credential execution service and the RPC handlers that record, list and
  revoke grants (\<open>credential-executor/src/http/policy.ts\<close>, \<open>grants/rpc-handlers.ts\<close>). The service
  state is the persistent store and the temporary store; the URL parser \<open>parse\<close> and the digest
  \<open>sha256\<close> are parameters, and the clock an argument. An exception is the left side of the sum. Time
  stamps of the wire records stay in milliseconds instead of ISO text.
\<close>

section \<open>Forbidden headers\<close>

definition FORBIDDEN_CALLER_HEADERS :: "string list" where
  "FORBIDDEN_CALLER_HEADERS =
    [''authorization'', ''cookie'', ''proxy-authorization'', ''x-api-key'', ''x-auth-token'']"

definition detectForbiddenHeaders :: "(string \<times> string) list option \<Rightarrow> string list" where
  "detectForbiddenHeaders headers =
    (case headers of None \<Rightarrow> []
     | Some hs \<Rightarrow> filter (\<lambda>key. toLowerCase key \<in> set FORBIDDEN_CALLER_HEADERS) (map fst hs))"

section \<open>Policy evaluation\<close>

datatype grantSource = SourcePersistent | SourceTemporary

datatype policyResult =
    Allowed string grantSource
  | ForbiddenHeaders "string list"
  | ApprovalRequired httpGrantProposal

datatype policyError = StoreFailed storeError | TemplateFailed templateError

record httpPolicyRequest =
  rqCredentialHandle :: string
  rqMethod :: string
  rqUrl :: string
  rqHeaders :: "(string \<times> string) list option"
  rqPurpose :: string
  rqGrantId :: "string option"
  rqConversationId :: "string option"

record cesState =
  persistent :: grantStore
  temporary :: tempStore

definition grantCoversRequest ::
  "(string \<Rightarrow> url option) \<Rightarrow> persistentGrant \<Rightarrow> string \<Rightarrow> string \<Rightarrow> string \<Rightarrow> bool" where
  "grantCoversRequest parse g handle meth rawUrl =
    (if gScope g \<noteq> handle then False
     else (case indexOf CHR '' '' (gPattern g) of
        None \<Rightarrow> urlMatchesTemplate parse rawUrl (gPattern g)
      | Some i \<Rightarrow>
          if toUpperCase (take i (gPattern g)) \<noteq> toUpperCase meth then False
          else urlMatchesTemplate parse rawUrl (drop (i + 1) (gPattern g))))"

definition buildProposal :: "(string \<Rightarrow> url option) \<Rightarrow> httpPolicyRequest \<Rightarrow> templateError + httpGrantProposal" where
  "buildProposal parse rq =
    (case deriveAllowedUrlPatterns parse (rqUrl rq) of
       Inl e \<Rightarrow> Inl e
     | Inr ps \<Rightarrow> Inr \<lparr>hpCredentialHandle = rqCredentialHandle rq, hpMethod = toUpperCase (rqMethod rq),
         hpUrl = rqUrl rq, hpPurpose = rqPurpose rq, hpAllowedUrlPatterns = Some ps\<rparr>)"

definition httpGrantCovers :: "(string \<Rightarrow> url option) \<Rightarrow> httpPolicyRequest \<Rightarrow> persistentGrant \<Rightarrow> bool" where
  "httpGrantCovers parse rq g = (gTool g = ''http'' \<and>
     grantCoversRequest parse g (rqCredentialHandle rq) (rqMethod rq) (rqUrl rq))"

text \<open>Step 2: the explicit grant id.\<close>

definition explicitGrant ::
  "(string \<Rightarrow> url option) \<Rightarrow> httpPolicyRequest \<Rightarrow> grantStore \<Rightarrow> (storeError + persistentGrant option) \<times> grantStore" where
  "explicitGrant parse rq st =
    (if truthy (rqGrantId rq) then
       (case getById (orDefault (rqGrantId rq) []) st of
          (Inl e, st') \<Rightarrow> (Inl e, st')
        | (Inr (Some g), st') \<Rightarrow> (Inr (if httpGrantCovers parse rq g then Some g else None), st')
        | (Inr None, st') \<Rightarrow> (Inr None, st'))
     else (Inr None, st))"

text \<open>Steps 4 and 5: the temporary grants, then the proposal.\<close>

definition temporaryPhase ::
  "(string \<Rightarrow> string) \<Rightarrow> httpPolicyRequest \<Rightarrow> httpGrantProposal \<Rightarrow> millis \<Rightarrow> cesState \<Rightarrow>
    (policyError + policyResult) \<times> cesState" where
  "temporaryPhase sha256 rq p now st =
    (case tempCheckAny (hashProposal sha256 (HttpProposal p)) (rqConversationId rq) now (temporary st) of
       (Some k, ts) \<Rightarrow>
         (Inr (Allowed (''temp:'' @ kindName k @ '':'' @ hashProposal sha256 (HttpProposal p)) SourceTemporary),
          st\<lparr>temporary := ts\<rparr>)
     | (None, ts) \<Rightarrow> (Inr (ApprovalRequired p), st\<lparr>temporary := ts\<rparr>))"

text \<open>Steps 3 to 5.\<close>

definition patternPhase ::
  "(string \<Rightarrow> url option) \<Rightarrow> (string \<Rightarrow> string) \<Rightarrow> httpPolicyRequest \<Rightarrow> millis \<Rightarrow> cesState \<Rightarrow>
    (policyError + policyResult) \<times> cesState" where
  "patternPhase parse sha256 rq now st =
    (case derivePathTemplate parse (rqUrl rq) of
       Inl e \<Rightarrow> (Inl (TemplateFailed e), st)
     | Inr t \<Rightarrow>
        (case getAll (persistent st) of
           (Inl e, ps) \<Rightarrow> (Inl (StoreFailed e), st\<lparr>persistent := ps\<rparr>)
         | (Inr gs, ps) \<Rightarrow>
            (case find (httpGrantCovers parse rq) gs of
               Some g \<Rightarrow> (Inr (Allowed (gId g) SourcePersistent), st\<lparr>persistent := ps\<rparr>)
             | None \<Rightarrow>
                (case buildProposal parse rq of
                   Inl e \<Rightarrow> (Inl (TemplateFailed e), st\<lparr>persistent := ps\<rparr>)
                 | Inr p \<Rightarrow> temporaryPhase sha256 rq p now (st\<lparr>persistent := ps\<rparr>)))))"

definition evaluateHttpPolicy ::
  "(string \<Rightarrow> url option) \<Rightarrow> (string \<Rightarrow> string) \<Rightarrow> httpPolicyRequest \<Rightarrow> millis \<Rightarrow> cesState \<Rightarrow>
    (policyError + policyResult) \<times> cesState" where
  "evaluateHttpPolicy parse sha256 rq now st =
    (if 0 < length (detectForbiddenHeaders (rqHeaders rq))
     then (Inr (ForbiddenHeaders (detectForbiddenHeaders (rqHeaders rq))), st)
     else (case explicitGrant parse rq (persistent st) of
        (Inl e, ps) \<Rightarrow> (Inl (StoreFailed e), st\<lparr>persistent := ps\<rparr>)
      | (Inr (Some g), ps) \<Rightarrow> (Inr (Allowed (gId g) SourcePersistent), st\<lparr>persistent := ps\<rparr>)
      | (Inr None, ps) \<Rightarrow> patternPhase parse sha256 rq now (st\<lparr>persistent := ps\<rparr>)))"

section \<open>The grant handlers\<close>

datatype grantDecision = GdApproved | GdDenied
datatype grantType = GtAllowOnce | GtAllow10m | GtAllowConversation | GtAlwaysAllow
datatype grantStatus = GsActive | GsExpired | GsRevoked | GsConsumed

record temporaryGrantDecision =
  dcProposal :: grantProposal
  dcProposalHash :: string
  dcDecision :: grantDecision
  dcDecidedBy :: string
  dcTtl :: "string option"
  dcGrantType :: "grantType option"

record recordGrant =
  rgDecision :: temporaryGrantDecision
  rgSessionId :: string
  rgConversationId :: "string option"

record grantRecord =
  grGrantId :: string
  grSessionId :: "string option"
  grCredentialHandle :: string
  grProposalType :: string
  grProposalHash :: string
  grAllowedPurposes :: "string list"
  grStatus :: grantStatus
  grGrantedBy :: string
  grCreatedAt :: millis
  grExpiresAt :: "millis option"
  grConsumedAt :: "millis option"
  grRevokedAt :: "millis option"

definition projectGrant :: "persistentGrant \<Rightarrow> grantRecord" where
  "projectGrant g =
    \<lparr>grGrantId = gId g, grSessionId = gSessionId g, grCredentialHandle = gScope g,
     grProposalType = (if gTool g = ''http'' \<or> gTool g = ''command'' then gTool g else ''command''),
     grProposalHash = gId g, grAllowedPurposes = [gPattern g],
     grStatus = (if gRevokedAt g \<noteq> None then GsRevoked else GsActive), grGrantedBy = ''user'',
     grCreatedAt = gCreatedAt g, grExpiresAt = None, grConsumedAt = None, grRevokedAt = gRevokedAt g\<rparr>"

fun firstPattern :: "string list option \<Rightarrow> string option" where
  "firstPattern (Some (x # xs)) = Some x"
| "firstPattern _ = None"

fun proposalPattern :: "grantProposal \<Rightarrow> string" where
  "proposalPattern (HttpProposal p) =
     hpMethod p @ '' '' @ orDefault (firstPattern (hpAllowedUrlPatterns p)) (hpUrl p)"
| "proposalPattern (CommandProposal p) = orDefault (firstPattern (cpAllowedCommandPatterns p)) (cpCommand p)"

fun proposalHandle :: "grantProposal \<Rightarrow> string" where
  "proposalHandle (HttpProposal p) = hpCredentialHandle p"
| "proposalHandle (CommandProposal p) = cpCredentialHandle p"

fun proposalTool :: "grantProposal \<Rightarrow> string" where
  "proposalTool (HttpProposal p) = ''http''"
| "proposalTool (CommandProposal p) = ''command''"

fun proposalPurposes :: "grantProposal \<Rightarrow> string list" where
  "proposalPurposes (HttpProposal p) =
     orDefault (hpAllowedUrlPatterns p) [hpMethod p @ '' '' @ hpUrl p]"
| "proposalPurposes (CommandProposal p) = orDefault (cpAllowedCommandPatterns p) [cpCommand p]"

datatype handlerError = HeStore storeError | HeTemp tempError

text \<open>The persistent grant of an \<open>always_allow\<close> decision.\<close>

definition persistentGrantOf :: "recordGrant \<Rightarrow> millis \<Rightarrow> persistentGrant" where
  "persistentGrantOf rg now = (let d = rgDecision rg in
    \<lparr>gId = dcProposalHash d, gTool = proposalTool (dcProposal d), gPattern = proposalPattern (dcProposal d),
     gScope = proposalHandle (dcProposal d), gCreatedAt = now, gSessionId = Some (rgSessionId rg),
     gRevokedAt = None, gRevokedReason = None\<rparr>)"

definition addTemporary :: "grantType \<Rightarrow> recordGrant \<Rightarrow> millis \<Rightarrow> tempStore \<Rightarrow> (tempError + unit) \<times> tempStore" where
  "addTemporary gt rg now ts = (let h = dcProposalHash (rgDecision rg) in
    (case gt of
       GtAllow10m \<Rightarrow> tempAdd Allow10m h None None now ts
     | GtAllowConversation \<Rightarrow>
         tempAdd AllowConversation h (Some (orDefault (rgConversationId rg) (rgSessionId rg))) None now ts
     | _ \<Rightarrow> tempAdd AllowOnce h None None now ts))"

definition grantRecordOf :: "recordGrant \<Rightarrow> millis \<Rightarrow> grantRecord" where
  "grantRecordOf rg now = (let d = rgDecision rg in
    \<lparr>grGrantId = dcProposalHash d, grSessionId = Some (rgSessionId rg),
     grCredentialHandle = proposalHandle (dcProposal d), grProposalType = proposalTool (dcProposal d),
     grProposalHash = dcProposalHash d, grAllowedPurposes = proposalPurposes (dcProposal d),
     grStatus = GsActive, grGrantedBy = dcDecidedBy d, grCreatedAt = now,
     grExpiresAt = (if dcTtl d = Some ''PT10M'' then Some (now + 10 * 60 * 1000) else None),
     grConsumedAt = None, grRevokedAt = None\<rparr>)"

definition recordGrantHandler ::
  "recordGrant \<Rightarrow> millis \<Rightarrow> cesState \<Rightarrow> (handlerError + grantRecord option) \<times> cesState" where
  "recordGrantHandler rg now st =
    (let gt = orDefault (dcGrantType (rgDecision rg)) GtAlwaysAllow in
     if dcDecision (rgDecision rg) = GdDenied then (Inr None, st)
     else
      (case (if gt = GtAlwaysAllow then addGrant (persistentGrantOf rg now) (persistent st)
             else (Inr False, persistent st)) of
         (Inl e, ps) \<Rightarrow> (Inl (HeStore e), st\<lparr>persistent := ps\<rparr>)
       | (Inr _, ps) \<Rightarrow>
          (case addTemporary gt rg now (temporary st) of
             (Inl e, ts) \<Rightarrow> (Inl (HeTemp e), \<lparr>persistent = ps, temporary = ts\<rparr>)
           | (Inr _, ts) \<Rightarrow> (Inr (Some (grantRecordOf rg now)), \<lparr>persistent = ps, temporary = ts\<rparr>))))"

definition listGrantsHandler ::
  "string option \<Rightarrow> string option \<Rightarrow> grantStatus option \<Rightarrow> cesState \<Rightarrow>
    (storeError + grantRecord list) \<times> cesState" where
  "listGrantsHandler sid handle stat st =
    (case getAllIncludingRevoked (persistent st) of
       (Inl e, ps) \<Rightarrow> (Inl e, st\<lparr>persistent := ps\<rparr>)
     | (Inr gs, ps) \<Rightarrow>
        (let r0 = map projectGrant gs;
             r1 = (if truthy sid then filter (\<lambda>g. grSessionId g = sid) r0 else r0);
             r2 = (if truthy handle then filter (\<lambda>g. Some (grCredentialHandle g) = handle) r1 else r1);
             r3 = (case stat of None \<Rightarrow> r2 | Some s \<Rightarrow> filter (\<lambda>g. grStatus g = s) r2) in
         (Inr r3, st\<lparr>persistent := ps\<rparr>)))"

datatype revokeResponse = RevokeOk | GrantNotFound

definition revokeGrantHandler ::
  "string \<Rightarrow> string option \<Rightarrow> millis \<Rightarrow> cesState \<Rightarrow> (storeError + revokeResponse) \<times> cesState" where
  "revokeGrantHandler i reason now st =
    (case markRevoked i reason now (persistent st) of
       (Inl e, ps) \<Rightarrow> (Inl e, st\<lparr>persistent := ps\<rparr>)
     | (Inr ok, ps) \<Rightarrow> (Inr (if ok then RevokeOk else GrantNotFound), st\<lparr>persistent := ps\<rparr>))"

section \<open>Well-formed states and grants in force\<close>

definition cesOk :: "cesState \<Rightarrow> bool" where
  "cesOk st = (healthy (persistent st) \<and> tempWf (temporary st))"

definition activeGrants :: "cesState \<Rightarrow> persistentGrant list" where
  "activeGrants st = filter (\<lambda>g. gRevokedAt g = None) (grantsOf (disk (persistent st)))"

definition tempGranted :: "tempStore \<Rightarrow> millis \<Rightarrow> string \<Rightarrow> string option \<Rightarrow> bool" where
  "tempGranted ts now h conv = (live ts now (onceKey h) \<or> live ts now (timedKey h) \<or>
     (truthy conv \<and> mapHas ts (convKey (orDefault conv []) h)))"

definition hashOf :: "(string \<Rightarrow> string) \<Rightarrow> httpGrantProposal \<Rightarrow> string" where
  "hashOf sha256 p = hashProposal sha256 (HttpProposal p)"

lemma cesOkD [simp]: "cesOk st \<Longrightarrow> healthy (persistent st)" "cesOk st \<Longrightarrow> tempWf (temporary st)"
  by (simp_all add: cesOk_def)

lemma activeOf_activeGrants:
  assumes "cesOk st"
  shows "activeOf (persistent st) i = Some g \<longleftrightarrow> g \<in> set (activeGrants st) \<and> gId g = i"
proof -
  let ?gs = "grantsOf (disk (persistent st))"
  have d: "distinct (map gId ?gs)" using assms by (simp add: healthy_distinct)
  have "byKey gId i ?gs = Some g \<longleftrightarrow> g \<in> set ?gs \<and> gId g = i"
    using byKey_in [OF d, of g] byKey_Some [of gId i ?gs g] by blast
  moreover have "activeOf (persistent st) i = Some g \<longleftrightarrow> byKey gId i ?gs = Some g \<and> gRevokedAt g = None"
    by (simp add: activeOf_def recordOf_def split: option.split) blast
  ultimately show ?thesis by (auto simp: activeGrants_def)
qed

lemma explicitGrant_ok:
  "cesOk st \<Longrightarrow> explicitGrant parse rq (persistent st) =
    (Inr (case rqGrantId rq of None \<Rightarrow> None
       | Some i \<Rightarrow> if i = [] then None else
           (case activeOf (persistent st) i of None \<Rightarrow> None
            | Some g \<Rightarrow> if httpGrantCovers parse rq g then Some g else None)),
     persistent st)"
  by (auto simp: explicitGrant_def getById_activeOf split: option.splits)

lemma tempCheckAny_granted:
  "tempWf ts \<Longrightarrow> fst (tempCheckAny h conv now ts) \<noteq> None \<longleftrightarrow> tempGranted ts now h conv"
  by (cases conv) (simp_all add: tempCheckAny_eq tempGranted_def)

lemma buildProposal_derive:
  "(\<exists>p. buildProposal parse rq = Inr p) \<longleftrightarrow> (\<exists>t. derivePathTemplate parse (rqUrl rq) = Inr t)"
  by (auto simp: buildProposal_def deriveAllowedUrlPatterns_def split: sum.splits)

lemma getAll_ok: "cesOk st \<Longrightarrow> getAll (persistent st) = (Inr (activeGrants st), persistent st)"
  by (simp add: healthy_load activeGrants_def)

text \<open>The phases after the explicit grant, on a well-formed state.\<close>

lemma patternPhase_ok:
  assumes "cesOk st"
  shows "patternPhase parse sha256 rq now st =
    (case derivePathTemplate parse (rqUrl rq) of Inl e \<Rightarrow> (Inl (TemplateFailed e), st)
     | Inr t \<Rightarrow>
       (case find (httpGrantCovers parse rq) (activeGrants st) of
          Some g \<Rightarrow> (Inr (Allowed (gId g) SourcePersistent), st)
        | None \<Rightarrow> (case buildProposal parse rq of Inl e \<Rightarrow> (Inl (TemplateFailed e), st)
            | Inr p \<Rightarrow> temporaryPhase sha256 rq p now st)))"
  using assms by (auto simp: patternPhase_def getAll_ok split: sum.splits option.splits)

lemma evaluate_ok:
  assumes "cesOk st" "detectForbiddenHeaders (rqHeaders rq) = []"
  shows "evaluateHttpPolicy parse sha256 rq now st =
    (case rqGrantId rq of None \<Rightarrow> patternPhase parse sha256 rq now st
     | Some i \<Rightarrow>
       if i = [] then patternPhase parse sha256 rq now st
       else (case activeOf (persistent st) i of
            None \<Rightarrow> patternPhase parse sha256 rq now st
          | Some g \<Rightarrow> if httpGrantCovers parse rq g
              then (Inr (Allowed (gId g) SourcePersistent), st)
              else patternPhase parse sha256 rq now st))"
  using assms
  by (auto simp: evaluateHttpPolicy_def explicitGrant_ok split: option.splits)

lemma temporaryPhase_allowed:
  assumes "tempWf (temporary st)"
  shows "(\<exists>i src. fst (temporaryPhase sha256 rq p now st) = Inr (Allowed i src)) \<longleftrightarrow>
    tempGranted (temporary st) now (hashOf sha256 p) (rqConversationId rq)"
proof -
  obtain r ts where r: "tempCheckAny (hashOf sha256 p) (rqConversationId rq) now (temporary st) = (r, ts)"
    by fastforce
  then show ?thesis
    using tempCheckAny_granted [OF assms, of "hashOf sha256 p" "rqConversationId rq" now]
    by (cases r) (simp_all add: temporaryPhase_def hashOf_def)
qed

lemma patternPhase_allowed:
  assumes "cesOk st"
  shows "(\<exists>i src. fst (patternPhase parse sha256 rq now st) = Inr (Allowed i src)) \<longleftrightarrow>
    (\<exists>t. derivePathTemplate parse (rqUrl rq) = Inr t) \<and>
    ((\<exists>g \<in> set (activeGrants st). httpGrantCovers parse rq g) \<or>
     (\<exists>p. buildProposal parse rq = Inr p \<and>
        tempGranted (temporary st) now (hashOf sha256 p) (rqConversationId rq)))"
proof (cases "derivePathTemplate parse (rqUrl rq)")
  case (Inl e)
  then show ?thesis by (simp add: patternPhase_ok [OF assms])
next
  case (Inr t)
  then obtain p where p: "buildProposal parse rq = Inr p" using buildProposal_derive by blast
  show ?thesis
  proof (cases "find (httpGrantCovers parse rq) (activeGrants st)")
    case None
    then have "\<not> (\<exists>g \<in> set (activeGrants st). httpGrantCovers parse rq g)" by (auto simp: find_None_iff)
    then show ?thesis using Inr p None temporaryPhase_allowed [of st] assms
      by (simp add: patternPhase_ok)
  next
    case (Some g)
    then have "g \<in> set (activeGrants st) \<and> httpGrantCovers parse rq g" by (auto simp: find_Some_iff)
    then show ?thesis using Inr Some by (auto simp: patternPhase_ok [OF assms])
  qed
qed

section \<open>Properties of the policy\<close>

text \<open>C7: No authenticated request without a grant. On a well-formed state the policy allows a request
  exactly when it carries no forbidden header and either an active persistent HTTP grant for the same
  credential handle and method covers its URL (and its template derives, or the request names that
  grant), or a live temporary grant exists under the hash of exactly this request's proposal.\<close>

theorem http_allowed_iff_granted:
  assumes "cesOk st"
  shows "(\<exists>i src. fst (evaluateHttpPolicy parse sha256 rq now st) = Inr (Allowed i src)) \<longleftrightarrow>
    detectForbiddenHeaders (rqHeaders rq) = [] \<and>
    ((\<exists>g \<in> set (activeGrants st). httpGrantCovers parse rq g \<and>
        ((\<exists>t. derivePathTemplate parse (rqUrl rq) = Inr t) \<or> (rqGrantId rq = Some (gId g) \<and> gId g \<noteq> []))) \<or>
     (\<exists>p. buildProposal parse rq = Inr p \<and>
        tempGranted (temporary st) now (hashOf sha256 p) (rqConversationId rq)))"
proof (cases "detectForbiddenHeaders (rqHeaders rq) = []")
  case False
  then show ?thesis by (simp add: evaluateHttpPolicy_def)
next
  case True
  have d: "(\<exists>t. derivePathTemplate parse (rqUrl rq) = Inr t)" if "buildProposal parse rq = Inr p" for p
    using that buildProposal_derive by blast
  note pp = patternPhase_allowed [OF assms, of parse sha256 rq now]
  show ?thesis
  proof (cases "\<exists>i g. rqGrantId rq = Some i \<and> i \<noteq> [] \<and> activeOf (persistent st) i = Some g \<and> httpGrantCovers parse rq g")
    case True': True
    then obtain i g where g: "rqGrantId rq = Some i" "i \<noteq> []" "activeOf (persistent st) i = Some g"
      "httpGrantCovers parse rq g" by blast
    then have "g \<in> set (activeGrants st) \<and> gId g = i" using activeOf_activeGrants [OF assms] by blast
    moreover have "fst (evaluateHttpPolicy parse sha256 rq now st) = Inr (Allowed (gId g) SourcePersistent)"
      using g by (simp add: evaluate_ok [OF assms True])
    ultimately show ?thesis using True g by auto
  next
    case False
    then have "evaluateHttpPolicy parse sha256 rq now st = patternPhase parse sha256 rq now st"
      by (auto simp: evaluate_ok [OF assms True] split: option.splits)
    moreover have "\<not> (\<exists>g \<in> set (activeGrants st). httpGrantCovers parse rq g \<and>
        rqGrantId rq = Some (gId g) \<and> gId g \<noteq> [])"
      using False activeOf_activeGrants [OF assms] by blast
    ultimately show ?thesis using True pp d by (simp only: simp_thms) blast
  qed
qed

section \<open>Recording a decision\<close>

text \<open>An approved decision on the proposal of a request.\<close>

definition approves :: "(string \<Rightarrow> string) \<Rightarrow> httpGrantProposal \<Rightarrow> recordGrant \<Rightarrow> bool" where
  "approves sha256 p rg = (dcProposal (rgDecision rg) = HttpProposal p \<and>
     dcProposalHash (rgDecision rg) = hashOf sha256 p \<and> dcDecision (rgDecision rg) = GdApproved)"

definition grantTypeOf :: "recordGrant \<Rightarrow> grantType" where
  "grantTypeOf rg = orDefault (dcGrantType (rgDecision rg)) GtAlwaysAllow"

lemma addTemporary_always:
  "addTemporary GtAlwaysAllow rg now ts = tempAdd AllowOnce (dcProposalHash (rgDecision rg)) None None now ts"
  by (simp add: addTemporary_def)

lemma tempAdd_once_ok: "\<exists>g. tempAdd AllowOnce h c d now ts = (Inr (), mapSet (onceKey h) g ts)"
  by (auto simp: tempAdd_def)

lemma addTemporary_wf: "tempWf ts \<Longrightarrow> tempWf (snd (addTemporary gt rg now ts))"
  by (cases gt) (simp_all add: addTemporary_def tempWf_add Let_def)

text \<open>The two stores after a decision.\<close>

lemma record_persistent:
  "persistent (snd (recordGrantHandler rg now st)) \<in>
    {persistent st, snd (addGrant (persistentGrantOf rg now) (persistent st))}"
  by (simp add: recordGrantHandler_def Let_def split: prod.split sum.split)

lemma record_temporary:
  "temporary (snd (recordGrantHandler rg now st)) \<in>
    {temporary st, snd (addTemporary (grantTypeOf rg) rg now (temporary st))}"
  unfolding recordGrantHandler_def Let_def grantTypeOf_def [symmetric]
  by (cases "grantTypeOf rg") (auto split: prod.splits sum.splits)

lemma record_ok:
  assumes "cesOk st"
  shows "cesOk (snd (recordGrantHandler rg now st))"
proof -
  let ?st = "snd (recordGrantHandler rg now st)"
  have h: "healthy (persistent st)" "tempWf (temporary st)" using assms by (simp_all only: cesOkD)
  have "healthy x" if "x \<in> {persistent st, snd (addGrant (persistentGrantOf rg now) (persistent st))}" for x
    using that h(1) addGrant_healthy(1) [OF h(1)] by blast
  moreover have "tempWf x" if "x \<in> {temporary st, snd (addTemporary (grantTypeOf rg) rg now (temporary st))}" for x
    using that h(2) addTemporary_wf [OF h(2)] by blast
  ultimately have "healthy (persistent ?st)" "tempWf (temporary ?st)"
    using record_persistent [of rg now st] record_temporary [of rg now st] by blast+
  then show ?thesis unfolding cesOk_def by (rule conjI)
qed

lemma record_always:
  assumes "cesOk st" "dcDecision (rgDecision rg) = GdApproved" "grantTypeOf rg = GtAlwaysAllow"
  shows "recordGrantHandler rg now st =
    (Inr (Some (grantRecordOf rg now)),
     \<lparr>persistent = snd (addGrant (persistentGrantOf rg now) (persistent st)),
      temporary = snd (tempAdd AllowOnce (dcProposalHash (rgDecision rg)) None None now (temporary st))\<rparr>)"
proof -
  obtain ps where "addGrant (persistentGrantOf rg now) (persistent st) =
      (Inr (activeOf (persistent st) (gId (persistentGrantOf rg now)) = None), ps)"
    using addGrant_healthy(3) [of "persistent st" "persistentGrantOf rg now"] assms(1)
    by (metis cesOkD(1) prod.collapse)
  moreover obtain ts where "tempAdd AllowOnce (dcProposalHash (rgDecision rg)) None None now (temporary st) = (Inr (), ts)"
    using tempAdd_once_ok by blast
  ultimately show ?thesis
    using assms by (simp add: recordGrantHandler_def grantTypeOf_def addTemporary_always Let_def)
qed

lemma pattern_covers:
  assumes "gScope g = handle" "gPattern g = toUpperCase m @ '' '' @ t" "CHR '' '' \<notin> set m"
  shows "grantCoversRequest parse g handle meth url \<longleftrightarrow>
    toUpperCase m = toUpperCase meth \<and> urlMatchesTemplate parse url t"
proof -
  have "indexOf CHR '' '' (gPattern g) = Some (length (toUpperCase m))"
    using assms by (simp add: indexOf_append space_toUpperCase)
  then show ?thesis using assms by (simp add: grantCoversRequest_def toUpperCase_idem)
qed

text \<open>The grant that an always-allow decision on a proposal leaves active, when no grant with its id
  was active.\<close>

lemma record_always_grant:
  assumes "cesOk st" "buildProposal parse rq = Inr p" "approves sha256 p rg" "grantTypeOf rg = GtAlwaysAllow"
    "activeOf (persistent st) (hashOf sha256 p) = None"
    "st' = snd (recordGrantHandler rg now st)"
  shows "\<exists>g t. g \<in> set (activeGrants st') \<and> gId g = hashOf sha256 p \<and> gTool g = ''http'' \<and>
    derivePathTemplate parse (rqUrl rq) = Inr t \<and> gScope g = rqCredentialHandle rq \<and>
    gPattern g = toUpperCase (rqMethod rq) @ '' '' @ t"
proof -
  obtain t where t: "derivePathTemplate parse (rqUrl rq) = Inr t" using assms(2) buildProposal_derive by blast
  then have p: "hpCredentialHandle p = rqCredentialHandle rq" "hpMethod p = toUpperCase (rqMethod rq)"
      "hpAllowedUrlPatterns p = Some [t]"
    using assms(2) by (auto simp: buildProposal_def deriveAllowedUrlPatterns_def)
  let ?g = "persistentGrantOf rg now"
  have g: "gId ?g = hashOf sha256 p" "gTool ?g = ''http''" "gScope ?g = rqCredentialHandle rq"
      "gPattern ?g = toUpperCase (rqMethod rq) @ '' '' @ t" "gRevokedAt ?g = None"
    using assms(3) p by (simp_all add: persistentGrantOf_def approves_def Let_def)
  have st': "persistent st' = snd (addGrant ?g (persistent st))"
    using assms(6) record_always [OF assms(1) _ assms(4)] assms(3) by (simp add: approves_def)
  have rec: "recordOf (persistent st') (gId ?g) =
      (case recordOf (persistent st) (gId ?g) of None \<Rightarrow> Some ?g | Some old \<Rightarrow> Some (reactivate ?g old))"
    using addGrant_healthy(2) [of "persistent st" ?g "gId ?g"] assms(1,5) g(1) st'
    by (auto simp: activeOf_def split: option.splits if_splits)
  then obtain r where r: "activeOf (persistent st') (gId ?g) = Some r" "gTool r = gTool ?g"
      "gScope r = gScope ?g" "gPattern r = gPattern ?g"
    using g(5) by (cases "recordOf (persistent st) (gId ?g)") (auto simp: activeOf_def reactivate_def)
  moreover have "cesOk st'" using assms(1,6) record_ok by simp
  ultimately have "r \<in> set (activeGrants st')" "gId r = gId ?g"
    using activeOf_activeGrants by blast+
  then show ?thesis using r g t by auto
qed

lemma derive_some: "derivePathTemplate parse raw = Inr t \<Longrightarrow> \<exists>u. parse raw = Some u"
  by (auto simp: derivePathTemplate_def split: option.splits)

section \<open>Properties of recorded decisions\<close>

text \<open>An approval is effective and reusable. After an always-allow decision on the proposal of a
  request has been recorded, the policy allows, from the persistent store, every request without
  forbidden headers for the same credential and method whose URL has a template and the shape of the
  approved one, in particular the request itself, whatever its purpose.\<close>

theorem recorded_grant_covers:
  assumes "url_api parse" "cesOk st" "buildProposal parse rq = Inr p" "approves sha256 p rg"
    and "grantTypeOf rg = GtAlwaysAllow" "activeOf (persistent st) (hashOf sha256 p) = None"
    and "CHR '' '' \<notin> set (rqMethod rq)"
    and "parse (rqUrl rq) = Some u" "webProtocol (protocol u)"
    and "map safeDecodeSegment (segmentsOf (pathname u)) = map Some ds"
    and "parse (rqUrl rq') = Some v" "protocol v = protocol u" "sameHost v u"
    and "map safeDecodeSegment (segmentsOf (pathname v)) = map Some es" "list_all2 sameShape ds es"
    and "derivePathTemplate parse (rqUrl rq') = Inr t'"
    and "rqCredentialHandle rq' = rqCredentialHandle rq" "toUpperCase (rqMethod rq') = toUpperCase (rqMethod rq)"
    and "detectForbiddenHeaders (rqHeaders rq') = []"
  shows "\<exists>i. fst (evaluateHttpPolicy parse sha256 rq' now' (snd (recordGrantHandler rg now st))) =
    Inr (Allowed i SourcePersistent)"
proof -
  let ?st = "snd (recordGrantHandler rg now st)"
  have ok: "cesOk ?st" using assms(2) by (rule record_ok)
  obtain g t where g: "g \<in> set (activeGrants ?st)" "gTool g = ''http''"
      "derivePathTemplate parse (rqUrl rq) = Inr t" "gScope g = rqCredentialHandle rq"
      "gPattern g = toUpperCase (rqMethod rq) @ '' '' @ t"
    using record_always_grant [OF assms(2-6) refl] by blast
  have "urlMatchesTemplate parse (rqUrl rq') t"
    unfolding url_api.match_derived [OF assms(1,8,9) g(3)] using assms(10-15) by blast
  then have "httpGrantCovers parse rq' g"
    using pattern_covers [OF _ g(5) assms(7)] g(2,4) assms(17,18) by (simp add: httpGrantCovers_def)
  then obtain g' where "find (httpGrantCovers parse rq') (activeGrants ?st) = Some g'"
    using g(1) by (metis find_None_iff option.exhaust)
  then have pp: "fst (patternPhase parse sha256 rq' now' ?st) = Inr (Allowed (gId g') SourcePersistent)"
    using assms(16) by (simp add: patternPhase_ok [OF ok])
  show ?thesis
    using pp by (auto simp: evaluate_ok [OF ok assms(19)] split: option.splits)
qed

definition ex_request :: "string \<Rightarrow> httpPolicyRequest" where
  "ex_request path = \<lparr>rqCredentialHandle = ''gh'', rqMethod = ''get'', rqUrl = ''https://api.a.com'' @ path,
     rqHeaders = None, rqPurpose = ''read'', rqGrantId = None, rqConversationId = None\<rparr>"

definition ex_http_proposal :: httpGrantProposal where
  "ex_http_proposal = \<lparr>hpCredentialHandle = ''gh'', hpMethod = ''GET'',
     hpUrl = ''https://api.a.com/users/42'', hpPurpose = ''read'',
     hpAllowedUrlPatterns = Some [''https://api.a.com/users/{:num}'']\<rparr>"

definition ex_decision :: recordGrant where
  "ex_decision = \<lparr>rgDecision = \<lparr>dcProposal = HttpProposal ex_http_proposal,
       dcProposalHash = hashOf rev ex_http_proposal, dcDecision = GdApproved, dcDecidedBy = ''user'',
       dcTtl = None, dcGrantType = Some GtAlwaysAllow\<rparr>, rgSessionId = ''s'', rgConversationId = None\<rparr>"

definition ces_start :: cesState where
  "ces_start = \<lparr>persistent = empty_store, temporary = []\<rparr>"

lemma ex_facts:
  "cesOk ces_start" "buildProposal httpParse (ex_request ''/users/42'') = Inr ex_http_proposal"
  "approves rev ex_http_proposal ex_decision" "grantTypeOf ex_decision = GtAlwaysAllow"
  "activeOf (persistent ces_start) i = None" "activeGrants ces_start = []"
  "CHR '' '' \<notin> set (rqMethod (ex_request p))" "detectForbiddenHeaders (rqHeaders (ex_request p)) = []"
proof -
  show "buildProposal httpParse (ex_request ''/users/42'') = Inr ex_http_proposal" by code_simp
  show "cesOk ces_start" by (simp add: cesOk_def ces_start_def)
qed (simp_all add: ces_start_def approves_def ex_decision_def grantTypeOf_def activeOf_def
    recordOf_def empty_store_def byKey_def activeGrants_def ex_request_def detectForbiddenHeaders_def)

lemma ex_urls:
  "httpParse (rqUrl (ex_request ''/users/42'')) = Some ex_url"
  "httpParse (rqUrl (ex_request ''/users/7'')) = Some (ex_url\<lparr>pathname := ''/users/7''\<rparr>)"
  "derivePathTemplate httpParse (rqUrl (ex_request ''/users/7'')) = Inr ''https://api.a.com/users/{:num}''"
  "map safeDecodeSegment (segmentsOf (pathname ex_url)) = map Some [''users'', ''42'']"
  "map safeDecodeSegment (segmentsOf (pathname (ex_url\<lparr>pathname := ''/users/7''\<rparr>))) = map Some [''users'', ''7'']"
  "list_all2 sameShape [''users'', ''42''] [''users'', ''7'']"
  "sameHost (ex_url\<lparr>pathname := ''/users/7''\<rparr>) ex_url" "webProtocol (protocol ex_url)"
  by code_simp+

theorem recorded_grant_covers_witness:
  "\<exists>i. fst (evaluateHttpPolicy httpParse rev (ex_request ''/users/7'') 9
      (snd (recordGrantHandler ex_decision 5 ces_start))) = Inr (Allowed i SourcePersistent)"
  by (rule recorded_grant_covers [OF httpUrl.url_api_axioms ex_facts(1-5) ex_facts(7) ex_urls(1) ex_urls(8)
        ex_urls(4) ex_urls(2) _ ex_urls(7) ex_urls(5,6,3) _ _ ex_facts(8)])
    (simp_all add: ex_request_def)

theorem http_allowed_iff_granted_witness:
  "\<not> (\<exists>i src. fst (evaluateHttpPolicy httpParse rev (ex_request ''/users/42'') 0 ces_start) = Inr (Allowed i src))"
proof -
  have no_temp: "\<not> tempGranted (temporary ces_start) now h None" for now h
    by (simp add: tempGranted_def ces_start_def live_def)
  show ?thesis
    unfolding http_allowed_iff_granted [OF ex_facts(1)] ex_facts(6)
    by (simp add: no_temp ex_request_def)
qed

text \<open>The state after an always-allow decision on an empty service and its revocation.\<close>

lemma record_then_revoke:
  assumes "dcDecision (rgDecision rg) = GdApproved" "grantTypeOf rg = GtAlwaysAllow"
    "h = dcProposalHash (rgDecision rg)"
    "st = snd (revokeGrantHandler h reason t2 (snd (recordGrantHandler rg t1 ces_start)))"
  shows "cesOk st" "activeGrants st = []"
    "temporary st = [(onceKey h, \<lparr>tgKind = AllowOnce, tgProposalHash = h, tgConversationId = None,
       tgCreatedAt = t1, tgExpiresAt = None\<rparr>)]"
proof -
  have ok: "cesOk ces_start" by (rule ex_facts)
  let ?g = "persistentGrantOf rg t1"
  have g: "gId ?g = h" "gRevokedAt ?g = None" using assms(3) by (simp_all add: persistentGrantOf_def Let_def)
  have add: "addGrant ?g empty_store = (Inr True, writeToDisk [?g] empty_store)"
  proof -
    have "grantsOf (disk empty_store) = []" by (simp add: empty_store_def)
    then show ?thesis by (simp add: addGrant_def healthy_load [OF healthy_empty] byKey_def)
  qed
  have s1: "snd (recordGrantHandler rg t1 ces_start) =
      \<lparr>persistent = writeToDisk [?g] empty_store,
       temporary = [(onceKey h, \<lparr>tgKind = AllowOnce, tgProposalHash = h, tgConversationId = None,
         tgCreatedAt = t1, tgExpiresAt = None\<rparr>)]\<rparr>"
    unfolding record_always [OF ok assms(1,2)] using add assms(3)
    by (simp add: ces_start_def tempAdd_def)
  have hw: "healthy (writeToDisk [?g] empty_store)" by (rule healthy_writeToDisk) simp_all
  have rev: "markRevoked h reason t2 (writeToDisk [?g] empty_store) =
      (Inr True, writeToDisk [?g\<lparr>gRevokedAt := Some t2, gRevokedReason := reason\<rparr>] (writeToDisk [?g] empty_store))"
    using g by (simp add: markRevoked_def healthy_load [OF hw] byKey_def)
  show "temporary st = [(onceKey h, \<lparr>tgKind = AllowOnce, tgProposalHash = h, tgConversationId = None,
       tgCreatedAt = t1, tgExpiresAt = None\<rparr>)]"
    using assms(4) s1 rev by (simp add: revokeGrantHandler_def)
  show "activeGrants st = []"
    using assms(4) s1 rev by (simp add: revokeGrantHandler_def activeGrants_def)
  have "cesOk (snd (recordGrantHandler rg t1 ces_start))" using ok by (rule record_ok)
  then have "tempWf (temporary (snd (recordGrantHandler rg t1 ces_start)))" by simp
  then show "cesOk st"
    using assms(4) s1 rev healthy_writeToDisk [OF hw] by (simp add: revokeGrantHandler_def cesOk_def del: cesOkD)
qed

text \<open>A revoked grant can still be used once. An always-allow decision also leaves a single-use
  temporary grant, which requests covered by the persistent grant do not consume: after the grant has
  been revoked the next request for the same proposal is still allowed, and only the one after it
  needs approval.\<close>

theorem revoked_grant_used_once_more:
  assumes "buildProposal parse rq = Inr p" "approves sha256 p rg" "grantTypeOf rg = GtAlwaysAllow"
    and "detectForbiddenHeaders (rqHeaders rq) = []" "rqGrantId rq = None" "rqConversationId rq = None"
    and "st = snd (revokeGrantHandler (hashOf sha256 p) reason t2 (snd (recordGrantHandler rg t1 ces_start)))"
  shows "fst (evaluateHttpPolicy parse sha256 rq t3 st) =
      Inr (Allowed (''temp:allow_once:'' @ hashOf sha256 p) SourceTemporary) \<and>
    fst (evaluateHttpPolicy parse sha256 rq t4 (snd (evaluateHttpPolicy parse sha256 rq t3 st))) =
      Inr (ApprovalRequired p)"
proof -
  have a: "dcDecision (rgDecision rg) = GdApproved" "hashOf sha256 p = dcProposalHash (rgDecision rg)"
    using assms(2) by (simp_all add: approves_def)
  note st = record_then_revoke [OF a(1) assms(3) a(2) assms(7)]
  obtain t where t: "derivePathTemplate parse (rqUrl rq) = Inr t" using assms(1) buildProposal_derive by blast
  have ev: "evaluateHttpPolicy parse sha256 rq now s = temporaryPhase sha256 rq p now s"
    if "cesOk s" "activeGrants s = []" for s now
    using that t assms(1,5) by (simp add: evaluate_ok [OF that(1) assms(4)] patternPhase_ok)
  have e1: "evaluateHttpPolicy parse sha256 rq t3 st =
      (Inr (Allowed (''temp:allow_once:'' @ hashOf sha256 p) SourceTemporary), st\<lparr>temporary := []\<rparr>)"
    unfolding ev [OF st(1,2)] temporaryPhase_def hashOf_def [symmetric] assms(6) st(3)
    by (simp add: tempCheckAny_def tempCheck_def expiredAt_def)
  have ok: "cesOk (st\<lparr>temporary := []\<rparr>)" "activeGrants (st\<lparr>temporary := []\<rparr>) = []"
    using st(1,2) by (simp_all add: cesOk_def activeGrants_def del: cesOkD)
  have "fst (evaluateHttpPolicy parse sha256 rq t4 (st\<lparr>temporary := []\<rparr>)) = Inr (ApprovalRequired p)"
    unfolding ev [OF ok] temporaryPhase_def assms(6) by (simp add: tempCheckAny_def tempCheck_def)
  with e1 show ?thesis by simp
qed

theorem revoked_grant_used_once_more_witness:
  "fst (evaluateHttpPolicy httpParse rev (ex_request ''/users/42'') 9
      (snd (revokeGrantHandler (hashOf rev ex_http_proposal) None 7
        (snd (recordGrantHandler ex_decision 5 ces_start))))) =
    Inr (Allowed (''temp:allow_once:'' @ hashOf rev ex_http_proposal) SourceTemporary)"
  using revoked_grant_used_once_more [OF ex_facts(2,3,4,8) _ _ refl, of 9 None 7 5 0]
  by (simp add: ex_request_def)

section \<open>The service as a machine\<close>

datatype cesEvent =
    CEvaluate httpPolicyRequest millis
  | CRecord recordGrant millis
  | CRevoke string "string option" millis
  | CList "string option" "string option" "grantStatus option"

fun cesStep :: "(string \<Rightarrow> url option) \<Rightarrow> (string \<Rightarrow> string) \<Rightarrow> cesState \<Rightarrow> cesEvent \<Rightarrow> cesState" where
  "cesStep parse sha256 st (CEvaluate rq now) = snd (evaluateHttpPolicy parse sha256 rq now st)"
| "cesStep parse sha256 st (CRecord rg now) = snd (recordGrantHandler rg now st)"
| "cesStep parse sha256 st (CRevoke i r now) = snd (revokeGrantHandler i r now st)"
| "cesStep parse sha256 st (CList s h t) = snd (listGrantsHandler s h t st)"

fun onceAllowed :: "(string \<Rightarrow> url option) \<Rightarrow> (string \<Rightarrow> string) \<Rightarrow> string \<Rightarrow> cesState \<Rightarrow> cesEvent \<Rightarrow> nat" where
  "onceAllowed parse sha256 h st (CEvaluate rq now) =
    (if fst (evaluateHttpPolicy parse sha256 rq now st) = Inr (Allowed (''temp:allow_once:'' @ h) SourceTemporary)
     then 1 else 0)"
| "onceAllowed parse sha256 h st _ = 0"

fun onceApproved :: "string \<Rightarrow> cesState \<Rightarrow> cesEvent \<Rightarrow> nat" where
  "onceApproved h st (CRecord rg now) =
    (if dcDecision (rgDecision rg) = GdApproved \<and> dcProposalHash (rgDecision rg) = h \<and>
        (grantTypeOf rg = GtAllowOnce \<or> grantTypeOf rg = GtAlwaysAllow) then 1 else 0)"
| "onceApproved h st _ = 0"

lemma evaluate_form:
  assumes "cesOk st"
  shows "(\<exists>r. evaluateHttpPolicy parse sha256 rq now st = (r, st) \<and> (\<forall>i. r \<noteq> Inr (Allowed i SourceTemporary))) \<or>
    (\<exists>p. evaluateHttpPolicy parse sha256 rq now st = temporaryPhase sha256 rq p now st)"
proof (cases "detectForbiddenHeaders (rqHeaders rq) = []")
  case True
  have "(\<exists>r. patternPhase parse sha256 rq now st = (r, st) \<and> (\<forall>i. r \<noteq> Inr (Allowed i SourceTemporary))) \<or>
      (\<exists>p. patternPhase parse sha256 rq now st = temporaryPhase sha256 rq p now st)"
    by (auto simp: patternPhase_ok [OF assms] split: sum.split option.split)
  then show ?thesis by (auto simp: evaluate_ok [OF assms True] split: option.split)
qed (simp add: evaluateHttpPolicy_def)

lemma temporaryPhase_snd:
  "snd (temporaryPhase sha256 rq p now st) =
    st\<lparr>temporary := tempStep (temporary st) (TCheckAny (hashOf sha256 p) (rqConversationId rq) now)\<rparr>"
  by (simp add: temporaryPhase_def hashOf_def split: prod.split option.split)

lemma temporaryPhase_once:
  "fst (temporaryPhase sha256 rq p now st) = Inr (Allowed (''temp:allow_once:'' @ h) SourceTemporary) \<longleftrightarrow>
    h = hashOf sha256 p \<and>
    fst (tempCheckAny (hashOf sha256 p) (rqConversationId rq) now (temporary st)) = Some AllowOnce"
proof -
  obtain r ts where r: "tempCheckAny (hashOf sha256 p) (rqConversationId rq) now (temporary st) = (r, ts)"
    by fastforce
  show ?thesis
  proof (cases r)
    case (Some k)
    with r show ?thesis by (cases k) (auto simp: temporaryPhase_def hashOf_def)
  qed (use r in \<open>simp add: temporaryPhase_def hashOf_def\<close>)
qed

lemma cesStep_ok:
  assumes "cesOk st"
  shows "cesOk (cesStep parse sha256 st e)"
proof (cases e)
  case (CEvaluate rq now)
  have "cesOk (snd (temporaryPhase sha256 rq p now st))" for p
    using assms tempStep_wf [of "temporary st"]
    by (simp add: temporaryPhase_snd cesOk_def del: cesOkD tempStep.simps)
  then show ?thesis using evaluate_form [OF assms, of parse sha256 rq now] assms CEvaluate by auto
next
  case (CRecord rg now)
  then show ?thesis using assms by (simp add: record_ok)
next
  case (CRevoke i r now)
  have "persistent (snd (revokeGrantHandler i r now st)) = snd (markRevoked i r now (persistent st))"
    "temporary (snd (revokeGrantHandler i r now st)) = temporary st"
    by (simp_all add: revokeGrantHandler_def split: prod.split sum.split)
  then show ?thesis
    using assms CRevoke markRevoked_healthy(1) [of "persistent st"]
    by (simp add: cesOk_def del: cesOkD)
next
  case (CList s h t)
  then show ?thesis using assms by (simp add: listGrantsHandler_def healthy_load Let_def)
qed

lemma record_temporary_step:
  "onceHeld h (temporary (snd (recordGrantHandler rg now st))) \<le>
    onceHeld h (temporary st) + onceApproved h st (CRecord rg now)"
proof (cases "dcDecision (rgDecision rg) = GdDenied")
  case True
  then show ?thesis by (simp add: recordGrantHandler_def Let_def)
next
  case False
  then have ap: "dcDecision (rgDecision rg) = GdApproved" by (cases "dcDecision (rgDecision rg)") simp_all
  have "onceHeld h (snd (addTemporary (grantTypeOf rg) rg now (temporary st))) \<le>
      onceHeld h (temporary st) + onceApproved h st (CRecord rg now)"
    using ap by (cases "grantTypeOf rg")
      (auto simp: addTemporary_def Let_def onceHeld_def tempAdd_def split: sum.splits)
  then show ?thesis using record_temporary [of rg now st] by auto
qed

lemma ces_balance:
  assumes "cesOk st"
  shows "onceAllowed parse sha256 h st e + onceHeld h (temporary (cesStep parse sha256 st e)) \<le>
    onceHeld h (temporary st) + onceApproved h st e"
proof (cases e)
  case (CEvaluate rq now)
  have tp: "(if fst (temporaryPhase sha256 rq p now st) = Inr (Allowed (''temp:allow_once:'' @ h) SourceTemporary)
      then 1 else 0) + onceHeld h (temporary (snd (temporaryPhase sha256 rq p now st))) \<le>
      onceHeld h (temporary st)" for p
    using once_balance [of "temporary st" h "TCheckAny (hashOf sha256 p) (rqConversationId rq) now"] assms
    unfolding temporaryPhase_once temporaryPhase_snd by auto
  from evaluate_form [OF assms, of parse sha256 rq now]
  consider (same) r where "evaluateHttpPolicy parse sha256 rq now st = (r, st)"
      "\<forall>i. r \<noteq> Inr (Allowed i SourceTemporary)"
    | (temp) p where "evaluateHttpPolicy parse sha256 rq now st = temporaryPhase sha256 rq p now st"
    by blast
  then show ?thesis
  proof cases
    case (temp p)
    show ?thesis
      unfolding CEvaluate onceAllowed.simps cesStep.simps onceApproved.simps temp add_0_right by (rule tp)
  qed (simp add: CEvaluate)
next
  case (CRecord rg now)
  then show ?thesis using record_temporary_step [of h rg now st] by simp
next
  case (CRevoke i r now)
  then show ?thesis by (simp add: revokeGrantHandler_def split: prod.split sum.split)
next
  case (CList s h' t)
  then show ?thesis using assms by (simp add: listGrantsHandler_def healthy_load Let_def)
qed

interpretation cesMachine: credit_machine "cesStep parse sha256" cesOk "\<lambda>st. onceHeld h (temporary st)"
    "onceAllowed parse sha256 h" "onceApproved h" for parse sha256 h
  by unfold_locales (simp_all add: cesStep_ok ces_balance)

section \<open>Properties of the service\<close>

text \<open>C8: Single use, end to end. Over every history of the service from the empty state, the requests
  allowed on a single-use grant of a proposal are at most as many as the approvals recorded for that
  proposal that grant a single use.\<close>

theorem http_once_bounded:
  "tally (cesStep parse sha256) (onceAllowed parse sha256 h) ces_start es \<le>
    tally (cesStep parse sha256) (onceApproved h) ces_start es"
  by (rule cesMachine.spend_le_gain) (rule ex_facts, simp add: onceHeld_def ces_start_def)

text \<open>A damaged or corrupt grant file stops every credentialed request, whatever temporary grants are
  held: the policy reports forbidden headers or an error, never permission, and consumes nothing.\<close>

theorem http_policy_fails_closed:
  assumes "corrupt (persistent st) \<or> damaged (disk (persistent st))"
  shows "fst (evaluateHttpPolicy parse sha256 rq now st) \<noteq> Inr (Allowed i src) \<and>
    temporary (snd (evaluateHttpPolicy parse sha256 rq now st)) = temporary st"
proof -
  have g: "\<exists>e ps. getAll (persistent st) = (Inl e, ps) \<and> (corrupt ps \<or> damaged (disk ps))"
  proof (cases "corrupt (persistent st)")
    case True
    then show ?thesis by (simp add: getAll_def getAllIncludingRevoked_def assertNotCorrupt_def)
  next
    case False
    then have d: "damaged (disk (persistent st))" using assms by blast
    then obtain e where "loadFromDisk (persistent st) = (Inl e, (persistent st)\<lparr>corrupt := True\<rparr>)"
      using damaged_load by blast
    moreover have "disk (persistent st) \<noteq> Absent" using d by (auto simp: damaged_def)
    ultimately show ?thesis using False
      by (simp add: getAll_def getAllIncludingRevoked_def assertNotCorrupt_def)
  qed
  then obtain e ps where g': "getAll (persistent st) = (Inl e, ps)" by blast
  then have "explicitGrant parse rq (persistent st) = (if truthy (rqGrantId rq) then (Inl e, ps) else (Inr None, persistent st))"
    by (simp add: explicitGrant_def getById_def)
  moreover have "fst (patternPhase parse sha256 rq now st) \<noteq> Inr (Allowed i src) \<and>
      temporary (snd (patternPhase parse sha256 rq now st)) = temporary st"
    using g' by (simp add: patternPhase_def split: sum.split)
  ultimately show ?thesis by (simp add: evaluateHttpPolicy_def)
qed

theorem http_policy_fails_closed_witness:
  "fst (evaluateHttpPolicy httpParse rev (ex_request ''/x'') 0
      \<lparr>persistent = \<lparr>disk = Unparsable, corrupt = False\<rparr>,
       temporary = snd (tempAdd Allow10m ''h'' None None 0 [])\<rparr>) \<noteq> Inr (Allowed ''h'' SourceTemporary)"
  using http_policy_fails_closed [of "\<lparr>persistent = \<lparr>disk = Unparsable, corrupt = False\<rparr>,
       temporary = snd (tempAdd Allow10m ''h'' None None 0 [])\<rparr>"]
  by (simp add: damaged_def)

end
