(* ===== verification/GuardianStore.thy ===== *)
theory GuardianStore
  imports HumPrelude
begin

text \<open>
  The store of canonical guardian requests and deliveries
  (\<open>assistant/src/memory/canonical-guardian-store.ts\<close>). The state is the two SQLite tables; both ids
  are primary keys, so an insert with a taken id fails. The clock and the generated ids are arguments;
  \<open>codes k\<close> is the request code cut from the k-th generated UUID.
\<close>

section \<open>Rows\<close>

datatype canonicalStatus = CsPending | CsApproved | CsDenied | CsExpired | CsCancelled

record canonicalRequest =
  crId :: string
  crKind :: string
  crSourceType :: string
  crSourceChannel :: "string option"
  crConversationId :: "string option"
  crRequesterExternalUserId :: "string option"
  crRequesterChatId :: "string option"
  crGuardianExternalUserId :: "string option"
  crGuardianPrincipalId :: "string option"
  crCallSessionId :: "string option"
  crPendingQuestionId :: "string option"
  crQuestionText :: "string option"
  crRequestCode :: "string option"
  crToolName :: "string option"
  crInputDigest :: "string option"
  crCommandPreview :: "string option"
  crRiskLevel :: "string option"
  crActivityText :: "string option"
  crExecutionTarget :: "string option"
  crStatus :: canonicalStatus
  crAnswerText :: "string option"
  crDecidedByExternalUserId :: "string option"
  crDecidedByPrincipalId :: "string option"
  crFollowupState :: "string option"
  crExpiresAt :: "millis option"
  crCreatedAt :: millis
  crUpdatedAt :: millis

record canonicalDelivery =
  cdId :: string
  cdRequestId :: string
  cdDestinationChannel :: string
  cdDestinationConversationId :: "string option"
  cdDestinationChatId :: "string option"
  cdDestinationMessageId :: "string option"
  cdStatus :: string
  cdCreatedAt :: millis
  cdUpdatedAt :: millis

record guardianDb =
  requests :: "canonicalRequest list"
  deliveries :: "canonicalDelivery list"

datatype guardianError = IntegrityError string | DuplicateId

text \<open>\<open>isRequestExpired\<close>: a missing or zero deadline is never past.\<close>

definition isRequestExpired :: "canonicalRequest \<Rightarrow> millis \<Rightarrow> bool" where
  "isRequestExpired r now =
    (case crExpiresAt r of None \<Rightarrow> False | Some t \<Rightarrow> if t = 0 then False else t < now)"

section \<open>Request codes\<close>

definition pendingCode :: "string \<Rightarrow> guardianDb \<Rightarrow> bool" where
  "pendingCode code db = list_ex (\<lambda>r. crRequestCode r = Some code \<and> crStatus r = CsPending) (requests db)"

definition generateCanonicalRequestCode :: "(nat \<Rightarrow> string) \<Rightarrow> guardianDb \<Rightarrow> string" where
  "generateCanonicalRequestCode codes db =
    (case find (\<lambda>k. \<not> pendingCode (codes k) db) [0..<5] of Some k \<Rightarrow> codes k | None \<Rightarrow> codes 5)"

section \<open>Requests\<close>

definition DECISIONABLE_KINDS :: "string list" where
  "DECISIONABLE_KINDS = [''tool_approval'', ''tool_grant_request'', ''pending_question'', ''access_request'']"

record createParams =
  pcId :: "string option"
  pcKind :: string
  pcSourceType :: string
  pcSourceChannel :: "string option"
  pcConversationId :: "string option"
  pcRequesterExternalUserId :: "string option"
  pcRequesterChatId :: "string option"
  pcGuardianExternalUserId :: "string option"
  pcGuardianPrincipalId :: "string option"
  pcCallSessionId :: "string option"
  pcPendingQuestionId :: "string option"
  pcQuestionText :: "string option"
  pcRequestCode :: "string option"
  pcToolName :: "string option"
  pcInputDigest :: "string option"
  pcCommandPreview :: "string option"
  pcRiskLevel :: "string option"
  pcActivityText :: "string option"
  pcExecutionTarget :: "string option"
  pcStatus :: "canonicalStatus option"
  pcAnswerText :: "string option"
  pcDecidedByExternalUserId :: "string option"
  pcDecidedByPrincipalId :: "string option"
  pcFollowupState :: "string option"
  pcExpiresAt :: "millis option"

definition newRequest :: "createParams \<Rightarrow> string \<Rightarrow> (nat \<Rightarrow> string) \<Rightarrow> millis \<Rightarrow> guardianDb \<Rightarrow> canonicalRequest" where
  "newRequest p uuid codes now db =
    \<lparr>crId = orDefault (pcId p) uuid, crKind = pcKind p, crSourceType = pcSourceType p,
     crSourceChannel = pcSourceChannel p, crConversationId = pcConversationId p,
     crRequesterExternalUserId = pcRequesterExternalUserId p, crRequesterChatId = pcRequesterChatId p,
     crGuardianExternalUserId = pcGuardianExternalUserId p, crGuardianPrincipalId = pcGuardianPrincipalId p,
     crCallSessionId = pcCallSessionId p, crPendingQuestionId = pcPendingQuestionId p,
     crQuestionText = pcQuestionText p,
     crRequestCode = Some (orDefault (pcRequestCode p) (generateCanonicalRequestCode codes db)),
     crToolName = pcToolName p, crInputDigest = pcInputDigest p, crCommandPreview = pcCommandPreview p,
     crRiskLevel = pcRiskLevel p, crActivityText = pcActivityText p,
     crExecutionTarget = pcExecutionTarget p, crStatus = orDefault (pcStatus p) CsPending,
     crAnswerText = pcAnswerText p, crDecidedByExternalUserId = pcDecidedByExternalUserId p,
     crDecidedByPrincipalId = pcDecidedByPrincipalId p, crFollowupState = pcFollowupState p,
     crExpiresAt = pcExpiresAt p, crCreatedAt = now, crUpdatedAt = now\<rparr>"

definition createCanonicalGuardianRequest ::
  "createParams \<Rightarrow> string \<Rightarrow> (nat \<Rightarrow> string) \<Rightarrow> millis \<Rightarrow> guardianDb \<Rightarrow> (guardianError + canonicalRequest) \<times> guardianDb" where
  "createCanonicalGuardianRequest p uuid codes now db =
    (if pcKind p \<in> set DECISIONABLE_KINDS \<and> \<not> truthy (pcGuardianPrincipalId p)
     then (Inl (IntegrityError (pcKind p)), db)
     else let row = newRequest p uuid codes now db in
       if byKey crId (crId row) (requests db) \<noteq> None then (Inl DuplicateId, db)
       else (Inr row, db\<lparr>requests := requests db @ [row]\<rparr>))"

definition getCanonicalGuardianRequest :: "string \<Rightarrow> guardianDb \<Rightarrow> canonicalRequest option" where
  "getCanonicalGuardianRequest i db = byKey crId i (requests db)"

definition getCanonicalGuardianRequestByCode :: "string \<Rightarrow> guardianDb \<Rightarrow> canonicalRequest option" where
  "getCanonicalGuardianRequestByCode code db =
    find (\<lambda>r. crRequestCode r = Some code \<and> crStatus r = CsPending) (requests db)"

record listFilters =
  lfStatus :: "canonicalStatus option"
  lfGuardianExternalUserId :: "string option"
  lfGuardianPrincipalId :: "string option"
  lfRequesterExternalUserId :: "string option"
  lfConversationId :: "string option"
  lfSourceType :: "string option"
  lfSourceChannel :: "string option"
  lfKind :: "string option"
  lfToolName :: "string option"

text \<open>A condition is added only for a filter that is set and not empty.\<close>

definition cond :: "string option \<Rightarrow> string option \<Rightarrow> bool" where
  "cond f v = (truthy f \<longrightarrow> v = f)"

definition listCanonicalGuardianRequests :: "listFilters \<Rightarrow> guardianDb \<Rightarrow> canonicalRequest list" where
  "listCanonicalGuardianRequests f db =
    filter (\<lambda>r. (case lfStatus f of None \<Rightarrow> True | Some s \<Rightarrow> crStatus r = s) \<and>
      cond (lfGuardianExternalUserId f) (crGuardianExternalUserId r) \<and>
      cond (lfGuardianPrincipalId f) (crGuardianPrincipalId r) \<and>
      cond (lfConversationId f) (crConversationId r) \<and>
      cond (lfRequesterExternalUserId f) (crRequesterExternalUserId r) \<and>
      cond (lfSourceType f) (Some (crSourceType r)) \<and>
      cond (lfSourceChannel f) (crSourceChannel r) \<and>
      cond (lfKind f) (Some (crKind r)) \<and>
      cond (lfToolName f) (crToolName r)) (requests db)"

text \<open>In an update an undefined field keeps the column; \<open>followupState\<close> may also be set to null.\<close>

record updateParams =
  upStatus :: "canonicalStatus option"
  upAnswerText :: "string option"
  upDecidedByExternalUserId :: "string option"
  upDecidedByPrincipalId :: "string option"
  upFollowupState :: "string option option"
  upExpiresAt :: "millis option"

definition applyUpdates :: "updateParams \<Rightarrow> millis \<Rightarrow> canonicalRequest \<Rightarrow> canonicalRequest" where
  "applyUpdates u now r =
    r\<lparr>crUpdatedAt := now, crStatus := orDefault (upStatus u) (crStatus r),
      crAnswerText := orElse (upAnswerText u) (crAnswerText r),
      crDecidedByExternalUserId := orElse (upDecidedByExternalUserId u) (crDecidedByExternalUserId r),
      crDecidedByPrincipalId := orElse (upDecidedByPrincipalId u) (crDecidedByPrincipalId r),
      crFollowupState := orDefault (upFollowupState u) (crFollowupState r),
      crExpiresAt := orElse (upExpiresAt u) (crExpiresAt r)\<rparr>"

definition updateCanonicalGuardianRequest ::
  "string \<Rightarrow> updateParams \<Rightarrow> millis \<Rightarrow> guardianDb \<Rightarrow> canonicalRequest option \<times> guardianDb" where
  "updateCanonicalGuardianRequest i u now db =
    (let db' = db\<lparr>requests := updateWhere (\<lambda>r. crId r = i) (applyUpdates u now) (requests db)\<rparr>
     in (getCanonicalGuardianRequest i db', db'))"

record resolveDecision =
  rdStatus :: canonicalStatus
  rdAnswerText :: "string option"
  rdDecidedByExternalUserId :: "string option"
  rdDecidedByPrincipalId :: "string option"

definition applyDecision :: "resolveDecision \<Rightarrow> millis \<Rightarrow> canonicalRequest \<Rightarrow> canonicalRequest" where
  "applyDecision d now r =
    r\<lparr>crStatus := rdStatus d, crUpdatedAt := now,
      crAnswerText := orElse (rdAnswerText d) (crAnswerText r),
      crDecidedByExternalUserId := orElse (rdDecidedByExternalUserId d) (crDecidedByExternalUserId r),
      crDecidedByPrincipalId := orElse (rdDecidedByPrincipalId d) (crDecidedByPrincipalId r)\<rparr>"

definition resolveCanonicalGuardianRequest ::
  "string \<Rightarrow> canonicalStatus \<Rightarrow> resolveDecision \<Rightarrow> millis \<Rightarrow> guardianDb \<Rightarrow> canonicalRequest option \<times> guardianDb" where
  "resolveCanonicalGuardianRequest i expected d now db =
    (let match = (\<lambda>r. crId r = i \<and> crStatus r = expected);
         db' = db\<lparr>requests := updateWhere match (applyDecision d now) (requests db)\<rparr>
     in if changesOf match (requests db) = 0 then (None, db')
        else (getCanonicalGuardianRequest i db', db'))"

definition INTERACTION_BOUND_KINDS :: "string list" where
  "INTERACTION_BOUND_KINDS = [''tool_approval'', ''pending_question'']"

definition staleAtStartup :: "millis \<Rightarrow> canonicalRequest \<Rightarrow> bool" where
  "staleAtStartup now r = (crStatus r = CsPending \<and>
     (crKind r \<in> set INTERACTION_BOUND_KINDS \<or> (case crExpiresAt r of None \<Rightarrow> False | Some t \<Rightarrow> t < now)))"

definition expireAllPendingCanonicalRequests :: "millis \<Rightarrow> guardianDb \<Rightarrow> nat \<times> guardianDb" where
  "expireAllPendingCanonicalRequests now db =
    (changesOf (staleAtStartup now) (requests db),
     db\<lparr>requests := updateWhere (staleAtStartup now)
       (\<lambda>r. r\<lparr>crStatus := CsExpired, crUpdatedAt := now\<rparr>) (requests db)\<rparr>)"

section \<open>Deliveries\<close>

record deliveryParams =
  dpId :: "string option"
  dpRequestId :: string
  dpDestinationChannel :: string
  dpDestinationConversationId :: "string option"
  dpDestinationChatId :: "string option"
  dpDestinationMessageId :: "string option"
  dpStatus :: "string option"

definition createCanonicalGuardianDelivery ::
  "deliveryParams \<Rightarrow> string \<Rightarrow> millis \<Rightarrow> guardianDb \<Rightarrow> (guardianError + canonicalDelivery) \<times> guardianDb" where
  "createCanonicalGuardianDelivery p uuid now db =
    (let row = \<lparr>cdId = orDefault (dpId p) uuid, cdRequestId = dpRequestId p,
           cdDestinationChannel = dpDestinationChannel p,
           cdDestinationConversationId = dpDestinationConversationId p,
           cdDestinationChatId = dpDestinationChatId p, cdDestinationMessageId = dpDestinationMessageId p,
           cdStatus = orDefault (dpStatus p) ''pending'', cdCreatedAt = now, cdUpdatedAt = now\<rparr>
     in if byKey cdId (cdId row) (deliveries db) \<noteq> None then (Inl DuplicateId, db)
        else (Inr row, db\<lparr>deliveries := deliveries db @ [row]\<rparr>))"

definition listCanonicalGuardianDeliveries :: "string \<Rightarrow> guardianDb \<Rightarrow> canonicalDelivery list" where
  "listCanonicalGuardianDeliveries i db = filter (\<lambda>d. cdRequestId d = i) (deliveries db)"

text \<open>The loop over the deliveries found, with the set of request ids seen.\<close>

fun pendingOfDeliveries ::
  "guardianDb \<Rightarrow> string list \<Rightarrow> canonicalDelivery list \<Rightarrow> canonicalRequest list" where
  "pendingOfDeliveries db seen [] = []"
| "pendingOfDeliveries db seen (d # ds) =
    (if cdRequestId d \<in> set seen then pendingOfDeliveries db seen ds
     else
       (case getCanonicalGuardianRequest (cdRequestId d) db of
          None \<Rightarrow> []
        | Some r \<Rightarrow> if crStatus r = CsPending then [r] else []) @
       pendingOfDeliveries db (cdRequestId d # seen) ds)"

definition listPendingByDestinationConversation ::
  "string \<Rightarrow> string option \<Rightarrow> guardianDb \<Rightarrow> canonicalRequest list" where
  "listPendingByDestinationConversation conv channel db =
    pendingOfDeliveries db []
      (filter (\<lambda>d. cdDestinationConversationId d = Some conv \<and> cond channel (Some (cdDestinationChannel d)))
        (deliveries db))"

definition listPendingByDestinationChat :: "string \<Rightarrow> string \<Rightarrow> guardianDb \<Rightarrow> canonicalRequest list" where
  "listPendingByDestinationChat channel chat db =
    pendingOfDeliveries db []
      (filter (\<lambda>d. cdDestinationChannel d = channel \<and> cdDestinationChatId d = Some chat) (deliveries db))"

section \<open>Conversation scope\<close>

fun scopeLoop :: "millis \<Rightarrow> string list \<Rightarrow> canonicalRequest list \<Rightarrow> canonicalRequest list" where
  "scopeLoop now seen [] = []"
| "scopeLoop now seen (r # rs) =
    (if crId r \<notin> set seen \<and> \<not> isRequestExpired r now then r # scopeLoop now (crId r # seen) rs
     else scopeLoop now seen rs)"

definition noFilters :: listFilters where
  "noFilters = \<lparr>lfStatus = None, lfGuardianExternalUserId = None, lfGuardianPrincipalId = None,
     lfRequesterExternalUserId = None, lfConversationId = None, lfSourceType = None,
     lfSourceChannel = None, lfKind = None, lfToolName = None\<rparr>"

definition listPendingRequestsByConversationScope ::
  "string \<Rightarrow> string option \<Rightarrow> millis \<Rightarrow> guardianDb \<Rightarrow> canonicalRequest list" where
  "listPendingRequestsByConversationScope conv channel now db =
    scopeLoop now []
      (listCanonicalGuardianRequests (noFilters\<lparr>lfConversationId := Some conv, lfStatus := Some CsPending\<rparr>) db @
       listPendingByDestinationConversation conv channel db)"

definition isRequestInConversationScope :: "string \<Rightarrow> string \<Rightarrow> string option \<Rightarrow> guardianDb \<Rightarrow> bool" where
  "isRequestInConversationScope i conv channel db =
    (case getCanonicalGuardianRequest i db of
       None \<Rightarrow> False
     | Some r \<Rightarrow>
         if crConversationId r = Some conv then True
         else list_ex (\<lambda>d. cdDestinationConversationId d = Some conv \<and>
             (\<not> truthy channel \<or> Some (cdDestinationChannel d) = channel))
           (listCanonicalGuardianDeliveries i db))"

section \<open>Call controller\<close>

definition getPendingCanonicalRequestByCallSessionId :: "string \<Rightarrow> guardianDb \<Rightarrow> canonicalRequest option" where
  "getPendingCanonicalRequestByCallSessionId cs db =
    firstDesc crCreatedAt
      (filter (\<lambda>r. crCallSessionId r = Some cs \<and> crStatus r = CsPending) (requests db))"

definition getCanonicalRequestByPendingQuestionId :: "string \<Rightarrow> guardianDb \<Rightarrow> canonicalRequest option" where
  "getCanonicalRequestByPendingQuestionId q db = find (\<lambda>r. crPendingQuestionId r = Some q) (requests db)"

definition expireCanonicalGuardianRequest :: "string \<Rightarrow> millis \<Rightarrow> guardianDb \<Rightarrow> guardianDb" where
  "expireCanonicalGuardianRequest i now db =
    db\<lparr>requests := updateWhere (\<lambda>r. crId r = i \<and> crStatus r = CsPending)
        (\<lambda>r. r\<lparr>crStatus := CsExpired, crUpdatedAt := now\<rparr>) (requests db),
       deliveries := updateWhere (\<lambda>d. cdRequestId d = i)
        (\<lambda>d. d\<lparr>cdStatus := ''expired'', cdUpdatedAt := now\<rparr>) (deliveries db)\<rparr>"

definition updateCanonicalGuardianDelivery ::
  "string \<Rightarrow> string option \<Rightarrow> string option \<Rightarrow> millis \<Rightarrow> guardianDb \<Rightarrow> canonicalDelivery option \<times> guardianDb" where
  "updateCanonicalGuardianDelivery i status msg now db =
    (let db' = db\<lparr>deliveries := updateWhere (\<lambda>d. cdId d = i)
           (\<lambda>d. d\<lparr>cdUpdatedAt := now, cdStatus := orDefault status (cdStatus d),
              cdDestinationMessageId := orElse msg (cdDestinationMessageId d)\<rparr>) (deliveries db)\<rparr>
     in (byKey cdId i (deliveries db'), db'))"

section \<open>Well-formed databases\<close>

definition dbOk :: "guardianDb \<Rightarrow> bool" where
  "dbOk db = (distinct (map crId (requests db)) \<and> distinct (map cdId (deliveries db)) \<and>
     (\<forall>r \<in> set (requests db). crKind r \<in> set DECISIONABLE_KINDS \<longrightarrow> truthy (crGuardianPrincipalId r)))"

lemma dbOk_getRequest:
  assumes "dbOk db"
  shows "getCanonicalGuardianRequest i db = Some r \<longleftrightarrow> r \<in> set (requests db) \<and> crId r = i"
  using assms byKey_in [of crId "requests db" r] byKey_Some [of crId i "requests db" r]
  by (auto simp: getCanonicalGuardianRequest_def dbOk_def)

text \<open>Updates that keep the id, the kind and the principal of a row keep a database well-formed.\<close>

lemma dbOk_updateRequests:
  assumes "dbOk db" "\<And>r. p r \<Longrightarrow> crId (f r) = crId r \<and> crKind (f r) = crKind r \<and>
    crGuardianPrincipalId (f r) = crGuardianPrincipalId r"
  shows "dbOk (db\<lparr>requests := updateWhere p f (requests db)\<rparr>)"
  using assms map_updateWhere_key [of p crId f "requests db"]
  by (auto simp: dbOk_def table_simps)

lemma dbOk_updateDeliveries:
  assumes "dbOk db" "\<And>d. cdId (f d) = cdId d"
  shows "dbOk (db\<lparr>deliveries := updateWhere p f (deliveries db)\<rparr>)"
  using assms map_updateWhere_key [of p cdId f "deliveries db"]
  by (auto simp: dbOk_def)

lemma applyDecision_simps [simp]:
  "crId (applyDecision d now r) = crId r" "crKind (applyDecision d now r) = crKind r"
  "crGuardianPrincipalId (applyDecision d now r) = crGuardianPrincipalId r"
  "crStatus (applyDecision d now r) = rdStatus d"
  by (simp_all add: applyDecision_def)

lemma applyUpdates_simps [simp]:
  "crId (applyUpdates u now r) = crId r" "crKind (applyUpdates u now r) = crKind r"
  "crGuardianPrincipalId (applyUpdates u now r) = crGuardianPrincipalId r"
  by (simp_all add: applyUpdates_def)

lemma resolve_ok: "dbOk db \<Longrightarrow> dbOk (snd (resolveCanonicalGuardianRequest i e d now db))"
  by (simp add: resolveCanonicalGuardianRequest_def Let_def dbOk_updateRequests)

lemma get_updateRequests:
  assumes "\<And>r. p r \<Longrightarrow> crId (f r) = crId r"
  shows "getCanonicalGuardianRequest i (db\<lparr>requests := updateWhere p f (requests db)\<rparr>) =
    map_option (\<lambda>r. if p r then f r else r) (getCanonicalGuardianRequest i db)"
  using byKey_updateWhere [of p crId f i "requests db"] assms by (simp add: getCanonicalGuardianRequest_def)

lemma get_resolve:
  "getCanonicalGuardianRequest j (snd (resolveCanonicalGuardianRequest i e d now db)) =
    map_option (\<lambda>r. if crId r = i \<and> crStatus r = e then applyDecision d now r else r)
      (getCanonicalGuardianRequest j db)"
  by (simp add: resolveCanonicalGuardianRequest_def Let_def get_updateRequests)

lemma resolve_hit:
  assumes "dbOk db" "getCanonicalGuardianRequest i db = Some r" "crStatus r = e"
  shows "fst (resolveCanonicalGuardianRequest i e d now db) = Some (applyDecision d now r)"
proof -
  have r: "r \<in> set (requests db)" "crId r = i" using assms dbOk_getRequest by blast+
  then have "changesOf (\<lambda>r. crId r = i \<and> crStatus r = e) (requests db) \<noteq> 0"
    using assms(3) by (auto simp: table_simps)
  then show ?thesis
    using assms r by (simp add: resolveCanonicalGuardianRequest_def Let_def get_updateRequests)
qed

lemma resolve_miss:
  assumes "dbOk db" "\<And>r. getCanonicalGuardianRequest i db = Some r \<Longrightarrow> crStatus r \<noteq> e"
  shows "resolveCanonicalGuardianRequest i e d now db = (None, db)"
proof -
  have no: "\<not> (crId r = i \<and> crStatus r = e)" if "r \<in> set (requests db)" for r
    using assms that dbOk_getRequest [OF assms(1), of i r] by blast
  then have "changesOf (\<lambda>r. crId r = i \<and> crStatus r = e) (requests db) = 0" by (simp add: table_simps)
  moreover have "updateWhere (\<lambda>r. crId r = i \<and> crStatus r = e) (applyDecision d now) (requests db) = requests db"
    using no by (rule updateWhere_id)
  ultimately show ?thesis by (simp add: resolveCanonicalGuardianRequest_def Let_def)
qed

text \<open>The store resolved by compare-and-swap: a writer is a time and a decision.\<close>

definition resolveAt ::
  "string \<Rightarrow> canonicalStatus \<Rightarrow> millis \<times> resolveDecision \<Rightarrow> guardianDb \<Rightarrow> canonicalRequest option \<times> guardianDb" where
  "resolveAt i e w db = resolveCanonicalGuardianRequest i e (snd w) (fst w) db"

interpretation guardianCas: cas_store dbOk "\<lambda>db i. getCanonicalGuardianRequest i db" crStatus
    "\<lambda>w. rdStatus (snd w)" resolveAt
proof unfold_locales
  show "dbOk db \<Longrightarrow> dbOk (snd (resolveAt k e d db))" for db k e d
    by (simp add: resolveAt_def resolve_ok)
  show "\<exists>r'. fst (resolveAt k e d db) = Some r' \<and> crStatus r' = rdStatus (snd d) \<and>
      getCanonicalGuardianRequest k (snd (resolveAt k e d db)) = Some r'"
    if "dbOk db" "getCanonicalGuardianRequest k db = Some r" "crStatus r = e" for db k r e d
    using that dbOk_getRequest [OF that(1), of k r]
    by (simp add: resolveAt_def resolve_hit get_resolve)
  show "resolveAt k e d db = (None, db)"
    if "dbOk db" "\<And>r. getCanonicalGuardianRequest k db = Some r \<Longrightarrow> crStatus r \<noteq> e" for db k e d
    unfolding resolveAt_def using that by (rule resolve_miss)
  show "getCanonicalGuardianRequest k' (snd (resolveAt k e d db)) = getCanonicalGuardianRequest k' db"
    if "dbOk db" "k' \<noteq> k" for db k' k e d
  proof (cases "getCanonicalGuardianRequest k' db")
    case (Some a)
    then have "crId a = k'" using dbOk_getRequest [OF that(1)] by blast
    then show ?thesis using Some that(2) by (simp add: resolveAt_def get_resolve)
  qed (simp add: resolveAt_def get_resolve)
qed

section \<open>The store as a machine\<close>

datatype guardianEvent =
    GCreate createParams string "nat \<Rightarrow> string" millis
  | GUpdate string updateParams millis
  | GResolve string canonicalStatus resolveDecision millis
  | GExpireAll millis
  | GDeliver deliveryParams string millis
  | GExpire string millis
  | GUpdateDelivery string "string option" "string option" millis

fun guardianStep :: "guardianDb \<Rightarrow> guardianEvent \<Rightarrow> guardianDb" where
  "guardianStep db (GCreate p u c now) = snd (createCanonicalGuardianRequest p u c now db)"
| "guardianStep db (GUpdate i u now) = snd (updateCanonicalGuardianRequest i u now db)"
| "guardianStep db (GResolve i e d now) = snd (resolveCanonicalGuardianRequest i e d now db)"
| "guardianStep db (GExpireAll now) = snd (expireAllPendingCanonicalRequests now db)"
| "guardianStep db (GDeliver p u now) = snd (createCanonicalGuardianDelivery p u now db)"
| "guardianStep db (GExpire i now) = expireCanonicalGuardianRequest i now db"
| "guardianStep db (GUpdateDelivery i s m now) = snd (updateCanonicalGuardianDelivery i s m now db)"

lemma create_ok:
  assumes "dbOk db"
  shows "dbOk (snd (createCanonicalGuardianRequest p u c now db))"
proof -
  let ?row = "newRequest p u c now db"
  have "crKind ?row = pcKind p" "crGuardianPrincipalId ?row = pcGuardianPrincipalId p"
    by (simp_all add: newRequest_def)
  then show ?thesis
    using assms byKey_None [of crId "crId ?row" "requests db"]
    by (auto simp: createCanonicalGuardianRequest_def Let_def dbOk_def)
qed

lemma deliver_ok: "dbOk db \<Longrightarrow> dbOk (snd (createCanonicalGuardianDelivery p u now db))"
  using byKey_None [of cdId "orDefault (dpId p) u" "deliveries db"]
  by (auto simp: createCanonicalGuardianDelivery_def Let_def dbOk_def)

lemma expire_eq:
  "expireCanonicalGuardianRequest i now db =
    (let db1 = db\<lparr>requests := updateWhere (\<lambda>r. crId r = i \<and> crStatus r = CsPending)
        (\<lambda>r. r\<lparr>crStatus := CsExpired, crUpdatedAt := now\<rparr>) (requests db)\<rparr>
     in db1\<lparr>deliveries := updateWhere (\<lambda>d. cdRequestId d = i)
        (\<lambda>d. d\<lparr>cdStatus := ''expired'', cdUpdatedAt := now\<rparr>) (deliveries db1)\<rparr>)"
  by (simp add: expireCanonicalGuardianRequest_def Let_def)

lemma guardianStep_ok: "dbOk db \<Longrightarrow> dbOk (guardianStep db e)"
proof (cases e)
  case (GExpire i now)
  assume "dbOk db"
  then show ?thesis
    unfolding GExpire guardianStep.simps expire_eq Let_def
    by (intro dbOk_updateDeliveries dbOk_updateRequests) simp_all
qed (simp_all add: create_ok deliver_ok resolve_ok updateCanonicalGuardianRequest_def Let_def
    expireAllPendingCanonicalRequests_def dbOk_updateRequests updateCanonicalGuardianDelivery_def
    dbOk_updateDeliveries)

interpretation guardianMachine: event_machine guardianStep dbOk
  by unfold_locales (rule guardianStep_ok)

definition empty_db :: guardianDb where
  "empty_db = \<lparr>requests = [], deliveries = []\<rparr>"

lemma dbOk_empty [simp]: "dbOk empty_db"
  by (simp add: empty_db_def dbOk_def)

section \<open>Decided requests\<close>

text \<open>What a decision fixes, and the events the callers of the store cause: they resolve pending
  requests and update only the follow-up state and the deadline.\<close>

definition verdict :: "canonicalRequest \<Rightarrow> canonicalStatus \<times> string option \<times> string option \<times> string option" where
  "verdict r = (crStatus r, crAnswerText r, crDecidedByExternalUserId r, crDecidedByPrincipalId r)"

fun callerEvent :: "guardianEvent \<Rightarrow> bool" where
  "callerEvent (GUpdate i u now) = (upStatus u = None \<and> upAnswerText u = None \<and>
     upDecidedByExternalUserId u = None \<and> upDecidedByPrincipalId u = None)"
| "callerEvent (GResolve i e d now) = (e = CsPending)"
| "callerEvent _ = True"

text \<open>The store leaves the protection of a decision to its callers in two places: an update that names the status,
  the answer or the decider of the request writes it whatever the status is, and a resolution may expect another
  status than pending.\<close>

fun rewritesVerdict :: "string \<Rightarrow> guardianEvent \<Rightarrow> bool" where
  "rewritesVerdict i (GUpdate j u now) = (j = i \<and> (upStatus u \<noteq> None \<or> upAnswerText u \<noteq> None \<or>
     upDecidedByExternalUserId u \<noteq> None \<or> upDecidedByPrincipalId u \<noteq> None))"
| "rewritesVerdict i (GResolve j e d now) = (j = i \<and> e \<noteq> CsPending)"
| "rewritesVerdict i _ = False"

lemma callerEvent_keeps: "callerEvent e \<Longrightarrow> \<not> rewritesVerdict i e"
  by (cases e) auto

lemma get_requests_only [simp]:
  "getCanonicalGuardianRequest i (db\<lparr>deliveries := ds\<rparr>) = getCanonicalGuardianRequest i db"
  by (simp add: getCanonicalGuardianRequest_def)

lemma get_expire:
  "getCanonicalGuardianRequest i (expireCanonicalGuardianRequest j now db) =
    map_option (\<lambda>r. if crId r = j \<and> crStatus r = CsPending then r\<lparr>crStatus := CsExpired, crUpdatedAt := now\<rparr> else r)
      (getCanonicalGuardianRequest i db)"
  by (simp add: expire_eq Let_def get_updateRequests)

lemma get_crId: "getCanonicalGuardianRequest i db = Some r \<Longrightarrow> crId r = i"
  by (auto simp: getCanonicalGuardianRequest_def dest: byKey_Some)

lemma decided_step:
  assumes "getCanonicalGuardianRequest i db = Some r" "crStatus r \<noteq> CsPending" "\<not> rewritesVerdict i e"
  shows "\<exists>r'. getCanonicalGuardianRequest i (guardianStep db e) = Some r' \<and> verdict r' = verdict r"
proof (cases e)
  case (GCreate p u c now)
  then show ?thesis using assms(1)
    by (simp add: createCanonicalGuardianRequest_def Let_def getCanonicalGuardianRequest_def byKey_append)
next
  case (GUpdate j u now)
  then show ?thesis using assms
    by (simp add: updateCanonicalGuardianRequest_def Let_def get_updateRequests get_crId [OF assms(1)] verdict_def applyUpdates_def)
next
  case (GResolve j ex d now)
  then show ?thesis using assms by (auto simp: get_resolve get_crId [OF assms(1)])
next
  case (GExpireAll now)
  then show ?thesis using assms
    by (simp add: expireAllPendingCanonicalRequests_def get_updateRequests staleAtStartup_def)
next
  case (GDeliver p u now)
  then show ?thesis using assms by (simp add: createCanonicalGuardianDelivery_def Let_def)
next
  case (GExpire j now)
  then show ?thesis using assms by (simp add: get_expire)
next
  case (GUpdateDelivery j s m now)
  then show ?thesis using assms by (simp add: updateCanonicalGuardianDelivery_def Let_def)
qed

lemma verdict_status: "verdict r' = verdict r \<Longrightarrow> crStatus r' = crStatus r"
  by (simp add: verdict_def)

lemma kept_run:
  "getCanonicalGuardianRequest i db = Some r \<Longrightarrow> crStatus r \<noteq> CsPending \<Longrightarrow> \<forall>e \<in> set es. \<not> rewritesVerdict i e \<Longrightarrow>
    \<exists>r'. getCanonicalGuardianRequest i (runEvents guardianStep db es) = Some r' \<and> verdict r' = verdict r"
proof (induction es arbitrary: db r)
  case (Cons e es)
  then obtain r1 where r1: "getCanonicalGuardianRequest i (guardianStep db e) = Some r1" "verdict r1 = verdict r"
    using decided_step [of i db r e] by auto
  then show ?case using Cons.IH [of "guardianStep db e" r1] Cons.prems verdict_status [of r1 r] by auto
qed simp

lemma decided_run:
  "getCanonicalGuardianRequest i db = Some r \<Longrightarrow> crStatus r \<noteq> CsPending \<Longrightarrow> list_all callerEvent es \<Longrightarrow>
    \<exists>r'. getCanonicalGuardianRequest i (runEvents guardianStep db es) = Some r' \<and> verdict r' = verdict r"
  using callerEvent_keeps by (intro kept_run) (auto simp: list_all_iff)

text \<open>Whatever happens, a request stays in the table.\<close>

lemma request_stays:
  "getCanonicalGuardianRequest i db = Some r \<Longrightarrow> \<exists>r'. getCanonicalGuardianRequest i (guardianStep db e) = Some r'"
proof (cases e)
  case (GCreate p u c now)
  assume "getCanonicalGuardianRequest i db = Some r"
  with GCreate show ?thesis
    by (simp add: createCanonicalGuardianRequest_def Let_def getCanonicalGuardianRequest_def byKey_append)
qed (simp_all add: updateCanonicalGuardianRequest_def Let_def get_updateRequests get_resolve get_expire
    expireAllPendingCanonicalRequests_def createCanonicalGuardianDelivery_def updateCanonicalGuardianDelivery_def)

lemma request_stays_run:
  "getCanonicalGuardianRequest i db = Some r \<Longrightarrow> \<exists>r'. getCanonicalGuardianRequest i (runEvents guardianStep db es) = Some r'"
proof (induction es arbitrary: db r)
  case (Cons e es)
  then show ?case using request_stays [of i db r e] by auto
qed simp

text \<open>An update that names a status does overwrite a decision.\<close>

lemma update_overwrites_decision:
  "getCanonicalGuardianRequest i db = Some r \<Longrightarrow> upStatus u = Some st \<Longrightarrow>
    \<exists>r'. getCanonicalGuardianRequest i (guardianStep db (GUpdate i u now)) = Some r' \<and> crStatus r' = st"
  using get_crId [of i db r]
  by (simp add: updateCanonicalGuardianRequest_def Let_def get_updateRequests applyUpdates_def orDefault_def)

section \<open>Scope of a conversation\<close>

lemma set_pendingOfDeliveries:
  "set (pendingOfDeliveries db seen ds) =
    {r. \<exists>d \<in> set ds. cdRequestId d \<notin> set seen \<and>
      getCanonicalGuardianRequest (cdRequestId d) db = Some r \<and> crStatus r = CsPending}"
proof (induction ds arbitrary: seen)
  case (Cons d ds)
  show ?case
  proof (cases "cdRequestId d \<in> set seen")
    case True
    then show ?thesis using Cons.IH [of seen] by auto
  next
    case False
    let ?g = "\<lambda>k. {r. getCanonicalGuardianRequest k db = Some r \<and> crStatus r = CsPending}"
    have "set (pendingOfDeliveries db seen (d # ds)) =
        ?g (cdRequestId d) \<union> set (pendingOfDeliveries db (cdRequestId d # seen) ds)"
      using False by (auto split: option.split)
    also have "\<dots> = ?g (cdRequestId d) \<union> {r. \<exists>x \<in> set ds. cdRequestId x \<notin> set (cdRequestId d # seen) \<and>
        r \<in> ?g (cdRequestId x)}"
      unfolding Cons.IH by blast
    also have "\<dots> = {r. \<exists>x \<in> set (d # ds). cdRequestId x \<notin> set seen \<and> r \<in> ?g (cdRequestId x)}"
    proof (rule set_eqI)
      fix r
      show "r \<in> ?g (cdRequestId d) \<union> {r. \<exists>x \<in> set ds. cdRequestId x \<notin> set (cdRequestId d # seen) \<and>
          r \<in> ?g (cdRequestId x)} \<longleftrightarrow>
        r \<in> {r. \<exists>x \<in> set (d # ds). cdRequestId x \<notin> set seen \<and> r \<in> ?g (cdRequestId x)}"
        using False by (cases "r \<in> ?g (cdRequestId d)") (auto, metis)
    qed
    finally show ?thesis by simp
  qed
qed simp

lemma set_scopeLoop:
  "inj_on crId (set rs) \<Longrightarrow> set (scopeLoop now seen rs) = {r \<in> set rs. crId r \<notin> set seen \<and> \<not> isRequestExpired r now}"
proof (induction rs arbitrary: seen)
  case (Cons r rs)
  have inj: "inj_on crId (set rs)" using Cons.prems by simp
  have same: "x = r" if "x \<in> set rs" "crId x = crId r" for x
    using Cons.prems that by (auto simp: inj_on_def)
  show ?case
    using Cons.IH [OF inj, of seen] Cons.IH [OF inj, of "crId r # seen"] same by auto
qed simp

lemma distinct_scopeLoop:
  "distinct (map crId (scopeLoop now seen rs)) \<and> set seen \<inter> crId ` set (scopeLoop now seen rs) = {}"
proof (induction rs arbitrary: seen)
  case (Cons r rs)
  show ?case using Cons.IH [of seen] Cons.IH [of "crId r # seen"] by auto
qed simp

lemma scope_set:
  assumes "dbOk db" "conv \<noteq> []"
  shows "set (listPendingRequestsByConversationScope conv channel now db) =
    {r \<in> set (requests db). crStatus r = CsPending \<and> \<not> isRequestExpired r now \<and>
      isRequestInConversationScope (crId r) conv channel db}"
proof -
  let ?src = "listCanonicalGuardianRequests (noFilters\<lparr>lfConversationId := Some conv, lfStatus := Some CsPending\<rparr>) db"
  let ?dst = "listPendingByDestinationConversation conv channel db"
  have src: "set ?src = {r \<in> set (requests db). crStatus r = CsPending \<and> crConversationId r = Some conv}"
    using assms(2) by (auto simp: listCanonicalGuardianRequests_def noFilters_def cond_def)
  have dst: "set ?dst = {r \<in> set (requests db). crStatus r = CsPending \<and>
      (\<exists>d \<in> set (deliveries db). cdRequestId d = crId r \<and> cdDestinationConversationId d = Some conv \<and>
        (truthy channel \<longrightarrow> Some (cdDestinationChannel d) = channel))}"
    using dbOk_getRequest [OF assms(1)]
    by (auto simp: listPendingByDestinationConversation_def set_pendingOfDeliveries cond_def)
  have inj: "inj_on crId (set (?src @ ?dst))"
  proof (rule inj_on_subset)
    show "inj_on crId (set (requests db))" using assms(1) by (simp add: dbOk_def distinct_map)
    show "set (?src @ ?dst) \<subseteq> set (requests db)" using src dst by auto
  qed
  have scope: "isRequestInConversationScope (crId r) conv channel db \<longleftrightarrow>
      crConversationId r = Some conv \<or> (\<exists>d \<in> set (deliveries db). cdRequestId d = crId r \<and>
        cdDestinationConversationId d = Some conv \<and> (truthy channel \<longrightarrow> Some (cdDestinationChannel d) = channel))"
    if "r \<in> set (requests db)" for r
  proof -
    have "getCanonicalGuardianRequest (crId r) db = Some r" using that dbOk_getRequest [OF assms(1)] by blast
    then show ?thesis
      by (auto simp: isRequestInConversationScope_def listCanonicalGuardianDeliveries_def list_ex_iff)
  qed
  have "set (listPendingRequestsByConversationScope conv channel now db) =
      {r \<in> set ?src \<union> set ?dst. \<not> isRequestExpired r now}"
    using set_scopeLoop [OF inj, of now "[]"] by (simp add: listPendingRequestsByConversationScope_def)
  then show ?thesis using src dst scope by (simp only:) blast
qed

section \<open>Properties\<close>

definition ex_params :: "string \<Rightarrow> createParams" where
  "ex_params i = \<lparr>pcId = Some i, pcKind = ''tool_grant_request'', pcSourceType = ''channel'',
     pcSourceChannel = Some ''telegram'', pcConversationId = Some ''c1'',
     pcRequesterExternalUserId = Some ''u1'', pcRequesterChatId = None, pcGuardianExternalUserId = None,
     pcGuardianPrincipalId = Some ''p1'', pcCallSessionId = None, pcPendingQuestionId = None,
     pcQuestionText = None, pcRequestCode = None, pcToolName = Some ''bash'', pcInputDigest = Some ''d1'',
     pcCommandPreview = None, pcRiskLevel = None, pcActivityText = None, pcExecutionTarget = None,
     pcStatus = None, pcAnswerText = None, pcDecidedByExternalUserId = None,
     pcDecidedByPrincipalId = None, pcFollowupState = None, pcExpiresAt = None\<rparr>"

definition ex_guardian_db :: guardianDb where
  "ex_guardian_db = snd (createCanonicalGuardianRequest (ex_params ''r1'') ''u'' (\<lambda>k. ''ABCDEF'') 5 empty_db)"

definition ex_verdict :: "canonicalStatus \<Rightarrow> millis \<times> resolveDecision" where
  "ex_verdict s = (7, \<lparr>rdStatus = s, rdAnswerText = None, rdDecidedByExternalUserId = None,
     rdDecidedByPrincipalId = Some ''p1''\<rparr>)"

lemma ex_guardian_facts:
  "dbOk ex_guardian_db"
  "\<exists>r. getCanonicalGuardianRequest ''r1'' ex_guardian_db = Some r \<and> crStatus r = CsPending"
proof -
  show "dbOk ex_guardian_db" unfolding ex_guardian_db_def by (intro create_ok dbOk_empty)
  show "\<exists>r. getCanonicalGuardianRequest ''r1'' ex_guardian_db = Some r \<and> crStatus r = CsPending"
    by (simp add: ex_guardian_db_def createCanonicalGuardianRequest_def ex_params_def empty_db_def byKey_def
        newRequest_def getCanonicalGuardianRequest_def Let_def)
qed

text \<open>C3: First writer wins. When several deciders race to resolve a pending request, in any order, exactly
  the first gets the request back, with its decision; every later one gets nothing and changes
  nothing.\<close>

theorem first_resolver_wins:
  assumes "dbOk db" "getCanonicalGuardianRequest i db = Some r" "crStatus r = CsPending"
    "rdStatus (snd w) \<noteq> CsPending"
  shows "\<exists>r'. fst (runOps (map (resolveAt i CsPending) (w # ws)) db) = Some r' # replicate (length ws) None \<and>
    getCanonicalGuardianRequest i (snd (runOps (map (resolveAt i CsPending) (w # ws)) db)) = Some r' \<and>
    crStatus r' = rdStatus (snd w)"
  using assms by (rule guardianCas.first_writer_wins)

theorem first_resolver_wins_witness:
  "\<exists>r'. fst (runOps (map (resolveAt ''r1'' CsPending) [ex_verdict CsApproved, ex_verdict CsDenied]) ex_guardian_db) =
    [Some r', None] \<and> crStatus r' = CsApproved"
proof -
  obtain r where r: "getCanonicalGuardianRequest ''r1'' ex_guardian_db = Some r" "crStatus r = CsPending"
    using ex_guardian_facts(2) by blast
  have "rdStatus (snd (ex_verdict CsApproved)) \<noteq> CsPending" by (simp add: ex_verdict_def)
  from first_resolver_wins [OF ex_guardian_facts(1) r this, of "[ex_verdict CsDenied]"]
  show ?thesis by (auto simp: ex_verdict_def simp del: runOps_Cons)
qed

text \<open>C4: Only two things can change a decision. Once a request has left the pending state it stays in the store over
  every later history, of any operations on any requests and deliveries, and its status, its answer and the record of
  who decided stay as they are unless the history holds an update of this very request that names one of these fields
  or a resolution of it that expects another status than pending. Expiries, startup, duplicate resolutions of pending
  requests, follow-up updates and everything done to other requests leave the decision alone.\<close>

theorem decision_is_final:
  assumes "getCanonicalGuardianRequest i db = Some r" "crStatus r \<noteq> CsPending"
  shows "\<exists>r'. getCanonicalGuardianRequest i (runEvents guardianStep db es) = Some r' \<and>
    (verdict r' = verdict r \<or> (\<exists>e \<in> set es. rewritesVerdict i e))"
  using kept_run [OF assms, of es] request_stays_run [OF assms(1), of es] by blast

definition ex_decided_db :: guardianDb where
  "ex_decided_db = snd (resolveAt ''r1'' CsPending (ex_verdict CsDenied) ex_guardian_db)"

text \<open>Later attempts on the request, and an overwriting resolution of another one.\<close>

definition ex_attempts :: "guardianEvent list" where
  "ex_attempts = [GExpireAll 9, GExpire ''r1'' 9, GResolve ''r1'' CsPending (snd (ex_verdict CsApproved)) 9,
     GResolve ''r2'' CsDenied (snd (ex_verdict CsApproved)) 9]"

theorem decision_is_final_witness:
  "\<exists>r'. getCanonicalGuardianRequest ''r1'' (runEvents guardianStep ex_decided_db ex_attempts) = Some r' \<and>
    crStatus r' = CsDenied"
proof -
  obtain r where r: "getCanonicalGuardianRequest ''r1'' ex_guardian_db = Some r" "crStatus r = CsPending"
    using ex_guardian_facts(2) by blast
  let ?r = "applyDecision (snd (ex_verdict CsDenied)) 7 r"
  have d: "getCanonicalGuardianRequest ''r1'' ex_decided_db = Some ?r"
    unfolding ex_decided_db_def resolveAt_def get_resolve r(1) using r get_crId [OF r(1)] by (simp add: ex_verdict_def)
  have s: "crStatus ?r = CsDenied" by (simp add: ex_verdict_def)
  have "\<not> (\<exists>e \<in> set ex_attempts. rewritesVerdict ''r1'' e)" by (simp add: ex_attempts_def)
  moreover have "crStatus ?r \<noteq> CsPending" using s by simp
  ultimately obtain r' where "getCanonicalGuardianRequest ''r1'' (runEvents guardianStep ex_decided_db ex_attempts) = Some r'"
    "verdict r' = verdict ?r"
    using decision_is_final [OF d, of ex_attempts] by blast
  moreover from this(2) have "crStatus r' = CsDenied" using s verdict_status by metis
  ultimately show ?thesis by blast
qed

text \<open>Over every history from the empty store, ids stay unique and every request that needs a guardian
  decision is bound to a principal.\<close>

theorem decisionable_requests_attributed:
  "dbOk (runEvents guardianStep empty_db es)"
  by (rule guardianMachine.inv_run) simp

text \<open>The list of pending requests in the scope of a conversation and the scope check of a decision
  agree: the list holds exactly the pending, unexpired requests whose id passes the check for that
  conversation and channel, each once.\<close>

theorem scope_list_agrees_with_check:
  assumes "dbOk db" "conv \<noteq> []"
  shows "set (listPendingRequestsByConversationScope conv channel now db) =
      {r \<in> set (requests db). crStatus r = CsPending \<and> \<not> isRequestExpired r now \<and>
        isRequestInConversationScope (crId r) conv channel db} \<and>
    distinct (map crId (listPendingRequestsByConversationScope conv channel now db))"
  using scope_set [OF assms] distinct_scopeLoop by (simp add: listPendingRequestsByConversationScope_def)

theorem scope_list_agrees_with_check_witness:
  "set (listPendingRequestsByConversationScope ''c1'' None 9 ex_guardian_db) =
    {r \<in> set (requests ex_guardian_db). crStatus r = CsPending \<and> \<not> isRequestExpired r 9 \<and>
      isRequestInConversationScope (crId r) ''c1'' None ex_guardian_db}"
  using scope_list_agrees_with_check [OF ex_guardian_facts(1), of "''c1''" None 9] by simp

text \<open>Expiring a request marks all its deliveries expired, whatever the status of the request: a
  request that was approved stays approved while its deliveries become expired.\<close>

theorem expire_touches_decided_deliveries:
  "(\<forall>d \<in> set (deliveries (expireCanonicalGuardianRequest i now db)). cdRequestId d = i \<longrightarrow> cdStatus d = ''expired'') \<and>
   (\<forall>r. getCanonicalGuardianRequest i db = Some r \<longrightarrow> crStatus r \<noteq> CsPending \<longrightarrow>
     getCanonicalGuardianRequest i (expireCanonicalGuardianRequest i now db) = Some r)"
proof (intro conjI allI impI)
  show "\<forall>d \<in> set (deliveries (expireCanonicalGuardianRequest i now db)). cdRequestId d = i \<longrightarrow> cdStatus d = ''expired''"
  proof (intro ballI impI)
    fix d assume "d \<in> set (deliveries (expireCanonicalGuardianRequest i now db))" and di: "cdRequestId d = i"
    then have "d \<in> (\<lambda>x. if cdRequestId x = i then x\<lparr>cdStatus := ''expired'', cdUpdatedAt := now\<rparr> else x) ` set (deliveries db)"
      unfolding expireCanonicalGuardianRequest_def by (simp add: updateWhere_def)
    then obtain x where "d = (if cdRequestId x = i then x\<lparr>cdStatus := ''expired'', cdUpdatedAt := now\<rparr> else x)"
      by (rule imageE)
    with di show "cdStatus d = ''expired''" by (cases "cdRequestId x = i") simp_all
  qed
  fix r assume r: "getCanonicalGuardianRequest i db = Some r" "crStatus r \<noteq> CsPending"
  have "\<not> (crId r = i \<and> crStatus r = CsPending)" using r(2) by blast
  then show "getCanonicalGuardianRequest i (expireCanonicalGuardianRequest i now db) = Some r"
    unfolding get_expire r(1) option.map by (simp only: if_False)
qed

theorem expire_touches_decided_deliveries_witness:
  "\<forall>d \<in> set (deliveries (expireCanonicalGuardianRequest ''r1'' 9 ex_decided_db)).
     cdRequestId d = ''r1'' \<longrightarrow> cdStatus d = ''expired''"
  by (rule conjunct1 [OF expire_touches_decided_deliveries])

end
