(* ===== verification/ScopedGrants.thy ===== *)
theory ScopedGrants
  imports HumPrelude
begin

text \<open>
  Scoped approval grants and the approval primitive over them
  (\<open>assistant/src/memory/scoped-approval-grants.ts\<close>, \<open>assistant/src/approvals/approval-primitive.ts\<close>).
  The state is the table of grants. A consumer selects a candidate and then updates it under the
  condition that it is still active; what other writers of the database do between the two
  statements of attempt \<open>k\<close> is the list of statements \<open>others k\<close>.
\<close>

section \<open>Grants\<close>

datatype scopeMode = ByRequestId | ByToolSignature
datatype sagStatus = SgActive | SgConsumed | SgExpired | SgRevoked

record scopedGrant =
  sgId :: string
  sgScopeMode :: scopeMode
  sgRequestId :: "string option"
  sgToolName :: "string option"
  sgInputDigest :: "string option"
  sgRequestChannel :: string
  sgDecisionChannel :: string
  sgExecutionChannel :: "string option"
  sgConversationId :: "string option"
  sgCallSessionId :: "string option"
  sgRequesterExternalUserId :: "string option"
  sgGuardianExternalUserId :: "string option"
  sgStatus :: sagStatus
  sgExpiresAt :: millis
  sgConsumedAt :: "millis option"
  sgConsumedByRequestId :: "string option"
  sgCreatedAt :: millis
  sgUpdatedAt :: millis

type_synonym sagDb = "scopedGrant list"

definition MAX_CAS_RETRIES :: nat where
  "MAX_CAS_RETRIES = 3"

record mintParams =
  mpScopeMode :: scopeMode
  mpRequestId :: "string option"
  mpToolName :: "string option"
  mpInputDigest :: "string option"
  mpRequestChannel :: string
  mpDecisionChannel :: string
  mpExecutionChannel :: "string option"
  mpConversationId :: "string option"
  mpCallSessionId :: "string option"
  mpRequesterExternalUserId :: "string option"
  mpGuardianExternalUserId :: "string option"
  mpExpiresAt :: millis

text \<open>An insert with a taken id throws.\<close>

definition createScopedApprovalGrant ::
  "mintParams \<Rightarrow> string \<Rightarrow> millis \<Rightarrow> sagDb \<Rightarrow> scopedGrant option \<times> sagDb" where
  "createScopedApprovalGrant p uuid now db =
    (let row = \<lparr>sgId = uuid, sgScopeMode = mpScopeMode p, sgRequestId = mpRequestId p,
           sgToolName = mpToolName p, sgInputDigest = mpInputDigest p,
           sgRequestChannel = mpRequestChannel p, sgDecisionChannel = mpDecisionChannel p,
           sgExecutionChannel = mpExecutionChannel p, sgConversationId = mpConversationId p,
           sgCallSessionId = mpCallSessionId p, sgRequesterExternalUserId = mpRequesterExternalUserId p,
           sgGuardianExternalUserId = mpGuardianExternalUserId p, sgStatus = SgActive,
           sgExpiresAt = mpExpiresAt p, sgConsumedAt = None, sgConsumedByRequestId = None,
           sgCreatedAt = now, sgUpdatedAt = now\<rparr>
     in if byKey sgId uuid db \<noteq> None then (None, db) else (Some row, db @ [row]))"

section \<open>Consuming a grant\<close>

definition consumeRow :: "millis \<Rightarrow> string \<Rightarrow> scopedGrant \<Rightarrow> scopedGrant" where
  "consumeRow now by_id g = g\<lparr>sgStatus := SgConsumed, sgConsumedAt := Some now,
     sgConsumedByRequestId := Some by_id, sgUpdatedAt := now\<rparr>"

definition casMatch :: "string \<Rightarrow> scopedGrant \<Rightarrow> bool" where
  "casMatch i g = (sgId g = i \<and> sgStatus g = SgActive)"

text \<open>The statements of other writers: the swap of another consumer, an expiry, a revocation.\<close>

record revokeContext =
  rxConversationId :: "string option"
  rxCallSessionId :: "string option"
  rxRequestChannel :: "string option"

datatype atomicOp =
    ASwap string millis string
  | AExpire millis
  | ARevoke revokeContext millis

definition expireMatch :: "millis \<Rightarrow> scopedGrant \<Rightarrow> bool" where
  "expireMatch now g = (sgStatus g = SgActive \<and> sgExpiresAt g \<le> now)"

definition revokeMatch :: "revokeContext \<Rightarrow> scopedGrant \<Rightarrow> bool" where
  "revokeMatch x g = (sgStatus g = SgActive \<and>
     (case rxConversationId x of None \<Rightarrow> True | Some c \<Rightarrow> sgConversationId g = Some c) \<and>
     (case rxCallSessionId x of None \<Rightarrow> True | Some c \<Rightarrow> sgCallSessionId g = Some c) \<and>
     (case rxRequestChannel x of None \<Rightarrow> True | Some c \<Rightarrow> sgRequestChannel g = c))"

definition expireScopedApprovalGrants :: "millis \<Rightarrow> sagDb \<Rightarrow> nat \<times> sagDb" where
  "expireScopedApprovalGrants now db =
    (changesOf (expireMatch now) db,
     updateWhere (expireMatch now) (\<lambda>g. g\<lparr>sgStatus := SgExpired, sgUpdatedAt := now\<rparr>) db)"

text \<open>Revocation without any filter throws.\<close>

definition revokeScopedApprovalGrantsForContext :: "revokeContext \<Rightarrow> millis \<Rightarrow> sagDb \<Rightarrow> nat option \<times> sagDb" where
  "revokeScopedApprovalGrantsForContext x now db =
    (if rxConversationId x = None \<and> rxCallSessionId x = None \<and> rxRequestChannel x = None then (None, db)
     else (Some (changesOf (revokeMatch x) db),
       updateWhere (revokeMatch x) (\<lambda>g. g\<lparr>sgStatus := SgRevoked, sgUpdatedAt := now\<rparr>) db))"

fun atomicStep :: "sagDb \<Rightarrow> atomicOp \<Rightarrow> sagDb" where
  "atomicStep db (ASwap i now by_id) = updateWhere (casMatch i) (consumeRow now by_id) db"
| "atomicStep db (AExpire now) = snd (expireScopedApprovalGrants now db)"
| "atomicStep db (ARevoke x now) = snd (revokeScopedApprovalGrantsForContext x now db)"

text \<open>The retry loop, over the attempts still to make.\<close>

fun consumeLoop ::
  "(sagDb \<Rightarrow> scopedGrant option) \<Rightarrow> (nat \<Rightarrow> atomicOp list) \<Rightarrow> millis \<Rightarrow> string \<Rightarrow> nat list \<Rightarrow> sagDb \<Rightarrow>
    (bool \<times> scopedGrant option) \<times> sagDb" where
  "consumeLoop sel others now by_id [] db = ((False, None), db)"
| "consumeLoop sel others now by_id (k # ks) db =
    (case sel db of
       None \<Rightarrow> ((False, None), db)
     | Some c \<Rightarrow>
        (let db1 = runEvents atomicStep db (others k);
             db2 = updateWhere (casMatch (sgId c)) (consumeRow now by_id) db1
         in if changesOf (casMatch (sgId c)) db1 = 0 then consumeLoop sel others now by_id ks db2
            else ((True, byKey sgId (sgId c) db2), db2)))"

definition attempts :: "nat list" where
  "attempts = [0..<Suc MAX_CAS_RETRIES]"

definition requestCandidate :: "string \<Rightarrow> millis \<Rightarrow> sagDb \<Rightarrow> scopedGrant option" where
  "requestCandidate rid now db =
    find (\<lambda>g. sgRequestId g = Some rid \<and> sgScopeMode g = ByRequestId \<and> sgStatus g = SgActive \<and>
      now < sgExpiresAt g) db"

definition consumeByRequestId ::
  "string \<Rightarrow> string \<Rightarrow> millis \<Rightarrow> (nat \<Rightarrow> atomicOp list) \<Rightarrow> sagDb \<Rightarrow> (bool \<times> scopedGrant option) \<times> sagDb" where
  "consumeByRequestId rid by_id now others db =
    consumeLoop (requestCandidate rid now) others now by_id attempts db"

record consumeParams =
  kpRequestId :: "string option"
  kpToolName :: string
  kpInputDigest :: string
  kpConsumingRequestId :: string
  kpExecutionChannel :: "string option"
  kpConversationId :: "string option"
  kpCallSessionId :: "string option"
  kpRequesterExternalUserId :: "string option"

text \<open>A scope field of the grant is null or equals the context value that is provided.\<close>

definition scopeOk :: "string option \<Rightarrow> string option \<Rightarrow> bool" where
  "scopeOk field ctx = (case ctx of Some v \<Rightarrow> field = None \<or> field = Some v | None \<Rightarrow> field = None)"

definition signatureMatch :: "consumeParams \<Rightarrow> millis \<Rightarrow> scopedGrant \<Rightarrow> bool" where
  "signatureMatch p now g =
    (sgToolName g = Some (kpToolName p) \<and> sgInputDigest g = Some (kpInputDigest p) \<and>
     sgScopeMode g = ByToolSignature \<and> sgStatus g = SgActive \<and> now < sgExpiresAt g \<and>
     scopeOk (sgExecutionChannel g) (kpExecutionChannel p) \<and>
     scopeOk (sgConversationId g) (kpConversationId p) \<and>
     scopeOk (sgCallSessionId g) (kpCallSessionId p) \<and>
     scopeOk (sgRequesterExternalUserId g) (kpRequesterExternalUserId p))"

definition specificity :: "scopedGrant \<Rightarrow> int" where
  "specificity g = (if sgExecutionChannel g \<noteq> None then 1 else 0) + (if sgConversationId g \<noteq> None then 1 else 0) +
     (if sgCallSessionId g \<noteq> None then 1 else 0) + (if sgRequesterExternalUserId g \<noteq> None then 1 else 0)"

definition signatureCandidate :: "consumeParams \<Rightarrow> millis \<Rightarrow> sagDb \<Rightarrow> scopedGrant option" where
  "signatureCandidate p now db = firstDesc specificity (filter (signatureMatch p now) db)"

definition consumeByToolSignature ::
  "consumeParams \<Rightarrow> millis \<Rightarrow> (nat \<Rightarrow> atomicOp list) \<Rightarrow> sagDb \<Rightarrow> (bool \<times> scopedGrant option) \<times> sagDb" where
  "consumeByToolSignature p now others db =
    consumeLoop (signatureCandidate p now) others now (kpConsumingRequestId p) attempts db"

section \<open>The approval primitive\<close>

datatype mintError = MissingRequestId | MissingToolFields | StorageError

definition mintGrantFromDecision ::
  "mintParams \<Rightarrow> string \<Rightarrow> millis \<Rightarrow> sagDb \<Rightarrow> (mintError + scopedGrant) \<times> sagDb" where
  "mintGrantFromDecision p uuid now db =
    (if mpScopeMode p = ByRequestId \<and> \<not> truthy (mpRequestId p) then (Inl MissingRequestId, db)
     else if mpScopeMode p = ByToolSignature \<and> (\<not> truthy (mpToolName p) \<or> \<not> truthy (mpInputDigest p))
     then (Inl MissingToolFields, db)
     else (case createScopedApprovalGrant p uuid now db of
        (None, db') \<Rightarrow> (Inl StorageError, db')
      | (Some g, db') \<Rightarrow> (Inr g, db')))"

datatype consumeError = NoMatch | ScopeMismatch | ExpiredGrant | AlreadyConsumed | Aborted

definition consumeGrantSync ::
  "consumeParams \<Rightarrow> millis \<Rightarrow> (nat \<Rightarrow> atomicOp list) \<Rightarrow> (nat \<Rightarrow> atomicOp list) \<Rightarrow> sagDb \<Rightarrow>
    (consumeError + scopedGrant) \<times> sagDb" where
  "consumeGrantSync p now others1 others2 db =
    (let (r, db1) = (if truthy (kpRequestId p)
           then consumeByRequestId (orDefault (kpRequestId p) []) (kpConsumingRequestId p) now others1 db
           else ((False, None), db)) in
     case r of
       (True, Some g) \<Rightarrow> (Inr g, db1)
     | _ \<Rightarrow>
        (let (r2, db2) = consumeByToolSignature p now others2 db1 in
         case r2 of (True, Some g) \<Rightarrow> (Inr g, db2) | _ \<Rightarrow> (Inl NoMatch, db2)))"

text \<open>
  Polling. A round is what the environment shows to one turn of the loop: the clock at the loop test,
  the abort flag before and after the sleep, the writes of others during the sleep, and the clock of
  the attempt. When the rounds given run out before the loop ends, the call has not returned yet.
\<close>

record pollRound =
  plClock :: millis
  plAbortedBefore :: bool
  plDuring :: "atomicOp list"
  plMints :: "(mintParams \<times> string \<times> millis) list"
  plAbortedAfter :: bool
  plNow :: millis

fun mintAll :: "(mintParams \<times> string \<times> millis) list \<Rightarrow> sagDb \<Rightarrow> sagDb" where
  "mintAll [] db = db"
| "mintAll ((p, u, t) # ms) db = mintAll ms (snd (mintGrantFromDecision p u t db))"

definition noOthers :: "nat \<Rightarrow> atomicOp list" where
  "noOthers k = []"

fun pollLoop ::
  "consumeParams \<Rightarrow> millis \<Rightarrow> pollRound list \<Rightarrow> sagDb \<Rightarrow> (consumeError + scopedGrant) option \<times> sagDb" where
  "pollLoop p deadline [] db = (None, db)"
| "pollLoop p deadline (x # xs) db =
    (if deadline \<le> plClock x then (Some (Inl NoMatch), db)
     else if plAbortedBefore x then (Some (Inl Aborted), db)
     else let db1 = mintAll (plMints x) (runEvents atomicStep db (plDuring x)) in
       if plAbortedAfter x then (Some (Inl Aborted), db1)
       else (case consumeGrantSync p (plNow x) noOthers noOthers db1 of
          (Inr g, db2) \<Rightarrow> (Some (Inr g), db2)
        | (Inl e, db2) \<Rightarrow> pollLoop p deadline xs db2))"

definition GRANT_RETRY_MAX_WAIT_MS :: millis where
  "GRANT_RETRY_MAX_WAIT_MS = 10000"

definition consumeGrantForInvocation ::
  "consumeParams \<Rightarrow> millis option \<Rightarrow> millis \<Rightarrow> pollRound list \<Rightarrow> sagDb \<Rightarrow>
    (consumeError + scopedGrant) option \<times> sagDb" where
  "consumeGrantForInvocation p maxWait now rounds db =
    (case consumeGrantSync p now noOthers noOthers db of
       (Inr g, db1) \<Rightarrow> (Some (Inr g), db1)
     | (Inl e, db1) \<Rightarrow>
         if orDefault maxWait GRANT_RETRY_MAX_WAIT_MS \<le> 0 then (Some (Inl e), db1)
         else pollLoop p (now + orDefault maxWait GRANT_RETRY_MAX_WAIT_MS) rounds db1)"

section \<open>Well-formed tables, and what statements keep\<close>

definition sagOk :: "sagDb \<Rightarrow> bool" where
  "sagOk db = distinct (map sgId db)"

text \<open>A grant without its mutable columns.\<close>

definition scopeView :: "scopedGrant \<Rightarrow> scopedGrant" where
  "scopeView g = g\<lparr>sgStatus := SgActive, sgConsumedAt := None, sgConsumedByRequestId := None, sgUpdatedAt := 0\<rparr>"

text \<open>A statement only changes mutable columns, and never makes a grant active again.\<close>

definition lowers :: "(scopedGrant \<Rightarrow> scopedGrant) \<Rightarrow> bool" where
  "lowers f = (\<forall>g. scopeView (f g) = scopeView g \<and> sgStatus (f g) \<noteq> SgActive)"

lemma sgId_scopeView: "sgId (scopeView g) = sgId g"
  by (simp add: scopeView_def)

lemma scopeView_id: "scopeView g = scopeView h \<Longrightarrow> sgId g = sgId h"
  by (drule arg_cong [of _ _ sgId]) (simp only: sgId_scopeView)

lemma lowers_rows [simp]:
  "lowers (consumeRow now b)" "lowers (\<lambda>g. g\<lparr>sgStatus := SgExpired, sgUpdatedAt := now\<rparr>)"
  "lowers (\<lambda>g. g\<lparr>sgStatus := SgRevoked, sgUpdatedAt := now\<rparr>)"
  by (simp_all add: lowers_def scopeView_def consumeRow_def)

lemma lowers_id: "lowers f \<Longrightarrow> sgId (f g) = sgId g"
  unfolding lowers_def by (blast intro: scopeView_id)

lemma views_update: "lowers f \<Longrightarrow> map scopeView (updateWhere p f db) = map scopeView db"
  by (simp add: updateWhere_def lowers_def)

lemma sagOk_views: "map scopeView db = map scopeView db' \<Longrightarrow> sagOk db = sagOk db'"
proof -
  assume v: "map scopeView db = map scopeView db'"
  have e: "map sgId (map scopeView xs) = map sgId xs" for xs
    unfolding map_map comp_def sgId_scopeView by (rule refl)
  have "map sgId db = map sgId (map scopeView db)" by (rule e [symmetric])
  also have "\<dots> = map sgId (map scopeView db')" by (simp only: v)
  also have "\<dots> = map sgId db'" by (rule e)
  finally show ?thesis by (simp only: sagOk_def)
qed

text \<open>How often a grant id can still be consumed: once while its row does not exist or is active.\<close>

definition budget :: "string \<Rightarrow> sagDb \<Rightarrow> nat" where
  "budget i db = (case byKey sgId i db of None \<Rightarrow> 1 | Some g \<Rightarrow> if sgStatus g = SgActive then 1 else 0)"

lemma budget_le: "budget i db \<le> 1"
  by (simp add: budget_def split: option.split)

lemma budget_update:
  assumes "lowers f"
  shows "budget i (updateWhere p f db) \<le> budget i db"
proof -
  have "byKey sgId i (updateWhere p f db) = map_option (\<lambda>r. if p r then f r else r) (byKey sgId i db)"
    by (rule byKey_updateWhere) (rule lowers_id [OF assms])
  moreover have "sgStatus (f g) \<noteq> SgActive" for g using assms by (simp add: lowers_def)
  ultimately show ?thesis by (cases "byKey sgId i db") (simp_all add: budget_def)
qed

lemma atomic_views: "map scopeView (atomicStep db a) = map scopeView db"
  by (cases a) (simp_all add: views_update expireScopedApprovalGrants_def
      revokeScopedApprovalGrantsForContext_def)

lemma atomic_budget: "budget i (atomicStep db a) \<le> budget i db"
  by (cases a) (simp_all add: budget_update expireScopedApprovalGrants_def
      revokeScopedApprovalGrantsForContext_def)

lemma atomics: "map scopeView (runEvents atomicStep db as) = map scopeView db \<and>
    budget i (runEvents atomicStep db as) \<le> budget i db"
proof (induction "as" arbitrary: db)
  case (Cons a as)
  have "budget i (runEvents atomicStep db (a # as)) \<le> budget i (atomicStep db a)"
    using Cons.IH by simp
  also have "\<dots> \<le> budget i db" by (rule atomic_budget)
  finally show ?case using Cons.IH atomic_views by simp
qed simp

lemma swap_facts:
  assumes "sagOk db" "changesOf (casMatch i) db \<noteq> 0"
  shows "\<exists>g. g \<in> set db \<and> sgId g = i \<and> sgStatus g = SgActive \<and>
    byKey sgId i (updateWhere (casMatch i) (consumeRow now b) db) = Some (consumeRow now b g) \<and>
    budget i db = 1 \<and> budget i (updateWhere (casMatch i) (consumeRow now b) db) = 0"
proof -
  obtain g where g: "g \<in> set db" "sgId g = i" "sgStatus g = SgActive"
    using assms(2) by (auto simp: table_simps casMatch_def)
  then have k: "byKey sgId i db = Some g" using byKey_in [of sgId db g] assms(1) by (simp add: sagOk_def)
  have id: "sgId (consumeRow now b r) = sgId r" for r by (simp add: consumeRow_def)
  have "byKey sgId i (updateWhere (casMatch i) (consumeRow now b) db) = Some (consumeRow now b g)"
    using byKey_updateWhere [of "casMatch i" sgId "consumeRow now b" i db] id k g
    by (simp add: casMatch_def)
  then show ?thesis using g k by (auto simp: budget_def consumeRow_def)
qed

section \<open>What the loop returns\<close>

definition won :: "string \<Rightarrow> bool \<times> scopedGrant option \<Rightarrow> nat" where
  "won i r = (case r of (True, Some g) \<Rightarrow> if sgId g = i then 1 else 0 | _ \<Rightarrow> 0)"

lemma won_simps [simp]: "won i (False, x) = 0" "won i (True, None) = 0"
  "won i (True, Some g) = (if sgId g = i then 1 else 0)"
  by (simp_all add: won_def)

lemma consumeLoop_step:
  assumes "sel db = Some c" "db1 = runEvents atomicStep db (others k)"
    "db2 = updateWhere (casMatch (sgId c)) (consumeRow now b) db1"
  shows "consumeLoop sel others now b (k # ks) db =
    (if changesOf (casMatch (sgId c)) db1 = 0 then consumeLoop sel others now b ks db2
     else ((True, byKey sgId (sgId c) db2), db2))"
  using assms by (simp add: Let_def)

lemma consumeLoop_facts:
  assumes "sagOk db"
  shows "map scopeView (snd (consumeLoop sel others now b ks db)) = map scopeView db \<and>
    won i (fst (consumeLoop sel others now b ks db)) + budget i (snd (consumeLoop sel others now b ks db)) \<le> budget i db"
  using assms
proof (induction ks arbitrary: db)
  case (Cons k ks)
  show ?case
  proof (cases "sel db")
    case (Some c)
    define db1 where "db1 = runEvents atomicStep db (others k)"
    define db2 where "db2 = updateWhere (casMatch (sgId c)) (consumeRow now b) db1"
    have v1: "map scopeView db1 = map scopeView db" "budget i db1 \<le> budget i db"
      using atomics by (simp_all add: db1_def)
    have v2: "map scopeView db2 = map scopeView db" "budget i db2 \<le> budget i db"
      using v1 views_update budget_update [of "consumeRow now b" i "casMatch (sgId c)" db1]
      by (simp_all add: db2_def)
    have ok: "sagOk db1" "sagOk db2" using v1 v2 Cons.prems sagOk_views by blast+
    show ?thesis
    proof (cases "changesOf (casMatch (sgId c)) db1 = 0")
      case True
      then have "consumeLoop sel others now b (k # ks) db = consumeLoop sel others now b ks db2"
        using consumeLoop_step [where sel = sel and others = others, OF Some db1_def db2_def] by simp
      then show ?thesis using Cons.IH [OF ok(2)] v2 by simp
    next
      case False
      then obtain g where g: "sgId g = sgId c"
          "byKey sgId (sgId c) db2 = Some (consumeRow now b g)" "budget (sgId c) db1 = 1" "budget (sgId c) db2 = 0"
        using swap_facts [OF ok(1) False, of now b] by (auto simp: db2_def)
      have "sgId (consumeRow now b g) = sgId c" using g(1) by (simp add: consumeRow_def)
      moreover have "consumeLoop sel others now b (k # ks) db = ((True, Some (consumeRow now b g)), db2)"
        using consumeLoop_step [where sel = sel and others = others, OF Some db1_def db2_def] False g(2) by simp
      ultimately show ?thesis using v1 v2 g(3,4) by (cases "sgId c = i") simp_all
    qed
  qed simp
qed simp

lemma consumeLoop_sound:
  assumes "sagOk db" "consumeLoop sel others now b ks db = ((True, r), db')"
    "\<And>db c. sel db = Some c \<Longrightarrow> c \<in> set db \<and> Q (scopeView c)"
  shows "\<exists>g. r = Some g \<and> g \<in> set db' \<and> Q (scopeView g) \<and> sgStatus g = SgConsumed \<and>
    sgConsumedByRequestId g = Some b \<and> sgConsumedAt g = Some now"
  using assms(1,2)
proof (induction ks arbitrary: db)
  case (Cons k ks)
  obtain c where c: "sel db = Some c" using Cons.prems(2) by (cases "sel db") auto
  define db1 where "db1 = runEvents atomicStep db (others k)"
  define db2 where "db2 = updateWhere (casMatch (sgId c)) (consumeRow now b) db1"
  have v: "map scopeView db1 = map scopeView db" "map scopeView db2 = map scopeView db"
    using atomics views_update by (simp_all add: db1_def db2_def)
  then have ok: "sagOk db1" "sagOk db2" using Cons.prems(1) sagOk_views by blast+
  show ?case
  proof (cases "changesOf (casMatch (sgId c)) db1 = 0")
    case True
    then show ?thesis
      using Cons.IH [OF ok(2)] Cons.prems(2) consumeLoop_step [where sel = sel and others = others, OF c db1_def db2_def] by simp
  next
    case False
    then obtain g where g: "g \<in> set db1" "sgId g = sgId c" "byKey sgId (sgId c) db2 = Some (consumeRow now b g)"
      using swap_facts [OF ok(1) False, of now b] by (auto simp: db2_def)
    have res: "r = Some (consumeRow now b g)" "db' = db2"
      using Cons.prems(2) consumeLoop_step [where sel = sel and others = others, OF c db1_def db2_def] False g(3) by simp_all
    obtain h where h: "h \<in> set db" "scopeView h = scopeView g"
      using g(1) v(1) by (metis image_iff set_map)
    have "sgId h = sgId c" using h(2) g(2) scopeView_id by metis
    moreover have "c \<in> set db" using assms(3) c by blast
    ultimately have "h = c"
      using h(1) Cons.prems(1) by (auto simp: sagOk_def distinct_map inj_on_def)
    then have "scopeView (consumeRow now b g) = scopeView c"
      using h(2) lowers_rows(1) [of now b] by (simp add: lowers_def)
    then have "Q (scopeView (consumeRow now b g))" using assms(3) [OF c] by simp
    moreover have "consumeRow now b g \<in> set db2" using byKey_Some [OF g(3)] by blast
    ultimately show ?thesis using res by (simp add: consumeRow_def)
  qed
qed simp

section \<open>The primitive as a machine\<close>

datatype sagEvent =
    SgMint mintParams string millis
  | SgConsume consumeParams millis "nat \<Rightarrow> atomicOp list" "nat \<Rightarrow> atomicOp list"
  | SgInvoke consumeParams "millis option" millis "pollRound list"
  | SgWrite atomicOp

fun sagStep :: "sagDb \<Rightarrow> sagEvent \<Rightarrow> sagDb" where
  "sagStep db (SgMint p u now) = snd (mintGrantFromDecision p u now db)"
| "sagStep db (SgConsume p now o1 o2) = snd (consumeGrantSync p now o1 o2 db)"
| "sagStep db (SgInvoke p w now rs) = snd (consumeGrantForInvocation p w now rs db)"
| "sagStep db (SgWrite a) = atomicStep db a"

definition gave :: "string \<Rightarrow> consumeError + scopedGrant \<Rightarrow> nat" where
  "gave i r = (case r of Inr g \<Rightarrow> if sgId g = i then 1 else 0 | Inl _ \<Rightarrow> 0)"

text \<open>The invocations authorised by the grant \<open>i\<close> in one event.\<close>

fun grantWins :: "string \<Rightarrow> sagDb \<Rightarrow> sagEvent \<Rightarrow> nat" where
  "grantWins i db (SgConsume p now o1 o2) = gave i (fst (consumeGrantSync p now o1 o2 db))"
| "grantWins i db (SgInvoke p w now rs) =
    (case fst (consumeGrantForInvocation p w now rs db) of None \<Rightarrow> 0 | Some r \<Rightarrow> gave i r)"
| "grantWins i db _ = 0"

lemma gave_simps [simp]: "gave i (Inl e) = 0" "gave i (Inr g) = (if sgId g = i then 1 else 0)"
  by (simp_all add: gave_def)

lemma mint_facts:
  assumes "sagOk db"
  shows "sagOk (snd (mintGrantFromDecision p u now db)) \<and>
    budget i (snd (mintGrantFromDecision p u now db)) \<le> budget i db"
proof -
  have "snd (mintGrantFromDecision p u now db) = db \<or>
      (\<exists>g. snd (mintGrantFromDecision p u now db) = db @ [g] \<and> sgId g = u \<and> byKey sgId u db = None)"
    by (auto simp: mintGrantFromDecision_def createScopedApprovalGrant_def Let_def)
  then show ?thesis
  proof
    assume "\<exists>g. snd (mintGrantFromDecision p u now db) = db @ [g] \<and> sgId g = u \<and> byKey sgId u db = None"
    then obtain g where g: "snd (mintGrantFromDecision p u now db) = db @ [g]" "sgId g = u" "byKey sgId u db = None"
      by blast
    then have "sagOk (db @ [g])" using assms byKey_None [of sgId u db] by (simp add: sagOk_def)
    moreover have "budget i (db @ [g]) \<le> budget i db"
      using g(2,3) by (cases "i = u") (simp_all add: budget_def byKey_append split: option.split)
    ultimately show ?thesis using g(1) by simp
  qed (use assms in simp)
qed

lemma sync_facts:
  assumes "sagOk db"
  shows "sagOk (snd (consumeGrantSync p now o1 o2 db)) \<and>
    gave i (fst (consumeGrantSync p now o1 o2 db)) + budget i (snd (consumeGrantSync p now o1 o2 db)) \<le> budget i db"
proof -
  obtain r db1 where r: "(if truthy (kpRequestId p)
      then consumeByRequestId (orDefault (kpRequestId p) []) (kpConsumingRequestId p) now o1 db
      else ((False, None), db)) = (r, db1)" by fastforce
  have loop: "sagOk y \<and> won i q + budget i y \<le> budget i x"
    if "sagOk x" "consumeLoop sel others now b ks x = (q, y)" for sel others b ks x q y
  proof -
    have "map scopeView y = map scopeView x" "won i q + budget i y \<le> budget i x"
      using consumeLoop_facts [OF that(1), of sel others now b ks i] that(2) by simp_all
    then show ?thesis using sagOk_views [of y x] that(1) by blast
  qed
  have f1: "sagOk db1 \<and> won i r + budget i db1 \<le> budget i db"
  proof (cases "truthy (kpRequestId p)")
    case True
    have "consumeLoop (requestCandidate (orDefault (kpRequestId p) []) now) o1 now (kpConsumingRequestId p) attempts db = (r, db1)"
      using r True by (simp add: consumeByRequestId_def)
    from loop [OF assms this] show ?thesis .
  qed (use r assms in auto)
  obtain r2 db2 where r2: "consumeByToolSignature p now o2 db1 = (r2, db2)" by fastforce
  have f2: "sagOk db2 \<and> won i r2 + budget i db2 \<le> budget i db1"
    using loop [of db1] f1 r2 unfolding consumeByToolSignature_def by blast
  show ?thesis
  proof (cases "\<exists>g. r = (True, Some g)")
    case True
    then obtain g where "r = (True, Some g)" ..
    then have "consumeGrantSync p now o1 o2 db = (Inr g, db1)" unfolding consumeGrantSync_def r by simp
    then show ?thesis using f1 \<open>r = _\<close> by simp
  next
    case False
    then have s: "consumeGrantSync p now o1 o2 db =
        (case r2 of (True, Some g) \<Rightarrow> (Inr g, db2) | _ \<Rightarrow> (Inl NoMatch, db2))"
      unfolding consumeGrantSync_def r Let_def r2
      by (cases r) (auto simp: r2 split: bool.split option.split)
    show ?thesis
    proof (cases "\<exists>g. r2 = (True, Some g)")
      case True
      then obtain g where "r2 = (True, Some g)" ..
      then show ?thesis using s f1 f2 by simp
    next
      case False
      then have "consumeGrantSync p now o1 o2 db = (Inl NoMatch, db2)"
        unfolding s by (cases r2) (auto split: bool.split option.split)
      then show ?thesis using f1 f2 by simp
    qed
  qed
qed

lemma mintAll_facts: "sagOk db \<Longrightarrow> sagOk (mintAll ms db) \<and> budget i (mintAll ms db) \<le> budget i db"
proof (induction ms arbitrary: db)
  case (Cons m ms)
  obtain p u t where "m = (p, u, t)" by (cases m) auto
  then show ?case
    using Cons.IH [of "snd (mintGrantFromDecision p u t db)"] mint_facts [OF Cons.prems, of p u t i] by simp
qed simp

definition gaveOpt :: "string \<Rightarrow> (consumeError + scopedGrant) option \<Rightarrow> nat" where
  "gaveOpt i r = (case r of None \<Rightarrow> 0 | Some x \<Rightarrow> gave i x)"

lemma gaveOpt_simps [simp]: "gaveOpt i None = 0" "gaveOpt i (Some x) = gave i x"
  by (simp_all add: gaveOpt_def)

lemma poll_facts:
  "sagOk db \<Longrightarrow> sagOk (snd (pollLoop p deadline xs db)) \<and>
    gaveOpt i (fst (pollLoop p deadline xs db)) + budget i (snd (pollLoop p deadline xs db)) \<le> budget i db"
proof (induction xs arbitrary: db)
  case (Cons x xs)
  define db1 where "db1 = mintAll (plMints x) (runEvents atomicStep db (plDuring x))"
  have "sagOk (runEvents atomicStep db (plDuring x))"
    using atomics sagOk_views Cons.prems by blast
  then have f1: "sagOk db1" "budget i db1 \<le> budget i db"
    using mintAll_facts [of "runEvents atomicStep db (plDuring x)" "plMints x" i] atomics [of db "plDuring x" i]
    by (auto simp: db1_def)
  obtain r db2 where r: "consumeGrantSync p (plNow x) noOthers noOthers db1 = (r, db2)" by fastforce
  have f2: "sagOk db2" "gave i r + budget i db2 \<le> budget i db"
    using sync_facts [OF f1(1), of p "plNow x" noOthers noOthers i] r f1(2) by auto
  show ?case
  proof (cases "deadline \<le> plClock x \<or> plAbortedBefore x \<or> plAbortedAfter x")
    case True
    then show ?thesis using Cons.prems f1 by (auto simp: db1_def [symmetric] Let_def)
  next
    case False
    then have s: "pollLoop p deadline (x # xs) db =
        (case r of Inr g \<Rightarrow> (Some (Inr g), db2) | Inl e \<Rightarrow> pollLoop p deadline xs db2)"
      using r by (simp add: db1_def [symmetric] Let_def split: sum.split)
    show ?thesis
    proof (cases r)
      case (Inl e)
      then show ?thesis unfolding s using Cons.IH [OF f2(1)] f2(2) by simp
    next
      case (Inr g)
      then show ?thesis unfolding s using f2 by simp
    qed
  qed
qed simp

lemma invoke_facts:
  assumes "sagOk db"
  shows "sagOk (snd (consumeGrantForInvocation p w now rs db)) \<and>
    gaveOpt i (fst (consumeGrantForInvocation p w now rs db)) +
      budget i (snd (consumeGrantForInvocation p w now rs db)) \<le> budget i db"
proof -
  obtain r db1 where r: "consumeGrantSync p now noOthers noOthers db = (r, db1)" by fastforce
  have f: "sagOk db1" "gave i r + budget i db1 \<le> budget i db"
    using sync_facts [OF assms, of p now noOthers noOthers i] r by auto
  show ?thesis
  proof (cases r)
    case (Inl e)
    then show ?thesis
      using r f poll_facts [OF f(1), of p "now + orDefault w GRANT_RETRY_MAX_WAIT_MS" rs i]
      by (simp add: consumeGrantForInvocation_def)
  next
    case (Inr g)
    then show ?thesis using r f by (simp add: consumeGrantForInvocation_def)
  qed
qed

lemma sagStep_ok: "sagOk db \<Longrightarrow> sagOk (sagStep db e)"
proof (cases e)
  case (SgWrite a)
  assume "sagOk db"
  then show ?thesis using SgWrite sagOk_views [OF atomic_views [of db a]] by simp
qed (simp_all add: mint_facts sync_facts invoke_facts)

lemma sag_balance: "sagOk db \<Longrightarrow> grantWins i db e + budget i (sagStep db e) \<le> budget i db + 0"
proof (cases e)
  case (SgInvoke p w now rs)
  assume "sagOk db"
  from invoke_facts [OF this, of p w now rs i] SgInvoke show ?thesis by (simp add: gaveOpt_def)
qed (simp_all add: mint_facts sync_facts atomic_budget)

interpretation sagMachine: credit_machine sagStep sagOk "budget i" "grantWins i" "\<lambda>db e. 0" for i
  by unfold_locales (simp_all only: sagStep_ok sag_balance)

lemma tally_zero [simp]: "tally step (\<lambda>s e. 0) s es = 0"
  by (induction es arbitrary: s) simp_all

lemma wins_le_budget: "sagOk db \<Longrightarrow> tally sagStep (grantWins i) db es \<le> budget i db"
  using sagMachine.spend_bounded [of db i es] by simp

section \<open>What a consumed grant matches\<close>

text \<open>The conditions of the two modes that do not depend on mutable columns.\<close>

definition requestFits :: "string \<Rightarrow> millis \<Rightarrow> scopedGrant \<Rightarrow> bool" where
  "requestFits rid now g = (sgRequestId g = Some rid \<and> sgScopeMode g = ByRequestId \<and> now < sgExpiresAt g)"

definition signatureFits :: "consumeParams \<Rightarrow> millis \<Rightarrow> scopedGrant \<Rightarrow> bool" where
  "signatureFits p now g =
    (sgToolName g = Some (kpToolName p) \<and> sgInputDigest g = Some (kpInputDigest p) \<and>
     sgScopeMode g = ByToolSignature \<and> now < sgExpiresAt g \<and>
     scopeOk (sgExecutionChannel g) (kpExecutionChannel p) \<and>
     scopeOk (sgConversationId g) (kpConversationId p) \<and>
     scopeOk (sgCallSessionId g) (kpCallSessionId p) \<and>
     scopeOk (sgRequesterExternalUserId g) (kpRequesterExternalUserId p))"

lemma fits_view [simp]:
  "requestFits rid now (scopeView g) = requestFits rid now g"
  "signatureFits p now (scopeView g) = signatureFits p now g"
  by (simp_all add: requestFits_def signatureFits_def scopeView_def)

lemma requestCandidate_fits: "requestCandidate rid now db = Some c \<Longrightarrow> c \<in> set db \<and> requestFits rid now c"
  by (auto simp: requestCandidate_def find_Some_iff requestFits_def)

lemma signatureCandidate_fits:
  "signatureCandidate p now db = Some c \<Longrightarrow> c \<in> set db \<and> signatureMatch p now c"
  using firstDesc_in [of specificity "filter (signatureMatch p now) db" c] by (simp add: signatureCandidate_def)

lemma signatureMatch_fits: "signatureMatch p now g \<longleftrightarrow> sgStatus g = SgActive \<and> signatureFits p now g"
  by (auto simp: signatureMatch_def signatureFits_def)

definition consumedBy :: "consumeParams \<Rightarrow> millis \<Rightarrow> scopedGrant \<Rightarrow> bool" where
  "consumedBy p now g = (sgStatus g = SgConsumed \<and> sgConsumedByRequestId g = Some (kpConsumingRequestId p) \<and>
     sgConsumedAt g = Some now)"

lemma request_sound:
  assumes "sagOk db" "consumeByRequestId rid (kpConsumingRequestId p) now o1 db = ((True, Some g), db')"
  shows "g \<in> set db' \<and> requestFits rid now g \<and> consumedBy p now g"
proof -
  have "\<And>db c. requestCandidate rid now db = Some c \<Longrightarrow> c \<in> set db \<and> requestFits rid now (scopeView c)"
    using requestCandidate_fits by simp
  from consumeLoop_sound [where Q = "requestFits rid now", OF assms(1) assms(2) [unfolded consumeByRequestId_def] this]
  show ?thesis by (simp add: consumedBy_def)
qed

lemma signature_sound:
  assumes "sagOk db" "consumeByToolSignature p now o2 db = ((True, Some g), db')"
  shows "g \<in> set db' \<and> signatureFits p now g \<and> consumedBy p now g"
proof -
  have "\<And>db c. signatureCandidate p now db = Some c \<Longrightarrow> c \<in> set db \<and> signatureFits p now (scopeView c)"
    using signatureCandidate_fits signatureMatch_fits by simp
  from consumeLoop_sound [where Q = "signatureFits p now", OF assms(1) assms(2) [unfolded consumeByToolSignature_def] this]
  show ?thesis by (simp add: consumedBy_def)
qed

lemma request_ok:
  "sagOk db \<Longrightarrow> sagOk (snd (consumeByRequestId rid b now o1 db))"
  using consumeLoop_facts [of db "requestCandidate rid now" o1 now b attempts "[]"]
    sagOk_views [of "snd (consumeByRequestId rid b now o1 db)" db]
  by (simp add: consumeByRequestId_def)

text \<open>The way to a grant: through the request id, or after a miss through the tool signature.\<close>

lemma sync_cases:
  assumes "consumeGrantSync p now o1 o2 db = (Inr g, db')"
  obtains (request) rid where "kpRequestId p = Some rid"
      "consumeByRequestId rid (kpConsumingRequestId p) now o1 db = ((True, Some g), db')"
    | (signature) db1 where "consumeByToolSignature p now o2 db1 = ((True, Some g), db')"
      "db1 = db \<or> (\<exists>rid. db1 = snd (consumeByRequestId rid (kpConsumingRequestId p) now o1 db))"
proof -
  obtain r db1 where r: "(if truthy (kpRequestId p)
      then consumeByRequestId (orDefault (kpRequestId p) []) (kpConsumingRequestId p) now o1 db
      else ((False, None), db)) = (r, db1)" by fastforce
  obtain r2 db2 where r2: "consumeByToolSignature p now o2 db1 = (r2, db2)" by fastforce
  have from_sig: "(Inr g, db') = (case r2 of (True, Some g) \<Rightarrow> (Inr g, db2) | _ \<Rightarrow> (Inl NoMatch, db2)) \<Longrightarrow>
      r2 = (True, Some g) \<and> db2 = db'"
    by (cases r2) (auto split: bool.splits option.splits)
  have db1: "db1 = db \<or> (\<exists>rid. db1 = snd (consumeByRequestId rid (kpConsumingRequestId p) now o1 db))"
    using r by (metis snd_conv)
  show ?thesis
  proof (cases "\<exists>h. r = (True, Some h)")
    case True
    then obtain h where h: "r = (True, Some h)" ..
    then have "h = g" "db1 = db'" using assms unfolding consumeGrantSync_def r by simp_all
    moreover have "truthy (kpRequestId p)" using r h by (metis prod.inject)
    then obtain rid where "kpRequestId p = Some rid" by (cases "kpRequestId p") auto
    ultimately show ?thesis using request r h \<open>truthy (kpRequestId p)\<close> by simp
  next
    case False
    then have "(Inr g, db') = (case r2 of (True, Some g) \<Rightarrow> (Inr g, db2) | _ \<Rightarrow> (Inl NoMatch, db2))"
      using assms unfolding consumeGrantSync_def r Let_def
      by (cases r) (auto simp: r2 split: bool.splits option.splits)
    from from_sig [OF this] show ?thesis using signature [OF _ db1] r2 by simp
  qed
qed

lemma sync_sound:
  assumes "sagOk db" "consumeGrantSync p now o1 o2 db = (Inr g, db')"
  shows "g \<in> set db' \<and> consumedBy p now g \<and> ((\<exists>rid. kpRequestId p = Some rid \<and> requestFits rid now g) \<or> signatureFits p now g)"
  using assms(2)
proof (cases rule: sync_cases)
  case (request rid)
  then show ?thesis using request_sound [OF assms(1)] by blast
next
  case (signature db1)
  then have "sagOk db1" using assms(1) request_ok by blast
  then show ?thesis using signature_sound signature(1) by blast
qed

section \<open>Without interference\<close>

lemma attempts_Cons: "attempts = [0, 1, 2, 3]"
  by (simp add: attempts_def MAX_CAS_RETRIES_def upt_rec)

lemma consume_alone:
  assumes "sagOk db" "\<And>c. sel db = Some c \<Longrightarrow> c \<in> set db \<and> sgStatus c = SgActive"
  shows "consumeLoop sel noOthers now b attempts db =
    (case sel db of None \<Rightarrow> ((False, None), db)
     | Some c \<Rightarrow> ((True, Some (consumeRow now b c)), updateWhere (casMatch (sgId c)) (consumeRow now b) db))"
proof (cases "sel db")
  case (Some c)
  then have c: "c \<in> set db" "sgStatus c = SgActive" using assms(2) by blast+
  then have "changesOf (casMatch (sgId c)) db \<noteq> 0" by (auto simp: table_simps casMatch_def)
  moreover from swap_facts [OF assms(1) this, of now b] obtain g where
    g: "g \<in> set db" "sgId g = sgId c"
      "byKey sgId (sgId c) (updateWhere (casMatch (sgId c)) (consumeRow now b) db) = Some (consumeRow now b g)"
    by blast
  moreover have "g = c" using g(1,2) c(1) assms(1) by (auto simp: sagOk_def distinct_map inj_on_def)
  ultimately show ?thesis using Some by (simp add: attempts_Cons noOthers_def Let_def)
qed (simp add: attempts_Cons)

lemma signature_alone:
  assumes "sagOk db"
  shows "consumeByToolSignature p now noOthers db =
    (case signatureCandidate p now db of None \<Rightarrow> ((False, None), db)
     | Some c \<Rightarrow> ((True, Some (consumeRow now (kpConsumingRequestId p) c)),
         updateWhere (casMatch (sgId c)) (consumeRow now (kpConsumingRequestId p)) db))"
  unfolding consumeByToolSignature_def
  by (rule consume_alone [OF assms]) (auto simp: signatureMatch_fits dest: signatureCandidate_fits)

lemma candidate_most_specific:
  "signatureCandidate p now db = Some c \<Longrightarrow> h \<in> set db \<Longrightarrow> signatureMatch p now h \<Longrightarrow> specificity h \<le> specificity c"
  using firstDesc_max [of specificity "filter (signatureMatch p now) db" c h] by (simp add: signatureCandidate_def)

lemma candidate_None: "signatureCandidate p now db = None \<longleftrightarrow> (\<forall>h \<in> set db. \<not> signatureMatch p now h)"
  by (simp add: signatureCandidate_def firstDesc_None filter_empty_conv)

section \<open>Properties\<close>

text \<open>C5: A grant authorises at most one invocation. Over every history from the empty table, with any
  number of mints, polling and non-polling consumers, expiries and revocations, and whatever other
  writers do between a consumer's two statements, a grant id is handed out at most once.\<close>

theorem grant_consumed_at_most_once:
  "tally sagStep (grantWins i) [] es \<le> 1"
proof -
  have "tally sagStep (grantWins i) [] es \<le> budget i []" by (rule wins_le_budget) (simp add: sagOk_def)
  then show ?thesis using budget_le [of i "[]"] by simp
qed

text \<open>C6: A consumed grant covers the invocation. Under any interference, a grant that authorises an
  invocation is marked consumed by that invocation at that time, had not expired, and either is bound to
  the request id given or names exactly the tool and the input digest, with every scope field that is set
  equal to the invocation's context.\<close>

theorem consumed_grant_matches:
  assumes "sagOk db" "consumeGrantSync p now o1 o2 db = (Inr g, db')"
  shows "g \<in> set db' \<and> consumedBy p now g \<and>
    ((\<exists>rid. kpRequestId p = Some rid \<and> requestFits rid now g) \<or> signatureFits p now g)"
  using assms by (rule sync_sound)

definition ex_mint :: "string option \<Rightarrow> mintParams" where
  "ex_mint conv = \<lparr>mpScopeMode = ByToolSignature, mpRequestId = None, mpToolName = Some ''bash'',
     mpInputDigest = Some ''d'', mpRequestChannel = ''telegram'', mpDecisionChannel = ''telegram'',
     mpExecutionChannel = None, mpConversationId = conv, mpCallSessionId = None,
     mpRequesterExternalUserId = None, mpGuardianExternalUserId = None, mpExpiresAt = 100\<rparr>"

definition ex_consume :: consumeParams where
  "ex_consume = \<lparr>kpRequestId = None, kpToolName = ''bash'', kpInputDigest = ''d'',
     kpConsumingRequestId = ''call'', kpExecutionChannel = Some ''telegram'', kpConversationId = Some ''c1'',
     kpCallSessionId = None, kpRequesterExternalUserId = None\<rparr>"

definition ex_sag :: sagDb where
  "ex_sag = snd (mintGrantFromDecision (ex_mint (Some ''c1'')) ''g2'' 2
     (snd (mintGrantFromDecision (ex_mint None) ''g1'' 1 [])))"

lemma ex_sag_ok: "sagOk ex_sag"
  unfolding ex_sag_def by (intro mint_facts [THEN conjunct1]) (simp add: sagOk_def)

lemma ex_sag_grants: "map sgId ex_sag = [''g1'', ''g2'']"
  "\<forall>g \<in> set ex_sag. signatureMatch ex_consume 50 g" "ex_sag ! 1 \<in> set ex_sag"
  "specificity (ex_sag ! 0) = 0" "specificity (ex_sag ! 1) = 1"
  by code_simp+

lemma ex_sag_signature:
  "\<exists>g db'. consumeByToolSignature ex_consume 50 noOthers ex_sag = ((True, Some g), db')"
proof -
  have "signatureCandidate ex_consume 50 ex_sag \<noteq> None"
    unfolding candidate_None using ex_sag_grants(2,3) by blast
  then show ?thesis using signature_alone [OF ex_sag_ok] by auto
qed

lemma ex_sag_sync:
  "\<exists>g db'. consumeGrantSync ex_consume 50 noOthers noOthers ex_sag = (Inr g, db')"
proof -
  obtain g db' where "consumeByToolSignature ex_consume 50 noOthers ex_sag = ((True, Some g), db')"
    using ex_sag_signature by blast
  moreover have "\<not> truthy (kpRequestId ex_consume)" by (simp add: ex_consume_def)
  ultimately show ?thesis by (simp add: consumeGrantSync_def)
qed

theorem consumed_grant_matches_witness:
  "\<exists>g db'. consumeGrantSync ex_consume 50 noOthers noOthers ex_sag = (Inr g, db') \<and> sgToolName g = Some ''bash''"
proof -
  obtain g db' where g: "consumeGrantSync ex_consume 50 noOthers noOthers ex_sag = (Inr g, db')"
    using ex_sag_sync by blast
  from consumed_grant_matches [OF ex_sag_ok g] have "sgToolName g = Some ''bash''"
    by (auto simp: ex_consume_def signatureFits_def)
  with g show ?thesis by blast
qed

text \<open>Of several matching grants the most specific one is consumed, and no other: without interference
  a consumed grant is a matching row with the greatest number of scope fields set, and every other row
  is left as it was.\<close>

theorem most_specific_grant_consumed:
  assumes "sagOk db" "consumeByToolSignature p now noOthers db = ((True, Some g), db')"
  shows "\<exists>c \<in> set db. signatureMatch p now c \<and> g = consumeRow now (kpConsumingRequestId p) c \<and>
    (\<forall>h \<in> set db. signatureMatch p now h \<longrightarrow> specificity h \<le> specificity c) \<and>
    db' = map (\<lambda>h. if sgId h = sgId c then g else h) db"
proof -
  let ?f = "consumeRow now (kpConsumingRequestId p)"
  obtain c where c: "signatureCandidate p now db = Some c" "g = ?f c" "db' = updateWhere (casMatch (sgId c)) ?f db"
    using assms(2) signature_alone [OF assms(1), of p now] by (auto split: option.splits)
  have m: "c \<in> set db" "signatureMatch p now c" using signatureCandidate_fits [OF c(1)] by blast+
  have same: "h = c" if "h \<in> set db" "sgId h = sgId c" for h
    using that m(1) assms(1) by (auto simp: sagOk_def distinct_map inj_on_def)
  have "(if casMatch (sgId c) h then ?f h else h) = (if sgId h = sgId c then g else h)" if "h \<in> set db" for h
    using same [OF that] m(2) c(2) by (auto simp: casMatch_def signatureMatch_fits)
  then have "db' = map (\<lambda>h. if sgId h = sgId c then g else h) db" unfolding c(3) updateWhere_def by simp
  then show ?thesis using m c(2) candidate_most_specific [OF c(1)] by blast
qed

theorem most_specific_grant_consumed_witness:
  "\<exists>g db'. consumeByToolSignature ex_consume 50 noOthers ex_sag = ((True, Some g), db') \<and> specificity g = 1"
proof -
  obtain g db' where g: "consumeByToolSignature ex_consume 50 noOthers ex_sag = ((True, Some g), db')"
    using ex_sag_signature by blast
  obtain c where c: "c \<in> set ex_sag" "g = consumeRow 50 (kpConsumingRequestId ex_consume) c"
      "\<forall>h \<in> set ex_sag. signatureMatch ex_consume 50 h \<longrightarrow> specificity h \<le> specificity c"
    using most_specific_grant_consumed [OF ex_sag_ok g] by blast
  have "length ex_sag = 2" using ex_sag_grants(1) by (metis length_map list.size(3,4) Suc_1 One_nat_def Nat.add_0_right add_Suc_right)
  then have "c = ex_sag ! 0 \<or> c = ex_sag ! 1" using c(1) by (auto simp: in_set_conv_nth less_2_cases_iff)
  moreover have "1 \<le> specificity c" using c(3) ex_sag_grants(2,3,5) by force
  ultimately have "specificity c = 1" using ex_sag_grants(4,5) by auto
  moreover have "specificity g = specificity c" using c(2) by (simp add: specificity_def consumeRow_def)
  ultimately show ?thesis using g by auto
qed

text \<open>Revocation reaches every grant of the context: after a revocation with at least one filter, no
  grant that was in the table and matches the filters authorises anything, in any later history.\<close>

theorem revoked_grants_never_consumed:
  assumes "sagOk db" "g \<in> set db" "revokeMatch x (g\<lparr>sgStatus := SgActive\<rparr>)"
    "fst (revokeScopedApprovalGrantsForContext x now db) \<noteq> None"
  shows "tally sagStep (grantWins (sgId g)) (snd (revokeScopedApprovalGrantsForContext x now db)) es = 0"
proof -
  let ?f = "\<lambda>g. g\<lparr>sgStatus := SgRevoked, sgUpdatedAt := now\<rparr>"
  have db': "snd (revokeScopedApprovalGrantsForContext x now db) = updateWhere (revokeMatch x) ?f db"
    using assms(4) by (auto simp: revokeScopedApprovalGrantsForContext_def split: if_splits)
  have "byKey sgId (sgId g) db = Some g" using byKey_in assms(1,2) by (simp add: sagOk_def)
  then have "byKey sgId (sgId g) (updateWhere (revokeMatch x) ?f db) = Some (if revokeMatch x g then ?f g else g)"
    using byKey_updateWhere [of "revokeMatch x" sgId ?f "sgId g" db] by simp
  moreover have "sgStatus g = SgActive \<longrightarrow> revokeMatch x g"
    using assms(3) by (auto simp: revokeMatch_def split: option.splits)
  ultimately have "budget (sgId g) (updateWhere (revokeMatch x) ?f db) = 0"
    by (auto simp: budget_def)
  moreover have "sagOk (updateWhere (revokeMatch x) ?f db)"
    using assms(1) sagOk_views [OF views_update [OF lowers_rows(3)]] by blast
  ultimately show ?thesis unfolding db' using wins_le_budget by (metis le_zero_eq)
qed

definition ex_revoke :: revokeContext where
  "ex_revoke = \<lparr>rxConversationId = Some ''c1'', rxCallSessionId = None, rxRequestChannel = None\<rparr>"

theorem revoked_grants_never_consumed_witness:
  "tally sagStep (grantWins (sgId (ex_sag ! 1))) (snd (revokeScopedApprovalGrantsForContext ex_revoke 9 ex_sag))
     [SgConsume ex_consume 50 noOthers noOthers] = 0"
proof (rule revoked_grants_never_consumed [OF ex_sag_ok ex_sag_grants(3)])
  show "revokeMatch ex_revoke ((ex_sag ! 1)\<lparr>sgStatus := SgActive\<rparr>)" by code_simp
  show "fst (revokeScopedApprovalGrantsForContext ex_revoke 9 ex_sag) \<noteq> None"
    by (simp add: revokeScopedApprovalGrantsForContext_def ex_revoke_def)
qed

end
