(* ===== verification/GuardianDecision.thy ===== *)
theory GuardianDecision
  imports GuardianStore ScopedGrants
begin

text \<open>
  The canonical guardian decision (\<open>assistant/src/approvals/guardian-decision-primitive.ts\<close>): the
  single write path from a guardian's answer to a resolved request and a scoped grant.

  The state is the request store, the grant table and the rest of the daemon, of any type \<open>'x\<close>. The
  resolver registry is a map filled at run time, so it is an argument \<open>registry\<close> that acts on the rest
  of the daemon. The resolver is awaited; what other tasks do to the two tables in the meantime is the
  list \<open>during\<close>. The steps before the await read the clock as \<open>t1\<close>, the grant is minted at \<open>t2\<close>.
\<close>

definition GRANT_TTL_MS :: millis where
  "GRANT_TTL_MS = 5 * 60 * 1000"

definition computeGrantExpiresAt :: "millis \<Rightarrow> millis" where
  "computeGrantExpiresAt now = now + GRANT_TTL_MS"

record actorContext =
  acActorPrincipalId :: "string option"
  acActorExternalUserId :: "string option"
  acChannel :: string
  acGuardianPrincipalId :: "string option"

datatype resolverResult = ResolverOk "string option" | ResolverFailed string

type_synonym 'x registry =
  "string \<Rightarrow> (canonicalRequest \<Rightarrow> string \<Rightarrow> string option \<Rightarrow> actorContext \<Rightarrow> 'x \<Rightarrow> resolverResult \<times> 'x) option"

record 'x guardianSystem =
  gsDb :: guardianDb
  gsGrants :: sagDb
  gsRest :: 'x

datatype tableEvent = OnRequests guardianEvent | OnGrants sagEvent

fun tableStep :: "'x guardianSystem \<Rightarrow> tableEvent \<Rightarrow> 'x guardianSystem" where
  "tableStep st (OnRequests e) = st\<lparr>gsDb := guardianStep (gsDb st) e\<rparr>"
| "tableStep st (OnGrants e) = st\<lparr>gsGrants := sagStep (gsGrants st) e\<rparr>"

section \<open>Minting from a request\<close>

definition mintParamsOf :: "canonicalRequest \<Rightarrow> string \<Rightarrow> string option \<Rightarrow> millis \<Rightarrow> mintParams" where
  "mintParamsOf r channel guardian now =
    \<lparr>mpScopeMode = ByToolSignature, mpRequestId = None, mpToolName = crToolName r,
     mpInputDigest = crInputDigest r, mpRequestChannel = orDefault (crSourceChannel r) ''unknown'',
     mpDecisionChannel = channel, mpExecutionChannel = None, mpConversationId = crConversationId r,
     mpCallSessionId = crCallSessionId r, mpRequesterExternalUserId = crRequesterExternalUserId r,
     mpGuardianExternalUserId = guardian, mpExpiresAt = computeGrantExpiresAt now\<rparr>"

definition mintCanonicalRequestGrant ::
  "canonicalRequest \<Rightarrow> string \<Rightarrow> string option \<Rightarrow> string \<Rightarrow> millis \<Rightarrow> sagDb \<Rightarrow> bool \<times> sagDb" where
  "mintCanonicalRequestGrant r channel guardian uuid now grants =
    (if \<not> truthy (crToolName r) \<or> \<not> truthy (crInputDigest r) then (False, grants)
     else (case mintGrantFromDecision (mintParamsOf r channel guardian now) uuid now grants of
        (Inr g, grants') \<Rightarrow> (True, grants')
      | (Inl e, grants') \<Rightarrow> (False, grants')))"

section \<open>The decision\<close>

definition VALID_CANONICAL_ACTIONS :: "string list" where
  "VALID_CANONICAL_ACTIONS = [''approve_once'', ''reject'']"

record decisionParams =
  daRequestId :: string
  daAction :: string
  daActor :: actorContext
  daUserText :: "string option"

datatype decisionReason = NotFound | AlreadyResolved | IdentityMismatch | InvalidAction | DecisionExpired

text \<open>\<open>Applied\<close> carries the request id, \<open>grantMinted\<close>, the resolver's failure reason and its reply.\<close>

datatype decisionResult =
    Applied string bool "string option" "string option"
  | NotApplied decisionReason

text \<open>Steps 1 and 2: the request found, or the reason to refuse.\<close>

definition validateDecision :: "decisionParams \<Rightarrow> millis \<Rightarrow> guardianDb \<Rightarrow> decisionReason + canonicalRequest" where
  "validateDecision p now db =
    (case getCanonicalGuardianRequest (daRequestId p) db of
       None \<Rightarrow> Inl NotFound
     | Some r \<Rightarrow>
        if crStatus r \<noteq> CsPending then Inl AlreadyResolved
        else if daAction p \<notin> set VALID_CANONICAL_ACTIONS then Inl InvalidAction
        else if \<not> truthy (crGuardianPrincipalId r) then Inl IdentityMismatch
        else if \<not> truthy (acGuardianPrincipalId (daActor p)) then Inl IdentityMismatch
        else if acGuardianPrincipalId (daActor p) \<noteq> crGuardianPrincipalId r then Inl IdentityMismatch
        else if isRequestExpired r now then Inl DecisionExpired
        else Inr r)"

definition decisionOf :: "decisionParams \<Rightarrow> resolveDecision" where
  "decisionOf p = \<lparr>rdStatus = (if daAction p = ''reject'' then CsDenied else CsApproved),
     rdAnswerText = daUserText p, rdDecidedByExternalUserId = acActorExternalUserId (daActor p),
     rdDecidedByPrincipalId = acGuardianPrincipalId (daActor p)\<rparr>"

text \<open>Step 4: the resolver of the request's kind, if any, and the events during the await.\<close>

definition runResolver ::
  "'x registry \<Rightarrow> decisionParams \<Rightarrow> string \<Rightarrow> canonicalRequest \<Rightarrow> tableEvent list \<Rightarrow> 'x guardianSystem \<Rightarrow>
    resolverResult \<times> 'x guardianSystem" where
  "runResolver registry p kind resolved during st =
    (case registry kind of
       None \<Rightarrow> (ResolverOk None, st)
     | Some f \<Rightarrow>
        (case f resolved (daAction p) (daUserText p) (daActor p) (gsRest st) of
           (res, x) \<Rightarrow> (res, runEvents tableStep (st\<lparr>gsRest := x\<rparr>) during)))"

text \<open>The reply is passed on only when it is not empty.\<close>

definition shown :: "string option \<Rightarrow> string option" where
  "shown reply = (if truthy reply then reply else None)"

text \<open>Step 5: the grant, minted for an approval whose resolver did not fail.\<close>

definition finishDecision ::
  "decisionParams \<Rightarrow> canonicalRequest \<Rightarrow> string \<Rightarrow> millis \<Rightarrow> resolverResult \<Rightarrow> 'x guardianSystem \<Rightarrow>
    decisionResult \<times> 'x guardianSystem" where
  "finishDecision p resolved uuid t2 res st =
    (case res of
       ResolverFailed reason \<Rightarrow> (Applied (daRequestId p) False (Some reason) None, st)
     | ResolverOk reply \<Rightarrow>
         if daAction p = ''reject'' then (Applied (daRequestId p) False None (shown reply), st)
         else
          (case mintCanonicalRequestGrant resolved (acChannel (daActor p))
              (orElse (acActorExternalUserId (daActor p)) (crGuardianExternalUserId resolved))
              uuid t2 (gsGrants st) of
             (minted, grants) \<Rightarrow>
               (Applied (daRequestId p) minted None (shown reply), st\<lparr>gsGrants := grants\<rparr>)))"

definition applyCanonicalGuardianDecision ::
  "'x registry \<Rightarrow> decisionParams \<Rightarrow> millis \<Rightarrow> tableEvent list \<Rightarrow> millis \<Rightarrow> string \<Rightarrow> 'x guardianSystem \<Rightarrow>
    decisionResult \<times> 'x guardianSystem" where
  "applyCanonicalGuardianDecision registry p t1 during t2 uuid st =
    (case validateDecision p t1 (gsDb st) of
       Inl reason \<Rightarrow> (NotApplied reason, st)
     | Inr request \<Rightarrow>
        (case resolveCanonicalGuardianRequest (daRequestId p) CsPending (decisionOf p) t1 (gsDb st) of
           (None, db') \<Rightarrow> (NotApplied AlreadyResolved, st\<lparr>gsDb := db'\<rparr>)
         | (Some resolved, db') \<Rightarrow>
            (case runResolver registry p (crKind request) resolved during (st\<lparr>gsDb := db'\<rparr>) of
               (res, st2) \<Rightarrow> finishDecision p resolved uuid t2 res st2)))"

section \<open>Well-formed systems\<close>

definition systemOk :: "'x guardianSystem \<Rightarrow> bool" where
  "systemOk st = (dbOk (gsDb st) \<and> sagOk (gsGrants st))"

lemma tableStep_ok: "systemOk st \<Longrightarrow> systemOk (tableStep st e)"
  by (cases e) (simp_all add: systemOk_def guardianStep_ok sagStep_ok)

interpretation tableMachine: event_machine tableStep systemOk
  by unfold_locales (rule tableStep_ok)

fun requestEvents :: "tableEvent list \<Rightarrow> guardianEvent list" where
  "requestEvents [] = []"
| "requestEvents (OnRequests e # es) = e # requestEvents es"
| "requestEvents (OnGrants e # es) = requestEvents es"

fun grantEvents :: "tableEvent list \<Rightarrow> sagEvent list" where
  "grantEvents [] = []"
| "grantEvents (OnRequests e # es) = grantEvents es"
| "grantEvents (OnGrants e # es) = e # grantEvents es"

lemma run_tables:
  "gsDb (runEvents tableStep st es) = runEvents guardianStep (gsDb st) (requestEvents es) \<and>
   gsGrants (runEvents tableStep st es) = runEvents sagStep (gsGrants st) (grantEvents es) \<and>
   gsRest (runEvents tableStep st es) = gsRest st"
proof (induction es arbitrary: st)
  case (Cons e es)
  then show ?case by (cases e) simp_all
qed simp

lemma validate_Inr:
  "validateDecision p now db = Inr r \<longleftrightarrow>
    getCanonicalGuardianRequest (daRequestId p) db = Some r \<and> crStatus r = CsPending \<and>
    daAction p \<in> set VALID_CANONICAL_ACTIONS \<and> truthy (crGuardianPrincipalId r) \<and>
    acGuardianPrincipalId (daActor p) = crGuardianPrincipalId r \<and> \<not> isRequestExpired r now"
  by (auto simp: validateDecision_def split: option.splits)

section \<open>The decision on a well-formed system\<close>

text \<open>After validation the swap cannot fail: nothing runs between the look-up and the update.\<close>

lemma resolve_validated:
  assumes "dbOk db" "validateDecision p t db = Inr r"
  shows "\<exists>db'. resolveCanonicalGuardianRequest (daRequestId p) CsPending (decisionOf p) t db =
      (Some (applyDecision (decisionOf p) t r), db') \<and> dbOk db' \<and>
    getCanonicalGuardianRequest (daRequestId p) db' = Some (applyDecision (decisionOf p) t r)"
proof -
  have r: "getCanonicalGuardianRequest (daRequestId p) db = Some r" "crStatus r = CsPending"
    using assms(2) by (simp_all add: validate_Inr)
  have id: "crId r = daRequestId p" using r(1) dbOk_getRequest [OF assms(1)] by blast
  have "fst (resolveCanonicalGuardianRequest (daRequestId p) CsPending (decisionOf p) t db) =
      Some (applyDecision (decisionOf p) t r)"
    using resolve_hit [OF assms(1) r] .
  moreover have "getCanonicalGuardianRequest (daRequestId p)
      (snd (resolveCanonicalGuardianRequest (daRequestId p) CsPending (decisionOf p) t db)) =
      Some (applyDecision (decisionOf p) t r)"
    unfolding get_resolve r(1) using id r(2) by simp
  ultimately show ?thesis using resolve_ok [OF assms(1)] by (metis prod.collapse)
qed

lemma apply_invalid:
  "validateDecision p t1 (gsDb st) = Inl reason \<Longrightarrow>
    applyCanonicalGuardianDecision registry p t1 during t2 uuid st = (NotApplied reason, st)"
  by (simp add: applyCanonicalGuardianDecision_def)

text \<open>The request and the grants after an applied decision: the resolved request, the events of the
  await, and at the end at most one minted grant.\<close>

lemma runResolver_tables:
  "\<exists>es. gsDb (snd (runResolver registry p k r during st)) = runEvents guardianStep (gsDb st) (requestEvents es) \<and>
    gsGrants (snd (runResolver registry p k r during st)) = runEvents sagStep (gsGrants st) (grantEvents es) \<and>
    (es = during \<or> es = [])"
proof (cases "registry k")
  case None
  then show ?thesis by (intro exI [of _ "[]"]) (simp add: runResolver_def)
next
  case (Some f)
  then show ?thesis
    by (intro exI [of _ during]) (simp add: runResolver_def run_tables split: prod.split)
qed

lemma apply_valid:
  assumes "systemOk st" "validateDecision p t1 (gsDb st) = Inr r"
  obtains db' where "dbOk db'"
    "getCanonicalGuardianRequest (daRequestId p) db' = Some (applyDecision (decisionOf p) t1 r)"
    "applyCanonicalGuardianDecision registry p t1 during t2 uuid st =
      (case runResolver registry p (crKind r) (applyDecision (decisionOf p) t1 r) during (st\<lparr>gsDb := db'\<rparr>) of
         (res, st2) \<Rightarrow> finishDecision p (applyDecision (decisionOf p) t1 r) uuid t2 res st2)"
proof -
  obtain db' where db': "resolveCanonicalGuardianRequest (daRequestId p) CsPending (decisionOf p) t1 (gsDb st) =
      (Some (applyDecision (decisionOf p) t1 r), db')" "dbOk db'"
      "getCanonicalGuardianRequest (daRequestId p) db' = Some (applyDecision (decisionOf p) t1 r)"
    using resolve_validated assms by (metis systemOk_def)
  show ?thesis
    by (rule that [OF db'(2,3)]) (simp add: applyCanonicalGuardianDecision_def assms(2) db'(1))
qed

lemma finish_applied:
  "\<exists>m f rep. fst (finishDecision p r uuid t2 res st) = Applied (daRequestId p) m f rep"
  "gsDb (snd (finishDecision p r uuid t2 res st)) = gsDb st"
  by (auto simp: finishDecision_def split: prod.split resolverResult.split)

lemma apply_db:
  assumes "systemOk st" "validateDecision p t1 (gsDb st) = Inr r"
  obtains db' es where "dbOk db'" "es = during \<or> es = []"
    "getCanonicalGuardianRequest (daRequestId p) db' = Some (applyDecision (decisionOf p) t1 r)"
    "gsDb (snd (applyCanonicalGuardianDecision registry p t1 during t2 uuid st)) =
      runEvents guardianStep db' (requestEvents es)"
    "\<exists>m f rep. fst (applyCanonicalGuardianDecision registry p t1 during t2 uuid st) = Applied (daRequestId p) m f rep"
proof -
  obtain db' where d: "dbOk db'"
    "getCanonicalGuardianRequest (daRequestId p) db' = Some (applyDecision (decisionOf p) t1 r)"
    "applyCanonicalGuardianDecision registry p t1 during t2 uuid st =
      (case runResolver registry p (crKind r) (applyDecision (decisionOf p) t1 r) during (st\<lparr>gsDb := db'\<rparr>) of
         (res, st2) \<Rightarrow> finishDecision p (applyDecision (decisionOf p) t1 r) uuid t2 res st2)"
    by (rule apply_valid [OF assms, of registry during t2 uuid])
  obtain res st2 where rs: "runResolver registry p (crKind r) (applyDecision (decisionOf p) t1 r) during
      (st\<lparr>gsDb := db'\<rparr>) = (res, st2)" by fastforce
  obtain es where es: "gsDb st2 = runEvents guardianStep db' (requestEvents es)" "es = during \<or> es = []"
    using runResolver_tables [of registry p "crKind r" "applyDecision (decisionOf p) t1 r" during "st\<lparr>gsDb := db'\<rparr>"] rs
    by auto
  show ?thesis
    by (rule that [OF d(1) es(2) d(2)]) (simp_all add: d(3) rs finish_applied es(1))
qed

lemma apply_always_applied:
  assumes "systemOk st" "validateDecision p t1 (gsDb st) = Inr r"
  shows "\<exists>m f rep. fst (applyCanonicalGuardianDecision registry p t1 during t2 uuid st) = Applied (daRequestId p) m f rep"
  by (rule apply_db [OF assms, of during registry t2 uuid])

section \<open>Sequences of decisions\<close>

text \<open>Decisions and other events of the two tables; the callers cause only caller events.\<close>

datatype decisionEvent =
    Decide decisionParams millis "tableEvent list" millis string
  | Tables tableEvent

fun decisionStep :: "'x registry \<Rightarrow> 'x guardianSystem \<Rightarrow> decisionEvent \<Rightarrow> 'x guardianSystem" where
  "decisionStep registry st (Decide p t1 during t2 uuid) =
     snd (applyCanonicalGuardianDecision registry p t1 during t2 uuid st)"
| "decisionStep registry st (Tables e) = tableStep st e"

fun appliedTo :: "'x registry \<Rightarrow> string \<Rightarrow> 'x guardianSystem \<Rightarrow> decisionEvent \<Rightarrow> nat" where
  "appliedTo registry i st (Decide p t1 during t2 uuid) =
     (case fst (applyCanonicalGuardianDecision registry p t1 during t2 uuid st) of
        Applied j m f rep \<Rightarrow> if j = i then 1 else 0
      | NotApplied reason \<Rightarrow> 0)"
| "appliedTo registry i st (Tables e) = 0"

fun callerOnly :: "decisionEvent \<Rightarrow> bool" where
  "callerOnly (Decide p t1 during t2 uuid) = list_all callerEvent (requestEvents during)"
| "callerOnly (Tables (OnRequests e)) = callerEvent e"
| "callerOnly (Tables (OnGrants e)) = True"

definition decided :: "string \<Rightarrow> guardianDb \<Rightarrow> bool" where
  "decided i db = (\<exists>r. getCanonicalGuardianRequest i db = Some r \<and> crStatus r \<noteq> CsPending)"

lemma decided_runs: "decided i db \<Longrightarrow> list_all callerEvent es \<Longrightarrow> decided i (runEvents guardianStep db es)"
  unfolding decided_def using decided_run verdict_status by metis

lemma applied_decides:
  assumes "systemOk st" "appliedTo registry i st e \<noteq> 0" "callerOnly e"
  shows "decided i (gsDb (decisionStep registry st e)) \<and> appliedTo registry i st e = 1"
proof (cases e)
  case (Decide p t1 during t2 uuid)
  then obtain r where r: "validateDecision p t1 (gsDb st) = Inr r"
    using assms(2) by (cases "validateDecision p t1 (gsDb st)") (auto simp: apply_invalid)
  obtain db' es where d: "dbOk db'" "es = during \<or> es = []"
    "getCanonicalGuardianRequest (daRequestId p) db' = Some (applyDecision (decisionOf p) t1 r)"
    "gsDb (snd (applyCanonicalGuardianDecision registry p t1 during t2 uuid st)) =
      runEvents guardianStep db' (requestEvents es)"
    "\<exists>m f rep. fst (applyCanonicalGuardianDecision registry p t1 during t2 uuid st) = Applied (daRequestId p) m f rep"
    by (rule apply_db [OF assms(1) r, of during registry t2 uuid])
  have "i = daRequestId p" using assms(2) Decide d(5) by (auto split: if_splits)
  moreover have "decided (daRequestId p) db'" unfolding decided_def d(3) by (simp add: decisionOf_def)
  moreover have "list_all callerEvent (requestEvents es)" using d(2) assms(3) Decide by auto
  ultimately show ?thesis using Decide d(4,5) decided_runs by auto
qed (use assms in simp)

lemma decided_not_applied:
  assumes "decided i (gsDb st)"
  shows "appliedTo registry i st e = 0"
proof (cases e)
  case (Decide p t1 during t2 uuid)
  show ?thesis
  proof (cases "daRequestId p = i")
    case True
    then have "validateDecision p t1 (gsDb st) = Inl AlreadyResolved"
      using assms by (auto simp: decided_def validateDecision_def)
    then show ?thesis using Decide by (simp add: apply_invalid)
  next
    case False
    have "fst (applyCanonicalGuardianDecision registry p t1 during t2 uuid st) = Applied j m f rep \<Longrightarrow> j = daRequestId p" for j m f rep
      using finish_applied(1) by (auto simp: applyCanonicalGuardianDecision_def finishDecision_def
          split: sum.splits prod.splits option.splits resolverResult.splits if_splits)
    then show ?thesis using Decide False by (auto split: decisionResult.split)
  qed
qed simp

lemma mint_cr_ok: "sagOk gs \<Longrightarrow> sagOk (snd (mintCanonicalRequestGrant r c g uuid now gs))"
  using mint_facts [of gs "mintParamsOf r c g now" uuid now "[]"]
  by (auto simp: mintCanonicalRequestGrant_def split: prod.splits sum.splits)

lemma finish_ok: "systemOk st \<Longrightarrow> systemOk (snd (finishDecision p r uuid t2 res st))"
proof -
  assume ok: "systemOk st"
  have "gsGrants (snd (finishDecision p r uuid t2 res st)) = gsGrants st \<or>
      (\<exists>c g. gsGrants (snd (finishDecision p r uuid t2 res st)) = snd (mintCanonicalRequestGrant r c g uuid t2 (gsGrants st)))"
    by (auto simp: finishDecision_def split: prod.splits resolverResult.splits) (metis snd_conv)
  then show ?thesis using ok mint_cr_ok finish_applied(2) by (metis systemOk_def)
qed

lemma decisionStep_ok: "systemOk st \<Longrightarrow> systemOk (decisionStep registry st e)"
proof (cases e)
  case (Decide p t1 during t2 uuid)
  assume ok: "systemOk st"
  show ?thesis
  proof (cases "validateDecision p t1 (gsDb st)")
    case (Inl reason)
    then show ?thesis using ok Decide by (simp add: apply_invalid)
  next
    case (Inr r)
    obtain db' where d: "dbOk db'"
      "applyCanonicalGuardianDecision registry p t1 during t2 uuid st =
        (case runResolver registry p (crKind r) (applyDecision (decisionOf p) t1 r) during (st\<lparr>gsDb := db'\<rparr>) of
           (res, st2) \<Rightarrow> finishDecision p (applyDecision (decisionOf p) t1 r) uuid t2 res st2)"
      by (rule apply_valid [OF ok Inr, of registry during t2 uuid])
    obtain res st2 where rs: "runResolver registry p (crKind r) (applyDecision (decisionOf p) t1 r) during
        (st\<lparr>gsDb := db'\<rparr>) = (res, st2)" by fastforce
    have "systemOk (st\<lparr>gsDb := db'\<rparr>)" using ok d(1) by (simp add: systemOk_def)
    then have "systemOk st2"
      using runResolver_tables [of registry p "crKind r" "applyDecision (decisionOf p) t1 r" during "st\<lparr>gsDb := db'\<rparr>"] rs
        guardianMachine.inv_run sagMachine.inv_run
      by (auto simp: systemOk_def)
    then show ?thesis using Decide d(2) rs finish_ok by simp
  qed
qed (simp add: tableStep_ok)

interpretation decisionMachine: event_machine "decisionStep registry" systemOk for registry
  by unfold_locales (rule decisionStep_ok)

lemma decided_step_any:
  assumes "systemOk st" "decided i (gsDb st)" "callerOnly e"
  shows "decided i (gsDb (decisionStep registry st e))"
proof (cases e)
  case (Decide p t1 during t2 uuid)
  show ?thesis
  proof (cases "validateDecision p t1 (gsDb st)")
    case (Inl reason)
    then show ?thesis using assms Decide by (simp add: apply_invalid)
  next
    case (Inr r)
    then have ne: "daRequestId p \<noteq> i" using assms(2) by (auto simp: decided_def validate_Inr)
    obtain res st2 where rs: "runResolver registry p (crKind r) (applyDecision (decisionOf p) t1 r) during
        (st\<lparr>gsDb := snd (resolveCanonicalGuardianRequest (daRequestId p) CsPending (decisionOf p) t1 (gsDb st))\<rparr>) = (res, st2)"
      by fastforce
    have "applyCanonicalGuardianDecision registry p t1 during t2 uuid st =
        finishDecision p (applyDecision (decisionOf p) t1 r) uuid t2 res st2"
      using resolve_validated [OF _ Inr] assms(1) rs Inr
      by (auto simp: applyCanonicalGuardianDecision_def systemOk_def)
    moreover have "decided i (snd (resolveCanonicalGuardianRequest (daRequestId p) CsPending (decisionOf p) t1 (gsDb st)))"
      using assms(2) by (auto simp: decided_def get_resolve)
    moreover have "\<exists>es. gsDb st2 = runEvents guardianStep
        (snd (resolveCanonicalGuardianRequest (daRequestId p) CsPending (decisionOf p) t1 (gsDb st))) (requestEvents es) \<and>
        (es = during \<or> es = [])"
      using runResolver_tables [of registry p "crKind r" "applyDecision (decisionOf p) t1 r" during
          "st\<lparr>gsDb := snd (resolveCanonicalGuardianRequest (daRequestId p) CsPending (decisionOf p) t1 (gsDb st))\<rparr>"] rs
      by auto
    ultimately show ?thesis
      using Decide assms(3) by (auto simp: finish_applied(2) intro: decided_runs)
  qed
next
  case (Tables x)
  then show ?thesis using assms decided_runs [of i "gsDb st" "[y]" for y] by (cases x) auto
qed

lemma applied_once:
  "systemOk st \<Longrightarrow> list_all callerOnly es \<Longrightarrow>
    tally (decisionStep registry) (appliedTo registry i) st es \<le> (if decided i (gsDb st) then 0 else 1)"
proof (induction es arbitrary: st)
  case (Cons e es)
  let ?st = "decisionStep registry st e"
  have ok: "systemOk ?st" using Cons.prems(1) by (rule decisionStep_ok)
  have IH: "tally (decisionStep registry) (appliedTo registry i) ?st es \<le> (if decided i (gsDb ?st) then 0 else 1)"
    using Cons.IH [OF ok] Cons.prems(2) by simp
  have c: "callerOnly e" using Cons.prems(2) by simp
  show ?case
  proof (cases "appliedTo registry i st e = 0")
    case True
    moreover have "decided i (gsDb st) \<Longrightarrow> decided i (gsDb ?st)"
      using decided_step_any [OF Cons.prems(1) _ c] by blast
    ultimately show ?thesis using IH by (auto split: if_splits)
  next
    case False
    moreover have "\<not> decided i (gsDb st)" using decided_not_applied [of i st registry e] False by blast
    ultimately show ?thesis using applied_decides [OF Cons.prems(1) False c] IH by simp
  qed
qed simp

section \<open>What an approval mints\<close>

lemma apply_minted:
  assumes "systemOk st" "fst (applyCanonicalGuardianDecision registry p t1 during t2 uuid st) = Applied i True f rep"
  shows "\<exists>r g. validateDecision p t1 (gsDb st) = Inr r \<and> daAction p = ''approve_once'' \<and> f = None \<and>
    truthy (crToolName r) \<and> truthy (crInputDigest r) \<and>
    g \<in> set (gsGrants (snd (applyCanonicalGuardianDecision registry p t1 during t2 uuid st))) \<and>
    sgId g = uuid \<and> sgStatus g = SgActive \<and> sgScopeMode g = ByToolSignature \<and> sgToolName g = crToolName r \<and>
    sgInputDigest g = crInputDigest r \<and> sgExecutionChannel g = None \<and> sgConversationId g = crConversationId r \<and>
    sgCallSessionId g = crCallSessionId r \<and> sgRequesterExternalUserId g = crRequesterExternalUserId r \<and>
    sgExpiresAt g = t2 + 5 * 60 * 1000"
proof -
  obtain r where r: "validateDecision p t1 (gsDb st) = Inr r"
    using assms(2) by (cases "validateDecision p t1 (gsDb st)") (auto simp: apply_invalid)
  obtain db' where a: "applyCanonicalGuardianDecision registry p t1 during t2 uuid st =
      (case runResolver registry p (crKind r) (applyDecision (decisionOf p) t1 r) during (st\<lparr>gsDb := db'\<rparr>) of
         (res, st2) \<Rightarrow> finishDecision p (applyDecision (decisionOf p) t1 r) uuid t2 res st2)"
    by (rule apply_valid [OF assms(1) r, of registry during t2 uuid])
  obtain res st2 where rs: "runResolver registry p (crKind r) (applyDecision (decisionOf p) t1 r) during
      (st\<lparr>gsDb := db'\<rparr>) = (res, st2)" by fastforce
  let ?r' = "applyDecision (decisionOf p) t1 r"
  let ?gu = "orElse (acActorExternalUserId (daActor p)) (crGuardianExternalUserId ?r')"
  obtain m gs where m: "mintCanonicalRequestGrant ?r' (acChannel (daActor p)) ?gu uuid t2 (gsGrants st2) = (m, gs)" by fastforce
  have fin: "applyCanonicalGuardianDecision registry p t1 during t2 uuid st =
      finishDecision p ?r' uuid t2 res st2" using a rs by simp
  have ap: "fst (finishDecision p ?r' uuid t2 res st2) = Applied i True f rep" using assms(2) fin by simp
  then obtain reply where reply: "res = ResolverOk reply"
    by (cases res) (simp_all add: finishDecision_def)
  have nr: "daAction p \<noteq> ''reject''" using ap reply by (auto simp: finishDecision_def)
  then have "finishDecision p ?r' uuid t2 res st2 =
      (Applied (daRequestId p) m None (shown reply), st2\<lparr>gsGrants := gs\<rparr>)"
    by (simp add: finishDecision_def reply m)
  then have "daAction p \<noteq> ''reject''" "f = None" "m = True"
    "gsGrants (snd (applyCanonicalGuardianDecision registry p t1 during t2 uuid st)) = gs"
    using ap nr fin by simp_all
  moreover have act: "daAction p = ''approve_once''"
    using calculation(1) r by (simp add: validate_Inr VALID_CANONICAL_ACTIONS_def)
  moreover have v: "crToolName ?r' = crToolName r" "crInputDigest ?r' = crInputDigest r"
      "crConversationId ?r' = crConversationId r" "crCallSessionId ?r' = crCallSessionId r"
      "crRequesterExternalUserId ?r' = crRequesterExternalUserId r"
    by (simp_all add: applyDecision_def)
  moreover have t: "truthy (crToolName r)" "truthy (crInputDigest r)"
    using m calculation(3) v(1,2) by (auto simp: mintCanonicalRequestGrant_def split: if_splits)
  moreover obtain g where "mintGrantFromDecision (mintParamsOf ?r' (acChannel (daActor p)) ?gu t2) uuid t2 (gsGrants st2) = (Inr g, gs)"
    using m calculation(3) t v(1,2) by (auto simp: mintCanonicalRequestGrant_def split: prod.splits sum.splits)
  then have "g \<in> set gs" "sgId g = uuid" "sgStatus g = SgActive" "sgScopeMode g = ByToolSignature"
      "sgToolName g = crToolName ?r'" "sgInputDigest g = crInputDigest ?r'" "sgExecutionChannel g = None"
      "sgConversationId g = crConversationId ?r'" "sgCallSessionId g = crCallSessionId ?r'"
      "sgRequesterExternalUserId g = crRequesterExternalUserId ?r'" "sgExpiresAt g = t2 + 5 * 60 * 1000"
    by (auto simp: mintGrantFromDecision_def createScopedApprovalGrant_def mintParamsOf_def Let_def
        computeGrantExpiresAt_def GRANT_TTL_MS_def split: if_splits)
  ultimately show ?thesis using r by metis
qed

text \<open>An invocation fits a request: the same tool and input, in the context the request came from.\<close>

definition invocationFits :: "consumeParams \<Rightarrow> canonicalRequest \<Rightarrow> bool" where
  "invocationFits c r = (crToolName r = Some (kpToolName c) \<and> crInputDigest r = Some (kpInputDigest c) \<and>
     (crConversationId r = None \<or> crConversationId r = kpConversationId c) \<and>
     (crCallSessionId r = None \<or> crCallSessionId r = kpCallSessionId c) \<and>
     (crRequesterExternalUserId r = None \<or> crRequesterExternalUserId r = kpRequesterExternalUserId c))"

lemma sync_succeeds:
  assumes "sagOk gs" "g \<in> set gs" "signatureMatch c now g"
  shows "\<exists>g'. fst (consumeGrantSync c now noOthers noOthers gs) = Inr g'"
proof -
  obtain r gs1 where r: "(if truthy (kpRequestId c)
      then consumeByRequestId (orDefault (kpRequestId c) []) (kpConsumingRequestId c) now noOthers gs
      else ((False, None), gs)) = (r, gs1)" by fastforce
  show ?thesis
  proof (cases "\<exists>h. r = (True, Some h)")
    case True
    then show ?thesis unfolding consumeGrantSync_def r by auto
  next
    case False
    have rc: "consumeByRequestId rid b now noOthers gs =
        (case requestCandidate rid now gs of None \<Rightarrow> ((False, None), gs)
         | Some x \<Rightarrow> ((True, Some (consumeRow now b x)), updateWhere (casMatch (sgId x)) (consumeRow now b) gs))" for rid b
      unfolding consumeByRequestId_def
      by (rule consume_alone [OF assms(1)]) (auto simp: requestCandidate_def find_Some_iff)
    have gs1: "gs1 = gs"
      using r False rc by (auto split: if_splits option.splits)
    have "signatureCandidate c now gs \<noteq> None" unfolding candidate_None using assms(2,3) by blast
    then obtain x where "consumeByToolSignature c now noOthers gs = ((True, Some (consumeRow now (kpConsumingRequestId c) x)),
        updateWhere (casMatch (sgId x)) (consumeRow now (kpConsumingRequestId c)) gs)"
      using signature_alone [OF assms(1), of c now] by auto
    then show ?thesis
      unfolding consumeGrantSync_def r gs1 Let_def using False
      by (cases r) (auto split: bool.split option.split)
  qed
qed

lemma decision_keeps_ok: "systemOk st \<Longrightarrow> systemOk (snd (applyCanonicalGuardianDecision registry p t1 during t2 uuid st))"
  using decisionStep_ok [of st registry "Decide p t1 during t2 uuid"] by simp

section \<open>Properties\<close>

definition ex_system :: "unit guardianSystem" where
  "ex_system = \<lparr>gsDb = ex_guardian_db, gsGrants = [], gsRest = ()\<rparr>"

definition ex_registry :: "unit registry" where
  "ex_registry = (\<lambda>k. if k = ''tool_grant_request'' then Some (\<lambda>r a t c x. (ResolverOk None, x)) else None)"

definition ex_choice :: "string \<Rightarrow> string \<Rightarrow> decisionParams" where
  "ex_choice act pri = \<lparr>daRequestId = ''r1'', daAction = act, daActor =
     \<lparr>acActorPrincipalId = None, acActorExternalUserId = None, acChannel = ''telegram'',
      acGuardianPrincipalId = Some pri\<rparr>, daUserText = None\<rparr>"

lemma ex_system_ok: "systemOk ex_system"
  using ex_guardian_facts(1) by (simp add: systemOk_def ex_system_def sagOk_def)

lemma ex_guardian_row:
  "\<exists>r. getCanonicalGuardianRequest ''r1'' ex_guardian_db = Some r \<and> crStatus r = CsPending \<and>
    crGuardianPrincipalId r = Some ''p1'' \<and> crExpiresAt r = None \<and> crToolName r = Some ''bash'' \<and>
    crInputDigest r = Some ''d1'' \<and> crKind r = ''tool_grant_request'' \<and> crConversationId r = Some ''c1'' \<and>
    crCallSessionId r = None \<and> crRequesterExternalUserId r = Some ''u1''"
  by (simp add: ex_guardian_db_def createCanonicalGuardianRequest_def ex_params_def empty_db_def byKey_def
      newRequest_def getCanonicalGuardianRequest_def Let_def)

lemma ex_validated: "\<exists>r. validateDecision (ex_choice ''approve_once'' ''p1'') t (gsDb ex_system) = Inr r"
  using ex_guardian_row
  by (auto simp: validate_Inr ex_system_def ex_choice_def VALID_CANONICAL_ACTIONS_def isRequestExpired_def)

text \<open>C1: Only the bound guardian decides. On a well-formed system a decision is applied exactly when the
  request exists, is pending and unexpired, the action is approve-once or reject, and the actor carries
  the same non-empty principal the request is bound to; a refused decision changes nothing at all.\<close>

theorem decision_applied_iff_authorised:
  assumes "systemOk st"
  shows "((\<exists>m f rep. fst (applyCanonicalGuardianDecision registry p t1 during t2 uuid st) = Applied (daRequestId p) m f rep) \<longleftrightarrow>
      (\<exists>r. getCanonicalGuardianRequest (daRequestId p) (gsDb st) = Some r \<and> crStatus r = CsPending \<and>
        \<not> isRequestExpired r t1 \<and> daAction p \<in> {''approve_once'', ''reject''} \<and>
        truthy (crGuardianPrincipalId r) \<and> acGuardianPrincipalId (daActor p) = crGuardianPrincipalId r)) \<and>
    (\<forall>reason. fst (applyCanonicalGuardianDecision registry p t1 during t2 uuid st) = NotApplied reason \<longrightarrow>
      snd (applyCanonicalGuardianDecision registry p t1 during t2 uuid st) = st)"
proof (cases "validateDecision p t1 (gsDb st)")
  case (Inl reason)
  then have "validateDecision p t1 (gsDb st) \<noteq> Inr r" for r by simp
  then have no: "\<not> (getCanonicalGuardianRequest (daRequestId p) (gsDb st) = Some r \<and> crStatus r = CsPending \<and>
      daAction p \<in> set VALID_CANONICAL_ACTIONS \<and> truthy (crGuardianPrincipalId r) \<and>
      acGuardianPrincipalId (daActor p) = crGuardianPrincipalId r \<and> \<not> isRequestExpired r t1)" for r
    unfolding validate_Inr by blast
  have "\<not> (\<exists>r. getCanonicalGuardianRequest (daRequestId p) (gsDb st) = Some r \<and> crStatus r = CsPending \<and>
        \<not> isRequestExpired r t1 \<and> daAction p \<in> {''approve_once'', ''reject''} \<and>
        truthy (crGuardianPrincipalId r) \<and> acGuardianPrincipalId (daActor p) = crGuardianPrincipalId r)"
    using no unfolding VALID_CANONICAL_ACTIONS_def by (metis list.simps(15) empty_set)
  then show ?thesis using Inl by (simp add: apply_invalid)
next
  case (Inr r)
  then show ?thesis
    using apply_always_applied [OF assms Inr, of registry during t2 uuid]
    by (auto simp: validate_Inr VALID_CANONICAL_ACTIONS_def)
qed

theorem decision_applied_iff_authorised_witness:
  "\<not> (\<exists>m f rep. fst (applyCanonicalGuardianDecision ex_registry (ex_choice ''approve_once'' ''intruder'') 9 [] 10 ''g'' ex_system) =
    Applied ''r1'' m f rep)"
proof -
  obtain r where r: "getCanonicalGuardianRequest ''r1'' ex_guardian_db = Some r" "crGuardianPrincipalId r = Some ''p1''"
    using ex_guardian_row by blast
  show ?thesis
    using decision_applied_iff_authorised [OF ex_system_ok, of ex_registry "ex_choice ''approve_once'' ''intruder''" 9 "[]" 10 "''g''"] r
    by (simp add: ex_choice_def ex_system_def)
qed

text \<open>C2: One decision per request. Over every sequence of decisions by any actors, interleaved with the
  events the callers cause on the two tables, also while a resolver is awaited, at most one decision on
  a request is applied.\<close>

theorem at_most_one_decision_applied:
  assumes "systemOk st" "list_all callerOnly es"
  shows "tally (decisionStep registry) (appliedTo registry i) st es \<le> 1"
  using applied_once [OF assms, of registry i] by (simp split: if_splits)

theorem at_most_one_decision_applied_witness:
  "tally (decisionStep ex_registry) (appliedTo ex_registry ''r1'') ex_system
    [Decide (ex_choice ''reject'' ''p1'') 9 [] 10 ''g'', Tables (OnRequests (GExpireAll 11)),
     Decide (ex_choice ''approve_once'' ''p1'') 12 [OnGrants (SgWrite (AExpire 12))] 13 ''h''] \<le> 1"
  by (rule at_most_one_decision_applied [OF ex_system_ok]) simp

text \<open>C14: A grant is minted only by an applied approval whose resolver did not fail, for a request that
  names a tool and an input, and it is exactly as narrow as that request: the tool, the input digest, the
  conversation, the call session and the requester of the request, for five minutes.\<close>

theorem minted_grant_is_scoped_to_request:
  assumes "systemOk st" "fst (applyCanonicalGuardianDecision registry p t1 during t2 uuid st) = Applied i True f rep"
  shows "\<exists>r g. validateDecision p t1 (gsDb st) = Inr r \<and> daAction p = ''approve_once'' \<and> f = None \<and>
    truthy (crToolName r) \<and> truthy (crInputDigest r) \<and>
    g \<in> set (gsGrants (snd (applyCanonicalGuardianDecision registry p t1 during t2 uuid st))) \<and>
    sgId g = uuid \<and> sgStatus g = SgActive \<and> sgScopeMode g = ByToolSignature \<and> sgToolName g = crToolName r \<and>
    sgInputDigest g = crInputDigest r \<and> sgExecutionChannel g = None \<and> sgConversationId g = crConversationId r \<and>
    sgCallSessionId g = crCallSessionId r \<and> sgRequesterExternalUserId g = crRequesterExternalUserId r \<and>
    sgExpiresAt g = t2 + 5 * 60 * 1000"
  using assms by (rule apply_minted)

lemma ex_minted:
  "\<exists>rep. fst (applyCanonicalGuardianDecision ex_registry (ex_choice ''approve_once'' ''p1'') 9 [] 10 ''g'' ex_system) =
    Applied ''r1'' True None rep"
proof -
  let ?p = "ex_choice ''approve_once'' ''p1''"
  obtain r where r: "getCanonicalGuardianRequest ''r1'' ex_guardian_db = Some r" "crKind r = ''tool_grant_request''"
    "crToolName r = Some ''bash''" "crInputDigest r = Some ''d1''" using ex_guardian_row by blast
  have v: "validateDecision ?p 9 (gsDb ex_system) = Inr r"
    using ex_validated [of 9] r(1) by (auto simp: validate_Inr ex_choice_def ex_system_def)
  obtain db' where a: "applyCanonicalGuardianDecision ex_registry ?p 9 [] 10 ''g'' ex_system =
      (case runResolver ex_registry ?p (crKind r) (applyDecision (decisionOf ?p) 9 r) [] (ex_system\<lparr>gsDb := db'\<rparr>) of
         (res, st2) \<Rightarrow> finishDecision ?p (applyDecision (decisionOf ?p) 9 r) ''g'' 10 res st2)"
    by (rule apply_valid [OF ex_system_ok v, of ex_registry "[]" 10 "''g''"])
  have "crToolName (applyDecision (decisionOf ?p) 9 r) = Some ''bash''"
    "crInputDigest (applyDecision (decisionOf ?p) 9 r) = Some ''d1''"
    using r by (simp_all add: applyDecision_def)
  then show ?thesis
    unfolding a using r(2)
    by (simp add: runResolver_def ex_registry_def finishDecision_def ex_choice_def mintCanonicalRequestGrant_def
        mintGrantFromDecision_def mintParamsOf_def createScopedApprovalGrant_def ex_system_def byKey_def Let_def)
qed

theorem minted_grant_is_scoped_to_request_witness:
  "\<exists>g \<in> set (gsGrants (snd (applyCanonicalGuardianDecision ex_registry (ex_choice ''approve_once'' ''p1'') 9 [] 10 ''g'' ex_system))).
    sgId g = ''g'' \<and> sgExpiresAt g = 300010"
proof -
  obtain rep where "fst (applyCanonicalGuardianDecision ex_registry (ex_choice ''approve_once'' ''p1'') 9 [] 10 ''g'' ex_system) =
      Applied ''r1'' True None rep" using ex_minted by blast
  from minted_grant_is_scoped_to_request [OF ex_system_ok this] show ?thesis by auto
qed

text \<open>C15: An approval reaches the tool. After a decision that minted a grant, an invocation of the
  approved tool with the approved input in the context of the request gets a grant when it asks within
  five minutes.\<close>

theorem approved_invocation_runs:
  assumes "systemOk st" "fst (applyCanonicalGuardianDecision registry p t1 during t2 uuid st) = Applied i True f rep"
    and "validateDecision p t1 (gsDb st) = Inr r" "invocationFits c r" "now < t2 + 5 * 60 * 1000"
  shows "\<exists>g. fst (consumeGrantSync c now noOthers noOthers
    (gsGrants (snd (applyCanonicalGuardianDecision registry p t1 during t2 uuid st)))) = Inr g"
proof -
  let ?gs = "gsGrants (snd (applyCanonicalGuardianDecision registry p t1 during t2 uuid st))"
  obtain g where g: "g \<in> set ?gs" "sgStatus g = SgActive" "sgScopeMode g = ByToolSignature"
      "sgToolName g = crToolName r" "sgInputDigest g = crInputDigest r" "sgExecutionChannel g = None"
      "sgConversationId g = crConversationId r" "sgCallSessionId g = crCallSessionId r"
      "sgRequesterExternalUserId g = crRequesterExternalUserId r" "sgExpiresAt g = t2 + 5 * 60 * 1000"
    using apply_minted [OF assms(1,2)] assms(3) by auto
  have s: "scopeOk a b" if "a = None \<or> a = b" for a b using that by (auto simp: scopeOk_def split: option.split)
  have "signatureMatch c now g"
    unfolding signatureMatch_def using g assms(4,5) s by (auto simp: invocationFits_def)
  moreover have "sagOk ?gs" using decision_keeps_ok [OF assms(1)] by (simp add: systemOk_def)
  ultimately show ?thesis using sync_succeeds g(1) by blast
qed

theorem approved_invocation_runs_witness:
  "\<exists>g. fst (consumeGrantSync (ex_consume\<lparr>kpInputDigest := ''d1'', kpRequesterExternalUserId := Some ''u1''\<rparr>) 50 noOthers noOthers
    (gsGrants (snd (applyCanonicalGuardianDecision ex_registry (ex_choice ''approve_once'' ''p1'') 9 [] 10 ''g'' ex_system)))) = Inr g"
proof -
  obtain rep where m: "fst (applyCanonicalGuardianDecision ex_registry (ex_choice ''approve_once'' ''p1'') 9 [] 10 ''g'' ex_system) =
      Applied ''r1'' True None rep" using ex_minted by blast
  obtain r where r: "validateDecision (ex_choice ''approve_once'' ''p1'') 9 (gsDb ex_system) = Inr r"
    using ex_validated by blast
  then have "getCanonicalGuardianRequest ''r1'' ex_guardian_db = Some r"
    by (simp add: validate_Inr ex_choice_def ex_system_def)
  then have "invocationFits (ex_consume\<lparr>kpInputDigest := ''d1'', kpRequesterExternalUserId := Some ''u1''\<rparr>) r"
    using ex_guardian_row by (auto simp: invocationFits_def ex_consume_def)
  from approved_invocation_runs [OF ex_system_ok m r this] show ?thesis by simp
qed

end
