(* ===== verification/ApprovalPolicy.thy ===== *)
theory ApprovalPolicy
  imports HumPrelude
begin

text \<open>
  The approval policy of the assistant, \<open>assistant/src/permissions/approval-policy.ts\<close>, and the
  mapping of its outcomes to what is stored with a tool result,
  \<open>assistant/src/permissions/approval-provenance.ts\<close>.

  \<open>evaluatePolicy\<close> is \<open>DefaultApprovalPolicy.evaluate\<close> with its ten steps in order, reasons and
  matched rule included: \<open>check\<close> of \<open>permissions/checker.ts\<close> reads the reason text again. Risk levels
  and thresholds are strings, as the lookups with a default for unknown names take them. The
  lemmas reduce the ten steps to four conditions and give the order in which the policy is
  monotone.
\<close>

section \<open>Data\<close>

datatype ruleDecision = RuleAllow | RuleDeny | RuleAsk

record trustRule =
  trId :: string
  trTool :: string
  trPattern :: string
  trDecision :: ruleDecision
  trPriority :: int
  trCreatedAt :: millis
  trScope :: "string option"
  trExecutionTarget :: "string option"
  trUserModifiedAt :: "millis option"

record approvalContext =
  acRiskLevel :: string
  acToolName :: string
  acMatchedRule :: "trustRule option"
  acIsContainerized :: bool
  acIsWorkspaceScoped :: bool
  acToolOrigin :: "string option"
  acIsSkillBundled :: "bool option"
  acHasManifestOverride :: "bool option"
  acHasSandboxAutoApprove :: "bool option"
  acAutoApproveUpTo :: "string option"

datatype permission = Allow | Prompt | Deny

record approvalDecision =
  adDecision :: permission
  adReason :: string
  adMatchedRule :: "trustRule option"

section \<open>Threshold comparison\<close>

text \<open>\<open>Record<string, number>\<close> tables: \<open>None\<close> is the \<open>undefined\<close> of an unknown key.\<close>

definition RISK_ORDINAL :: "string \<Rightarrow> int option" where
  "RISK_ORDINAL = map_of [(''low'', 0), (''medium'', 1), (''high'', 2)]"

definition THRESHOLD_ORDINAL :: "string \<Rightarrow> int option" where
  "THRESHOLD_ORDINAL = map_of [(''none'', - 1), (''low'', 0), (''medium'', 1), (''high'', 2)]"

definition riskOrdinal :: "string \<Rightarrow> int" where
  "riskOrdinal r = orDefault (RISK_ORDINAL r) 2"

definition thresholdOrdinal :: "string \<Rightarrow> int" where
  "thresholdOrdinal t = orDefault (THRESHOLD_ORDINAL t) 0"

definition isRiskWithinThreshold :: "string \<Rightarrow> string option \<Rightarrow> bool" where
  "isRiskWithinThreshold riskLevel autoApproveUpTo =
    (riskOrdinal riskLevel \<le> thresholdOrdinal (orDefault autoApproveUpTo ''low''))"

section \<open>The policy\<close>

text \<open>A boolean field that may be undefined, in a condition.\<close>

abbreviation isTrue :: "bool option \<Rightarrow> bool" where
  "isTrue b \<equiv> b = Some True"

definition SANDBOX_REASON :: string where
  "SANDBOX_REASON = ''Workspace filesystem operation (sandbox auto-approve)''"

text \<open>Step 2, the rules that ask.\<close>

definition isDynamicSkillPattern :: "string \<Rightarrow> bool" where
  "isDynamicSkillPattern p = startsWith p ''skill_load_dynamic:''"

definition evaluateAsk :: "approvalContext \<Rightarrow> trustRule \<Rightarrow> approvalDecision" where
  "evaluateAsk c r =
    (if \<not> isDynamicSkillPattern (trPattern r) \<and> isRiskWithinThreshold (acRiskLevel c) (acAutoApproveUpTo c)
     then \<lparr>adDecision = Allow,
       adReason = acRiskLevel c @ '' risk: within auto-approve threshold (ask rule overridden)'',
       adMatchedRule = None\<rparr>
     else \<lparr>adDecision = Prompt, adReason = ''Matched ask rule: '' @ trPattern r, adMatchedRule = Some r\<rparr>)"

text \<open>Steps 9 and 10, the comparison of the risk with the threshold.\<close>

definition riskFallback :: "approvalContext \<Rightarrow> approvalDecision" where
  "riskFallback c =
    (if isRiskWithinThreshold (acRiskLevel c) (acAutoApproveUpTo c)
     then \<lparr>adDecision = Allow, adReason = acRiskLevel c @ '' risk: within auto-approve threshold'',
       adMatchedRule = None\<rparr>
     else \<lparr>adDecision = Prompt, adReason = acRiskLevel c @ '' risk: above auto-approve threshold'',
       adMatchedRule = None\<rparr>)"

text \<open>Steps 6 to 8, where no rule matched.\<close>

definition isThirdPartySkill :: "approvalContext \<Rightarrow> bool" where
  "isThirdPartySkill c =
    ((acToolOrigin c = Some ''skill'' \<or> acToolOrigin c = Some ''plugin'') \<and> \<not> isTrue (acIsSkillBundled c) \<or>
     isTrue (acHasManifestOverride c) \<and> \<not> truthy (acToolOrigin c))"

definition evaluateNoRule :: "approvalContext \<Rightarrow> approvalDecision" where
  "evaluateNoRule c =
    (if isThirdPartySkill c then
       (if isRiskWithinThreshold (acRiskLevel c) (acAutoApproveUpTo c)
        then \<lparr>adDecision = Allow,
          adReason = acRiskLevel c @ '' risk: within auto-approve threshold (skill tool)'', adMatchedRule = None\<rparr>
        else \<lparr>adDecision = Prompt, adReason = ''Skill tool: requires approval by default'', adMatchedRule = None\<rparr>)
     else if acRiskLevel c = ''low'' \<and> acIsWorkspaceScoped c \<and>
       isRiskWithinThreshold (acRiskLevel c) (acAutoApproveUpTo c)
     then \<lparr>adDecision = Allow, adReason = ''Workspace-scoped low-risk operation auto-allowed'', adMatchedRule = None\<rparr>
     else if acRiskLevel c = ''low'' \<and> acToolOrigin c = Some ''skill'' \<and> isTrue (acIsSkillBundled c) \<and>
       isRiskWithinThreshold (acRiskLevel c) (acAutoApproveUpTo c)
     then \<lparr>adDecision = Allow, adReason = ''Bundled skill tool: low risk, auto-allowed'', adMatchedRule = None\<rparr>
     else riskFallback c)"

definition sandboxAutoApproved :: "approvalContext \<Rightarrow> bool" where
  "sandboxAutoApproved c =
    (acToolName c = ''bash'' \<and> isTrue (acHasSandboxAutoApprove c) \<and> acAutoApproveUpTo c \<noteq> Some ''none'')"

definition evaluatePolicy :: "approvalContext \<Rightarrow> approvalDecision" where
  "evaluatePolicy c =
    (case acMatchedRule c of
       Some r \<Rightarrow>
         if trDecision r = RuleDeny
         then \<lparr>adDecision = Deny, adReason = ''Blocked by deny rule: '' @ trPattern r, adMatchedRule = Some r\<rparr>
         else if trDecision r = RuleAsk then evaluateAsk c r
         else if sandboxAutoApproved c
         then \<lparr>adDecision = Allow, adReason = SANDBOX_REASON, adMatchedRule = None\<rparr>
         else if acRiskLevel c \<noteq> ''high''
         then \<lparr>adDecision = Allow, adReason = ''Matched trust rule: '' @ trPattern r, adMatchedRule = Some r\<rparr>
         else riskFallback c
     | None \<Rightarrow>
         if sandboxAutoApproved c
         then \<lparr>adDecision = Allow, adReason = SANDBOX_REASON, adMatchedRule = None\<rparr>
         else evaluateNoRule c)"

section \<open>Provenance\<close>

datatype approvalMode = Prompted | Auto | Blocked | UnknownMode

datatype approvalReason = UserApproved | UserDenied | TimedOut | WithinThreshold | TrustRuleAllowed
  | TrustRuleDenied | SandboxAutoApprove | PlatformAutoApprove | NoInteractiveClient
  | GrantScopedConsumed | SystemCancelled | UnknownReason

record provenanceOpts =
  poHasSandboxAutoApprove :: "bool option"
  poMatchedTrustRuleId :: "string option"
  poWasPrompted :: "bool option"
  poWasTimeout :: "bool option"
  poWasSystemCancel :: "bool option"
  poWasAbort :: "bool option"

definition noOpts :: provenanceOpts where
  "noOpts = \<lparr>poHasSandboxAutoApprove = None, poMatchedTrustRuleId = None, poWasPrompted = None,
     poWasTimeout = None, poWasSystemCancel = None, poWasAbort = None\<rparr>"

definition mapApprovalProvenance :: "string \<Rightarrow> provenanceOpts \<Rightarrow> approvalMode \<times> approvalReason" where
  "mapApprovalProvenance decision opts =
    (if decision = ''platform_auto_approve'' then (Auto, PlatformAutoApprove)
     else if decision = ''guardian_auto_approve'' then (Auto, WithinThreshold)
     else if decision = ''allow'' then
       (if isTrue (poWasPrompted opts) then (Prompted, UserApproved)
        else if isTrue (poHasSandboxAutoApprove opts) then (Auto, SandboxAutoApprove)
        else if truthy (poMatchedTrustRuleId opts) then (Auto, TrustRuleAllowed)
        else (Auto, WithinThreshold))
     else if decision = ''deny'' then
       (if isTrue (poWasSystemCancel opts) then (Prompted, SystemCancelled)
        else if isTrue (poWasAbort opts) then (Prompted, SystemCancelled)
        else if isTrue (poWasTimeout opts) then (Prompted, TimedOut)
        else (Prompted, UserDenied))
     else if decision = ''denied'' then
       (if truthy (poMatchedTrustRuleId opts) then (Blocked, TrustRuleDenied)
        else (Blocked, NoInteractiveClient))
     else (UnknownMode, UnknownReason))"

section \<open>The ten steps as four conditions\<close>

lemmas policy_defs = evaluatePolicy_def evaluateAsk_def evaluateNoRule_def riskFallback_def

lemma riskOrdinal_simps [simp]:
  "riskOrdinal ''low'' = 0" "riskOrdinal ''medium'' = 1" "riskOrdinal ''high'' = 2"
  by (simp_all add: riskOrdinal_def RISK_ORDINAL_def)

lemma thresholdOrdinal_simps [simp]:
  "thresholdOrdinal ''none'' = - 1" "thresholdOrdinal ''low'' = 0"
  "thresholdOrdinal ''medium'' = 1" "thresholdOrdinal ''high'' = 2"
  by (simp_all add: thresholdOrdinal_def THRESHOLD_ORDINAL_def)

lemma riskOrdinal_bounds: "0 \<le> riskOrdinal r" "riskOrdinal r \<le> 2"
  by (auto simp: riskOrdinal_def RISK_ORDINAL_def)

lemma thresholdOrdinal_cases:
  "thresholdOrdinal t = - 1 \<longleftrightarrow> t = ''none''"
  "- 1 \<le> thresholdOrdinal t" "thresholdOrdinal t \<le> 2"
  by (auto simp: thresholdOrdinal_def THRESHOLD_ORDINAL_def)

lemma none_prompts: "\<not> isRiskWithinThreshold r (Some ''none'')"
  using riskOrdinal_bounds(1) [of r] by (simp add: isRiskWithinThreshold_def)

lemma high_allows: "isRiskWithinThreshold r (Some ''high'')"
  using riskOrdinal_bounds(2) [of r] by (simp add: isRiskWithinThreshold_def)

text \<open>What step 2 decides for a rule that asks, and what the remaining steps decide.\<close>

definition dynamicAsk :: "approvalContext \<Rightarrow> bool" where
  "dynamicAsk c = (\<exists>r. acMatchedRule c = Some r \<and> trDecision r = RuleAsk \<and> isDynamicSkillPattern (trPattern r))"

definition denyRule :: "approvalContext \<Rightarrow> bool" where
  "denyRule c = (\<exists>r. acMatchedRule c = Some r \<and> trDecision r = RuleDeny)"

definition askRule :: "approvalContext \<Rightarrow> bool" where
  "askRule c = (\<exists>r. acMatchedRule c = Some r \<and> trDecision r = RuleAsk)"

definition allowRule :: "approvalContext \<Rightarrow> bool" where
  "allowRule c = (\<exists>r. acMatchedRule c = Some r \<and> trDecision r = RuleAllow)"

lemmas rule_defs = dynamicAsk_def denyRule_def askRule_def allowRule_def

lemma noRule_decision:
  "adDecision (evaluateNoRule c) =
    (if isRiskWithinThreshold (acRiskLevel c) (acAutoApproveUpTo c) then Allow else Prompt)"
  by (simp add: evaluateNoRule_def riskFallback_def)

lemma ruleDecision_not: "trDecision r \<noteq> RuleDeny \<Longrightarrow> trDecision r \<noteq> RuleAsk \<Longrightarrow> trDecision r = RuleAllow"
  by (cases "trDecision r") simp_all

lemma policy_decision:
  "adDecision (evaluatePolicy c) =
    (if denyRule c then Deny
     else if dynamicAsk c then Prompt
     else if isRiskWithinThreshold (acRiskLevel c) (acAutoApproveUpTo c) then Allow
     else if \<not> askRule c \<and> (sandboxAutoApproved c \<or> allowRule c \<and> acRiskLevel c \<noteq> ''high'') then Allow
     else Prompt)"
proof (cases "acMatchedRule c")
  case None
  then show ?thesis by (simp add: evaluatePolicy_def rule_defs noRule_decision)
next
  case (Some r)
  then show ?thesis
    by (cases "trDecision r") (simp_all add: evaluatePolicy_def rule_defs evaluateAsk_def riskFallback_def)
qed

lemma policy_never_denies: "acMatchedRule c = None \<Longrightarrow> adDecision (evaluatePolicy c) \<noteq> Deny"
  by (simp add: policy_decision denyRule_def)

lemma policy_no_rule: "acMatchedRule c = None \<Longrightarrow> adMatchedRule (evaluatePolicy c) = None"
  by (simp add: policy_defs)

section \<open>Properties\<close>

text \<open>The ten steps of the approval policy in closed form. A deny rule always denies, a rule that
  asks about a dynamic skill load always prompts; otherwise the call is allowed exactly when its
  risk is within the threshold, or no rule asks and either the call is a sandboxed shell command
  under a threshold other than \<open>none\<close> or an allow rule matches and the risk is not high. Workspace
  scope and the origin of a tool never change the decision.\<close>

theorem approval_policy_closed_form:
  "adDecision (evaluatePolicy c) =
    (if denyRule c then Deny
     else if dynamicAsk c then Prompt
     else if isRiskWithinThreshold (acRiskLevel c) (acAutoApproveUpTo c) \<or>
       \<not> askRule c \<and> (sandboxAutoApproved c \<or> allowRule c \<and> acRiskLevel c \<noteq> ''high'') then Allow
     else Prompt)"
  by (auto simp: policy_decision)

text \<open>The policy is monotone. A call that is allowed stays allowed under any more permissive threshold
  and at any lower risk level with all else unchanged.\<close>

theorem approval_policy_monotone:
  assumes "adDecision (evaluatePolicy c) = Allow"
    and "thresholdOrdinal (orDefault (acAutoApproveUpTo c) ''low'') \<le> thresholdOrdinal t"
    and "riskOrdinal l \<le> riskOrdinal (acRiskLevel c)" "acRiskLevel c \<in> {''low'', ''medium'', ''high''}"
  shows "adDecision (evaluatePolicy (c\<lparr>acAutoApproveUpTo := Some t, acRiskLevel := l\<rparr>)) = Allow"
proof -
  let ?d = "c\<lparr>acAutoApproveUpTo := Some t, acRiskLevel := l\<rparr>"
  have same: "denyRule ?d = denyRule c" "dynamicAsk ?d = dynamicAsk c" "askRule ?d = askRule c"
      "allowRule ?d = allowRule c"
    by (simp_all add: rule_defs)
  have within: "isRiskWithinThreshold (acRiskLevel c) (acAutoApproveUpTo c) \<Longrightarrow> isRiskWithinThreshold l (Some t)"
    using assms(2,3) by (simp add: isRiskWithinThreshold_def)
  have "t \<noteq> ''none''" if "acAutoApproveUpTo c \<noteq> Some ''none''"
  proof -
    have "orDefault (acAutoApproveUpTo c) ''low'' \<noteq> ''none''"
      using that by (cases "acAutoApproveUpTo c") auto
    then have "thresholdOrdinal (orDefault (acAutoApproveUpTo c) ''low'') \<noteq> - 1"
      by (simp add: thresholdOrdinal_cases)
    with thresholdOrdinal_cases(2) [of "orDefault (acAutoApproveUpTo c) ''low''"] assms(2)
    have "thresholdOrdinal t \<noteq> - 1" by linarith
    then show ?thesis by (simp add: thresholdOrdinal_cases)
  qed
  then have sandbox: "sandboxAutoApproved c \<Longrightarrow> sandboxAutoApproved ?d"
    by (simp add: sandboxAutoApproved_def)
  have notHigh: "acRiskLevel c \<noteq> ''high'' \<Longrightarrow> l \<noteq> ''high''"
    using assms(3,4) by auto
  have within_d: "isRiskWithinThreshold (acRiskLevel ?d) (acAutoApproveUpTo ?d) = isRiskWithinThreshold l (Some t)"
    by simp
  show ?thesis
    using assms(1) within sandbox notHigh
    unfolding policy_decision same within_d by (auto split: if_splits)
qed

definition low_context :: "string \<Rightarrow> approvalContext" where
  "low_context r = \<lparr>acRiskLevel = r, acToolName = ''bash'', acMatchedRule = None, acIsContainerized = False,
     acIsWorkspaceScoped = False, acToolOrigin = None, acIsSkillBundled = None, acHasManifestOverride = None,
     acHasSandboxAutoApprove = None, acAutoApproveUpTo = Some ''medium''\<rparr>"

theorem approval_policy_monotone_witness:
  "adDecision (evaluatePolicy ((low_context ''medium'')\<lparr>acAutoApproveUpTo := Some ''high'', acRiskLevel := ''low''\<rparr>)) = Allow"
  by (rule approval_policy_monotone) (simp_all add: low_context_def policy_decision rule_defs isRiskWithinThreshold_def)

text \<open>
  The documentation of the threshold says that \<open>none\<close> prompts for everything and \<open>high\<close> approves
  everything. The first fails for an allow rule, the second for a rule that denies or asks about a
  dynamic skill load.
\<close>

lemma none_does_not_prompt_for_everything:
  assumes "allowRule c" "acRiskLevel c \<noteq> ''high''"
  shows "adDecision (evaluatePolicy (c\<lparr>acAutoApproveUpTo := Some ''none''\<rparr>)) = Allow"
  using assms by (auto simp: policy_decision rule_defs)

end
