(* ===== verification/ThresholdReader.thy ===== *)
theory ThresholdReader
  imports ApprovalPolicy
begin

text \<open>
  The reader of the auto-approve threshold, \<open>assistant/src/permissions/gateway-threshold-reader.ts\<close>: the
  global and the per-conversation cache with their lifetimes, the negative entries, the refresh that
  bypasses both caches, and the bookkeeping of failures.

  The gateway is not part of this program's state: each call takes the gateway's answers and the
  clock readings at the points where the code awaits them (\<open>gatewayAnswers\<close>). The property compares what
  the reader returns with the answers received, over every history of calls.
\<close>

section \<open>State\<close>

datatype executionContext = CtxConversation | CtxBackground | CtxHeadless

record globalThresholds =
  gtInteractive :: string
  gtAutonomous :: string
  gtHeadless :: string

record convCacheEntry =
  ceThreshold :: "string option"
  ceTimestamp :: millis

record failureState =
  fsConsecutiveFailures :: nat
  fsFirstFailureAt :: millis
  fsLastWarnAt :: millis

record readerState =
  cachedGlobalThresholds :: "globalThresholds option"
  cachedGlobalTimestamp :: millis
  conversationThresholdCache :: "(string, convCacheEntry) jsMap"
  failureStateByOp :: "(string, failureState) jsMap"
  failureWarnIntervalMs :: millis

definition GLOBAL_CACHE_TTL_MS :: millis where
  "GLOBAL_CACHE_TTL_MS = 30000"

definition CONVERSATION_CACHE_TTL_MS :: millis where
  "CONVERSATION_CACHE_TTL_MS = 5000"

definition DEFAULT_FAILURE_WARN_INTERVAL_MS :: millis where
  "DEFAULT_FAILURE_WARN_INTERVAL_MS = 30000"

definition reader_start :: readerState where
  "reader_start = \<lparr>cachedGlobalThresholds = None, cachedGlobalTimestamp = 0, conversationThresholdCache = [],
     failureStateByOp = [], failureWarnIntervalMs = DEFAULT_FAILURE_WARN_INTERVAL_MS\<rparr>"

section \<open>Failure bookkeeping\<close>

text \<open>The first component says whether the call writes a warning to the log.\<close>

definition noteFailure :: "string \<Rightarrow> millis \<Rightarrow> readerState \<Rightarrow> bool \<times> readerState" where
  "noteFailure op now st =
    (case mapGet (failureStateByOp st) op of
       None \<Rightarrow> (True, st\<lparr>failureStateByOp := mapSet op
         \<lparr>fsConsecutiveFailures = 1, fsFirstFailureAt = now, fsLastWarnAt = now\<rparr> (failureStateByOp st)\<rparr>)
     | Some f \<Rightarrow>
         let f' = f\<lparr>fsConsecutiveFailures := fsConsecutiveFailures f + 1\<rparr> in
         if failureWarnIntervalMs st \<le> now - fsLastWarnAt f
         then (True, st\<lparr>failureStateByOp := mapSet op (f'\<lparr>fsLastWarnAt := now\<rparr>) (failureStateByOp st)\<rparr>)
         else (False, st\<lparr>failureStateByOp := mapSet op f' (failureStateByOp st)\<rparr>))"

definition noteSuccess :: "string \<Rightarrow> readerState \<Rightarrow> readerState" where
  "noteSuccess op st =
    (case mapGet (failureStateByOp st) op of
       None \<Rightarrow> st
     | Some _ \<Rightarrow> st\<lparr>failureStateByOp := mapDelete op (failureStateByOp st)\<rparr>)"

section \<open>Reading\<close>

definition globalField :: "executionContext \<Rightarrow> globalThresholds \<Rightarrow> string" where
  "globalField ctx g = (if ctx = CtxConversation then gtInteractive g
     else if ctx = CtxHeadless then gtHeadless g else gtAutonomous g)"

definition isValidThreshold :: "string \<Rightarrow> bool" where
  "isValidThreshold v = (v = ''none'' \<or> v = ''low'' \<or> v = ''medium'' \<or> v = ''high'')"

text \<open>
  The gateway's answer to \<open>get_conversation_threshold\<close>: undefined on a transport failure, null where
  the conversation has no override, otherwise a threshold.
\<close>

datatype convReply = ConvUndefined | ConvNull | ConvThreshold string

record gatewayAnswers =
  gaConv :: convReply
  gaConvAt :: millis
  gaGlobalNow :: millis
  gaGlobal :: "globalThresholds option"
  gaGlobalAt :: millis

definition cacheConversation :: "string \<Rightarrow> string option \<Rightarrow> millis \<Rightarrow> readerState \<Rightarrow> readerState" where
  "cacheConversation conv t now st = st\<lparr>conversationThresholdCache :=
     mapSet conv \<lparr>ceThreshold = t, ceTimestamp = now\<rparr> (conversationThresholdCache st)\<rparr>"

text \<open>A defined answer: the failure streak ends, and a valid override or its absence is cached.\<close>

definition conversationAnswered :: "string \<Rightarrow> convReply \<Rightarrow> millis \<Rightarrow> readerState \<Rightarrow> string option \<times> readerState" where
  "conversationAnswered conv reply now st =
    (let st' = noteSuccess ''conversation_threshold'' st in
     case reply of
       ConvThreshold t \<Rightarrow>
         if isValidThreshold t then (Some t, cacheConversation conv (Some t) now st')
         else (None, cacheConversation conv None now st')
     | _ \<Rightarrow> (None, cacheConversation conv None now st'))"

definition freshEntry :: "string \<Rightarrow> millis \<Rightarrow> readerState \<Rightarrow> convCacheEntry option" where
  "freshEntry conv now st =
    (case mapGet (conversationThresholdCache st) conv of
       None \<Rightarrow> None
     | Some e \<Rightarrow> if now - ceTimestamp e < CONVERSATION_CACHE_TTL_MS then Some e else None)"

text \<open>The override phase: \<open>Some\<close> a threshold that is returned, \<open>None\<close> to fall through to the global ones.\<close>

definition conversationOverride ::
  "string \<Rightarrow> millis \<Rightarrow> gatewayAnswers \<Rightarrow> readerState \<Rightarrow> string option \<times> readerState" where
  "conversationOverride conv now ga st =
    (case freshEntry conv now st of
       Some e \<Rightarrow>
         (case ceThreshold e of
            None \<Rightarrow> (None, st)
          | Some t \<Rightarrow> if isValidThreshold t then (Some t, st) else (None, st))
     | None \<Rightarrow>
         (case gaConv ga of
            ConvUndefined \<Rightarrow> (None, snd (noteFailure ''conversation_threshold'' (gaConvAt ga) st))
          | reply \<Rightarrow> conversationAnswered conv reply (gaConvAt ga) st))"

definition storeGlobal :: "globalThresholds \<Rightarrow> millis \<Rightarrow> readerState \<Rightarrow> readerState" where
  "storeGlobal g now st = (noteSuccess ''global_thresholds'' st)
     \<lparr>cachedGlobalThresholds := Some g, cachedGlobalTimestamp := now\<rparr>"

definition globalFresh :: "millis \<Rightarrow> readerState \<Rightarrow> globalThresholds option" where
  "globalFresh now st =
    (if now - cachedGlobalTimestamp st < GLOBAL_CACHE_TTL_MS then cachedGlobalThresholds st else None)"

text \<open>\<open>None\<close> is the exception thrown where the gateway gives no result.\<close>

definition fetchGlobalThresholds :: "gatewayAnswers \<Rightarrow> readerState \<Rightarrow> globalThresholds option \<times> readerState" where
  "fetchGlobalThresholds ga st =
    (case globalFresh (gaGlobalNow ga) st of
       Some g \<Rightarrow> (Some g, st)
     | None \<Rightarrow>
         (case gaGlobal ga of
            None \<Rightarrow> (None, st)
          | Some g \<Rightarrow> (Some g, storeGlobal g (gaGlobalAt ga) st)))"

definition globalThreshold :: "executionContext \<Rightarrow> gatewayAnswers \<Rightarrow> readerState \<Rightarrow> string \<times> readerState" where
  "globalThreshold ctx ga st =
    (case fetchGlobalThresholds ga st of
       (Some g, st') \<Rightarrow> (if isValidThreshold (globalField ctx g) then globalField ctx g else ''none'', st')
     | (None, st') \<Rightarrow> (''none'', snd (noteFailure ''global_thresholds'' (gaGlobalAt ga) st')))"

text \<open>The context asks for an override: \<open>ctx === "conversation" && conversationId\<close>.\<close>

fun overridable :: "string option \<Rightarrow> executionContext \<Rightarrow> string option" where
  "overridable (Some conv) CtxConversation = (if conv \<noteq> [] then Some conv else None)"
| "overridable _ _ = None"

definition getAutoApproveThreshold ::
  "string option \<Rightarrow> executionContext option \<Rightarrow> millis \<Rightarrow> gatewayAnswers \<Rightarrow> readerState \<Rightarrow> string \<times> readerState" where
  "getAutoApproveThreshold conversationId executionContext now ga st =
    (let ctx = orDefault executionContext CtxConversation in
     case overridable conversationId ctx of
       None \<Rightarrow> globalThreshold ctx ga st
     | Some conv \<Rightarrow>
         (case conversationOverride conv now ga st of
            (Some t, st') \<Rightarrow> (t, st')
          | (None, st') \<Rightarrow> globalThreshold ctx ga st'))"

text \<open>The refresh; \<open>None\<close> is its null result.\<close>

definition refreshGlobal :: "executionContext \<Rightarrow> gatewayAnswers \<Rightarrow> readerState \<Rightarrow> string option \<times> readerState" where
  "refreshGlobal ctx ga st =
    (case gaGlobal ga of
       None \<Rightarrow> (None, snd (noteFailure ''global_thresholds'' (gaGlobalAt ga) st))
     | Some g \<Rightarrow> (if isValidThreshold (globalField ctx g) then Some (globalField ctx g) else None,
                  storeGlobal g (gaGlobalAt ga) st))"

definition refreshAutoApproveThreshold ::
  "string option \<Rightarrow> executionContext option \<Rightarrow> gatewayAnswers \<Rightarrow> readerState \<Rightarrow> string option \<times> readerState" where
  "refreshAutoApproveThreshold conversationId executionContext ga st =
    (let ctx = orDefault executionContext CtxConversation in
     case overridable conversationId ctx of
       None \<Rightarrow> refreshGlobal ctx ga st
     | Some conv \<Rightarrow>
         (case gaConv ga of
            ConvUndefined \<Rightarrow> (None, snd (noteFailure ''conversation_threshold'' (gaConvAt ga) st))
          | reply \<Rightarrow>
              (case conversationAnswered conv reply (gaConvAt ga) st of
                 (Some t, st') \<Rightarrow> (Some t, st')
               | (None, st') \<Rightarrow> refreshGlobal ctx ga st')))"

section \<open>What the answers of the gateway justify\<close>

text \<open>
  The answers a call receives, with the time each was stored: an override of a conversation or its
  absence, and the global thresholds. A machine keeps the list of all answers next to the state.
\<close>

datatype answer = AnsConv string "string option" millis | AnsGlobal globalThresholds millis

fun replyAnswers :: "string \<Rightarrow> convReply \<Rightarrow> millis \<Rightarrow> answer list" where
  "replyAnswers conv ConvUndefined now = []"
| "replyAnswers conv ConvNull now = [AnsConv conv None now]"
| "replyAnswers conv (ConvThreshold t) now = [AnsConv conv (if isValidThreshold t then Some t else None) now]"

definition globalAnswers :: "gatewayAnswers \<Rightarrow> answer list" where
  "globalAnswers ga = (case gaGlobal ga of None \<Rightarrow> [] | Some g \<Rightarrow> [AnsGlobal g (gaGlobalAt ga)])"

definition fetchAnswers :: "gatewayAnswers \<Rightarrow> readerState \<Rightarrow> answer list" where
  "fetchAnswers ga st = (if globalFresh (gaGlobalNow ga) st = None then globalAnswers ga else [])"

definition overrideAnswers :: "string \<Rightarrow> millis \<Rightarrow> gatewayAnswers \<Rightarrow> readerState \<Rightarrow> answer list" where
  "overrideAnswers conv now ga st =
    (if freshEntry conv now st = None then replyAnswers conv (gaConv ga) (gaConvAt ga) else [])"

definition getAnswers ::
  "string option \<Rightarrow> executionContext option \<Rightarrow> millis \<Rightarrow> gatewayAnswers \<Rightarrow> readerState \<Rightarrow> answer list" where
  "getAnswers conversationId executionContext now ga st =
    (case overridable conversationId (orDefault executionContext CtxConversation) of
       None \<Rightarrow> fetchAnswers ga st
     | Some conv \<Rightarrow> overrideAnswers conv now ga st @
         (if fst (conversationOverride conv now ga st) = None
          then fetchAnswers ga (snd (conversationOverride conv now ga st)) else []))"

definition refreshAnswers :: "string option \<Rightarrow> executionContext option \<Rightarrow> gatewayAnswers \<Rightarrow> answer list" where
  "refreshAnswers conversationId executionContext ga =
    (case overridable conversationId (orDefault executionContext CtxConversation) of
       None \<Rightarrow> globalAnswers ga
     | Some conv \<Rightarrow> replyAnswers conv (gaConv ga) (gaConvAt ga) @
         (case gaConv ga of
            ConvUndefined \<Rightarrow> []
          | ConvThreshold t \<Rightarrow> if isValidThreshold t then [] else globalAnswers ga
          | ConvNull \<Rightarrow> globalAnswers ga))"

datatype readEvent = EGet "string option" "executionContext option" millis gatewayAnswers
  | ERefresh "string option" "executionContext option" gatewayAnswers

fun readStep :: "answer list \<times> readerState \<Rightarrow> readEvent \<Rightarrow> answer list \<times> readerState" where
  "readStep (lg, st) (EGet conv ctx now ga) =
    (lg @ getAnswers conv ctx now ga st, snd (getAutoApproveThreshold conv ctx now ga st))"
| "readStep (lg, st) (ERefresh conv ctx ga) =
    (lg @ refreshAnswers conv ctx ga, snd (refreshAutoApproveThreshold conv ctx ga st))"

definition convJustified :: "answer set \<Rightarrow> readerState \<Rightarrow> bool" where
  "convJustified A st = (\<forall>conv e. mapGet (conversationThresholdCache st) conv = Some e \<longrightarrow>
     AnsConv conv (ceThreshold e) (ceTimestamp e) \<in> A \<and>
     (\<forall>t. ceThreshold e = Some t \<longrightarrow> isValidThreshold t))"

definition globalJustified :: "answer set \<Rightarrow> readerState \<Rightarrow> bool" where
  "globalJustified A st = (\<forall>g. cachedGlobalThresholds st = Some g \<longrightarrow>
     AnsGlobal g (cachedGlobalTimestamp st) \<in> A)"

definition justified :: "answer list \<times> readerState \<Rightarrow> bool" where
  "justified p = (convJustified (set (fst p)) (snd p) \<and> globalJustified (set (fst p)) (snd p))"

lemma note_frame [simp]:
  "cachedGlobalThresholds (snd (noteFailure op now st)) = cachedGlobalThresholds st"
  "cachedGlobalTimestamp (snd (noteFailure op now st)) = cachedGlobalTimestamp st"
  "conversationThresholdCache (snd (noteFailure op now st)) = conversationThresholdCache st"
  "cachedGlobalThresholds (noteSuccess op st) = cachedGlobalThresholds st"
  "cachedGlobalTimestamp (noteSuccess op st) = cachedGlobalTimestamp st"
  "conversationThresholdCache (noteSuccess op st) = conversationThresholdCache st"
  by (auto simp: noteFailure_def noteSuccess_def Let_def split: option.splits)

lemma justified_note [simp]:
  "convJustified A (snd (noteFailure op now st)) = convJustified A st"
  "globalJustified A (snd (noteFailure op now st)) = globalJustified A st"
  "convJustified A (noteSuccess op st) = convJustified A st"
  "globalJustified A (noteSuccess op st) = globalJustified A st"
  by (simp_all add: convJustified_def globalJustified_def)

lemma justified_mono:
  "A \<subseteq> B \<Longrightarrow> convJustified A st \<Longrightarrow> convJustified B st"
  "A \<subseteq> B \<Longrightarrow> globalJustified A st \<Longrightarrow> globalJustified B st"
  unfolding convJustified_def globalJustified_def by blast+

lemma storeGlobal_justified [simp]:
  "convJustified A (storeGlobal g now st) = convJustified A st"
  "globalJustified A (storeGlobal g now st) \<longleftrightarrow> AnsGlobal g now \<in> A"
  by (simp_all add: storeGlobal_def convJustified_def globalJustified_def)

lemma cacheConversation_justified:
  "globalJustified A (cacheConversation conv t now st) = globalJustified A st"
  "convJustified A st \<Longrightarrow> AnsConv conv t now \<in> A \<Longrightarrow> (\<And>x. t = Some x \<Longrightarrow> isValidThreshold x) \<Longrightarrow>
    convJustified A (cacheConversation conv t now st)"
  by (auto simp: cacheConversation_def convJustified_def globalJustified_def)

lemma answered_justified:
  assumes "convJustified A st" "reply \<noteq> ConvUndefined" "set (replyAnswers conv reply now) \<subseteq> A"
  shows "convJustified A (snd (conversationAnswered conv reply now st))"
    and "globalJustified A (snd (conversationAnswered conv reply now st)) = globalJustified A st"
proof -
  have valid: "convJustified A (cacheConversation conv t now (noteSuccess op st))"
    if "AnsConv conv t now \<in> A" "\<And>x. t = Some x \<Longrightarrow> isValidThreshold x" for t op
    using that assms(1) by (intro cacheConversation_justified(2)) simp_all
  show "convJustified A (snd (conversationAnswered conv reply now st))"
    using assms(2,3) by (cases reply) (auto simp: conversationAnswered_def Let_def intro!: valid)
  show "globalJustified A (snd (conversationAnswered conv reply now st)) = globalJustified A st"
    using assms(2) by (cases reply) (auto simp: conversationAnswered_def Let_def cacheConversation_justified(1))
qed

lemma override_justified:
  assumes "convJustified A st" "set (overrideAnswers conv now ga st) \<subseteq> A"
  shows "convJustified A (snd (conversationOverride conv now ga st))"
    and "globalJustified A (snd (conversationOverride conv now ga st)) = globalJustified A st"
proof -
  note answered = answered_justified [of A st "gaConv ga" conv "gaConvAt ga"]
  show "convJustified A (snd (conversationOverride conv now ga st))"
  proof (cases "freshEntry conv now st")
    case None
    then show ?thesis using assms answered(1)
      by (cases "gaConv ga") (simp_all add: conversationOverride_def overrideAnswers_def)
  qed (simp add: conversationOverride_def assms(1) split: option.splits)
  show "globalJustified A (snd (conversationOverride conv now ga st)) = globalJustified A st"
  proof (cases "freshEntry conv now st")
    case None
    then show ?thesis using assms answered(2)
      by (cases "gaConv ga") (simp_all add: conversationOverride_def overrideAnswers_def)
  qed (simp add: conversationOverride_def split: option.splits)
qed

lemma global_justified:
  assumes "convJustified A st" "globalJustified A st" "set (fetchAnswers ga st) \<subseteq> A"
  shows "convJustified A (snd (globalThreshold ctx ga st)) \<and> globalJustified A (snd (globalThreshold ctx ga st))"
  using assms
  by (auto simp: globalThreshold_def fetchGlobalThresholds_def fetchAnswers_def globalAnswers_def split: option.splits)

lemma refreshGlobal_justified:
  assumes "convJustified A st" "globalJustified A st" "set (globalAnswers ga) \<subseteq> A"
  shows "convJustified A (snd (refreshGlobal ctx ga st))" and "globalJustified A (snd (refreshGlobal ctx ga st))"
  using assms by (auto simp: refreshGlobal_def globalAnswers_def split: option.splits)

lemma get_justified:
  assumes "convJustified A st" "globalJustified A st" "set (getAnswers conv ctx now ga st) \<subseteq> A"
  shows "convJustified A (snd (getAutoApproveThreshold conv ctx now ga st)) \<and>
    globalJustified A (snd (getAutoApproveThreshold conv ctx now ga st))"
proof (cases "overridable conv (orDefault ctx CtxConversation)")
  case None
  with assms show ?thesis
    by (simp add: getAutoApproveThreshold_def getAnswers_def global_justified)
next
  case (Some c)
  with assms(3) have sub: "set (overrideAnswers c now ga st) \<subseteq> A" by (simp add: getAnswers_def)
  note over = override_justified [OF assms(1) sub]
  show ?thesis
  proof (cases "conversationOverride c now ga st")
    case (Pair t st')
    with over assms(2) have "convJustified A st'" "globalJustified A st'" by simp_all
    with Pair Some assms(3) show ?thesis
      by (cases t) (simp_all add: getAutoApproveThreshold_def getAnswers_def global_justified)
  qed
qed

lemma refresh_justified:
  assumes "convJustified A st" "globalJustified A st" "set (refreshAnswers conv ctx ga) \<subseteq> A"
  shows "convJustified A (snd (refreshAutoApproveThreshold conv ctx ga st)) \<and>
    globalJustified A (snd (refreshAutoApproveThreshold conv ctx ga st))"
proof (cases "overridable conv (orDefault ctx CtxConversation)")
  case None
  with assms show ?thesis
    by (simp add: refreshAutoApproveThreshold_def refreshAnswers_def refreshGlobal_justified)
next
  case (Some c)
  then have sub: "set (replyAnswers c (gaConv ga) (gaConvAt ga)) \<subseteq> A"
    using assms(3) by (simp add: refreshAnswers_def)
  show ?thesis
  proof (cases "gaConv ga = ConvUndefined")
    case True
    with Some assms(1,2) show ?thesis by (simp add: refreshAutoApproveThreshold_def)
  next
    case False
    obtain t st' where a: "conversationAnswered c (gaConv ga) (gaConvAt ga) st = (t, st')" by fastforce
    have j: "convJustified A st'" "globalJustified A st'"
      using answered_justified [OF assms(1) False sub] assms(2) a by simp_all
    have r: "refreshAutoApproveThreshold conv ctx ga st =
        (case t of Some x \<Rightarrow> (Some x, st') | None \<Rightarrow> refreshGlobal (orDefault ctx CtxConversation) ga st')"
      using Some False a by (cases "gaConv ga") (simp_all add: refreshAutoApproveThreshold_def split: option.splits)
    show ?thesis
    proof (cases t)
      case None
      then have "set (globalAnswers ga) \<subseteq> A"
        using a False assms(3) Some
        by (cases "gaConv ga") (auto simp: refreshAnswers_def conversationAnswered_def Let_def split: if_splits)
      with j None show ?thesis by (simp add: r refreshGlobal_justified)
    qed (simp add: r j)
  qed
qed

interpretation readerMachine: event_machine readStep justified
proof
  fix p :: "answer list \<times> readerState" and e :: readEvent
  assume "justified p"
  obtain lg st where p: "p = (lg, st)" by (cases p)
  have cg: "convJustified (set lg) st" "globalJustified (set lg) st"
    using \<open>justified p\<close> by (simp_all add: justified_def p)
  show "justified (readStep p e)"
  proof (cases e)
    case (EGet conv ctx now ga)
    have "convJustified (set lg \<union> set (getAnswers conv ctx now ga st)) st"
      "globalJustified (set lg \<union> set (getAnswers conv ctx now ga st)) st"
      using cg justified_mono [of "set lg"] by simp_all
    then show ?thesis using get_justified by (simp add: p EGet justified_def)
  next
    case (ERefresh conv ctx ga)
    have "convJustified (set lg \<union> set (refreshAnswers conv ctx ga)) st"
      "globalJustified (set lg \<union> set (refreshAnswers conv ctx ga)) st"
      using cg justified_mono [of "set lg"] by simp_all
    then show ?thesis using refresh_justified by (simp add: p ERefresh justified_def)
  qed
qed

lemma justified_start: "justified ([], reader_start)"
  by (simp add: justified_def reader_start_def convJustified_def globalJustified_def)

text \<open>Where the values that the two phases return come from.\<close>

definition recentOverride :: "answer set \<Rightarrow> string \<Rightarrow> string option \<Rightarrow> millis \<Rightarrow> gatewayAnswers \<Rightarrow> bool" where
  "recentOverride A conv t now ga =
    (\<exists>at. AnsConv conv t at \<in> A \<and> (now - at < CONVERSATION_CACHE_TTL_MS \<or> at = gaConvAt ga))"

definition recentGlobal :: "answer set \<Rightarrow> executionContext \<Rightarrow> string \<Rightarrow> gatewayAnswers \<Rightarrow> bool" where
  "recentGlobal A ctx v ga =
    (\<exists>g at. AnsGlobal g at \<in> A \<and> globalField ctx g = v \<and>
      (gaGlobalNow ga - at < GLOBAL_CACHE_TTL_MS \<or> at = gaGlobalAt ga))"

lemma freshEntryE:
  assumes "freshEntry conv now st = Some e"
  shows "mapGet (conversationThresholdCache st) conv = Some e" "now - ceTimestamp e < CONVERSATION_CACHE_TTL_MS"
  using assms by (auto simp: freshEntry_def split: option.splits if_splits)

lemma override_source:
  assumes "convJustified A st" "set (overrideAnswers conv now ga st) \<subseteq> A"
  shows "(case fst (conversationOverride conv now ga st) of
      Some v \<Rightarrow> isValidThreshold v \<and> recentOverride A conv (Some v) now ga
    | None \<Rightarrow> gaConv ga = ConvUndefined \<or> recentOverride A conv None now ga)"
proof (cases "freshEntry conv now st")
  case None
  then show ?thesis using assms(2)
    by (cases "gaConv ga")
      (auto simp: conversationOverride_def overrideAnswers_def conversationAnswered_def Let_def recentOverride_def)
next
  case (Some e)
  note fe = freshEntryE [OF Some]
  then have a: "AnsConv conv (ceThreshold e) (ceTimestamp e) \<in> A"
      "\<And>t. ceThreshold e = Some t \<Longrightarrow> isValidThreshold t"
    using assms(1) unfolding convJustified_def by blast+
  then have "recentOverride A conv (ceThreshold e) now ga"
    using fe unfolding recentOverride_def by blast
  with a(2) Some show ?thesis by (cases "ceThreshold e") (simp_all add: conversationOverride_def)
qed

lemma global_source:
  assumes "globalJustified A st" "set (fetchAnswers ga st) \<subseteq> A" "fst (globalThreshold ctx ga st) \<noteq> ''none''"
  shows "isValidThreshold (fst (globalThreshold ctx ga st)) \<and> recentGlobal A ctx (fst (globalThreshold ctx ga st)) ga"
proof (cases "globalFresh (gaGlobalNow ga) st")
  case None
  with assms(2,3) show ?thesis
    by (cases "gaGlobal ga")
      (auto simp: globalThreshold_def fetchGlobalThresholds_def fetchAnswers_def globalAnswers_def recentGlobal_def
        split: if_splits)
next
  case (Some g)
  then have "cachedGlobalThresholds st = Some g \<and> gaGlobalNow ga - cachedGlobalTimestamp st < GLOBAL_CACHE_TTL_MS"
    unfolding globalFresh_def by (simp split: if_splits)
  then have "recentGlobal A ctx (globalField ctx g) ga"
    using assms(1) unfolding globalJustified_def recentGlobal_def by blast
  with Some assms(3) show ?thesis
    by (auto simp: globalThreshold_def fetchGlobalThresholds_def split: if_splits)
qed

section \<open>Properties\<close>

text \<open>C37: The threshold is never made up and never stale beyond the lifetimes. After every history of
  reads and refreshes the reader returns \<open>none\<close>, or an override the gateway gave for this conversation
  at most five seconds ago or in this call, or the global value of the context the gateway gave at
  most thirty seconds ago or in this call. The global value is used for a conversation only where
  the gateway said at most five seconds ago or in this call that there is no override, or did not
  answer.\<close>

theorem threshold_bounded_staleness:
  fixes conv ctx now ga es
  defines "lg \<equiv> fst (runEvents readStep ([], reader_start) es)"
    and "st \<equiv> snd (runEvents readStep ([], reader_start) es)"
    and "c \<equiv> orDefault ctx CtxConversation"
  defines "v \<equiv> fst (getAutoApproveThreshold conv ctx now ga st)"
    and "A \<equiv> set lg \<union> set (getAnswers conv ctx now ga st)"
  shows "v = ''none'' \<or> isValidThreshold v \<and>
    (case overridable conv c of
       None \<Rightarrow> recentGlobal A c v ga
     | Some k \<Rightarrow> recentOverride A k (Some v) now ga \<or>
         recentGlobal A c v ga \<and> (gaConv ga = ConvUndefined \<or> recentOverride A k None now ga))"
proof -
  have "justified (runEvents readStep ([], reader_start) es)"
    by (rule readerMachine.inv_run [OF justified_start])
  then have "convJustified (set lg) st" "globalJustified (set lg) st"
    by (simp_all add: justified_def lg_def st_def)
  then have j: "convJustified A st" "globalJustified A st"
    using justified_mono [of "set lg" A st] by (simp_all add: A_def)
  show ?thesis
  proof (cases "overridable conv c")
    case None
    then have v: "v = fst (globalThreshold c ga st)" and "set (fetchAnswers ga st) \<subseteq> A"
      by (simp_all add: v_def A_def c_def getAutoApproveThreshold_def getAnswers_def)
    then show ?thesis using global_source [of A st ga c] j None by auto
  next
    case (Some k)
    have sub: "set (overrideAnswers k now ga st) \<subseteq> A"
      using Some by (auto simp: A_def c_def getAnswers_def)
    obtain t st' where o: "conversationOverride k now ga st = (t, st')" by fastforce
    note src = override_source [OF j(1) sub]
    show ?thesis
    proof (cases t)
      case (Some x)
      with \<open>overridable conv c = Some k\<close> o have "v = x"
        by (simp add: v_def c_def getAutoApproveThreshold_def)
      with src o Some \<open>overridable conv c = Some k\<close> show ?thesis by simp
    next
      case None
      with \<open>overridable conv c = Some k\<close> o have v: "v = fst (globalThreshold c ga st')"
        and sub': "set (fetchAnswers ga st') \<subseteq> A"
        by (auto simp: v_def A_def c_def getAutoApproveThreshold_def getAnswers_def)
      have "globalJustified A st'" using override_justified(2) [OF j(1) sub] j(2) o by simp
      then have "v = ''none'' \<or> isValidThreshold v \<and> recentGlobal A c v ga"
        using global_source [OF _ sub'] v by blast
      with src o None \<open>overridable conv c = Some k\<close> show ?thesis by auto
    qed
  qed
qed

text \<open>
  The comment of the function promises \<open>none\<close> on any failure of the gateway. A failed read of the
  override falls through to the global value instead, so a conversation whose override is stricter
  than the global threshold is read as permissive until the gateway answers again.
\<close>

lemma failed_override_read_falls_open:
  assumes "overridable conv (orDefault ctx CtxConversation) = Some k"
    and "freshEntry k now st = None" "gaConv ga = ConvUndefined"
    and "globalFresh (gaGlobalNow ga) st = Some g" "isValidThreshold (gtInteractive g)"
  shows "fst (getAutoApproveThreshold conv ctx now ga st) = gtInteractive g"
proof -
  have c: "orDefault ctx CtxConversation = CtxConversation"
    using assms(1) by (cases conv; cases "orDefault ctx CtxConversation") auto
  then obtain k' where "conv = Some k'" using assms(1) by (cases conv) auto
  have "globalFresh n (snd (noteFailure op at st)) = globalFresh n st" for n op at
    by (simp add: globalFresh_def)
  with assms c show ?thesis
    by (simp add: getAutoApproveThreshold_def conversationOverride_def globalThreshold_def
        fetchGlobalThresholds_def globalField_def)
qed

end
