(* ===== verification/PosixPath.thy ===== *)
theory PosixPath
  imports HumPrelude
begin

text \<open>
  The functions of \<open>node:path\<close> (POSIX) that the components call: \<open>resolve\<close>, \<open>normalize\<close>, \<open>join\<close>, \<open>dirname\<close>,
  \<open>basename\<close>, \<open>isAbsolute\<close>. The process's working directory is an argument and absolute.

  A resolved path is \<open>absPath ss\<close> for a list \<open>ss\<close> of clean segments. The lemmas move every question
  about such strings, up all the \<open>startsWith\<close> tests by which the components check that one
  path lies inside another, to lists of segments (\<open>abs_within\<close>).
\<close>

named_theorems path_simps "paths as lists of segments"

abbreviation slash :: char where
  "slash \<equiv> CHR ''/''"

section \<open>The functions\<close>

definition isAbsolute :: "string \<Rightarrow> bool" where
  "isAbsolute p = startsWith p [slash]"

text \<open>\<open>normalizeString\<close> on segments; \<open>up\<close> allows leading \<open>..\<close> segments.\<close>

fun normSegs :: "bool \<Rightarrow> string list \<Rightarrow> string list \<Rightarrow> string list" where
  "normSegs up acc [] = acc"
| "normSegs up acc (s # ss) =
     (if s = [] \<or> s = ''.'' then normSegs up acc ss
      else if s = ''..'' then
        (if acc \<noteq> [] \<and> last acc \<noteq> ''..'' then normSegs up (butlast acc) ss
         else if up then normSegs up (acc @ [s]) ss
         else normSegs up acc ss)
      else normSegs up (acc @ [s]) ss)"

definition absPath :: "string list \<Rightarrow> string" where
  "absPath ss = slash # join [slash] ss"

definition normalize :: "string \<Rightarrow> string" where
  "normalize p =
    (if p = [] then ''.''
     else let r = join [slash] (normSegs (\<not> isAbsolute p) [] (splitOn slash p));
              trailing = (last p = slash) in
       if r = [] then (if isAbsolute p then [slash] else if trailing then ''./'' else ''.'')
       else (if isAbsolute p then [slash] else []) @ r @ (if trailing then [slash] else []))"

definition joinPaths :: "string list \<Rightarrow> string" where
  "joinPaths ps = normalize (join [slash] (filter (\<lambda>p. p \<noteq> []) ps))"

text \<open>\<open>resolve\<close> starts at the last absolute argument; the working directory is in front of all.\<close>

fun lastAbsolute :: "string \<Rightarrow> string list \<Rightarrow> string list" where
  "lastAbsolute base [] = [base]"
| "lastAbsolute base (p # ps) =
     (if \<exists>q \<in> set (p # ps). isAbsolute q
      then lastAbsolute p ps else base # p # ps)"

definition resolveSegs :: "string \<Rightarrow> string list \<Rightarrow> string list" where
  "resolveSegs cwd ps = normSegs False [] (concat (map (splitOn slash) (lastAbsolute cwd ps)))"

definition resolve :: "string \<Rightarrow> string list \<Rightarrow> string" where
  "resolve cwd ps = absPath (resolveSegs cwd ps)"

definition dirname :: "string \<Rightarrow> string" where
  "dirname p =
    (if p = [] then ''.''
     else (case dropWhile (\<lambda>c. c \<noteq> slash) (dropWhile (\<lambda>c. c = slash) (rev p)) of
         [] \<Rightarrow> if isAbsolute p then [slash] else ''.''
       | _ # r \<Rightarrow> if r = [] then [slash]
           else if isAbsolute p \<and> length r = 1 then ''//'' else rev r))"

definition basename :: "string \<Rightarrow> string" where
  "basename p = rev (takeWhile (\<lambda>c. c \<noteq> slash) (dropWhile (\<lambda>c. c = slash) (rev p)))"

section \<open>Segments\<close>

definition cleanSeg :: "string \<Rightarrow> bool" where
  "cleanSeg s = (s \<noteq> [] \<and> slash \<notin> set s \<and> s \<noteq> ''.'' \<and> s \<noteq> ''..'')"

abbreviation clean :: "string list \<Rightarrow> bool" where
  "clean \<equiv> list_all cleanSeg"

lemma cleanD: "clean ss \<Longrightarrow> s \<in> set ss \<Longrightarrow> s \<noteq> [] \<and> slash \<notin> set s \<and> s \<noteq> ''.'' \<and> s \<noteq> ''..''"
  by (simp add: list_all_iff cleanSeg_def)

lemma clean_butlast [path_simps]: "clean ss \<Longrightarrow> clean (butlast ss)"
  by (simp add: list_all_iff in_set_butlastD)

lemma clean_prefix: "prefix rs ss \<Longrightarrow> clean ss \<Longrightarrow> clean rs"
  by (auto simp: prefix_def)

lemma normSegs_clean:
  assumes "clean acc" "\<And>s. s \<in> set ss \<Longrightarrow> slash \<notin> set s"
  shows "clean (normSegs False acc ss)"
  using assms
proof (induction "False" acc ss rule: normSegs.induct)
  case (2 acc s ss)
  then show ?case by (auto simp: path_simps cleanSeg_def)
qed simp

lemma normSegs_id: "clean ss \<Longrightarrow> normSegs up acc ss = acc @ ss"
proof (induction ss arbitrary: acc)
  case (Cons s ss)
  then have "s \<noteq> []" "s \<noteq> ''.''" "s \<noteq> ''..''" by (simp_all add: cleanSeg_def)
  with Cons show ?case by simp
qed simp

lemma clean_resolveSegs [path_simps]: "clean (resolveSegs cwd ps)"
  unfolding resolveSegs_def
  by (rule normSegs_clean) (auto dest: splitOn_no_sep)

lemma absPath_Nil [simp]: "absPath [] = [slash]"
  by (simp add: absPath_def)

lemma absPath_not_Nil [simp]: "absPath ss \<noteq> []"
  by (simp add: absPath_def)

lemma isAbsolute_absPath [simp]: "isAbsolute (absPath ss)"
  by (simp add: isAbsolute_def startsWith_def absPath_def)

lemma splitOn_absPath:
  assumes "clean ss"
  shows "splitOn slash (absPath ss) = [] # (if ss = [] then [[]] else ss)"
proof (cases "ss = []")
  case False
  have "\<And>x. x \<in> set ss \<Longrightarrow> slash \<notin> set x" using assms by (simp add: list_all_iff cleanSeg_def)
  then have "splitOn slash (join [slash] ss) = ss" using False by (rule splitOn_join [rotated])
  with False show ?thesis by (simp add: absPath_def)
qed (simp add: absPath_def)

lemma absPath_inj: "clean ss \<Longrightarrow> clean rs \<Longrightarrow> absPath ss = absPath rs \<longleftrightarrow> ss = rs"
proof -
  assume c: "clean ss" "clean rs"
  show ?thesis
  proof
    assume "absPath ss = absPath rs"
    then have "[] # (if ss = [] then [[]] else ss) = [] # (if rs = [] then [[]] else rs)"
      using splitOn_absPath [OF c(1)] splitOn_absPath [OF c(2)] by simp
    then show "ss = rs" using c by (cases "ss = []"; cases "rs = []") (auto simp: cleanSeg_def)
  qed simp
qed

lemma join_append:
  "ss \<noteq> [] \<Longrightarrow> ts \<noteq> [] \<Longrightarrow> join sep (ss @ ts) = join sep ss @ sep @ join sep ts"
proof (induction ss)
  case (Cons s ss)
  then show ?case by (cases ss; cases ts) auto
qed simp

lemma absPath_append:
  "ss \<noteq> [] \<Longrightarrow> ts \<noteq> [] \<Longrightarrow> absPath (ss @ ts) = absPath ss @ absPath ts"
  by (simp add: absPath_def join_append)

lemma absPath_snoc: "absPath (ss @ [s]) = (if ss = [] then [] else absPath ss) @ slash # s"
  by (cases "ss = []") (simp_all add: absPath_append, simp_all add: absPath_def)

lemma absPath_last: "clean ss \<Longrightarrow> ss \<noteq> [] \<Longrightarrow> last (absPath ss) \<noteq> slash"
proof (induction ss rule: rev_induct)
  case (snoc s ss)
  then have s: "s \<noteq> []" "slash \<notin> set s" by (simp_all add: cleanSeg_def)
  then have "last s \<in> set s" by simp
  with s have "last s \<noteq> slash" by metis
  with s show ?case by (simp add: absPath_snoc)
qed simp

lemma endsWith_slash: "endsWith p [slash] \<longleftrightarrow> p \<noteq> [] \<and> last p = slash"
  by (cases p rule: rev_cases) (simp_all add: endsWith_iff)

text \<open>The containment test: the root itself, or the root followed by a separator as a prefix.\<close>

definition rootPrefix :: "string \<Rightarrow> string" where
  "rootPrefix r = (if endsWith r [slash] then r else r @ [slash])"

definition inside :: "string \<Rightarrow> string \<Rightarrow> bool" where
  "inside p r = (p = r \<or> startsWith p (rootPrefix r))"

lemma rootPrefix_absPath:
  "clean rs \<Longrightarrow> rootPrefix (absPath rs) = (if rs = [] then [slash] else absPath rs @ [slash])"
  using absPath_last [of rs] by (simp add: rootPrefix_def endsWith_slash)

lemma splitOn_append_sep: "splitOn c (x @ c # y) = splitOn c x @ splitOn c y"
  by (induction x) (auto split: list.splits)

lemma abs_within:
  assumes "clean ss" "clean rs"
  shows "inside (absPath ss) (absPath rs) \<longleftrightarrow> prefix rs ss"
proof (cases "rs = []")
  case True
  have "rootPrefix [slash] = [slash]" by (simp add: rootPrefix_def endsWith_slash)
  then have "inside (absPath ss) [slash]" by (simp add: inside_def startsWith_def) (simp add: absPath_def)
  with True show ?thesis by simp
next
  case False
  show ?thesis
  proof
    assume "inside (absPath ss) (absPath rs)"
    then consider "absPath ss = absPath rs" | t where "absPath ss = absPath rs @ slash # t"
      using False assms(2) by (auto simp: inside_def rootPrefix_absPath startsWith_iff)
    then show "prefix rs ss"
    proof cases
      case 1
      then show ?thesis using absPath_inj assms by simp
    next
      case 2
      then have "[] # (if ss = [] then [[]] else ss) = [] # rs @ splitOn slash t"
        using splitOn_absPath [OF assms(1)] splitOn_absPath [OF assms(2)] False
        by (simp add: splitOn_append_sep)
      then show ?thesis using False by (cases "ss = []") (auto simp: Cons_eq_append_conv)
    qed
  next
    assume "prefix rs ss"
    then obtain ts where ss: "ss = rs @ ts" by (auto simp: prefix_def)
    show "inside (absPath ss) (absPath rs)"
    proof (cases "ts = []")
      case False
      then have "absPath ss = (absPath rs @ [slash]) @ join [slash] ts"
        using ss \<open>rs \<noteq> []\<close> by (simp add: absPath_append) (simp add: absPath_def)
      then show ?thesis
        using \<open>rs \<noteq> []\<close> assms(2) unfolding inside_def by (simp add: rootPrefix_absPath startsWith_iff)
    qed (simp add: ss inside_def)
  qed
qed

section \<open>The functions on absolute paths\<close>

lemma resolve_inside:
  "inside (resolve cwd ps) (resolve cwd rs) \<longleftrightarrow> prefix (resolveSegs cwd rs) (resolveSegs cwd ps)"
  by (simp add: resolve_def abs_within path_simps)

lemma lastAbsolute_single: "isAbsolute p \<Longrightarrow> lastAbsolute cwd [p] = [p]"
  by simp

lemma resolve_absPath [path_simps]:
  assumes "clean ss"
  shows "resolveSegs cwd [absPath ss] = ss"
proof -
  have "resolveSegs cwd [absPath ss] = normSegs False [] ([] # (if ss = [] then [[]] else ss))"
    by (simp add: resolveSegs_def splitOn_absPath [OF assms])
  then show ?thesis using assms by (simp add: normSegs_id)
qed

lemma resolve_idem: "resolve cwd [resolve cwd' ps] = resolve cwd' ps"
  by (simp add: resolve_def path_simps)

lemma rev_no_slash: "slash \<notin> set s \<Longrightarrow> dropWhile (\<lambda>c. c \<noteq> slash) (rev s @ slash # t) = slash # t"
  by (induction s rule: rev_induct) auto

lemma rev_take_no_slash: "slash \<notin> set s \<Longrightarrow> takeWhile (\<lambda>c. c \<noteq> slash) (rev s @ slash # t) = rev s"
  by (induction s rule: rev_induct) auto

lemma rev_drop_slash: "s \<noteq> [] \<Longrightarrow> slash \<notin> set s \<Longrightarrow> dropWhile (\<lambda>c. c = slash) (rev s @ t) = rev s @ t"
  by (induction s rule: rev_induct) auto

lemma absPath_long: "clean ss \<Longrightarrow> ss \<noteq> [] \<Longrightarrow> length (absPath ss) \<noteq> 1"
proof (induction ss rule: rev_induct)
  case (snoc s ss)
  then show ?case by (cases s) (auto simp: absPath_snoc cleanSeg_def)
qed simp

lemma dirname_absPath [path_simps]:
  assumes "clean ss"
  shows "dirname (absPath ss) = absPath (butlast ss)"
proof (cases ss rule: rev_cases)
  case Nil
  have "isAbsolute [slash]" by (simp add: isAbsolute_def startsWith_def)
  then show ?thesis by (simp add: Nil dirname_def)
next
  case (snoc rs s)
  then have s: "s \<noteq> []" "slash \<notin> set s" "clean rs" using assms by (simp_all add: cleanSeg_def)
  have "rev (absPath ss) = rev s @ slash # rev (if rs = [] then [] else absPath rs)"
    by (simp add: snoc absPath_snoc)
  then have "dropWhile (\<lambda>c. c \<noteq> slash) (dropWhile (\<lambda>c. c = slash) (rev (absPath ss))) =
      slash # rev (if rs = [] then [] else absPath rs)"
    using s by (simp add: rev_drop_slash rev_no_slash)
  then show ?thesis using absPath_long [OF s(3)] by (simp add: dirname_def snoc)
qed

lemma basename_absPath [path_simps]:
  assumes "clean ss" "ss \<noteq> []"
  shows "basename (absPath ss) = last ss"
proof (cases ss rule: rev_cases)
  case (snoc rs s)
  then have s: "s \<noteq> []" "slash \<notin> set s" using assms by (simp_all add: cleanSeg_def)
  have "rev (absPath ss) = rev s @ slash # rev (if rs = [] then [] else absPath rs)"
    by (simp add: snoc absPath_snoc)
  then show ?thesis using s snoc by (simp add: basename_def rev_drop_slash rev_take_no_slash)
qed (simp add: assms)

lemma resolve_dirname:
  assumes "clean ss"
  shows "resolve cwd [dirname (absPath ss)] = absPath (butlast ss)"
  using assms by (simp add: resolve_def path_simps)

lemma dirname_fixed: "clean ss \<Longrightarrow> dirname (absPath ss) = absPath ss \<longleftrightarrow> ss = []"
  using absPath_inj [of "butlast ss" ss]
  by (cases ss rule: rev_cases) (simp_all add: dirname_absPath [of "[]", simplified] path_simps)

lemma normalize_absPath [path_simps]:
  assumes "clean ss"
  shows "normalize (absPath ss) = absPath ss"
proof (cases "ss = []")
  case True
  have "isAbsolute [slash]" by (simp add: isAbsolute_def startsWith_def)
  with True show ?thesis by (simp add: normalize_def Let_def)
next
  case False
  have r: "join [slash] (normSegs False [] (splitOn slash (absPath ss))) = join [slash] ss"
    using assms False by (simp add: splitOn_absPath normSegs_id)
  have "join [slash] ss \<noteq> []"
  proof -
    obtain s rs where "ss = s # rs" using False by (cases ss) auto
    with assms show ?thesis by (cases rs) (auto simp: cleanSeg_def)
  qed
  then show ?thesis
    using False r absPath_last [OF assms] by (simp add: normalize_def Let_def) (simp add: absPath_def)
qed

text \<open>Joining a clean relative path to a clean absolute one.\<close>

lemma normSegs_append: "normSegs up acc (xs @ ys) = normSegs up (normSegs up acc xs) ys"
  by (induction xs arbitrary: acc; cases up) simp_all

definition relSegs :: "string \<Rightarrow> string list" where
  "relSegs rel = filter (\<lambda>s. s \<noteq> [] \<and> s \<noteq> ''.'') (splitOn slash rel)"

lemma normSegs_plain:
  "''..'' \<notin> set ss \<Longrightarrow> normSegs up acc ss = acc @ filter (\<lambda>s. s \<noteq> [] \<and> s \<noteq> ''.'') ss"
  by (induction ss arbitrary: acc) auto

lemma clean_relSegs: "''..'' \<notin> set (splitOn slash rel) \<Longrightarrow> clean (relSegs rel)"
  by (auto simp: relSegs_def list_all_iff cleanSeg_def dest: splitOn_no_sep)

lemma join_clean_Nil: "clean ss \<Longrightarrow> join [slash] ss = [] \<longleftrightarrow> ss = []"
  by (cases ss rule: remdups_adj.cases) (auto simp: cleanSeg_def)

lemma filter_clean: "clean ss \<Longrightarrow> filter (\<lambda>s. s \<noteq> [] \<and> s \<noteq> ''.'') ss = ss"
  by (auto simp: filter_id_conv list_all_iff cleanSeg_def)

lemma joinPaths_rel:
  assumes "clean ws" "rel \<noteq> []" "''..'' \<notin> set (splitOn slash rel)"
  shows "joinPaths [absPath ws, rel] =
    absPath (ws @ relSegs rel) @ (if ws @ relSegs rel \<noteq> [] \<and> last rel = slash then [slash] else [])"
proof -
  let ?p = "absPath ws @ slash # rel"
  have abs: "isAbsolute ?p" "isAbsolute (slash # slash # rel)" by (simp_all add: isAbsolute_def startsWith_def absPath_def)
  have dots: "''..'' \<notin> set ws" using assms(1) by (auto simp: list_all_iff cleanSeg_def)
  have "splitOn slash ?p = ([] # (if ws = [] then [[]] else ws)) @ splitOn slash rel"
    using splitOn_absPath [OF assms(1)] by (simp add: splitOn_append_sep)
  then have segs: "normSegs False [] (splitOn slash ?p) = ws @ relSegs rel"
    using assms dots by (cases "ws = []") (simp_all add: normSegs_plain relSegs_def filter_clean)
  have "joinPaths [absPath ws, rel] = normalize ?p" using assms(2) by (simp add: joinPaths_def)
  also have "\<dots> = absPath (ws @ relSegs rel) @ (if ws @ relSegs rel \<noteq> [] \<and> last rel = slash then [slash] else [])"
  proof -
    have ne: "?p \<noteq> []" "last ?p = last rel" using assms(2) by simp_all
    show ?thesis
      using join_clean_Nil [of "ws @ relSegs rel"] clean_relSegs [OF assms(3)] assms(1)
      unfolding normalize_def Let_def ne(2) using ne(1) abs segs by (simp add: absPath_def)
  qed
  finally show ?thesis .
qed

text \<open>A path with two separators in front does not start with a proper path.\<close>

lemma double_slash: "clean rs \<Longrightarrow> rs \<noteq> [] \<Longrightarrow> slash # slash # x \<noteq> absPath rs @ t"
  by (cases rs rule: remdups_adj.cases) (auto simp: absPath_def cleanSeg_def Cons_eq_append_conv)

lemma dirname_trailing: "dirname (absPath ss @ [slash]) = dirname (absPath ss)"
proof -
  have "isAbsolute (absPath ss @ [slash])" by (simp add: isAbsolute_def startsWith_def absPath_def)
  then have eq: "isAbsolute (absPath ss @ [slash]) = isAbsolute (absPath ss)" by simp
  show ?thesis unfolding dirname_def eq by simp
qed

end
