(* ===== verification/FileSystem.thy ===== *)
theory FileSystem
  imports PosixPath
begin

text \<open>
  The part of \<open>node:fs\<close> the components call, over an explicit tree of directories, regular files and
  symbolic links: \<open>realpathSync\<close>, \<open>existsSync\<close>, reading, writing, \<open>mkdirSync\<close> with \<open>recursive\<close>, and the
  removal of a tree. A tree maps the segments of an absolute path to a node; \<open>walk\<close> is the path
  resolution of the kernel, which follows at most 40 links and then gives up (\<open>ELOOP\<close>).

  The locale \<open>file_tree\<close> states what the components rely on of \<open>realpathSync\<close>; the interpretation
  \<open>fsTree\<close> discharges it for this file system.
\<close>

section \<open>The tree\<close>

datatype node = FileNode string | DirNode | LinkNode string

type_synonym fileTree = "string list \<Rightarrow> node option"

text \<open>
  \<open>walk t create n here rest\<close> resolves the segments \<open>rest\<close> from the directory \<open>here\<close> with \<open>n\<close> links
  left; with \<open>create\<close> the last segment may be missing, as for a file that is opened for writing.
\<close>

fun walk :: "fileTree \<Rightarrow> bool \<Rightarrow> nat \<Rightarrow> string list \<Rightarrow> string list \<Rightarrow> string list option" where
  "walk t create n here [] = Some here"
| "walk t create n here (s # rest) =
     (if s = [] \<or> s = ''.'' then walk t create n here rest
      else if s = ''..'' then walk t create n (butlast here) rest
      else (case t (here @ [s]) of
          None \<Rightarrow> if create \<and> rest = [] then Some (here @ [s]) else None
        | Some DirNode \<Rightarrow> walk t create n (here @ [s]) rest
        | Some (FileNode c) \<Rightarrow> if rest = [] then Some (here @ [s]) else None
        | Some (LinkNode target) \<Rightarrow>
            (case n of
               0 \<Rightarrow> None
             | Suc m \<Rightarrow> walk t create m (if isAbsolute target then [] else here) (splitOn slash target @ rest))))"

definition MAXSYMLINKS :: nat where
  "MAXSYMLINKS = 40"

definition locate :: "fileTree \<Rightarrow> string \<Rightarrow> string list option" where
  "locate t p = walk t False MAXSYMLINKS [] (splitOn slash p)"

text \<open>Node's \<open>realpathSync\<close> resolves its argument against the working directory first.\<close>

definition realpathSync :: "fileTree \<Rightarrow> string \<Rightarrow> string \<Rightarrow> string option" where
  "realpathSync t cwd p = map_option absPath (walk t False MAXSYMLINKS [] (resolveSegs cwd [p]))"

definition existsSync :: "fileTree \<Rightarrow> string \<Rightarrow> bool" where
  "existsSync t p = (locate t p \<noteq> None)"

definition readFileSync :: "fileTree \<Rightarrow> string \<Rightarrow> string option" where
  "readFileSync t p = (case locate t p of None \<Rightarrow> None
     | Some q \<Rightarrow> (case t q of Some (FileNode c) \<Rightarrow> Some c | _ \<Rightarrow> None))"

definition writeFileSync :: "fileTree \<Rightarrow> string \<Rightarrow> string \<Rightarrow> fileTree option" where
  "writeFileSync t p c = (case walk t True MAXSYMLINKS [] (splitOn slash p) of None \<Rightarrow> None
     | Some q \<Rightarrow> if q = [] \<or> t q = Some DirNode then None else Some (t(q \<mapsto> FileNode c)))"

definition copyFileSync :: "fileTree \<Rightarrow> string \<Rightarrow> string \<Rightarrow> fileTree option" where
  "copyFileSync t src dst = Option.bind (readFileSync t src) (writeFileSync t dst)"

text \<open>\<open>mkdirSync(p, \{ recursive: true \})\<close>: the missing directories on the way are created.\<close>

fun mkdirFrom :: "fileTree \<Rightarrow> string list \<Rightarrow> string list \<Rightarrow> fileTree option" where
  "mkdirFrom t pre [] = Some t"
| "mkdirFrom t pre (s # ss) =
     (case walk t False MAXSYMLINKS [] (pre @ [s]) of
        Some q \<Rightarrow> if q = [] \<or> t q = Some DirNode then mkdirFrom t (pre @ [s]) ss else None
      | None \<Rightarrow>
          (case walk t False MAXSYMLINKS [] pre of
             None \<Rightarrow> None
           | Some d \<Rightarrow> if t (d @ [s]) = None then mkdirFrom (t(d @ [s] \<mapsto> DirNode)) (pre @ [s]) ss else None))"

definition mkdirSync :: "fileTree \<Rightarrow> string \<Rightarrow> string \<Rightarrow> fileTree option" where
  "mkdirSync t cwd p = mkdirFrom t [] (resolveSegs cwd [p])"

text \<open>\<open>rmSync(p, \{ recursive: true, force: true \})\<close> on an absolute path without links on the way.\<close>

definition rmSync :: "fileTree \<Rightarrow> string list \<Rightarrow> fileTree" where
  "rmSync t d = (\<lambda>q. if prefix d q then None else t q)"

section \<open>Real paths\<close>

text \<open>A path of the tree that reaches its node through directories only.\<close>

definition realNode :: "fileTree \<Rightarrow> string list \<Rightarrow> bool" where
  "realNode t q = (clean q \<and> (\<forall>p. strict_prefix p q \<longrightarrow> p \<noteq> [] \<longrightarrow> t p = Some DirNode) \<and>
     (q \<noteq> [] \<longrightarrow> (t q = Some DirNode \<or> (\<exists>c. t q = Some (FileNode c)))))"

definition realDir :: "fileTree \<Rightarrow> string list \<Rightarrow> bool" where
  "realDir t q = (clean q \<and> (\<forall>p. prefix p q \<longrightarrow> p \<noteq> [] \<longrightarrow> t p = Some DirNode))"

lemma realDir_Nil [simp]: "realDir t []"
  by (simp add: realDir_def)

lemma realDir_node: "realDir t q \<Longrightarrow> realNode t q"
  by (auto simp: realDir_def realNode_def strict_prefix_def)

lemma realDir_butlast: "realDir t q \<Longrightarrow> realDir t (butlast q)"
  unfolding realDir_def
  by (metis clean_butlast prefix_order.trans prefixeq_butlast)

lemma strict_prefix_snoc: "strict_prefix p (q @ [s]) \<longleftrightarrow> prefix p q"
  by (auto simp: strict_prefix_def prefix_snoc dest: prefix_length_le)

lemma realNode_snoc:
  "realNode t (q @ [s]) \<longleftrightarrow> realDir t q \<and> cleanSeg s \<and>
    (t (q @ [s]) = Some DirNode \<or> (\<exists>c. t (q @ [s]) = Some (FileNode c)))"
  by (auto simp: realNode_def realDir_def strict_prefix_snoc)

lemma realDir_snoc: "realDir t (q @ [s]) \<longleftrightarrow> realDir t q \<and> cleanSeg s \<and> t (q @ [s]) = Some DirNode"
  by (auto simp: realDir_def prefix_snoc)

lemma realNode_parent: "realNode t (q @ [s]) \<Longrightarrow> realDir t q"
  by (simp add: realNode_snoc)

lemma walk_real:
  assumes "walk t False n here ss = Some q" "realDir t here" "\<And>s. s \<in> set ss \<Longrightarrow> slash \<notin> set s"
  shows "realNode t q"
  using assms
proof (induction t "False" n here ss arbitrary: q rule: walk.induct)
  case (1 t n here)
  then show ?case by (simp add: realDir_node)
next
  case (2 t n here s rest)
  show ?case
  proof (cases "s = [] \<or> s = ''.'' \<or> s = ''..''")
    case True
    then show ?thesis using 2 realDir_butlast by (auto split: if_splits)
  next
    case False
    then have s: "cleanSeg s" using 2 by (simp add: cleanSeg_def)
    show ?thesis
    proof (cases "t (here @ [s])")
      case (Some x)
      show ?thesis
      proof (cases x)
        case (LinkNode target)
        with Some False 2(5) obtain m where m: "n = Suc m"
          "walk t False m (if isAbsolute target then [] else here) (splitOn slash target @ rest) = Some q"
          by (auto split: nat.splits)
        show ?thesis
          by (rule 2(4) [OF _ _ Some LinkNode m(1) m(2)])
            (use False 2(6,7) in \<open>auto dest: splitOn_no_sep\<close>)
      next
        case DirNode
        with Some False 2(5) have "walk t False n (here @ [s]) rest = Some q" by simp
        then show ?thesis
          using 2(3) [OF _ _ Some DirNode] False s Some DirNode 2(6,7) by (simp add: realDir_snoc)
      next
        case (FileNode c)
        with Some False 2(5,6) s show ?thesis by (auto simp: realNode_snoc split: if_splits)
      qed
    qed (use False 2(5) in simp)
  qed
qed

lemma walk_self_from:
  assumes "realNode t (here @ q)"
  shows "walk t create n here q = Some (here @ q)"
  using assms
proof (induction q arbitrary: here)
  case (Cons s q)
  have c: "clean (here @ s # q)" using Cons.prems by (simp add: realNode_def)
  then have s: "s \<noteq> []" "s \<noteq> ''.''" "s \<noteq> ''..''" by (simp_all add: cleanSeg_def)
  have IH: "walk t create n (here @ [s]) q = Some (here @ s # q)"
    using Cons.IH [of "here @ [s]"] Cons.prems by simp
  show ?case
  proof (cases "q = []")
    case True
    then show ?thesis using Cons.prems s by (auto simp: realNode_snoc)
  next
    case False
    then have "strict_prefix (here @ [s]) (here @ s # q)" by (auto simp: strict_prefix_def prefix_def)
    then have "t (here @ [s]) = Some DirNode"
      using Cons.prems unfolding realNode_def by blast
    then show ?thesis using s IH by simp
  qed
qed simp

lemma walk_self: "realNode t q \<Longrightarrow> walk t create n [] q = Some q"
  using walk_self_from [of t "[]" q] by simp

lemma walk_append:
  "walk t False n here (ss @ [s]) \<noteq> None \<Longrightarrow> walk t False n here ss \<noteq> None"
proof (induction t "False" n here ss rule: walk.induct)
  case (2 t n here x rest)
  show ?case
  proof (cases "x = [] \<or> x = ''.'' \<or> x = ''..''")
    case True
    then show ?thesis using 2 by (auto split: if_splits)
  next
    case False
    show ?thesis
    proof (cases "t (here @ [x])")
      case (Some y)
      show ?thesis
      proof (cases y)
        case (LinkNode target)
        show ?thesis
        proof (cases n)
          case (Suc m)
          have "walk t False m (if isAbsolute target then [] else here) ((splitOn slash target @ rest) @ [s]) \<noteq> None"
            using 2(5) False Some LinkNode Suc by simp
          then have "walk t False m (if isAbsolute target then [] else here) (splitOn slash target @ rest) \<noteq> None"
            using 2(4) [OF _ _ Some LinkNode Suc] False by simp
          then show ?thesis using False Some LinkNode Suc by simp
        qed (use 2(5) False Some LinkNode in simp)
      next
        case DirNode
        then show ?thesis using 2(3) [OF _ _ Some DirNode] 2(5) False Some by simp
      qed (use 2(5) False Some in simp)
    qed (use 2(5) False in simp)
  qed
qed simp

text \<open>A last segment that is not a link is found behind the links as well.\<close>

lemma walk_snoc:
  assumes "walk t False n here ss = Some q" "realDir t q" "cleanSeg s"
    and "t (q @ [s]) = Some DirNode \<or> (\<exists>c. t (q @ [s]) = Some (FileNode c))"
  shows "walk t False n here (ss @ [s]) = Some (q @ [s])"
  using assms
proof (induction t "False" n here ss arbitrary: q rule: walk.induct)
  case (1 t n here)
  then show ?case by (auto simp: cleanSeg_def)
next
  case (2 t n here x rest)
  show ?case
  proof (cases "x = [] \<or> x = ''.'' \<or> x = ''..''")
    case True
    then show ?thesis using 2 by (auto split: if_splits)
  next
    case False
    show ?thesis
    proof (cases "t (here @ [x])")
      case (Some y)
      show ?thesis
      proof (cases y)
        case (LinkNode target)
        show ?thesis
        proof (cases n)
          case (Suc m)
          have "walk t False m (if isAbsolute target then [] else here) ((splitOn slash target @ rest) @ [s]) = Some (q @ [s])"
            using 2(4) [OF _ _ Some LinkNode Suc] 2(5-8) False Some LinkNode Suc by simp
          then show ?thesis using False Some LinkNode Suc by simp
        qed (use 2(5) False Some LinkNode in simp)
      next
        case DirNode
        then show ?thesis using 2(3) [OF _ _ Some DirNode] 2(5-8) False Some by simp
      next
        case (FileNode c)
        then have "q = here @ [x]" using 2(5) False Some by (simp split: if_splits)
        then show ?thesis using 2(6) Some FileNode by (simp add: realDir_snoc)
      qed
    qed (use 2(5) False in simp)
  qed
qed

section \<open>The interface of realpathSync\<close>

text \<open>
  On absolute normalised paths: the answer is such a path again and its own answer, the root exists,
  the parent of an existing path exists, and an entry of a real directory is found under every
  name of that directory.
\<close>

locale file_tree =
  fixes realpath :: "string \<Rightarrow> string option"
  assumes real_clean: "clean ss \<Longrightarrow> realpath (absPath ss) = Some r \<Longrightarrow> \<exists>rs. clean rs \<and> r = absPath rs"
    and real_idem: "clean ss \<Longrightarrow> realpath (absPath ss) = Some r \<Longrightarrow> realpath r = Some r"
    and real_root: "realpath [slash] = Some [slash]"
    and real_parent: "clean (ss @ [s]) \<Longrightarrow> realpath (absPath (ss @ [s])) \<noteq> None \<Longrightarrow> realpath (absPath ss) \<noteq> None"
    and real_fixed: "clean (ss @ [s]) \<Longrightarrow> realpath (absPath (ss @ [s])) = Some (absPath (ss @ [s])) \<Longrightarrow>
      realpath (absPath ss) = Some (absPath ss)"
    and real_entry: "clean (ss @ [s]) \<Longrightarrow> clean (rs @ [s]) \<Longrightarrow> realpath (absPath ss) = Some (absPath rs) \<Longrightarrow>
      realpath (absPath (rs @ [s])) = Some (absPath (rs @ [s])) \<Longrightarrow>
      realpath (absPath (ss @ [s])) = Some (absPath (rs @ [s]))"

lemma realpathSync_absPath:
  "clean ss \<Longrightarrow> realpathSync t cwd (absPath ss) = map_option absPath (walk t False MAXSYMLINKS [] ss)"
  by (simp add: realpathSync_def path_simps)

lemma walk_clean_real:
  assumes "clean ss" "walk t False n [] ss = Some q"
  shows "realNode t q"
  using walk_real [OF assms(2) realDir_Nil] assms(1) by (auto simp: list_all_iff cleanSeg_def)

lemma realNode_clean: "realNode t q \<Longrightarrow> clean q"
  by (simp add: realNode_def)

lemma realpath_fixed_node:
  assumes "clean ss" "realpathSync t cwd (absPath ss) = Some (absPath ss)"
  shows "realNode t ss"
proof -
  obtain q where "walk t False MAXSYMLINKS [] ss = Some q" "absPath q = absPath ss"
    using assms by (auto simp: realpathSync_absPath)
  moreover have "realNode t q" using walk_clean_real [OF assms(1) calculation(1)] .
  ultimately show ?thesis using absPath_inj [of q ss] assms(1) by (simp add: realNode_clean)
qed

interpretation fsTree: file_tree "realpathSync t cwd" for t cwd
proof
  fix ss r assume "clean ss" "realpathSync t cwd (absPath ss) = Some r"
  then obtain q where q: "walk t False MAXSYMLINKS [] ss = Some q" "r = absPath q"
    by (auto simp: realpathSync_absPath)
  have real: "realNode t q" using walk_clean_real [OF \<open>clean ss\<close> q(1)] .
  then show "\<exists>rs. clean rs \<and> r = absPath rs" using q(2) realNode_clean by blast
  show "realpathSync t cwd r = Some r"
    using q(2) real by (simp add: realpathSync_absPath realNode_clean walk_self)
next
  show "realpathSync t cwd [slash] = Some [slash]"
    using realpathSync_absPath [of "[]" t cwd] by simp
next
  fix ss s assume c: "clean (ss @ [s])" "realpathSync t cwd (absPath (ss @ [s])) \<noteq> None"
  then show "realpathSync t cwd (absPath ss) \<noteq> None"
    using walk_append by (simp add: realpathSync_absPath)
next
  fix ss s assume c: "clean (ss @ [s])"
    and "realpathSync t cwd (absPath (ss @ [s])) = Some (absPath (ss @ [s]))"
  then have "realNode t (ss @ [s])" using realpath_fixed_node [OF c] by simp
  then have "realNode t ss" by (simp add: realNode_parent realDir_node)
  then show "realpathSync t cwd (absPath ss) = Some (absPath ss)"
    using c by (simp add: realpathSync_absPath walk_self)
next
  fix ss s rs
  assume c: "clean (ss @ [s])" "clean (rs @ [s])"
    and ss: "realpathSync t cwd (absPath ss) = Some (absPath rs)"
    and rs: "realpathSync t cwd (absPath (rs @ [s])) = Some (absPath (rs @ [s]))"
  have node: "realNode t (rs @ [s])" using realpath_fixed_node [OF c(2)] rs by simp
  obtain q where q: "walk t False MAXSYMLINKS [] ss = Some q" "absPath q = absPath rs"
    using ss c by (auto simp: realpathSync_absPath)
  have "realNode t q" using walk_clean_real [OF _ q(1)] c(1) by simp
  then have "q = rs" using absPath_inj [of q rs] q(2) c(2) by (simp add: realNode_clean)
  moreover have "realDir t rs" using node by (simp add: realNode_parent)
  ultimately have "walk t False MAXSYMLINKS [] (ss @ [s]) = Some (rs @ [s])"
    using walk_snoc [OF q(1)] node by (auto simp: realNode_snoc)
  then show "realpathSync t cwd (absPath (ss @ [s])) = Some (absPath (rs @ [s]))"
    using c by (simp add: realpathSync_absPath)
qed

end
