(* ===== verification/WorkspacePolicy.thy ===== *)
theory WorkspacePolicy
  imports FileSystem Proposals
begin

text \<open>
  Workspace containment, \<open>assistant/src/permissions/workspace-policy.ts\<close>: the canonical form of a path
  that may not exist yet, the containment test, and the classification of tool invocations.

  \<open>realpath\<close> is \<open>realpathSync\<close> (\<open>None\<close> where it throws) and \<open>cwd\<close> the working directory of the process.
  The lemmas are proved over the interface \<open>file_tree\<close> and used through its interpretation on the
  file system with links.
\<close>

section \<open>Canonical paths\<close>

text \<open>\<open>canonicalize\<close>: the recursion goes to the parent directory and stops at the root.\<close>

function canonicalize :: "(string \<Rightarrow> string option) \<Rightarrow> string \<Rightarrow> string \<Rightarrow> string" where
  "canonicalize realpath cwd p =
    (let abs = resolve cwd [p] in
     case realpath abs of
       Some r \<Rightarrow> r
     | None \<Rightarrow>
         if dirname abs = abs then normalize abs
         else canonicalize realpath cwd (dirname abs) @ [slash] @ basename abs)"
  by pat_completeness auto
termination
proof (relation "measure (\<lambda>(realpath, cwd, p). length (resolveSegs cwd [p]))", goal_cases)
  case (2 realpath cwd p q)
  have c: "clean (resolveSegs cwd [p])" by (simp add: path_simps)
  have "resolveSegs cwd [dirname q] = butlast (resolveSegs cwd [p])"
    using c 2(1) by (simp add: resolve_def path_simps)
  moreover have "resolveSegs cwd [p] \<noteq> []"
    using 2 dirname_fixed [OF c] by (auto simp: resolve_def)
  ultimately show ?case by simp
qed simp

declare canonicalize.simps [simp del]

definition isPathWithinWorkspaceRoot :: "(string \<Rightarrow> string option) \<Rightarrow> string \<Rightarrow> string \<Rightarrow> string \<Rightarrow> bool" where
  "isPathWithinWorkspaceRoot realpath cwd filePath workspaceRoot =
    (filePath \<noteq> [] \<and> workspaceRoot \<noteq> [] \<and>
     (let canonicalPath = canonicalize realpath cwd filePath;
          canonicalRoot = canonicalize realpath cwd workspaceRoot in
      canonicalPath = canonicalRoot \<or> startsWith canonicalPath (rootPrefix canonicalRoot)))"

section \<open>Tool invocations\<close>

definition PATH_SCOPED_TOOLS :: "string list" where
  "PATH_SCOPED_TOOLS = [''file_read'', ''file_write'', ''file_edit'']"

definition NETWORK_TOOLS :: "string list" where
  "NETWORK_TOOLS = [''web_search'', ''web_fetch'', ''network_request'']"

definition HOST_TOOLS :: "string list" where
  "HOST_TOOLS = [''host_file_read'', ''host_file_write'', ''host_file_edit'', ''host_file_transfer'',
     ''host_bash'', ''computer_use_run_applescript'']"

definition ALWAYS_SCOPED_TOOLS :: "string list" where
  "ALWAYS_SCOPED_TOOLS = [''skill_load'', ''recall'', ''ui_update'', ''ui_dismiss'']"

type_synonym toolInput = "(string \<times> json) list"

definition stringField :: "toolInput \<Rightarrow> string \<Rightarrow> string option" where
  "stringField input k = (case map_of input k of Some (JStr s) \<Rightarrow> Some s | _ \<Rightarrow> None)"

definition scopedFilePath :: "string \<Rightarrow> toolInput \<Rightarrow> string \<Rightarrow> string" where
  "scopedFilePath cwd input workspaceRoot =
    (let rawPath = orDefault (orElse (stringField input ''file_path'') (stringField input ''path'')) [] in
     if rawPath \<noteq> [] \<and> \<not> startsWith rawPath [slash] then resolve cwd [workspaceRoot, rawPath] else rawPath)"

definition isWorkspaceScopedInvocation ::
  "(string \<Rightarrow> string option) \<Rightarrow> string \<Rightarrow> bool \<Rightarrow> string \<Rightarrow> toolInput \<Rightarrow> string \<Rightarrow> bool" where
  "isWorkspaceScopedInvocation realpath cwd isContainerized toolName input workspaceRoot =
    (if toolName \<in> set ALWAYS_SCOPED_TOOLS then True
     else if toolName \<in> set NETWORK_TOOLS then False
     else if toolName \<in> set HOST_TOOLS then False
     else if toolName \<in> set PATH_SCOPED_TOOLS then
       scopedFilePath cwd input workspaceRoot \<noteq> [] \<and>
       isPathWithinWorkspaceRoot realpath cwd (scopedFilePath cwd input workspaceRoot) workspaceRoot
     else if toolName = ''bash'' then isContainerized
     else False)"

section \<open>The canonical path over segments\<close>

text \<open>The segments of the canonical path: the real path of the longest existing prefix, then the rest.\<close>

function realSegs :: "(string \<Rightarrow> string option) \<Rightarrow> string list \<Rightarrow> string list" where
  "realSegs realpath ss =
    (case realpath (absPath ss) of
       Some r \<Rightarrow> filter (\<lambda>s. s \<noteq> []) (splitOn slash r)
     | None \<Rightarrow> if ss = [] then [] else realSegs realpath (butlast ss) @ [last ss])"
  by pat_completeness auto
termination by (relation "measure (\<lambda>(realpath, ss). length ss)") auto

declare realSegs.simps [simp del]

text \<open>Where the longest existing prefix is the root, the canonical path starts with two separators.\<close>

function doubled :: "(string \<Rightarrow> string option) \<Rightarrow> string list \<Rightarrow> bool" where
  "doubled realpath ss =
    (if ss = [] then False
     else realpath (absPath ss) = None \<and> (doubled realpath (butlast ss) \<or> realSegs realpath (butlast ss) = []))"
  by pat_completeness auto
termination by (relation "measure (\<lambda>(realpath, ss). length ss)") auto

declare doubled.simps [simp del]

lemma filter_segments: "clean rs \<Longrightarrow> filter (\<lambda>s. s \<noteq> []) (splitOn slash (absPath rs)) = rs"
  by (cases "rs = []") (auto simp: splitOn_absPath filter_id_conv list_all_iff cleanSeg_def)

context file_tree
begin

lemma realSegs_exists:
  assumes "clean ss" "realpath (absPath ss) = Some r"
  shows "clean (realSegs realpath ss)" "r = absPath (realSegs realpath ss)"
proof -
  obtain rs where "clean rs" "r = absPath rs" using real_clean assms by blast
  moreover have "realSegs realpath ss = rs"
    using assms(2) calculation by (simp add: realSegs.simps [of realpath ss] filter_segments)
  ultimately show "clean (realSegs realpath ss)" "r = absPath (realSegs realpath ss)" by simp_all
qed

lemma realSegs_missing:
  "realpath (absPath (ss @ [s])) = None \<Longrightarrow> realSegs realpath (ss @ [s]) = realSegs realpath ss @ [s]"
  by (simp add: realSegs.simps [of realpath "ss @ [s]"])

lemma clean_realSegs: "clean ss \<Longrightarrow> clean (realSegs realpath ss)"
proof (induction ss rule: rev_induct)
  case Nil
  then show ?case using realSegs_exists(1) [of "[]"] real_root by simp
next
  case (snoc s ss)
  then show ?case
    using realSegs_exists(1) [of "ss @ [s]"]
    by (cases "realpath (absPath (ss @ [s]))") (auto simp: realSegs_missing)
qed

lemma canonicalize_absPath:
  "clean ss \<Longrightarrow> canonicalize realpath cwd (absPath ss) =
    (if doubled realpath ss then [slash] else []) @ absPath (realSegs realpath ss)"
proof (induction ss rule: rev_induct)
  case Nil
  have "resolve cwd [[slash]] = [slash]" using resolve_absPath [of "[]" cwd] by (simp add: resolve_def)
  moreover have "absPath (realSegs realpath []) = [slash]"
    using realSegs_exists(2) [of "[]"] real_root by simp
  ultimately show ?case
    using real_root by (simp add: canonicalize.simps [of _ _ "[slash]"] doubled.simps)
next
  case (snoc s ss)
  then have c: "clean ss" by simp
  have abs: "resolve cwd [absPath (ss @ [s])] = absPath (ss @ [s])"
    using snoc.prems by (simp add: resolve_def path_simps)
  show ?case
  proof (cases "realpath (absPath (ss @ [s]))")
    case (Some r)
    then show ?thesis
      using realSegs_exists(2) [OF snoc.prems Some] abs
      by (simp add: canonicalize.simps [of _ _ "absPath (ss @ [s])"] doubled.simps)
  next
    case None
    have dir: "dirname (absPath (ss @ [s])) = absPath ss" "basename (absPath (ss @ [s])) = s"
      using snoc.prems by (simp_all add: path_simps)
    have up: "absPath ss \<noteq> absPath (ss @ [s])" using absPath_inj snoc.prems by auto
    have "canonicalize realpath cwd (absPath (ss @ [s])) =
        canonicalize realpath cwd (absPath ss) @ [slash] @ s"
      using None abs dir up by (simp add: canonicalize.simps [of _ _ "absPath (ss @ [s])"])
    moreover have "doubled realpath (ss @ [s]) = (doubled realpath ss \<or> realSegs realpath ss = [])"
      using None by (simp add: doubled.simps [of realpath "ss @ [s]"])
    moreover have "doubled realpath ss \<Longrightarrow> realSegs realpath ss \<noteq> []"
      using realSegs_missing [of "butlast ss" "last ss"] unfolding doubled.simps [of realpath ss]
      by (auto split: if_splits)
    ultimately show ?thesis
      using snoc.IH [OF c] None
      by (auto simp: realSegs_missing absPath_snoc [of "realSegs realpath ss"] absPath_snoc [of "[]", simplified])
  qed
qed

text \<open>Every prefix of a real path is real; a path with two separators starts below the root.\<close>

lemma fixed_prefix:
  "clean (rs @ ts) \<Longrightarrow> realpath (absPath (rs @ ts)) = Some (absPath (rs @ ts)) \<Longrightarrow>
    realpath (absPath rs) = Some (absPath rs)"
proof (induction ts rule: rev_induct)
  case (snoc t ts)
  then show ?case using real_fixed [of "rs @ ts" t] by (simp flip: append_assoc)
qed simp

lemma doubled_below_root:
  "clean ss \<Longrightarrow> doubled realpath ss \<Longrightarrow>
    \<exists>pre s. realpath (absPath pre) = Some [slash] \<and> realpath (absPath (pre @ [s])) = None \<and>
      clean (pre @ [s]) \<and> hd (realSegs realpath ss) = s \<and> realSegs realpath ss \<noteq> []"
proof (induction ss rule: rev_induct)
  case Nil
  then show ?case by (simp add: doubled.simps)
next
  case (snoc s ss)
  then have m: "realpath (absPath (ss @ [s])) = None"
    and d: "doubled realpath ss \<or> realSegs realpath ss = []"
    by (simp_all add: doubled.simps [of realpath "ss @ [s]"])
  note rs = realSegs_missing [OF m]
  show ?case
  proof (cases "realSegs realpath ss = []")
    case True
    have "realpath (absPath ss) \<noteq> None"
      using realSegs_missing [of "butlast ss" "last ss"] True real_root by (cases "ss = []") auto
    then obtain r where "realpath (absPath ss) = Some r" by blast
    moreover have "r = [slash]" using realSegs_exists(2) [OF _ calculation] snoc.prems True by simp
    ultimately have "realpath (absPath ss) = Some [slash]" by simp
    then show ?thesis using m snoc.prems(1) rs True by auto
  next
    case False
    with d snoc.prems snoc.IH obtain pre x where "realpath (absPath pre) = Some [slash]"
      "realpath (absPath (pre @ [x])) = None" "clean (pre @ [x])" "hd (realSegs realpath ss) = x"
      by auto
    moreover have "hd (realSegs realpath ss @ [s]) = hd (realSegs realpath ss)" using False by simp
    ultimately show ?thesis using rs by auto
  qed
qed

text \<open>Containment of canonical paths is the prefix relation of their segments.\<close>

lemma canonical_inside:
  assumes "clean ss" "clean rs" "realpath (absPath rs) \<noteq> None"
  shows "inside (canonicalize realpath cwd (absPath ss)) (canonicalize realpath cwd (absPath rs)) \<longleftrightarrow>
    prefix (realSegs realpath rs) (realSegs realpath ss)"
proof -
  let ?R = "realSegs realpath rs" and ?S = "realSegs realpath ss"
  have clean: "clean ?R" "clean ?S" using assms clean_realSegs by blast+
  have root: "canonicalize realpath cwd (absPath rs) = absPath ?R"
    using assms canonicalize_absPath [of rs cwd] by (simp add: doubled.simps [of realpath rs])
  have fixed: "realpath (absPath ?R) = Some (absPath ?R)"
    using assms(2,3) real_idem realSegs_exists(2) [of rs] by auto
  show ?thesis
  proof (cases "doubled realpath ss")
    case False
    then show ?thesis using root canonicalize_absPath [OF assms(1)] abs_within [OF clean(2,1)] by simp
  next
    case True
    have two: "canonicalize realpath cwd (absPath ss) = slash # absPath ?S"
      using True canonicalize_absPath [OF assms(1)] by simp
    show ?thesis
    proof (cases ?R)
      case Nil
      have "rootPrefix [slash] = [slash]" by (simp add: rootPrefix_def endsWith_slash)
      then show ?thesis using root two Nil by (simp add: inside_def startsWith_def)
    next
      case (Cons r R)
      obtain pre s where pre: "realpath (absPath pre) = Some [slash]" "realpath (absPath (pre @ [s])) = None"
          "clean (pre @ [s])" "hd ?S = s" "?S \<noteq> []"
        using doubled_below_root [OF assms(1) True] by blast
      have "r \<noteq> s"
      proof
        assume "r = s"
        have "realpath (absPath [s]) = Some (absPath [s])"
        proof (rule fixed_prefix)
          show "clean ([s] @ R)" using clean(1) Cons \<open>r = s\<close> by simp
          show "realpath (absPath ([s] @ R)) = Some (absPath ([s] @ R))"
            using fixed unfolding Cons \<open>r = s\<close> by simp
        qed
        then have "realpath (absPath (pre @ [s])) = Some (absPath ([] @ [s]))"
          using real_entry [of pre s "[]"] pre(1,3) by simp
        with pre(2) show False by simp
      qed
      then have "\<not> prefix ?R ?S" using pre(4,5) Cons by (cases ?S) auto
      moreover have "\<not> inside (slash # absPath ?S) (absPath ?R)"
      proof
        assume "inside (slash # absPath ?S) (absPath ?R)"
        then have "\<exists>t. slash # absPath ?S = absPath ?R @ t"
          using Cons clean(1) by (auto simp: inside_def rootPrefix_absPath startsWith_iff)
        then show False using double_slash [OF clean(1)] Cons by (auto simp: absPath_def [of ?S])
      qed
      ultimately show ?thesis using root two by simp
    qed
  qed
qed

lemma canonicalize_resolve: "canonicalize realpath cwd p = canonicalize realpath cwd (resolve cwd [p])"
  by (subst (1 2) canonicalize.simps) (simp add: resolve_idem)

lemma within_root:
  assumes "filePath \<noteq> []" "workspaceRoot \<noteq> []" "realpath (resolve cwd [workspaceRoot]) \<noteq> None"
  shows "isPathWithinWorkspaceRoot realpath cwd filePath workspaceRoot \<longleftrightarrow>
    prefix (realSegs realpath (resolveSegs cwd [workspaceRoot])) (realSegs realpath (resolveSegs cwd [filePath]))"
proof -
  have "isPathWithinWorkspaceRoot realpath cwd filePath workspaceRoot \<longleftrightarrow>
      inside (canonicalize realpath cwd (resolve cwd [filePath])) (canonicalize realpath cwd (resolve cwd [workspaceRoot]))"
    using assms canonicalize_resolve [of cwd filePath] canonicalize_resolve [of cwd workspaceRoot]
    by (simp add: isPathWithinWorkspaceRoot_def Let_def inside_def)
  then show ?thesis using assms(3) by (simp add: resolve_def canonical_inside path_simps)
qed

end

section \<open>Properties\<close>

text \<open>C39: Containment is decided on real paths. In every file system with links, a path is within an
  existing workspace root exactly when the real segments of the root are a prefix of the real
  segments of the path, where a path that does not exist yet keeps its missing segments below the
  real path of its longest existing prefix. So neither \<open>..\<close>, nor a link, nor a sibling directory whose
  name extends the root's is accepted.\<close>

theorem workspace_containment:
  assumes "filePath \<noteq> []" "workspaceRoot \<noteq> []" "realpathSync t cwd (resolve cwd [workspaceRoot]) \<noteq> None"
  shows "isPathWithinWorkspaceRoot (realpathSync t cwd) cwd filePath workspaceRoot \<longleftrightarrow>
    prefix (realSegs (realpathSync t cwd) (resolveSegs cwd [workspaceRoot]))
      (realSegs (realpathSync t cwd) (resolveSegs cwd [filePath]))"
  using assms by (rule fsTree.within_root)

definition ex_tree :: fileTree where
  "ex_tree = map_of [([''ws''], DirNode), ([''ws'', ''out''], LinkNode ''/etc''), ([''etc''], DirNode)]"

theorem workspace_containment_witness:
  "isPathWithinWorkspaceRoot (realpathSync ex_tree ''/'') ''/'' ''/ws/out/passwd'' ''/ws'' \<longleftrightarrow>
    prefix (realSegs (realpathSync ex_tree ''/'') (resolveSegs ''/'' [''/ws'']))
      (realSegs (realpathSync ex_tree ''/'') (resolveSegs ''/'' [''/ws/out/passwd'']))"
proof (rule workspace_containment)
  have "resolveSegs ''/'' [''/ws''] = [''ws'']"
    by (simp add: resolveSegs_def isAbsolute_def startsWith_def)
  then show "realpathSync ex_tree ''/'' (resolve ''/'' [''/ws'']) \<noteq> None"
    by (simp add: resolve_def realpathSync_absPath cleanSeg_def ex_tree_def)
qed simp_all

end
