(* ===== verification/RiskCache.thy ===== *)
theory RiskCache
  imports WorkspacePolicy
begin

text \<open>
  Risk classification on the assistant's side, the first half of
  \<open>assistant/src/permissions/checker.ts\<close>: the parameters sent to the gateway for each family of
  tools, the two caches in front of the gateway with their keys and eviction, and the reading of the
  gateway's answer.

  The gateway, the digest, the skill catalogue and the tool registry are parameters. Tool input is a
  JSON object without numbers, the domain of \<open>Proposals\<close>. Parameters that are constants of the
  installation (\<open>workspaceRoot\<close>, \<open>fileContext\<close>) are not repeated in each question, and of the gateway's
  answer the ladders that are only displayed (\<open>scopeOptions\<close>, \<open>directoryScopeOptions\<close>, the resolved paths and
  the keys of a shell command) are left out: no decision of this side reads them.
\<close>

section \<open>Parameters for the gateway\<close>

record manifestOverride =
  moRisk :: string
  moExecutionTarget :: string

text \<open>
  What the assistant looks up while it builds the parameters: containerisation, the metadata of a
  skill, and the registry's default risk of a tool, \<open>None\<close> where the tool is not registered.
\<close>

record 'm lookupEnv =
  leContainerized :: bool
  leSkillMetadata :: "string \<Rightarrow> 'm option"
  leDefaultRisk :: "string \<Rightarrow> string option"
  leCwd :: string

datatype 'm riskParams =
    BashParams string string "string option" bool "string option" "nat option"
  | FileParams string string string
  | WebParams string string bool
  | SkillParams string string "'m option"
  | ScheduleParams string "string option" "string option"
  | OtherParams string "string option"

text \<open>\<open>getStringField\<close>: the first of the keys that holds a string, or the empty string.\<close>

fun getStringField :: "toolInput \<Rightarrow> string list \<Rightarrow> string" where
  "getStringField input [] = []"
| "getStringField input (k # ks) =
     (case stringField input k of Some s \<Rightarrow> s | None \<Rightarrow> getStringField input ks)"

definition credentialRefCount :: "toolInput \<Rightarrow> nat option" where
  "credentialRefCount input =
    (case map_of input ''credential_ids'' of
       Some (JArr ids) \<Rightarrow>
         (let valid = filter (\<lambda>v. \<exists>s. v = JStr s \<and> s \<noteq> []) ids in
          if 0 < length valid then Some (length valid) else None)
     | _ \<Rightarrow> None)"

definition fileTools :: "string list" where
  "fileTools = [''file_read'', ''file_write'', ''file_edit'', ''host_file_read'', ''host_file_write'',
     ''host_file_edit'', ''host_file_transfer'']"

definition classifiedPath :: "string \<Rightarrow> toolInput \<Rightarrow> string" where
  "classifiedPath toolName input =
    (if toolName = ''host_file_transfer'' then
       (if getStringField input [''direction''] = ''to_sandbox'' then getStringField input [''source_path'']
        else getStringField input [''dest_path''])
     else getStringField input [''path'', ''file_path''])"

text \<open>\<open>s || undefined\<close>\<close>

definition orUndefined :: "string \<Rightarrow> string option" where
  "orUndefined s = (if s = [] then None else Some s)"

definition buildClassifyRiskParams ::
  "'m lookupEnv \<Rightarrow> string \<Rightarrow> toolInput \<Rightarrow> string option \<Rightarrow> manifestOverride option \<Rightarrow> 'm riskParams" where
  "buildClassifyRiskParams env toolName input workingDir override =
    (if toolName = ''bash'' \<or> toolName = ''host_bash'' then
       BashParams toolName (getStringField input [''command'']) workingDir (leContainerized env)
         (stringField input ''network_mode'') (credentialRefCount input)
     else if toolName \<in> set fileTools then
       FileParams toolName (classifiedPath toolName input)
         (if startsWith toolName ''host_'' then [slash] else orDefault workingDir (leCwd env))
     else if toolName \<in> {''web_fetch'', ''network_request'', ''web_search''} then
       WebParams toolName (getStringField input [''url''])
         (map_of input ''allow_private_network'' = Some (JBool True))
     else if toolName \<in> {''skill_load'', ''scaffold_managed_skill'', ''delete_managed_skill''} then
       (let selector = trim (getStringField input [''skill'', ''skill_id'']) in
        SkillParams toolName selector (if selector \<noteq> [] then leSkillMetadata env selector else None))
     else if toolName = ''schedule_create'' \<or> toolName = ''schedule_update'' then
       ScheduleParams toolName (orUndefined (getStringField input [''mode'']))
         (orUndefined (getStringField input [''script'']))
     else OtherParams toolName
       (case leDefaultRisk env toolName of
          Some r \<Rightarrow> if r = ''low'' \<or> r = ''high'' \<or> r = ''medium'' then Some r else None
        | None \<Rightarrow> (case override of Some m \<Rightarrow> orUndefined (moRisk m) | None \<Rightarrow> None)))"

section \<open>The caches\<close>

record allowlistOption =
  aoLabel :: string
  aoDescription :: string
  aoPattern :: string

record gatewayResult =
  grRisk :: string
  grReason :: string
  grMatchType :: "string option"
  grSandboxAutoApprove :: "bool option"
  grAllowlistOptions :: "allowlistOption list option"

record riskResult =
  rrLevel :: string
  rrReason :: string
  rrSandboxAutoApprove :: "bool option"
  rrAllowlistOptions :: "allowlistOption list option"

record riskAssessment =
  raRiskLevel :: string
  raReason :: string
  raMatchType :: string
  raAllowlistOptions :: "allowlistOption list option"

record riskState =
  riskCache :: "(string, riskResult) jsMap"
  assessmentCache :: "(string, riskAssessment) jsMap"

definition RISK_CACHE_MAX :: nat where
  "RISK_CACHE_MAX = 256"

definition cacheableInput :: "toolInput \<Rightarrow> toolInput" where
  "cacheableInput input = filter (\<lambda>(k, v). k \<noteq> ''reason'' \<and> k \<noteq> ''activity'') input"

definition assessmentCacheKey :: "(string \<Rightarrow> string) \<Rightarrow> string \<Rightarrow> toolInput \<Rightarrow> string" where
  "assessmentCacheKey sha256 toolName input =
    toolName @ NUL # sha256 (stringify (JObj (cacheableInput input)))"

definition overrideText :: "manifestOverride option \<Rightarrow> string" where
  "overrideText override = (case override of None \<Rightarrow> []
     | Some m \<Rightarrow> stringify (JObj [(''risk'', JStr (moRisk m)), (''execution_target'', JStr (moExecutionTarget m))]))"

definition riskText :: "toolInput \<Rightarrow> string option \<Rightarrow> manifestOverride option \<Rightarrow> string" where
  "riskText input workingDir override =
    stringify (JObj (cacheableInput input)) @ NUL # orDefault workingDir [] @ NUL # overrideText override"

definition riskCacheKey ::
  "(string \<Rightarrow> string) \<Rightarrow> string \<Rightarrow> toolInput \<Rightarrow> string option \<Rightarrow> manifestOverride option \<Rightarrow> string" where
  "riskCacheKey sha256 toolName input workingDir override =
    toolName @ NUL # sha256 (riskText input workingDir override)"

definition clearRiskCache :: "riskState \<Rightarrow> riskState" where
  "clearRiskCache st = st\<lparr>riskCache := [], assessmentCache := []\<rparr>"

text \<open>A full cache loses its oldest entry.\<close>

definition evictOldest :: "(string, 'v) jsMap \<Rightarrow> (string, 'v) jsMap" where
  "evictOldest m = (if RISK_CACHE_MAX \<le> length m then (case m of [] \<Rightarrow> m | e # _ \<Rightarrow> mapDelete (fst e) m) else m)"

definition riskStringToLevel :: "string \<Rightarrow> string" where
  "riskStringToLevel risk =
    (if risk = ''low'' then ''low'' else if risk = ''medium'' then ''medium''
     else if risk = ''high'' then ''high'' else ''medium'')"

definition resultOf :: "gatewayResult \<Rightarrow> riskResult" where
  "resultOf g = \<lparr>rrLevel = riskStringToLevel (grRisk g), rrReason = grReason g,
     rrSandboxAutoApprove = grSandboxAutoApprove g, rrAllowlistOptions = grAllowlistOptions g\<rparr>"

definition assessmentOf :: "gatewayResult \<Rightarrow> riskAssessment" where
  "assessmentOf g = \<lparr>raRiskLevel = (if grRisk g = ''unknown'' then ''medium'' else grRisk g), raReason = grReason g,
     raMatchType = orDefault (grMatchType g) ''unknown'', raAllowlistOptions = grAllowlistOptions g\<rparr>"

text \<open>\<open>None\<close> is the exception where the gateway does not answer.\<close>

definition classifyRisk ::
  "(string \<Rightarrow> string) \<Rightarrow> 'm lookupEnv \<Rightarrow> ('m riskParams \<Rightarrow> gatewayResult option) \<Rightarrow> string \<Rightarrow> toolInput \<Rightarrow>
    string option \<Rightarrow> manifestOverride option \<Rightarrow> riskState \<Rightarrow> riskResult option \<times> riskState" where
  "classifyRisk sha256 env gateway toolName input workingDir override st =
    (let key = riskCacheKey sha256 toolName input workingDir override in
     case mapGet (riskCache st) key of
       Some cached \<Rightarrow> (Some cached, st\<lparr>riskCache := mapSet key cached (mapDelete key (riskCache st))\<rparr>)
     | None \<Rightarrow>
         (case gateway (buildClassifyRiskParams env toolName input workingDir override) of
            None \<Rightarrow> (None, st)
          | Some g \<Rightarrow>
              (Some (resultOf g),
               st\<lparr>riskCache := mapSet key (resultOf g) (evictOldest (riskCache st)),
                  assessmentCache := mapSet (assessmentCacheKey sha256 toolName input) (assessmentOf g)
                    (evictOldest (assessmentCache st))\<rparr>)))"

definition getCachedAssessment :: "(string \<Rightarrow> string) \<Rightarrow> string \<Rightarrow> toolInput \<Rightarrow> riskState \<Rightarrow> riskAssessment option" where
  "getCachedAssessment sha256 toolName input st =
    mapGet (assessmentCache st) (assessmentCacheKey sha256 toolName input)"

section \<open>Keys determine invocations\<close>

lemma NUL_escape: "NUL \<notin> set (escapeChar c)"
proof -
  have hex: "hexDigit n \<noteq> NUL" if "n < 16" for n
  proof
    assume "hexDigit n = NUL"
    then have "(of_char (hexDigit n) :: nat) = 0" by (simp add: NUL_def)
    with that show False by (auto simp: hexDigit_def of_char_of take_bit_eq_mod split: if_splits)
  qed
  show ?thesis
  proof (cases "(of_char c :: nat) < 32")
    case True
    then have "(of_char c :: nat) div 16 < 16" "(of_char c :: nat) mod 16 < 16" by simp_all
    with hex have "hexDigit (of_char c div 16) \<noteq> NUL" "hexDigit (of_char c mod 16) \<noteq> NUL" by blast+
    then show ?thesis by (auto simp: escapeChar_def Let_def NUL_def)
  next
    case False
    then have "c \<noteq> NUL" by (auto simp: NUL_def)
    then show ?thesis by (auto simp: escapeChar_def Let_def NUL_def False)
  qed
qed

lemma NUL_quoteStr: "NUL \<notin> set (quoteStr s)"
  using NUL_escape by (auto simp: quoteStr_def NUL_def)

lemma NUL_join: "NUL \<notin> set sep \<Longrightarrow> (\<And>x. x \<in> set xs \<Longrightarrow> NUL \<notin> set x) \<Longrightarrow> NUL \<notin> set (join sep xs)"
  using set_join [of sep xs] by blast

lemma NUL_stringify: "NUL \<notin> set (stringify v)"
proof (induction v)
  case (JArr xs)
  have "NUL \<notin> set (join '','' (map stringify xs))"
    by (rule NUL_join) (use JArr in \<open>auto simp: NUL_def\<close>)
  then show ?case by (simp add: NUL_def)
next
  case (JObj kvs)
  have "NUL \<notin> set (join '','' (map (\<lambda>kv. quoteStr (fst kv) @ '':'' @ stringify (snd kv)) kvs))"
  proof (rule NUL_join)
    fix x assume "x \<in> set (map (\<lambda>kv. quoteStr (fst kv) @ '':'' @ stringify (snd kv)) kvs)"
    then obtain kv where kv: "kv \<in> set kvs" "x = quoteStr (fst kv) @ '':'' @ stringify (snd kv)" by auto
    have "NUL \<notin> set (stringify (snd kv))"
      using JObj [of kv "snd kv"] kv(1) by (cases kv) auto
    then show "NUL \<notin> set x" using kv(2) NUL_quoteStr by (simp add: NUL_def)
  qed (simp add: NUL_def)
  then show ?case by (simp add: NUL_def)
qed (simp_all add: NUL_def NUL_quoteStr [unfolded NUL_def] showInt_def NUL_showNat [unfolded NUL_def])

lemma overrideText_inj: "overrideText m = overrideText n \<Longrightarrow> m = n"
proof -
  assume eq: "overrideText m = overrideText n"
  have ne: "stringify (JObj kvs) \<noteq> []" for kvs by simp
  show ?thesis
  proof (cases m; cases n)
    fix a b assume "m = Some a" "n = Some b"
    with eq have "[(''risk'', JStr (moRisk a)), (''execution_target'', JStr (moExecutionTarget a))] =
        [(''risk'', JStr (moRisk b)), (''execution_target'', JStr (moExecutionTarget b))]"
      by (auto simp: overrideText_def simp del: stringify.simps dest!: stringify_inj)
    with \<open>m = Some a\<close> \<open>n = Some b\<close> show ?thesis by (cases a; cases b) simp
  qed (use eq ne ne [symmetric] in \<open>auto simp: overrideText_def simp del: stringify.simps\<close>)
qed

lemma NUL_overrideText: "NUL \<notin> set (overrideText m)"
  by (auto simp: overrideText_def simp del: stringify.simps dest: NUL_stringify [THEN notE] split: option.splits)

lemma riskText_inj:
  assumes "riskText input wd m = riskText input' wd' m'"
  shows "cacheableInput input = cacheableInput input' \<and> orDefault wd [] = orDefault wd' [] \<and> m = m'"
proof -
  have "stringify (JObj (cacheableInput input)) @ NUL # (orDefault wd [] @ NUL # overrideText m) =
      stringify (JObj (cacheableInput input')) @ NUL # (orDefault wd' [] @ NUL # overrideText m')"
    using assms by (simp only: riskText_def)
  from split_first [OF NUL_stringify NUL_stringify this]
  have "stringify (JObj (cacheableInput input)) = stringify (JObj (cacheableInput input'))"
    and rest: "orDefault wd [] @ NUL # overrideText m = orDefault wd' [] @ NUL # overrideText m'" by blast+
  from stringify_inj [OF this(1)] have "cacheableInput input = cacheableInput input'" by simp
  moreover from split_last [OF NUL_overrideText NUL_overrideText rest]
  have "orDefault wd [] = orDefault wd' []" "m = m'" using overrideText_inj by blast+
  ultimately show ?thesis by blast
qed

text \<open>The parameters sent to the gateway do not read the two cosmetic fields.\<close>

lemma map_of_cacheable:
  "k \<noteq> ''reason'' \<Longrightarrow> k \<noteq> ''activity'' \<Longrightarrow> map_of (cacheableInput input) k = map_of input k"
  unfolding cacheableInput_def
  using mapGet_filter_keys [of "\<lambda>k. k \<noteq> ''reason'' \<and> k \<noteq> ''activity''" input k] by simp

lemma stringField_cacheable:
  "k \<noteq> ''reason'' \<Longrightarrow> k \<noteq> ''activity'' \<Longrightarrow> stringField (cacheableInput input) k = stringField input k"
  by (simp add: stringField_def map_of_cacheable)

lemma getStringField_cacheable:
  "''reason'' \<notin> set ks \<Longrightarrow> ''activity'' \<notin> set ks \<Longrightarrow> getStringField (cacheableInput input) ks = getStringField input ks"
proof (induction ks)
  case (Cons k ks)
  then show ?case using stringField_cacheable [of k input] by (cases "stringField input k") auto
qed simp

lemma params_cacheable:
  "buildClassifyRiskParams env tool (cacheableInput input) wd m = buildClassifyRiskParams env tool input wd m"
  by (simp add: buildClassifyRiskParams_def classifiedPath_def credentialRefCount_def stringField_cacheable
      getStringField_cacheable map_of_cacheable Let_def del: getStringField.simps)

section \<open>Where a cached answer comes from\<close>

text \<open>
  An invocation is a tool, its input, the working directory and the override. The gateway, the files of the skills,
  the registry and the working directory of the process may change at any time: each classification of a history
  brings its own environment and gateway. The caches are cleared in between.
\<close>

type_synonym invocation = "string \<times> toolInput \<times> string option \<times> manifestOverride option"

datatype 'm riskEvent =
    Classify "'m lookupEnv" "'m riskParams \<Rightarrow> gatewayResult option" invocation
  | ClearRiskCache

fun runRisk :: "(string \<Rightarrow> string) \<Rightarrow> riskState \<Rightarrow> 'm riskEvent \<Rightarrow> riskState" where
  "runRisk sha256 st (Classify env gateway (tool, input, wd, m)) = snd (classifyRisk sha256 env gateway tool input wd m st)"
| "runRisk sha256 st ClearRiskCache = clearRiskCache st"

definition askGateway ::
  "'m lookupEnv \<Rightarrow> ('m riskParams \<Rightarrow> gatewayResult option) \<Rightarrow> invocation \<Rightarrow> gatewayResult option" where
  "askGateway env gateway v = (case v of (tool, input, wd, m) \<Rightarrow> gateway (buildClassifyRiskParams env tool input wd m))"

definition textOf :: "invocation \<Rightarrow> string" where
  "textOf v = (case v of (tool, input, wd, m) \<Rightarrow> riskText input wd m)"

text \<open>The events since the caches were last cleared.\<close>

definition sinceClear :: "'m riskEvent list \<Rightarrow> 'm riskEvent list" where
  "sinceClear es = rev (takeWhile (\<lambda>e. e \<noteq> ClearRiskCache) (rev es))"

text \<open>The same tool, input up to \<open>reason\<close> and \<open>activity\<close>, working directory (where none is the empty one) and
  override.\<close>

definition sameInvocation :: "invocation \<Rightarrow> invocation \<Rightarrow> bool" where
  "sameInvocation v w = (case (v, w) of ((tool, input, wd, m), (tool', input', wd', m')) \<Rightarrow>
     tool = tool' \<and> cacheableInput input = cacheableInput input' \<and> orDefault wd [] = orDefault wd' [] \<and> m = m')"

definition classifyState :: "riskState" where
  "classifyState = \<lparr>riskCache = [], assessmentCache = []\<rparr>"

text \<open>Every entry of the cache is an answer that a gateway has given to an invocation with its key.\<close>

definition servedBy :: "(string \<Rightarrow> string) \<Rightarrow> 'm riskEvent list \<Rightarrow> riskState \<Rightarrow> bool" where
  "servedBy sha256 es st =
    (\<forall>k r. mapGet (riskCache st) k = Some r \<longrightarrow>
       (\<exists>env gateway tool input wd m g. Classify env gateway (tool, input, wd, m) \<in> set es \<and>
          riskCacheKey sha256 tool input wd m = k \<and> askGateway env gateway (tool, input, wd, m) = Some g \<and> r = resultOf g))"

definition cacheShape :: "riskState \<Rightarrow> bool" where
  "cacheShape st = (distinct (map fst (riskCache st)) \<and> distinct (map fst (assessmentCache st)) \<and>
     length (riskCache st) \<le> RISK_CACHE_MAX \<and> length (assessmentCache st) \<le> RISK_CACHE_MAX)"

text \<open>Two invocations with one key are the same, unless the digest collides.\<close>

lemma same_key_same_invocation:
  assumes "riskCacheKey sha256 t i d m = riskCacheKey sha256 t' i' d' m'" "\<forall>s. NUL \<notin> set (sha256 s)"
  shows "sameInvocation (t, i, d, m) (t', i', d', m') \<or> collides sha256 (textOf (t, i, d, m)) (textOf (t', i', d', m'))"
proof -
  have "t @ NUL # sha256 (riskText i d m) = t' @ NUL # sha256 (riskText i' d' m')"
    using assms(1) by (simp add: riskCacheKey_def)
  from split_last [OF _ _ this] assms(2) have "t = t'" "sha256 (riskText i d m) = sha256 (riskText i' d' m')" by blast+
  then show ?thesis using riskText_inj [of i d m i' d' m'] by (auto simp: sameInvocation_def textOf_def collides_def)
qed

lemma evictOldest_sub: "mapGet (evictOldest c) k = Some r \<Longrightarrow> mapGet c k = Some r"
proof -
  assume "mapGet (evictOldest c) k = Some r"
  moreover have "evictOldest c = c \<or> (\<exists>d. evictOldest c = mapDelete d c)"
    by (auto simp: evictOldest_def split: list.split)
  ultimately show ?thesis by (auto split: if_splits)
qed

lemma servedBy_mono: "servedBy sha256 es st \<Longrightarrow> set es \<subseteq> set fs \<Longrightarrow> servedBy sha256 fs st"
  unfolding servedBy_def by blast

lemma servedBy_classify:
  assumes "servedBy sha256 es st"
  shows "servedBy sha256 (es @ [Classify env gateway v]) (runRisk sha256 st (Classify env gateway v))"
proof -
  obtain t i d m where v: "v = (t, i, d, m)" by (metis prod_cases4)
  let ?es = "es @ [Classify env gateway v]"
  have kept: "servedBy sha256 ?es st" by (rule servedBy_mono [OF assms]) auto
  show ?thesis
  proof (cases "mapGet (riskCache st) (riskCacheKey sha256 t i d m)")
    case (Some r)
    then have "mapGet (riskCache (runRisk sha256 st (Classify env gateway v))) k = mapGet (riskCache st) k" for k
      by (auto simp: v classifyRisk_def Let_def)
    then show ?thesis using kept unfolding servedBy_def by simp
  next
    case none: None
    show ?thesis
    proof (cases "gateway (buildClassifyRiskParams env t i d m)")
      case None
      then have "runRisk sha256 st (Classify env gateway v) = st" using none by (simp add: v classifyRisk_def Let_def)
      then show ?thesis using kept by simp
    next
      case (Some g)
      let ?k = "riskCacheKey sha256 t i d m"
      have cache: "riskCache (runRisk sha256 st (Classify env gateway v)) = mapSet ?k (resultOf g) (evictOldest (riskCache st))"
        using Some none by (simp add: v classifyRisk_def Let_def)
      have "askGateway env gateway (t, i, d, m) = Some g" using Some by (simp add: askGateway_def)
      then have new: "\<exists>env gateway tool input wd m g'. Classify env gateway (tool, input, wd, m) \<in> set ?es \<and>
          riskCacheKey sha256 tool input wd m = ?k \<and> askGateway env gateway (tool, input, wd, m) = Some g' \<and> resultOf g = resultOf g'"
        using v by fastforce
      show ?thesis
        unfolding servedBy_def
      proof (intro allI impI)
        fix k r assume "mapGet (riskCache (runRisk sha256 st (Classify env gateway v))) k = Some r"
        then have "k = ?k \<and> r = resultOf g \<or> mapGet (riskCache st) k = Some r"
          unfolding cache by (cases "k = ?k") (auto dest: evictOldest_sub)
        then show "\<exists>env gateway tool input wd m g. Classify env gateway (tool, input, wd, m) \<in> set ?es \<and>
            riskCacheKey sha256 tool input wd m = k \<and> askGateway env gateway (tool, input, wd, m) = Some g \<and> r = resultOf g"
          using new kept unfolding servedBy_def by blast
      qed
    qed
  qed
qed

lemma sinceClear_snoc:
  "sinceClear (es @ [Classify env gateway v]) = sinceClear es @ [Classify env gateway v]"
  "sinceClear (es @ [ClearRiskCache]) = []"
  by (simp_all add: sinceClear_def)

lemma servedBy_run: "servedBy sha256 (sinceClear es) (runEvents (runRisk sha256) classifyState es)"
proof (induction es rule: rev_induct)
  case (snoc e es)
  have run: "runEvents (runRisk sha256) classifyState (es @ [e]) = runRisk sha256 (runEvents (runRisk sha256) classifyState es) e"
    by (simp add: runEvents_append)
  show ?case
  proof (cases e)
    case (Classify env gateway v)
    show ?thesis unfolding run unfolding Classify sinceClear_snoc by (rule servedBy_classify [OF snoc.IH])
  next
    case ClearRiskCache
    show ?thesis unfolding run unfolding ClearRiskCache sinceClear_snoc by (simp add: servedBy_def clearRiskCache_def)
  qed
qed (simp add: servedBy_def classifyState_def)

text \<open>The size of both caches.\<close>

lemma length_mapSet: "length (mapSet k v m) = (if mapHas m k then length m else Suc (length m))"
  by (induction m) auto

lemma length_mapDelete:
  "distinct (map fst m) \<Longrightarrow> mapHas m k \<Longrightarrow> Suc (length (mapDelete k m)) = length m"
proof (induction m)
  case (Cons e m)
  obtain a b where e: "e = (a, b)" by fastforce
  show ?case
  proof (cases "a = k")
    case True
    have "mapDelete k m = m" using Cons.prems(1) e True by (intro delete_id) simp
    then show ?thesis using e True by simp
  qed (use Cons e in simp)
qed simp

lemma length_evict:
  assumes "distinct (map fst m)" "length m \<le> RISK_CACHE_MAX"
  shows "length (evictOldest m) < RISK_CACHE_MAX" "distinct (map fst (evictOldest m))"
proof -
  show "length (evictOldest m) < RISK_CACHE_MAX"
  proof (cases m)
    case (Cons e m')
    have "mapHas m (fst e)" using Cons by (cases e) simp
    from length_mapDelete [OF assms(1) this] show ?thesis using assms(2) Cons by (simp add: evictOldest_def)
  qed (simp add: evictOldest_def RISK_CACHE_MAX_def)
  show "distinct (map fst (evictOldest m))"
    using assms(1) by (cases m) (simp_all add: evictOldest_def distinct_delete)
qed

lemma shape_set:
  assumes "distinct (map fst m)" "length m < RISK_CACHE_MAX"
  shows "distinct (map fst (mapSet k v m))" "length (mapSet k v m) \<le> RISK_CACHE_MAX"
  using assms by (simp_all add: distinct_update length_mapSet)

interpretation riskMachine: event_machine "runRisk sha256" cacheShape
  for sha256 :: "string \<Rightarrow> string"
proof
  fix st :: riskState and e :: "'a riskEvent"
  assume shape: "cacheShape st"
  show "cacheShape (runRisk sha256 st e)"
  proof (cases e)
    case (Classify env gateway v)
    obtain t i d m where v: "v = (t, i, d, m)" by (metis prod_cases4)
    show ?thesis
    proof (cases "mapGet (riskCache st) (riskCacheKey sha256 t i d m)")
      case (Some r)
      let ?del = "mapDelete (riskCacheKey sha256 t i d m) (riskCache st)"
      have "distinct (map fst ?del)" using shape by (simp add: cacheShape_def distinct_delete)
      moreover have "length ?del < RISK_CACHE_MAX"
        using length_mapDelete [of "riskCache st"] shape Some by (fastforce simp: cacheShape_def)
      ultimately show ?thesis using shape Some
        by (simp add: Classify v classifyRisk_def Let_def cacheShape_def shape_set)
    next
      case None
      have "cacheShape (st\<lparr>riskCache := mapSet k r (evictOldest (riskCache st)),
          assessmentCache := mapSet k' r' (evictOldest (assessmentCache st))\<rparr>)" for k r k' r'
        using shape length_evict [of "riskCache st"] length_evict [of "assessmentCache st"]
        by (simp add: cacheShape_def shape_set)
      with None shape show ?thesis by (simp add: Classify v classifyRisk_def Let_def split: option.splits)
    qed
  qed (simp add: cacheShape_def clearRiskCache_def)
qed

text \<open>An invocation that has been classified keeps its result as long as the entry stays, whatever has become of the
  gateway and of the skill it names: neither is part of the key.\<close>

lemma classified_again:
  assumes "classifyRisk sha256 env gateway tool input wd m st = (Some r, st')"
  shows "fst (classifyRisk sha256 env' gateway' tool input wd m st') = Some r"
  using assms by (auto simp: classifyRisk_def Let_def split: option.splits)

section \<open>Properties\<close>

text \<open>C38: What the risk cache may answer. The environment, the files of the skills and the gateway may differ from call
  to call. An invocation is classified by the answer of the gateway to it at the time of the call, or by the
  answer the gateway of an earlier call, since the caches were last cleared, gave to the same invocation:
  the same tool, the same input up to \<open>reason\<close> and \<open>activity\<close>, the same working directory, where none is as the
  empty one, and the same override, unless the digest collides. It fails only when the gateway fails now. Neither
  cache ever holds more than 256 entries. The digest is a text without the NUL character.\<close>

theorem risk_cache_answers:
  assumes "\<forall>s. NUL \<notin> set (sha256 s)"
  defines "st es \<equiv> runEvents (runRisk sha256) classifyState es"
  shows "(case fst (classifyRisk sha256 env gateway tool input wd m (st es)) of
      None \<Rightarrow> askGateway env gateway (tool, input, wd, m) = None
    | Some r \<Rightarrow> map_option resultOf (askGateway env gateway (tool, input, wd, m)) = Some r \<or>
        (\<exists>env' gateway' v. Classify env' gateway' v \<in> set (sinceClear es) \<and>
           map_option resultOf (askGateway env' gateway' v) = Some r \<and>
           (sameInvocation v (tool, input, wd, m) \<or> collides sha256 (textOf v) (textOf (tool, input, wd, m))))) \<and>
    length (riskCache (st es)) \<le> 256 \<and> length (assessmentCache (st es)) \<le> 256"
proof (intro conjI)
  have "cacheShape classifyState" by (simp add: cacheShape_def classifyState_def)
  from riskMachine.inv_run [OF this, of sha256 es]
  show "length (riskCache (st es)) \<le> 256" "length (assessmentCache (st es)) \<le> 256"
    by (simp_all add: st_def cacheShape_def RISK_CACHE_MAX_def)
  let ?w = "(tool, input, wd, m)"
  show "case fst (classifyRisk sha256 env gateway tool input wd m (st es)) of
      None \<Rightarrow> askGateway env gateway ?w = None
    | Some r \<Rightarrow> map_option resultOf (askGateway env gateway ?w) = Some r \<or>
        (\<exists>env' gateway' v. Classify env' gateway' v \<in> set (sinceClear es) \<and>
           map_option resultOf (askGateway env' gateway' v) = Some r \<and>
           (sameInvocation v ?w \<or> collides sha256 (textOf v) (textOf ?w)))"
  proof (cases "mapGet (riskCache (st es)) (riskCacheKey sha256 tool input wd m)")
    case None
    then show ?thesis by (simp add: classifyRisk_def Let_def askGateway_def split: option.split)
  next
    case (Some r)
    then obtain env' gateway' t' i' d' m' g where v: "Classify env' gateway' (t', i', d', m') \<in> set (sinceClear es)"
        "riskCacheKey sha256 t' i' d' m' = riskCacheKey sha256 tool input wd m"
        "askGateway env' gateway' (t', i', d', m') = Some g" "r = resultOf g"
      using servedBy_run [of sha256 es] unfolding servedBy_def st_def by blast
    have "map_option resultOf (askGateway env' gateway' (t', i', d', m')) = Some r" using v(3,4) by simp
    moreover have "fst (classifyRisk sha256 env gateway tool input wd m (st es)) = Some r"
      using Some by (simp add: classifyRisk_def Let_def)
    ultimately show ?thesis using v(1) same_key_same_invocation [OF v(2) assms(1)] by fastforce
  qed
qed

definition ex_env :: "unit lookupEnv" where
  "ex_env = \<lparr>leContainerized = True, leSkillMetadata = \<lambda>_. None, leDefaultRisk = \<lambda>_. None, leCwd = ''/''\<rparr>"

definition ex_gateway :: "unit riskParams \<Rightarrow> gatewayResult option" where
  "ex_gateway p = Some \<lparr>grRisk = ''high'', grReason = ''r'', grMatchType = None, grSandboxAutoApprove = None,
     grAllowlistOptions = None\<rparr>"

definition ex_invocation :: "string \<Rightarrow> invocation" where
  "ex_invocation why = (''bash'', [(''command'', JStr ''ls''), (''reason'', JStr why)], Some ''/ws'', None)"

definition ex_sha :: "string \<Rightarrow> string" where
  "ex_sha = filter (\<lambda>c. c \<noteq> NUL)"

text \<open>The gateway no longer answers, but the same command with another reason has been classified before.\<close>

theorem risk_cache_answers_witness:
  "\<exists>r env' gateway' v. fst (classifyRisk ex_sha ex_env (\<lambda>_. None) ''bash'' [(''command'', JStr ''ls''), (''reason'', JStr ''b'')] (Some ''/ws'') None
      (runEvents (runRisk ex_sha) classifyState [ClearRiskCache, Classify ex_env ex_gateway (ex_invocation ''a'')])) = Some r \<and>
    Classify env' gateway' v \<in> set [Classify ex_env ex_gateway (ex_invocation ''a'')] \<and> map_option resultOf (askGateway env' gateway' v) = Some r"
proof -
  let ?es = "[ClearRiskCache, Classify ex_env ex_gateway (ex_invocation ''a'')]"
  let ?input = "[(''command'', JStr ''ls''), (''reason'', JStr ''b'')]"
  have hex: "\<forall>s. NUL \<notin> set (ex_sha s)" by (simp add: ex_sha_def)
  have keys: "riskCacheKey ex_sha ''bash'' ?input (Some ''/ws'') None =
      riskCacheKey ex_sha ''bash'' [(''command'', JStr ''ls''), (''reason'', JStr ''a'')] (Some ''/ws'') None"
    by (simp add: riskCacheKey_def riskText_def cacheableInput_def)
  have "fst (classifyRisk ex_sha ex_env (\<lambda>_. None) ''bash'' ?input (Some ''/ws'') None
      (runEvents (runRisk ex_sha) classifyState ?es)) \<noteq> None"
    by (simp add: classifyRisk_def keys ex_invocation_def ex_gateway_def Let_def clearRiskCache_def classifyState_def evictOldest_def RISK_CACHE_MAX_def)
  then obtain r where r: "fst (classifyRisk ex_sha ex_env (\<lambda>_. None) ''bash'' ?input (Some ''/ws'') None
      (runEvents (runRisk ex_sha) classifyState ?es)) = Some r" by auto
  have since: "sinceClear ?es = [Classify ex_env ex_gateway (ex_invocation ''a'')]" by (simp add: sinceClear_def)
  have "map_option resultOf (askGateway ex_env (\<lambda>_. None) (''bash'', ?input, Some ''/ws'', None)) = None" by (simp add: askGateway_def)
  then show ?thesis
    using risk_cache_answers [OF hex, where es = ?es and env = ex_env and gateway = "\<lambda>_. None" and tool = "''bash''" and input = ?input and wd = "Some ''/ws''" and m = None] r
    unfolding since by auto
qed

text \<open>A skill that is edited keeps the risk it was classified with: the version that the gateway is asked about is not
  part of the key.\<close>

theorem edited_skill_keeps_its_risk:
  assumes "classifyRisk sha256 env gateway ''skill_load'' input wd m st = (Some r, st')"
  shows "fst (classifyRisk sha256 (env\<lparr>leSkillMetadata := edited\<rparr>) gateway ''skill_load'' input wd m st') = Some r"
  using classified_again [OF assms] .

theorem edited_skill_keeps_its_risk_witness:
  "\<exists>r st'. classifyRisk ex_sha ex_env ex_gateway ''skill_load'' [] None None classifyState = (Some r, st') \<and>
    fst (classifyRisk ex_sha (ex_env\<lparr>leSkillMetadata := \<lambda>_. Some ()\<rparr>) ex_gateway ''skill_load'' [] None None st') = Some r"
proof -
  have "fst (classifyRisk ex_sha ex_env ex_gateway ''skill_load'' [] None None classifyState) \<noteq> None"
    by (simp add: classifyRisk_def classifyState_def ex_gateway_def Let_def)
  then obtain r st' where c: "classifyRisk ex_sha ex_env ex_gateway ''skill_load'' [] None None classifyState = (Some r, st')"
    by (metis option.collapse prod.collapse)
  from edited_skill_keeps_its_risk [OF c] c show ?thesis by blast
qed

end
