(* ===== verification/PermissionCheck.thy ===== *)
theory PermissionCheck
  imports ThresholdReader RiskCache
begin

text \<open>
  The permission check of a tool call: \<open>check\<close> of \<open>assistant/src/permissions/checker.ts\<close>, the policy
  context of \<open>assistant/src/tools/policy-context.ts\<close>, the side-effect list of
  \<open>assistant/src/tools/side-effects.ts\<close> and \<open>PermissionChecker.checkPermission\<close> of
  \<open>assistant/src/tools/permission-checker.ts\<close>, which promotes, approves, denies or prompts.

  The user's answer to a prompt, the gateway's answers and the tool registry are arguments. Status
  metadata for display (scope ladders, previews, durations) is left out.
\<close>

section \<open>Context\<close>

record policyContext =
  pcExecutionContext :: "executionContext option"
  pcConversationId :: "string option"

record toolContext =
  tcWorkingDir :: string
  tcConversationId :: "string option"
  tcIsInteractive :: "bool option"
  tcTrustClass :: string
  tcForcePromptSideEffects :: "bool option"
  tcRequireFreshApproval :: "bool option"
  tcIsPlatformHosted :: "bool option"

definition deriveExecutionContext :: "toolContext \<Rightarrow> executionContext" where
  "deriveExecutionContext context =
    (if tcIsInteractive context = Some False \<and> tcTrustClass context = ''guardian'' then CtxBackground
     else if tcIsInteractive context = Some False then CtxHeadless
     else CtxConversation)"

text \<open>The execution target, set for skill and plugin tools only, is not read by the check.\<close>

definition buildPolicyContext :: "toolContext \<Rightarrow> policyContext" where
  "buildPolicyContext context = \<lparr>pcExecutionContext = Some (deriveExecutionContext context),
     pcConversationId = tcConversationId context\<rparr>"

definition SIDE_EFFECT_TOOLS :: "string list" where
  "SIDE_EFFECT_TOOLS = [''file_write'', ''file_edit'', ''host_file_write'', ''host_file_edit'', ''bash'',
     ''host_bash'', ''web_fetch'', ''document_create'', ''document_update'', ''document_delete'',
     ''schedule_create'', ''schedule_update'', ''schedule_delete'', ''manage_secure_command_tool'']"

definition isSideEffectTool :: "string \<Rightarrow> toolInput \<Rightarrow> bool" where
  "isSideEffectTool toolName input =
    (if toolName \<in> set SIDE_EFFECT_TOOLS then True
     else if toolName = ''credential_store'' then
       stringField input ''action'' \<in> {Some ''store'', Some ''delete'', Some ''prompt''}
     else False)"

text \<open>
  The tool registry and the skill catalogue: the owner of a tool (its kind and id), whether the
  tool is registered, and the skills with their \<open>bundled\<close> flag.
\<close>

record toolRegistry =
  trOwner :: "string \<Rightarrow> (string \<times> string) option"
  trRegistered :: "string \<Rightarrow> bool"
  trCatalog :: "(string \<times> bool option) list"

definition isToolOwnerSkillBundled :: "toolRegistry \<Rightarrow> string \<Rightarrow> bool" where
  "isToolOwnerSkillBundled reg toolName =
    (if \<not> trRegistered reg toolName then False
     else (case trOwner reg toolName of
         Some (kind, i) \<Rightarrow> kind = ''skill'' \<and> orDefault (orDefault (map_of (trCatalog reg) i) None) False
       | None \<Rightarrow> False))"

section \<open>check\<close>

text \<open>The reason of the policy with the classifier's explanation put in: \<open>/^(High|Medium|Low) risk(.*)/i\<close>.\<close>

definition lineEnd :: "char \<Rightarrow> bool" where
  "lineEnd c = (c = CHR 0x0A \<or> c = CHR 0x0D)"

definition riskLabelMatch :: "string \<Rightarrow> (string \<times> string) option" where
  "riskLabelMatch s =
    map_option (\<lambda>w. (take (length w) s, takeWhile (\<lambda>c. \<not> lineEnd c) (drop (length w + 5) s)))
      (find (\<lambda>w. startsWith (toLowerCase s) (w @ '' risk'')) [''high'', ''medium'', ''low''])"

definition capitalize :: "string \<Rightarrow> string" where
  "capitalize w = toUpperCase (take 1 w) @ toLowerCase (drop 1 w)"

definition enrichReason :: "string \<Rightarrow> approvalDecision \<Rightarrow> string" where
  "enrichReason riskReason d =
    (if riskReason \<noteq> [] \<and> adMatchedRule d = None then
       (case riskLabelMatch (adReason d) of
          Some (w, rest) \<Rightarrow> capitalize w @ '' risk ('' @ riskReason @ '')'' @ rest
        | None \<Rightarrow> adReason d)
     else adReason d)"

record checkResult =
  ckDecision :: permission
  ckReason :: string
  ckMatchedRule :: "trustRule option"
  ckHasSandboxAutoApprove :: "bool option"

record permState =
  psRisk :: riskState
  psReader :: readerState

text \<open>What stays fixed during a check, and the gateway's answers at its threshold reads.\<close>

record 'm permEnv =
  peDigest :: "string \<Rightarrow> string"
  peLookup :: "'m lookupEnv"
  peRealpath :: "string \<Rightarrow> string option"
  peRegistry :: toolRegistry
  peGateway :: "'m riskParams \<Rightarrow> gatewayResult option"

record permReads =
  prNow :: millis
  prThreshold :: gatewayAnswers
  prRefresh :: gatewayAnswers
  prSnapshotNow :: millis
  prSnapshot :: gatewayAnswers
  prBackgroundNow :: millis
  prBackground :: gatewayAnswers

definition checkContext ::
  "'m permEnv \<Rightarrow> string \<Rightarrow> toolInput \<Rightarrow> string \<Rightarrow> manifestOverride option \<Rightarrow> riskResult \<Rightarrow> string \<Rightarrow> approvalContext" where
  "checkContext env toolName input workingDir override c threshold =
    \<lparr>acRiskLevel = rrLevel c, acToolName = toolName, acMatchedRule = None,
     acIsContainerized = leContainerized (peLookup env),
     acIsWorkspaceScoped = (if rrLevel c = ''low''
       then isWorkspaceScopedInvocation (peRealpath env) (leCwd (peLookup env))
         (leContainerized (peLookup env)) toolName input workingDir
       else False),
     acToolOrigin = map_option fst (trOwner (peRegistry env) toolName),
     acIsSkillBundled = Some (isToolOwnerSkillBundled (peRegistry env) toolName),
     acHasManifestOverride = Some (override \<noteq> None),
     acHasSandboxAutoApprove = Some (orDefault (rrSandboxAutoApprove c) False),
     acAutoApproveUpTo = Some threshold\<rparr>"

text \<open>
  The decision at the cached threshold, and a second one at the fresh threshold where the first is to
  prompt and the fresh value could be read and differs.
\<close>

definition decideFresh ::
  "(string \<Rightarrow> approvalContext) \<Rightarrow> policyContext \<Rightarrow> permReads \<Rightarrow> readerState \<Rightarrow> approvalDecision \<times> readerState" where
  "decideFresh ctx policy reads st =
    (case getAutoApproveThreshold (pcConversationId policy) (pcExecutionContext policy) (prNow reads) (prThreshold reads) st of
       (threshold, st1) \<Rightarrow>
         if adDecision (evaluatePolicy (ctx threshold)) = Prompt then
           (case refreshAutoApproveThreshold (pcConversationId policy) (pcExecutionContext policy) (prRefresh reads) st1 of
              (Some fresh, st2) \<Rightarrow> (evaluatePolicy (ctx (if fresh \<noteq> threshold then fresh else threshold)), st2)
            | (None, st2) \<Rightarrow> (evaluatePolicy (ctx threshold), st2))
         else (evaluatePolicy (ctx threshold), st1))"

definition checkTool ::
  "'m permEnv \<Rightarrow> string \<Rightarrow> toolInput \<Rightarrow> string \<Rightarrow> policyContext \<Rightarrow> manifestOverride option \<Rightarrow> permReads \<Rightarrow>
    permState \<Rightarrow> checkResult option \<times> permState" where
  "checkTool env toolName input workingDir policy override reads st =
    (case classifyRisk (peDigest env) (peLookup env) (peGateway env) toolName input (Some workingDir) override (psRisk st) of
       (None, rs) \<Rightarrow> (None, st\<lparr>psRisk := rs\<rparr>)
     | (Some c, rs) \<Rightarrow>
         (case decideFresh (checkContext env toolName input workingDir override c) policy reads (psReader st) of
            (d, rd) \<Rightarrow>
              (Some \<lparr>ckDecision = adDecision d, ckReason = enrichReason (rrReason c) d, ckMatchedRule = adMatchedRule d,
                 ckHasSandboxAutoApprove = (if adReason d = SANDBOX_REASON then Some True else None)\<rparr>,
               st\<lparr>psRisk := rs, psReader := rd\<rparr>)))"

section \<open>checkPermission\<close>

record promptResponse =
  rsDecision :: string
  rsDecisionContext :: "string option"
  rsWasTimeout :: "bool option"
  rsWasSystemCancel :: "bool option"
  rsWasAbort :: "bool option"



text \<open>The promotions of an allowing decision: side effects first, then a required fresh approval.\<close>

definition promote :: "string \<Rightarrow> toolInput \<Rightarrow> toolContext \<Rightarrow> checkResult \<Rightarrow> checkResult" where
  "promote name input context r =
    (let r1 = (if isTrue (tcForcePromptSideEffects context) \<and> ckDecision r = Allow \<and> isSideEffectTool name input
               then r\<lparr>ckDecision := Prompt, ckReason := ''Side-effect tool requires explicit approval''\<rparr> else r) in
     if isTrue (tcRequireFreshApproval context) \<and> ckDecision r1 = Allow
     then r1\<lparr>ckDecision := Prompt,
       ckReason := ''Fresh approval required: per-invocation human review enforced''\<rparr> else r1)"


definition isDynamicSkillLoad :: "checkResult \<Rightarrow> bool" where
  "isDynamicSkillLoad r = (case ckMatchedRule r of None \<Rightarrow> False | Some t \<Rightarrow> isDynamicSkillPattern (trPattern t))"










section \<open>The decision of check\<close>

lemma context_rules [simp]:
  "denyRule (checkContext env name input wd m c t) = False"
  "dynamicAsk (checkContext env name input wd m c t) = False"
  "askRule (checkContext env name input wd m c t) = False"
  "allowRule (checkContext env name input wd m c t) = False"
  "acMatchedRule (checkContext env name input wd m c t) = None"
  by (simp_all add: checkContext_def rule_defs)

text \<open>What the policy answers for a tool call at a threshold, and the reason it cannot be to deny.\<close>

definition thresholdAllows :: "string \<Rightarrow> riskResult \<Rightarrow> string \<Rightarrow> bool" where
  "thresholdAllows name c t =
    (riskOrdinal (rrLevel c) \<le> thresholdOrdinal t \<or>
     name = ''bash'' \<and> rrSandboxAutoApprove c = Some True \<and> t \<noteq> ''none'')"

lemma context_decision:
  "adDecision (evaluatePolicy (checkContext env name input wd m c t)) =
    (if thresholdAllows name c t then Allow else Prompt)"
proof -
  have "isRiskWithinThreshold (acRiskLevel (checkContext env name input wd m c t))
      (acAutoApproveUpTo (checkContext env name input wd m c t)) = (riskOrdinal (rrLevel c) \<le> thresholdOrdinal t)"
    by (simp add: checkContext_def isRiskWithinThreshold_def)
  moreover have "sandboxAutoApproved (checkContext env name input wd m c t) =
      (name = ''bash'' \<and> rrSandboxAutoApprove c = Some True \<and> t \<noteq> ''none'')"
    by (cases "rrSandboxAutoApprove c") (simp_all add: checkContext_def sandboxAutoApproved_def)
  ultimately show ?thesis by (auto simp: policy_decision thresholdAllows_def)
qed

text \<open>The threshold a check reads first, and the one it reads before it prompts.\<close>

definition firstThreshold :: "policyContext \<Rightarrow> permReads \<Rightarrow> readerState \<Rightarrow> string" where
  "firstThreshold policy reads rd = fst (getAutoApproveThreshold (pcConversationId policy)
     (pcExecutionContext policy) (prNow reads) (prThreshold reads) rd)"

definition freshThreshold :: "policyContext \<Rightarrow> permReads \<Rightarrow> readerState \<Rightarrow> string option" where
  "freshThreshold policy reads rd = fst (refreshAutoApproveThreshold (pcConversationId policy)
     (pcExecutionContext policy) (prRefresh reads) (snd (getAutoApproveThreshold (pcConversationId policy)
        (pcExecutionContext policy) (prNow reads) (prThreshold reads) rd)))"

lemma decideFresh_decision:
  "adDecision (fst (decideFresh (checkContext env name input wd m c) policy reads st)) =
    (if thresholdAllows name c (firstThreshold policy reads st) \<or>
       (\<exists>f. freshThreshold policy reads st = Some f \<and> thresholdAllows name c f) then Allow else Prompt)"
  "adMatchedRule (fst (decideFresh (checkContext env name input wd m c) policy reads st)) = None"
proof -
  obtain t st1 where t: "getAutoApproveThreshold (pcConversationId policy) (pcExecutionContext policy)
      (prNow reads) (prThreshold reads) st = (t, st1)" by fastforce
  obtain f st2 where f: "refreshAutoApproveThreshold (pcConversationId policy) (pcExecutionContext policy)
      (prRefresh reads) st1 = (f, st2)" by fastforce
  show "adDecision (fst (decideFresh (checkContext env name input wd m c) policy reads st)) =
      (if thresholdAllows name c (firstThreshold policy reads st) \<or>
       (\<exists>f. freshThreshold policy reads st = Some f \<and> thresholdAllows name c f) then Allow else Prompt)"
    using t f by (cases f) (simp_all add: decideFresh_def firstThreshold_def freshThreshold_def context_decision)
  show "adMatchedRule (fst (decideFresh (checkContext env name input wd m c) policy reads st)) = None"
    using t f by (cases f) (simp_all add: decideFresh_def policy_no_rule)
qed

text \<open>The result of \<open>check\<close> never carries a rule and never denies.\<close>

lemma checkTool_result:
  assumes "fst (checkTool env name input wd policy m reads st) = Some r"
  shows "ckMatchedRule r = None" "ckDecision r \<noteq> Deny"
proof -
  obtain c rs d rd where c: "classifyRisk (peDigest env) (peLookup env) (peGateway env) name input (Some wd) m (psRisk st) = (Some c, rs)"
    and d: "decideFresh (checkContext env name input wd m c) policy reads (psReader st) = (d, rd)"
    and r: "ckMatchedRule r = adMatchedRule d" "ckDecision r = adDecision d"
    using assms by (auto simp: checkTool_def split: prod.splits option.splits)
  note res = decideFresh_decision [of env name input wd m c policy reads "psReader st"]
  show "ckMatchedRule r = None" using res(2) d r by simp
  show "ckDecision r \<noteq> Deny" using res(1) d r by (auto split: if_splits)
qed

lemma promote_rule [simp]: "ckMatchedRule (promote name input context r) = ckMatchedRule r"
  by (simp add: promote_def Let_def)


text \<open>What the policy answers to a call of risk \<open>c\<close>: it allows it at the threshold read, or at the fresh one.\<close>

definition policyAllows :: "string \<Rightarrow> riskResult \<Rightarrow> policyContext \<Rightarrow> permReads \<Rightarrow> readerState \<Rightarrow> bool" where
  "policyAllows name c policy reads rd \<longleftrightarrow> thresholdAllows name c (firstThreshold policy reads rd) \<or>
     (\<exists>f. freshThreshold policy reads rd = Some f \<and> thresholdAllows name c f)"

lemma check_decides:
  assumes "fst (classifyRisk (peDigest env) (peLookup env) (peGateway env) name input (Some wd) m (psRisk st)) = Some c"
  shows "map_option ckDecision (fst (checkTool env name input wd policy m reads st)) =
    Some (if policyAllows name c policy reads (psReader st) then Allow else Prompt)"
proof -
  obtain rs where c: "classifyRisk (peDigest env) (peLookup env) (peGateway env) name input (Some wd) m (psRisk st) = (Some c, rs)"
    using assms(1) by (cases "classifyRisk (peDigest env) (peLookup env) (peGateway env) name input (Some wd) m (psRisk st)") simp
  have "map_option ckDecision (fst (checkTool env name input wd policy m reads st)) =
      Some (adDecision (fst (decideFresh (checkContext env name input wd m c) policy reads (psReader st))))"
    using c by (simp add: checkTool_def split: prod.split)
  then show ?thesis
    using decideFresh_decision(1) [of env name input wd m c policy reads "psReader st"] by (simp add: policyAllows_def)
qed


text \<open>
  The exception for inline-command skill loads in the unattended branch is unreachable: \<open>check\<close> passes no
  rule to the policy, so no result names a rule whose pattern could be a dynamic skill load.
\<close>

lemma dynamic_skill_exception_unreachable:
  assumes "fst (checkTool env name input wd policy m reads st) = Some r"
  shows "\<not> isDynamicSkillLoad (promote name input context r)"
  using checkTool_result(1) [OF assms] by (simp add: isDynamicSkillLoad_def)






section \<open>Properties\<close>

text \<open>\<open>check\<close> allows a call exactly when the policy allows it at the threshold read, or at the threshold
  read afresh before a prompt; it never denies, and a refresh that fails leaves the prompt. A call is
  allowed at a threshold when its classified risk is within it, or it is a sandboxed shell command
  and the threshold is not \<open>none\<close>.\<close>

theorem check_decides_at_fresh_threshold:
  assumes "fst (classifyRisk (peDigest env) (peLookup env) (peGateway env) name input (Some wd) m (psRisk st)) = Some c"
  shows "map_option ckDecision (fst (checkTool env name input wd policy m reads st)) =
    Some (if thresholdAllows name c (firstThreshold policy reads (psReader st)) \<or>
       (\<exists>f. freshThreshold policy reads (psReader st) = Some f \<and> thresholdAllows name c f) then Allow else Prompt)"
  using check_decides [OF assms] by (simp add: policyAllows_def)


definition ex_registry :: toolRegistry where
  "ex_registry = \<lparr>trOwner = \<lambda>_. None, trRegistered = \<lambda>_. True, trCatalog = []\<rparr>"

definition ex_permEnv :: "unit permEnv" where
  "ex_permEnv = \<lparr>peDigest = id, peLookup = ex_env, peRealpath = Some, peRegistry = ex_registry, peGateway = ex_gateway\<rparr>"

definition ex_answers :: "string \<Rightarrow> gatewayAnswers" where
  "ex_answers t = \<lparr>gaConv = ConvNull, gaConvAt = 0, gaGlobalNow = 40000,
     gaGlobal = Some \<lparr>gtInteractive = ''low'', gtAutonomous = t, gtHeadless = ''none''\<rparr>, gaGlobalAt = 40000\<rparr>"

definition ex_reads :: permReads where
  "ex_reads = \<lparr>prNow = 40000, prThreshold = ex_answers ''low'', prRefresh = ex_answers ''high'', prSnapshotNow = 40000,
     prSnapshot = ex_answers ''low'', prBackgroundNow = 40000, prBackground = ex_answers ''high''\<rparr>"

definition ex_context :: toolContext where
  "ex_context = \<lparr>tcWorkingDir = ''/ws'', tcConversationId = None, tcIsInteractive = Some False,
     tcTrustClass = ''guardian'', tcForcePromptSideEffects = None, tcRequireFreshApproval = None,
     tcIsPlatformHosted = None\<rparr>"

definition ex_response :: promptResponse where
  "ex_response = \<lparr>rsDecision = ''deny'', rsDecisionContext = None, rsWasTimeout = None, rsWasSystemCancel = None, rsWasAbort = None\<rparr>"

definition ex_permState :: permState where
  "ex_permState = \<lparr>psRisk = classifyState, psReader = reader_start\<rparr>"

lemmas ex_perm_defs = ex_permEnv_def ex_permState_def ex_reads_def ex_context_def ex_response_def ex_answers_def
  ex_registry_def ex_env_def ex_gateway_def classifyState_def reader_start_def

lemmas threshold_eval = getAutoApproveThreshold_def refreshAutoApproveThreshold_def refreshGlobal_def
  globalThreshold_def fetchGlobalThresholds_def globalFresh_def storeGlobal_def noteSuccess_def
  globalField_def isValidThreshold_def GLOBAL_CACHE_TTL_MS_def

lemma ex_classify:
  "fst (classifyRisk (peDigest ex_permEnv) (peLookup ex_permEnv) (peGateway ex_permEnv) name input wd m
    (psRisk ex_permState)) = Some \<lparr>rrLevel = ''high'', rrReason = ''r'', rrSandboxAutoApprove = None, rrAllowlistOptions = None\<rparr>"
  by (simp add: classifyRisk_def Let_def ex_perm_defs resultOf_def riskStringToLevel_def)

theorem check_decides_at_fresh_threshold_witness:
  "map_option ckDecision (fst (checkTool ex_permEnv ''bash'' [] ''/ws'' (buildPolicyContext ex_context) None
    ex_reads ex_permState)) = Some Allow"
proof -
  have "freshThreshold (buildPolicyContext ex_context) ex_reads (psReader ex_permState) = Some ''high''"
    by (simp add: freshThreshold_def buildPolicyContext_def deriveExecutionContext_def ex_perm_defs threshold_eval)
  then show ?thesis
    by (subst check_decides_at_fresh_threshold [OF ex_classify]) (simp add: thresholdAllows_def)
qed




end
