(* ===== verification/FileUpdates.thy ===== *)
theory FileUpdates
  imports WorkspacePolicy
begin

text \<open>
  What \<open>mkdirSync\<close> and writing do to a file tree: a tree only grows (\<open>grows\<close>), a successful walk stays
  the same in the grown tree, and the node that \<open>mkdirSync\<close> of the parent and the write of a file
  create or overwrite is the one at the real segments of the path (\<open>target_written\<close>), unless that place
  holds a symbolic link.
\<close>

named_theorems tree_simps "growth of file trees"

section \<open>Well-formed trees and growth\<close>

text \<open>Every node but those at the top has a directory as its parent.\<close>

definition treeWf :: "fileTree \<Rightarrow> bool" where
  "treeWf t = (\<forall>p s. t (p @ [s]) \<noteq> None \<longrightarrow> p \<noteq> [] \<longrightarrow> t p = Some DirNode)"

text \<open>Nodes are added and contents of files replaced.\<close>

definition grows :: "fileTree \<Rightarrow> fileTree \<Rightarrow> bool" where
  "grows t t' = (\<forall>q. case t q of None \<Rightarrow> True | Some (FileNode c) \<Rightarrow> (\<exists>c'. t' q = Some (FileNode c')) | x \<Rightarrow> t' q = x)"

lemma grows_refl [simp, intro]: "grows t t"
  by (auto simp: grows_def split: option.splits node.splits)

lemma grows_trans [trans]: "grows t u \<Longrightarrow> grows u v \<Longrightarrow> grows t v"
proof -
  assume g: "grows t u" "grows u v"
  have "case t q of None \<Rightarrow> True | Some (FileNode c) \<Rightarrow> (\<exists>c'. v q = Some (FileNode c')) | x \<Rightarrow> v q = x" for q
    using g [unfolded grows_def, rule_format, of q] by (auto split: option.splits node.splits)
  then show ?thesis by (simp add: grows_def)
qed

lemma growsD [tree_simps]:
  assumes "grows t t'"
  shows "t q = Some DirNode \<Longrightarrow> t' q = Some DirNode"
    and "t q = Some (LinkNode l) \<Longrightarrow> t' q = Some (LinkNode l)"
    and "t q = Some (FileNode c) \<Longrightarrow> \<exists>c'. t' q = Some (FileNode c')"
    and "t q \<noteq> None \<Longrightarrow> t' q \<noteq> None"
  using assms [unfolded grows_def, rule_format, of q] by (auto split: option.splits node.splits)

lemma grows_new: "t p = None \<Longrightarrow> grows t (t(p \<mapsto> x))"
  by (auto simp: grows_def split: option.splits node.splits)

lemma grows_file: "t p = None \<or> (\<exists>c. t p = Some (FileNode c)) \<Longrightarrow> grows t (t(p \<mapsto> FileNode c'))"
  by (auto simp: grows_def split: option.splits node.splits)

lemma realDir_grows: "realDir t q \<Longrightarrow> grows t t' \<Longrightarrow> realDir t' q"
  by (auto simp: realDir_def tree_simps)

section \<open>Successful walks\<close>

definition plainSeg :: "string \<Rightarrow> bool" where
  "plainSeg s = (s \<noteq> [] \<and> s \<noteq> ''.'' \<and> s \<noteq> ''..'')"

lemma cleanSeg_plain: "cleanSeg s \<Longrightarrow> plainSeg s"
  by (simp add: cleanSeg_def plainSeg_def)

text \<open>The walks that succeed, one rule per step of the kernel.\<close>

inductive walks :: "fileTree \<Rightarrow> nat \<Rightarrow> string list \<Rightarrow> string list \<Rightarrow> string list \<Rightarrow> bool" for t where
  stop: "walks t n here [] here"
| skip: "s = [] \<or> s = ''.'' \<Longrightarrow> walks t n here rest q \<Longrightarrow> walks t n here (s # rest) q"
| up: "walks t n (butlast here) rest q \<Longrightarrow> walks t n here (''..'' # rest) q"
| enter: "plainSeg s \<Longrightarrow> t (here @ [s]) = Some DirNode \<Longrightarrow> walks t n (here @ [s]) rest q \<Longrightarrow> walks t n here (s # rest) q"
| leaf: "plainSeg s \<Longrightarrow> t (here @ [s]) = Some (FileNode c) \<Longrightarrow> walks t n here [s] (here @ [s])"
| follow: "plainSeg s \<Longrightarrow> t (here @ [s]) = Some (LinkNode target) \<Longrightarrow>
    walks t n (if isAbsolute target then [] else here) (splitOn slash target @ rest) q \<Longrightarrow>
    walks t (Suc n) here (s # rest) q"

lemma walks_walk: "walks t n here ss q \<Longrightarrow> walk t create n here ss = Some q"
  by (induction rule: walks.induct) (auto simp: plainSeg_def)

lemma walk_walks: "walk t False n here ss = Some q \<Longrightarrow> walks t n here ss q"
proof (induction t "False" n here ss arbitrary: q rule: walk.induct)
  case (1 t n here)
  then show ?case by (simp add: walks.stop)
next
  case (2 t n here s rest)
  consider (skip) "s = [] \<or> s = ''.''" | (up) "s = ''..''" | (plain) "plainSeg s"
    by (auto simp: plainSeg_def)
  then show ?case
  proof cases
    case plain
    then have s: "\<not> (s = [] \<or> s = ''.'')" "s \<noteq> ''..''" by (simp_all add: plainSeg_def)
    show ?thesis
    proof (cases "t (here @ [s])")
      case (Some x)
      show ?thesis
      proof (cases x)
        case (LinkNode target)
        then obtain m where m: "n = Suc m"
          "walk t False m (if isAbsolute target then [] else here) (splitOn slash target @ rest) = Some q"
          using 2(5) s Some by (auto split: nat.splits)
        show ?thesis unfolding m(1)
          by (rule walks.follow [OF plain]) (use 2(4) [OF s Some LinkNode m(1) m(2)] Some LinkNode in simp_all)
      next
        case DirNode
        then show ?thesis using 2(3) [OF s Some DirNode] 2(5) s plain Some by (auto intro: walks.enter)
      next
        case (FileNode c)
        then show ?thesis using 2(5) s plain Some by (auto intro: walks.leaf split: if_splits)
      qed
    qed (use 2(5) s in simp)
  qed (use 2 in \<open>auto intro: walks.skip walks.up split: if_splits\<close>)
qed

lemma walk_iff_walks: "walk t False n here ss = Some q \<longleftrightarrow> walks t n here ss q"
  using walk_walks walks_walk by blast

lemma walk_create: "walk t False n here ss = Some q \<Longrightarrow> walk t True n here ss = Some q"
  by (simp add: walk_iff_walks walks_walk)

lemma walks_grows: "walks t n here ss q \<Longrightarrow> grows t t' \<Longrightarrow> walks t' n here ss q"
proof (induction rule: walks.induct)
  case (leaf s here c n)
  then show ?case by (meson growsD(3) walks.leaf)
qed (auto intro: walks.intros simp: tree_simps)

lemma walk_grows: "walk t False n here ss = Some q \<Longrightarrow> grows t t' \<Longrightarrow> walk t' False n here ss = Some q"
  by (simp add: walk_iff_walks walks_grows)

text \<open>A walk to a directory continues from there.\<close>

lemma walks_continue:
  "walks t n here ss d \<Longrightarrow> realDir t d \<Longrightarrow> \<exists>m \<le> n. walk t create n here (ss @ us) = walk t create m d us"
proof (induction rule: walks.induct)
  case (leaf s here c n)
  then show ?case by (simp add: realDir_snoc)
next
  case (follow s here target n rest q)
  then obtain m where "m \<le> n" "walk t create n (if isAbsolute target then [] else here)
      ((splitOn slash target @ rest) @ us) = walk t create m q us" by blast
  with follow.hyps show ?case by (intro exI [of _ m]) (auto simp: plainSeg_def)
next
  case (enter s here n rest q)
  then show ?case by (auto simp: plainSeg_def)
qed auto

lemma walk_continue:
  assumes "walk t False n here ss = Some d" "realDir t d"
  obtains m where "m \<le> n" "walk t create n here (ss @ us) = walk t create m d us"
  using walks_continue assms by (metis walk_iff_walks)

text \<open>One more segment that is not a link.\<close>

lemma walk_one:
  assumes "walk t False n here ss = Some d" "realDir t d" "cleanSeg s" "\<And>l. t (d @ [s]) \<noteq> Some (LinkNode l)"
  shows "walk t create n here (ss @ [s]) = (if t (d @ [s]) = None \<and> \<not> create then None else Some (d @ [s]))"
proof -
  obtain m where "walk t create n here (ss @ [s]) = walk t create m d [s]"
    using walk_continue [OF assms(1,2)] by blast
  moreover have "s \<noteq> []" "s \<noteq> ''.''" "s \<noteq> ''..''" using assms(3) by (simp_all add: cleanSeg_def)
  ultimately show ?thesis using assms(4) by (cases "t (d @ [s])") (auto split: node.splits)
qed

text \<open>With a separator at the end a walk reaches a directory.\<close>

lemma walk_trailing: "walk t True n here (ss @ [[]]) = Some q \<Longrightarrow> realDir t here \<Longrightarrow> (\<And>s. s \<in> set ss \<Longrightarrow> slash \<notin> set s) \<Longrightarrow> realDir t q"
proof (induction t "True" n here ss arbitrary: q rule: walk.induct)
  case (2 t n here s rest)
  show ?case
  proof (cases "plainSeg s")
    case True
    then have s: "\<not> (s = [] \<or> s = ''.'')" "s \<noteq> ''..''" by (simp_all add: plainSeg_def)
    have c: "cleanSeg s" using True 2(7) by (simp add: plainSeg_def cleanSeg_def)
    show ?thesis
    proof (cases "t (here @ [s])")
      case (Some x)
      show ?thesis
      proof (cases x)
        case (LinkNode target)
        then obtain m where m: "n = Suc m"
          "walk t True m (if isAbsolute target then [] else here) ((splitOn slash target @ rest) @ [[]]) = Some q"
          using 2(5) s Some by (auto split: nat.splits)
        show ?thesis
          by (rule 2(4) [OF s Some LinkNode m(1) m(2)]) (use 2(6,7) in \<open>auto dest: splitOn_no_sep\<close>)
      next
        case DirNode
        show ?thesis by (rule 2(3) [OF s Some DirNode]) (use 2(5-7) s c Some DirNode in \<open>auto simp: realDir_snoc\<close>)
      qed (use 2(5) s Some in simp)
    qed (use 2(5) s in simp)
  next
    case False
    then show ?thesis using 2 realDir_butlast by (auto simp: plainSeg_def split: if_splits)
  qed
qed simp

section \<open>Real segments in a tree\<close>

lemma realSegs_walk:
  assumes "clean ss" "walk t False MAXSYMLINKS [] ss = Some q"
  shows "realSegs (realpathSync t cwd) ss = q"
proof -
  have "realpathSync t cwd (absPath ss) = Some (absPath q)" using assms by (simp add: realpathSync_absPath)
  then have "clean (realSegs (realpathSync t cwd) ss)" "absPath q = absPath (realSegs (realpathSync t cwd) ss)"
    using fsTree.realSegs_exists [OF assms(1)] by blast+
  moreover have "clean q" using walk_clean_real [OF assms] by (rule realNode_clean)
  ultimately show ?thesis using absPath_inj by blast
qed

lemma realSegs_beyond:
  assumes "clean (ss @ us)" "walk t False MAXSYMLINKS [] ss = Some a"
    and "us \<noteq> [] \<Longrightarrow> walk t False MAXSYMLINKS [] (ss @ [hd us]) = None"
  shows "realSegs (realpathSync t cwd) (ss @ us) = a @ us"
  using assms(1,3)
proof (induction us rule: rev_induct)
  case Nil
  then show ?case using realSegs_walk assms(2) by simp
next
  case (snoc u us)
  have none: "walk t False MAXSYMLINKS [] (ss @ us @ [u]) = None"
  proof (cases us)
    case (Cons v vs)
    have "walk t False MAXSYMLINKS [] (ss @ v # ws) = None" for ws
    proof (induction ws rule: rev_induct)
      case Nil
      then show ?case using snoc.prems(2) Cons by simp
    next
      case (snoc w ws)
      then show ?case using walk_append [of t MAXSYMLINKS "[]" "ss @ v # ws" w]
        by (cases "walk t False MAXSYMLINKS [] (ss @ v # ws @ [w])") simp_all
    qed
    from this [of "vs @ [u]"] show ?thesis using Cons by simp
  qed (use snoc.prems(2) in simp)
  have "realpathSync t cwd (absPath ((ss @ us) @ [u])) = None"
    using none snoc.prems(1) by (simp add: realpathSync_absPath)
  then have "realSegs (realpathSync t cwd) ((ss @ us) @ [u]) = realSegs (realpathSync t cwd) (ss @ us) @ [u]"
    by (rule fsTree.realSegs_missing)
  moreover have "realSegs (realpathSync t cwd) (ss @ us) = a @ us"
    using snoc.IH snoc.prems by (cases us) (auto simp: realSegs_walk assms(2))
  ultimately show ?case by simp
qed

section \<open>mkdirSync\<close>

fun addDirs :: "fileTree \<Rightarrow> string list \<Rightarrow> string list \<Rightarrow> fileTree" where
  "addDirs t d [] = t"
| "addDirs t d (s # ss) = addDirs (t(d @ [s] \<mapsto> DirNode)) (d @ [s]) ss"

lemma realDir_cons_dir: "realNode t q \<Longrightarrow> q = [] \<or> t q = Some DirNode \<Longrightarrow> realDir t q"
  by (auto simp: realNode_def realDir_def strict_prefix_def)

lemma treeWf_new:
  assumes "treeWf t" "p = [] \<or> t p = Some DirNode" "t (p @ [s]) = None"
  shows "treeWf (t(p @ [s] \<mapsto> x))"
  unfolding treeWf_def
proof (intro allI impI)
  fix q r assume q: "(t(p @ [s] \<mapsto> x)) (q @ [r]) \<noteq> None" "q \<noteq> []"
  show "(t(p @ [s] \<mapsto> x)) q = Some DirNode"
  proof (cases "q @ [r] = p @ [s]")
    case False
    then have "t (q @ [r]) \<noteq> None" using q(1) unfolding fun_upd_other [OF False] by simp
    then have "t q = Some DirNode" using assms(1) q(2) unfolding treeWf_def by blast
    then show ?thesis using assms(3) by auto
  qed (use assms(2) q(2) in auto)
qed

lemma new_dir:
  assumes "treeWf t" "realDir t d" "cleanSeg s" "t (d @ [s]) = None"
  shows "treeWf (t(d @ [s] \<mapsto> DirNode))" "realDir (t(d @ [s] \<mapsto> DirNode)) (d @ [s])" "grows t (t(d @ [s] \<mapsto> DirNode))"
proof -
  show g: "grows t (t(d @ [s] \<mapsto> DirNode))" using assms(4) by (rule grows_new)
  show "treeWf (t(d @ [s] \<mapsto> DirNode))"
    using assms by (intro treeWf_new) (auto simp: realDir_def)
  show "realDir (t(d @ [s] \<mapsto> DirNode)) (d @ [s])"
    using realDir_grows [OF assms(2) g] assms(3) by (simp add: realDir_snoc)
qed

lemma walk_new_dir:
  assumes "realDir t d" "walk t False n here pre = Some d" "cleanSeg s" "t (d @ [s]) = None"
  shows "walk (t(d @ [s] \<mapsto> DirNode)) False n here (pre @ [s]) = Some (d @ [s])"
proof -
  have g: "grows t (t(d @ [s] \<mapsto> DirNode))" using assms(4) by (rule grows_new)
  show ?thesis
    using walk_one [OF walk_grows [OF assms(2) g] realDir_grows [OF assms(1) g] assms(3), of False] by simp
qed

text \<open>Nothing is below a missing node.\<close>

lemma below_missing: "treeWf t \<Longrightarrow> t p = None \<Longrightarrow> p \<noteq> [] \<Longrightarrow> t (p @ [s]) = None"
  unfolding treeWf_def by (metis option.distinct(1))

lemma fresh_mkdir:
  assumes "treeWf t" "realDir t d" "walk t False MAXSYMLINKS [] pre = Some d" "clean (s # ss)" "t (d @ [s]) = None"
  shows "mkdirFrom t pre (s # ss) = Some (addDirs t d (s # ss))"
  using assms
proof (induction ss arbitrary: t d pre s)
  case Nil
  then show ?case using walk_one [of t MAXSYMLINKS "[]" pre d s False] by (simp add: fun_upd_def)
next
  case (Cons r ss)
  let ?t = "t(d @ [s] \<mapsto> DirNode)"
  have s: "cleanSeg s" "clean (r # ss)" using Cons.prems(4) by simp_all
  have "walk t False MAXSYMLINKS [] (pre @ [s]) = None"
    using walk_one [OF Cons.prems(3,2) s(1), of False] Cons.prems(5) by simp
  then have "mkdirFrom t pre (s # r # ss) = mkdirFrom ?t (pre @ [s]) (r # ss)"
    using Cons.prems(3,5) by (simp del: mkdirFrom.simps(2) add: mkdirFrom.simps(2) [of t pre s "r # ss"])
  also have "\<dots> = Some (addDirs ?t (d @ [s]) (r # ss))"
  proof (rule Cons.IH [OF _ _ _ s(2)])
    show "treeWf ?t" "realDir ?t (d @ [s])" using new_dir Cons.prems s(1) by blast+
    show "walk ?t False MAXSYMLINKS [] (pre @ [s]) = Some (d @ [s])"
      using walk_new_dir Cons.prems s(1) by blast
    show "?t ((d @ [s]) @ [r]) = None"
      using below_missing [OF Cons.prems(1,5), of r] by simp
  qed
  finally show ?case by simp
qed

lemma mkdirFrom_form:
  assumes "treeWf t" "walk t False MAXSYMLINKS [] pre = Some d" "realDir t d" "clean (pre @ ss)" "mkdirFrom t pre ss = Some t'"
  shows "\<exists>as us a. ss = as @ us \<and> walk t False MAXSYMLINKS [] (pre @ as) = Some a \<and> realDir t a \<and>
    t' = addDirs t a us \<and> (us \<noteq> [] \<longrightarrow> t (a @ [hd us]) = None)"
  using assms
proof (induction ss arbitrary: pre d)
  case Nil
  then show ?case by (intro exI [of _ "[]"] exI [of _ d]) simp
next
  case (Cons s ss)
  show ?case
  proof (cases "walk t False MAXSYMLINKS [] (pre @ [s])")
    case None
    have n: "t (d @ [s]) = None" using Cons.prems(5) None Cons.prems(2) by (simp split: if_splits)
    have "mkdirFrom t pre (s # ss) = Some (addDirs t d (s # ss))"
      using Cons.prems n by (intro fresh_mkdir) simp_all
    then show ?thesis using Cons.prems n by (intro exI [of _ "[]"] exI [of _ "s # ss"] exI [of _ d]) simp
  next
    case (Some q)
    then have q: "q = [] \<or> t q = Some DirNode" "mkdirFrom t (pre @ [s]) ss = Some t'"
      using Cons.prems(5) by (simp_all split: if_splits)
    have "realNode t q" using walk_clean_real [OF _ Some] Cons.prems(4) by simp
    then have "realDir t q" using q(1) by (rule realDir_cons_dir)
    then obtain as us a where "ss = as @ us" "walk t False MAXSYMLINKS [] ((pre @ [s]) @ as) = Some a" "realDir t a"
      "t' = addDirs t a us" "us \<noteq> [] \<longrightarrow> t (a @ [hd us]) = None"
      using Cons.IH [OF Cons.prems(1) Some _ _ q(2)] Cons.prems(4) by auto
    then show ?thesis by (intro exI [of _ "s # as"] exI [of _ us] exI [of _ a]) simp
  qed
qed

lemma addDirs_made:
  assumes "treeWf t" "realDir t a" "walk t False MAXSYMLINKS [] pre = Some a" "clean us" "us \<noteq> [] \<Longrightarrow> t (a @ [hd us]) = None"
  shows "treeWf (addDirs t a us) \<and> grows t (addDirs t a us) \<and> realDir (addDirs t a us) (a @ us) \<and>
    walk (addDirs t a us) False MAXSYMLINKS [] (pre @ us) = Some (a @ us)"
  using assms
proof (induction us arbitrary: t a pre)
  case (Cons u us)
  then have n: "t (a @ [u]) = None" "cleanSeg u" by simp_all
  let ?t = "t(a @ [u] \<mapsto> DirNode)"
  note new = new_dir [OF Cons.prems(1,2) n(2,1)] walk_new_dir [OF Cons.prems(2,3) n(2,1)]
  have ne: "(a @ [u]) @ [hd us] \<noteq> a @ [u]" by (rule notI) (drule arg_cong [of _ _ length], simp)
  have "?t ((a @ [u]) @ [hd us]) = None"
    unfolding fun_upd_other [OF ne] by (rule below_missing [OF Cons.prems(1) n(1)]) simp
  then have "treeWf (addDirs ?t (a @ [u]) us) \<and> grows ?t (addDirs ?t (a @ [u]) us) \<and>
      realDir (addDirs ?t (a @ [u]) us) ((a @ [u]) @ us) \<and>
      walk (addDirs ?t (a @ [u]) us) False MAXSYMLINKS [] ((pre @ [u]) @ us) = Some ((a @ [u]) @ us)"
    by (intro Cons.IH [OF new(1,2,4)]) (use Cons.prems(4) in simp_all)
  then show ?case using grows_trans [OF new(3)]
    by (simp only: addDirs.simps append_assoc append_Cons append_Nil)
qed simp

lemma addDirs_only:
  "addDirs t a us q \<noteq> t q \<Longrightarrow> addDirs t a us q = Some DirNode \<and> prefix q (a @ us) \<and> q \<noteq> []"
proof (induction us arbitrary: t a)
  case (Cons u us)
  have eq: "addDirs t a (u # us) = addDirs (t(a @ [u] \<mapsto> DirNode)) (a @ [u]) us" by (rule addDirs.simps)
  show ?case
  proof (cases "addDirs (t(a @ [u] \<mapsto> DirNode)) (a @ [u]) us q = (t(a @ [u] \<mapsto> DirNode)) q")
    case True
    then have "q = a @ [u]" using Cons.prems unfolding eq fun_upd_apply by metis
    then show ?thesis using True unfolding eq by simp
  next
    case False
    then show ?thesis using Cons.IH [OF False] unfolding eq append_assoc append_Cons append_Nil by blast
  qed
qed simp

text \<open>What is known after \<open>mkdirSync\<close> of a path has succeeded.\<close>

lemma parent_made:
  assumes "treeWf t" "clean ss" "mkdirSync t cwd (absPath ss) = Some t1"
  defines "e \<equiv> realSegs (realpathSync t cwd) ss"
  shows "treeWf t1 \<and> grows t t1 \<and> realDir t1 e \<and> walk t1 False MAXSYMLINKS [] ss = Some e \<and>
    (\<forall>q. t1 q \<noteq> t q \<longrightarrow> q \<noteq> [] \<and> t q = None \<and> t1 q = Some DirNode \<and> prefix q e)"
proof -
  have "mkdirFrom t [] ss = Some t1" using assms(2,3) by (simp add: mkdirSync_def path_simps)
  then obtain as us a where f: "ss = as @ us" "walk t False MAXSYMLINKS [] as = Some a" "realDir t a"
      "t1 = addDirs t a us" "us \<noteq> [] \<longrightarrow> t (a @ [hd us]) = None"
    using mkdirFrom_form [OF assms(1), of "[]" "[]" ss t1] assms(2) by auto
  have c: "clean as" "clean us" using assms(2) f(1) by simp_all
  have "us \<noteq> [] \<Longrightarrow> walk t False MAXSYMLINKS [] (as @ [hd us]) = None"
    using walk_one [OF f(2,3), of "hd us" False] f(5) c(2) by (cases us) simp_all
  then have e: "e = a @ us" unfolding e_def f(1) using realSegs_beyond [OF _ f(2)] c by simp
  have made: "treeWf t1 \<and> grows t t1 \<and> realDir t1 e \<and> walk t1 False MAXSYMLINKS [] ss = Some e"
    using addDirs_made [OF assms(1) f(3,2) c(2)] f(1,4,5) e by simp
  moreover have "q \<noteq> [] \<and> t q = None \<and> t1 q = Some DirNode \<and> prefix q e" if "t1 q \<noteq> t q" for q
  proof -
    have d: "t1 q = Some DirNode" "prefix q e" "q \<noteq> []" using addDirs_only that f(4) e by blast+
    have "t q = None"
    proof (rule ccontr)
      assume "t q \<noteq> None"
      with made d(1) that show False
        using growsD [of t t1 q] by (cases "t q") (auto, metis node.exhaust node.distinct(1,3) option.inject)
    qed
    with d show ?thesis by blast
  qed
  ultimately show ?thesis by blast
qed

section \<open>Writing\<close>

lemma walk_absPath: "clean ss \<Longrightarrow> walk t b n [] (splitOn slash (absPath ss)) = walk t b n [] ss"
  by (cases "ss = []") (simp_all add: splitOn_absPath)

lemma locate_absPath: "clean ss \<Longrightarrow> locate t (absPath ss) = walk t False MAXSYMLINKS [] ss"
  by (simp add: locate_def walk_absPath)

lemma treeWf_file:
  assumes "treeWf t" "t p \<noteq> None \<or> (\<exists>d s. p = d @ [s] \<and> (d = [] \<or> t d = Some DirNode))" "t p \<noteq> Some DirNode"
  shows "treeWf (t(p \<mapsto> FileNode c))"
  unfolding treeWf_def
proof (intro allI impI)
  fix q s assume q: "(t(p \<mapsto> FileNode c)) (q @ [s]) \<noteq> None" "q \<noteq> []"
  have dir: "t q = Some DirNode"
  proof (cases "t (q @ [s]) = None")
    case True
    then have "q @ [s] = p" using q(1) unfolding fun_upd_apply by metis
    with True assms(2) q(2) show ?thesis by auto
  next
    case False
    then show ?thesis using assms(1) q(2) unfolding treeWf_def by blast
  qed
  then have "q \<noteq> p" using assms(3) by auto
  with dir show "(t(p \<mapsto> FileNode c)) q = Some DirNode" by simp
qed

text \<open>The directories made for a file are above its real segments.\<close>

lemma made_above:
  assumes "treeWf t" "clean (ss @ [s])" "mkdirSync t cwd (absPath ss) = Some t1" "t1 p \<noteq> t p"
  shows "p \<noteq> [] \<and> t p = None \<and> t1 p = Some DirNode \<and> prefix p (realSegs (realpathSync t cwd) (ss @ [s]))"
proof -
  let ?e = "realSegs (realpathSync t cwd) ss"
  have p: "p \<noteq> []" "t p = None" "t1 p = Some DirNode" "prefix p ?e"
    using parent_made [OF assms(1) _ assms(3)] assms(2,4) by auto
  have "walk t False MAXSYMLINKS [] (ss @ [s]) = None"
  proof (rule ccontr)
    assume "walk t False MAXSYMLINKS [] (ss @ [s]) \<noteq> None"
    then obtain d where d: "walk t False MAXSYMLINKS [] ss = Some d"
      using walk_append [of t MAXSYMLINKS "[]" ss s] by auto
    then have "realNode t ?e" using walk_clean_real [of ss t] realSegs_walk [OF _ d] assms(2) by simp
    then have "t p \<noteq> None" using p(1,4) by (cases "p = ?e") (auto simp: realNode_def strict_prefix_def)
    with p(2) show False by blast
  qed
  then have "realpathSync t cwd (absPath (ss @ [s])) = None" using assms(2) by (simp add: realpathSync_absPath)
  then have "realSegs (realpathSync t cwd) (ss @ [s]) = ?e @ [s]" by (rule fsTree.realSegs_missing)
  with p show ?thesis by (simp add: prefix_snoc)
qed

text \<open>They lie below a real directory that is a prefix of the real segments.\<close>

lemma made_inside:
  assumes "treeWf t" "clean (ss @ [s])" "mkdirSync t cwd (absPath ss) = Some t1" "t1 p \<noteq> t p"
    and "realDir t rs" "prefix rs (realSegs (realpathSync t cwd) (ss @ [s]))"
  shows "prefix rs p"
proof -
  have p: "p \<noteq> []" "t p = None" "prefix p (realSegs (realpathSync t cwd) (ss @ [s]))"
    using made_above [OF assms(1-4)] by blast+
  then have "\<not> prefix p rs" using assms(5) by (auto simp: realDir_def)
  then show ?thesis using prefix_same_cases [OF p(3) assms(6)] by blast
qed

text \<open>
  The parent directories are made and the file written: the written node is the one at the real
  segments of the path, and the other changes are new directories above it.
\<close>

lemma target_written:
  assumes "treeWf t" "clean (ss @ [s])" "mkdirSync t cwd (absPath ss) = Some t1"
    and "writeFileSync t1 (absPath (ss @ [s])) c = Some t2"
    and "\<And>l. t (realSegs (realpathSync t cwd) (ss @ [s])) \<noteq> Some (LinkNode l)"
  defines "q \<equiv> realSegs (realpathSync t cwd) (ss @ [s])"
  shows "walk t1 True MAXSYMLINKS [] (ss @ [s]) = Some q \<and> t2 = t1(q \<mapsto> FileNode c) \<and> treeWf t2 \<and> grows t t1 \<and> grows t1 t2 \<and>
    (\<forall>p. t1 p \<noteq> t p \<longrightarrow> p \<noteq> [] \<and> t p = None \<and> t1 p = Some DirNode \<and> prefix p q)"
proof -
  let ?e = "realSegs (realpathSync t cwd) ss"
  have p: "treeWf t1" "grows t t1" "realDir t1 ?e" "walk t1 False MAXSYMLINKS [] ss = Some ?e"
    "\<And>q. t1 q \<noteq> t q \<Longrightarrow> q \<noteq> [] \<and> t q = None \<and> t1 q = Some DirNode \<and> prefix q ?e"
    using parent_made [OF assms(1) _ assms(3)] assms(2) by auto
  have w: "walk t1 True MAXSYMLINKS [] (ss @ [s]) = Some q \<and> q = ?e @ [s] \<or>
    (\<exists>x. walk t False MAXSYMLINKS [] (ss @ [s]) = Some x \<and> x = q)"
  proof (cases "walk t False MAXSYMLINKS [] (ss @ [s])")
    case None
    then have "realpathSync t cwd (absPath (ss @ [s])) = None" using assms(2) by (simp add: realpathSync_absPath)
    then have q: "q = ?e @ [s]" unfolding q_def by (rule fsTree.realSegs_missing)
    have "t1 q = t q" using p(5) [of q] q by (auto dest: prefix_length_le)
    then have "\<And>l. t1 (?e @ [s]) \<noteq> Some (LinkNode l)" using assms(5) q unfolding q_def by metis
    then show ?thesis using walk_one [OF p(4,3), of s True] assms(2) q by simp
  next
    case (Some x)
    then show ?thesis using realSegs_walk [OF assms(2) Some] unfolding q_def by simp
  qed
  have real: "walk t1 True MAXSYMLINKS [] (ss @ [s]) = Some q"
    using w walk_create [OF walk_grows [OF _ p(2)]] by blast
  then have wr: "q \<noteq> []" "t1 q \<noteq> Some DirNode" "t2 = t1(q \<mapsto> FileNode c)"
    using assms(4) assms(2) by (simp_all add: writeFileSync_def walk_absPath split: if_splits)
  have kind: "t1 q = None \<or> (\<exists>c. t1 q = Some (FileNode c))"
  proof (cases "t1 q")
    case (Some x)
    have "x \<noteq> LinkNode l" for l
      using Some p(5) [of q] assms(5) [of l] unfolding q_def by auto
    then show ?thesis using Some wr(2) by (cases x) auto
  qed simp
  have "t1 q \<noteq> None \<or> q = ?e @ [s]"
    using w
  proof
    assume "\<exists>x. walk t False MAXSYMLINKS [] (ss @ [s]) = Some x \<and> x = q"
    then have "realNode t q" using walk_clean_real [OF assms(2)] by blast
    then have "t q \<noteq> None" using wr(1) by (auto simp: realNode_def)
    then show ?thesis using growsD(4) [OF p(2)] by blast
  qed blast
  then have "treeWf t2"
    unfolding wr(3) using p(1,3) wr(2) by (intro treeWf_file) (auto simp: realDir_def)
  moreover have "grows t1 t2" unfolding wr(3) using kind by (rule grows_file)
  ultimately show ?thesis
    using real wr(3) p(2) made_above [OF assms(1-3)] unfolding q_def by blast
qed

end
