(* ===== verification/Regex.thy ===== *)
theory Regex
  imports HumPrelude
begin

text \<open>
  The regular expressions of the source, for \<open>pattern.test(text)\<close>: an expression, the words it matches
  (\<open>word_of\<close>), and an executable test by derivatives (\<open>rxTest\<close>), which is proved to find exactly the
  texts with a matching part (\<open>rxTest_iff\<close>). The smart constructors keep derivatives small.
\<close>

datatype rx = RxNone | RxEps | RxSet "char \<Rightarrow> bool" | RxSeq rx rx | RxAlt rx rx | RxStar rx

inductive word_of :: "rx \<Rightarrow> string \<Rightarrow> bool" where
  eps [intro]: "word_of RxEps []"
| cls [intro]: "P c \<Longrightarrow> word_of (RxSet P) [c]"
| seq [intro]: "word_of r x \<Longrightarrow> word_of s y \<Longrightarrow> word_of (RxSeq r s) (x @ y)"
| alt1 [intro]: "word_of r x \<Longrightarrow> word_of (RxAlt r s) x"
| alt2 [intro]: "word_of s x \<Longrightarrow> word_of (RxAlt r s) x"
| star0 [intro]: "word_of (RxStar r) []"
| star1 [intro]: "word_of r x \<Longrightarrow> word_of (RxStar r) y \<Longrightarrow> word_of (RxStar r) (x @ y)"

inductive_simps word_of_simps [simp]: "word_of RxNone x" "word_of RxEps x" "word_of (RxSet P) x" "word_of (RxAlt r s) x"
inductive_simps word_of_seq: "word_of (RxSeq r s) x"
inductive_cases word_of_seqE: "word_of (RxSeq r s) x"
inductive_cases word_of_starE: "word_of (RxStar r) x"

section \<open>Notation of the source\<close>

definition rxAny :: rx where
  "rxAny = RxSet (\<lambda>_. True)"

definition rxChar :: "char \<Rightarrow> rx" where
  "rxChar c = RxSet (\<lambda>d. d = c)"

text \<open>A letter under the flag \<open>i\<close>.\<close>

definition rxCharI :: "char \<Rightarrow> rx" where
  "rxCharI c = RxSet (\<lambda>d. char_lower d = c)"

definition rxSpace :: rx where
  "rxSpace = RxSet is_ws"

definition rxNonSpace :: rx where
  "rxNonSpace = RxSet (\<lambda>c. \<not> is_ws c)"

definition rxPlus :: "rx \<Rightarrow> rx" where
  "rxPlus r = RxSeq r (RxStar r)"

definition rxOpt :: "rx \<Rightarrow> rx" where
  "rxOpt r = RxAlt r RxEps"

fun rxSeqs :: "rx list \<Rightarrow> rx" where
  "rxSeqs [] = RxEps"
| "rxSeqs (r # rs) = RxSeq r (rxSeqs rs)"

definition rxLit :: "string \<Rightarrow> rx" where
  "rxLit s = rxSeqs (map rxChar s)"

definition rxLitI :: "string \<Rightarrow> rx" where
  "rxLitI s = rxSeqs (map rxCharI s)"

text \<open>\<open>r{n,}\<close>\<close>

definition rxAtLeast :: "nat \<Rightarrow> rx \<Rightarrow> rx" where
  "rxAtLeast n r = RxSeq (rxSeqs (replicate n r)) (RxStar r)"

section \<open>Matching by derivatives\<close>

fun nullable :: "rx \<Rightarrow> bool" where
  "nullable RxNone = False"
| "nullable RxEps = True"
| "nullable (RxSet P) = False"
| "nullable (RxSeq r s) = (nullable r \<and> nullable s)"
| "nullable (RxAlt r s) = (nullable r \<or> nullable s)"
| "nullable (RxStar r) = True"

fun mkSeq :: "rx \<Rightarrow> rx \<Rightarrow> rx" where
  "mkSeq RxNone s = RxNone"
| "mkSeq RxEps s = s"
| "mkSeq r s = RxSeq r s"

fun mkAlt :: "rx \<Rightarrow> rx \<Rightarrow> rx" where
  "mkAlt RxNone s = s"
| "mkAlt r RxNone = r"
| "mkAlt r s = RxAlt r s"

fun deriv :: "char \<Rightarrow> rx \<Rightarrow> rx" where
  "deriv c RxNone = RxNone"
| "deriv c RxEps = RxNone"
| "deriv c (RxSet P) = (if P c then RxEps else RxNone)"
| "deriv c (RxSeq r s) = mkAlt (mkSeq (deriv c r) s) (if nullable r then deriv c s else RxNone)"
| "deriv c (RxAlt r s) = mkAlt (deriv c r) (deriv c s)"
| "deriv c (RxStar r) = mkSeq (deriv c r) (RxStar r)"

text \<open>A match at the start of the text, and anywhere in it.\<close>

fun rxHere :: "rx \<Rightarrow> string \<Rightarrow> bool" where
  "rxHere r [] = nullable r"
| "rxHere r (c # s) = (nullable r \<or> rxHere (deriv c r) s)"

fun rxTest :: "rx \<Rightarrow> string \<Rightarrow> bool" where
  "rxTest r [] = rxHere r []"
| "rxTest r (c # s) = (rxHere r (c # s) \<or> rxTest r s)"

lemma nullable_iff: "nullable r \<longleftrightarrow> word_of r []"
  by (induction r) (auto simp: word_of_seq)

lemma mkSeq_iff [simp]: "word_of (mkSeq r s) x \<longleftrightarrow> word_of (RxSeq r s) x"
  by (cases r) (auto simp: word_of_seq)

lemma mkAlt_iff [simp]: "word_of (mkAlt r s) x \<longleftrightarrow> word_of r x \<or> word_of s x"
  by (cases r; cases s) auto

lemma star_Cons:
  "word_of (RxStar r) (c # x) \<longleftrightarrow> (\<exists>u v. x = u @ v \<and> word_of r (c # u) \<and> word_of (RxStar r) v)"
proof
  assume "word_of (RxStar r) (c # x)"
  then show "\<exists>u v. x = u @ v \<and> word_of r (c # u) \<and> word_of (RxStar r) v"
  proof (induction "RxStar r" "c # x" rule: word_of.induct)
    case (star1 u v)
    then show ?case by (cases u) auto
  qed
next
  assume "\<exists>u v. x = u @ v \<and> word_of r (c # u) \<and> word_of (RxStar r) v"
  then obtain u v where "x = u @ v" "word_of r (c # u)" "word_of (RxStar r) v" by blast
  then show "word_of (RxStar r) (c # x)" using word_of.star1 [of r "c # u" v] by simp
qed

lemma deriv_iff: "word_of (deriv c r) x \<longleftrightarrow> word_of r (c # x)"
proof (induction r arbitrary: x)
  case (RxSeq r s)
  then show ?case
    by (simp add: word_of_seq nullable_iff) (auto simp: append_eq_Cons_conv Cons_eq_append_conv)
next
  case (RxStar r)
  then show ?case by (auto simp: word_of_seq star_Cons)
qed auto

lemma rxHere_iff: "rxHere r s \<longleftrightarrow> (\<exists>x y. s = x @ y \<and> word_of r x)"
proof (induction s arbitrary: r)
  case (Cons c s)
  have "(\<exists>x y. c # s = x @ y \<and> word_of r x) \<longleftrightarrow> word_of r [] \<or> (\<exists>x y. s = x @ y \<and> word_of r (c # x))"
    by (auto simp: Cons_eq_append_conv)
  with Cons show ?case by (simp add: nullable_iff deriv_iff)
qed (simp add: nullable_iff)

theorem rxTest_iff: "rxTest r s \<longleftrightarrow> (\<exists>a x b. s = a @ x @ b \<and> word_of r x)"
proof (induction s)
  case (Cons c s)
  have "(\<exists>a x b. c # s = a @ x @ b \<and> word_of r x) \<longleftrightarrow>
      (\<exists>x b. c # s = x @ b \<and> word_of r x) \<or> (\<exists>a x b. s = a @ x @ b \<and> word_of r x)"
    by (auto simp: Cons_eq_append_conv) (metis append_Nil)+
  with Cons show ?case by (simp add: rxHere_iff)
qed (simp add: rxHere_iff nullable_iff)

text \<open>A test that holds for a part of a text holds for the text.\<close>

lemma rxTest_mono: "rxTest r s \<Longrightarrow> rxTest r (a @ s @ b)"
  unfolding rxTest_iff by (metis append.assoc)

end
