(* ===== verification/OutputScan.thy ===== *)
theory OutputScan
  imports Regex
begin

text \<open>
  The scanner that decides whether an output file may be copied into the workspace,
  \<open>credential-executor/src/commands/output-scan.ts\<close>. The content is the decoded text. \<open>secrets\<close> is the
  set of injected values in insertion order.
\<close>

section \<open>Patterns\<close>

definition AUTH_BEARING_FILENAMES :: "string list" where
  "AUTH_BEARING_FILENAMES = [''.netrc'', ''.npmrc'', ''.pypirc'', ''.docker/config.json'', ''credentials'',
     ''config.json'', ''.git-credentials'', ''.env'', ''.env.local'', ''.env.production'', ''.env.development'']"

definition NETRC_RX :: rx where
  "NETRC_RX = rxSeqs [rxLitI ''machine'', rxPlus rxSpace, rxPlus rxNonSpace, rxPlus rxSpace, rxLitI ''login'',
     rxPlus rxSpace, rxPlus rxNonSpace, rxPlus rxSpace, rxLitI ''password'', rxPlus rxSpace, rxPlus rxNonSpace]"

definition AWS_FILE_RX :: rx where
  "AWS_FILE_RX = rxSeqs [rxLitI ''[default]'', RxStar rxSpace, rxChar CHR 0x0A, RxStar rxSpace,
     rxLitI ''aws_access_key_id'', RxStar rxSpace, rxLit ''='']"

definition AWS_SECRET_RX :: rx where
  "AWS_SECRET_RX = rxSeqs [rxLitI ''aws_secret_access_key'', RxStar rxSpace, rxLit ''='', RxStar rxSpace, rxPlus rxNonSpace]"

definition PEM_RX :: rx where
  "PEM_RX = rxSeqs [rxLit ''-----BEGIN'', rxPlus rxSpace, rxOpt (RxSeq (rxLit ''RSA'') (rxPlus rxSpace)),
     rxLit ''PRIVATE'', rxPlus rxSpace, rxLit ''KEY-----'']"

definition OPENSSH_RX :: rx where
  "OPENSSH_RX = rxSeqs [rxLit ''-----BEGIN'', rxPlus rxSpace, rxLit ''OPENSSH'', rxPlus rxSpace,
     rxLit ''PRIVATE'', rxPlus rxSpace, rxLit ''KEY-----'']"

definition base64Char :: "char \<Rightarrow> bool" where
  "base64Char c = (c \<in> set ''ABCDEFGHIJKLMNOPQRSTUVWXYZabcdefghijklmnopqrstuvwxyz0123456789+/='')"

definition DOCKER_RX :: rx where
  "DOCKER_RX = rxSeqs [rxLit ''\"auth\"'', RxStar rxSpace, rxLit '':'', RxStar rxSpace, rxChar CHR 0x22,
     rxAtLeast 20 (RxSet base64Char), rxChar CHR 0x22]"

definition NPM_RX :: rx where
  "NPM_RX = rxSeqs [rxLit ''//'', rxPlus (RxSet (\<lambda>c. c \<noteq> CHR '':'')), rxLit '':_authToken'', RxStar rxSpace,
     rxLit ''='', RxStar rxSpace, rxPlus rxNonSpace]"

definition PASSWORD_RX :: rx where
  "PASSWORD_RX = rxSeqs [rxLitI ''password'', RxStar rxSpace, rxLit ''='', RxStar rxSpace, rxPlus rxNonSpace]"

definition AUTH_BEARING_CONTENT_PATTERNS :: "(rx \<times> string) list" where
  "AUTH_BEARING_CONTENT_PATTERNS =
    [(NETRC_RX, ''netrc-format credentials (machine/login/password)''),
     (AWS_FILE_RX, ''AWS credentials file format''),
     (AWS_SECRET_RX, ''AWS secret access key in config''),
     (PEM_RX, ''PEM private key''),
     (OPENSSH_RX, ''OpenSSH private key''),
     (DOCKER_RX, ''Docker registry auth token''),
     (NPM_RX, ''npm registry auth token''),
     (PASSWORD_RX, ''Plain-text password in config file'')]"

section \<open>The scanner\<close>

datatype violation = ExactSecret nat | AuthFilename string | AuthContent string

text \<open>The file name in lower case, from the last slash on.\<close>

definition basenameOnly :: "string \<Rightarrow> string" where
  "basenameOnly filename = rev (takeWhile (\<lambda>c. c \<noteq> CHR ''/'') (rev (toLowerCase filename)))"

definition scanOutputFile :: "string \<Rightarrow> string \<Rightarrow> string list \<Rightarrow> violation list" where
  "scanOutputFile filename content secrets =
    map (\<lambda>s. ExactSecret (length s)) (filter (\<lambda>s. s \<noteq> [] \<and> includesStr content s) secrets) @
    (if basenameOnly filename \<in> set AUTH_BEARING_FILENAMES then [AuthFilename filename] else []) @
    map (\<lambda>(_, d). AuthContent d) (filter (\<lambda>(r, _). rxTest r content) AUTH_BEARING_CONTENT_PATTERNS)"

definition scanSafe :: "string \<Rightarrow> string \<Rightarrow> string list \<Rightarrow> bool" where
  "scanSafe filename content secrets = (scanOutputFile filename content secrets = [])"

section \<open>What a safe file is\<close>

lemma scanSafe_iff:
  "scanSafe filename content secrets \<longleftrightarrow>
    (\<forall>s \<in> set secrets. s = [] \<or> \<not> (\<exists>a b. content = a @ s @ b)) \<and>
    basenameOnly filename \<notin> set AUTH_BEARING_FILENAMES \<and>
    (\<forall>(r, d) \<in> set AUTH_BEARING_CONTENT_PATTERNS. \<not> rxTest r content)"
  by (auto simp: scanSafe_def scanOutputFile_def filter_empty_conv includes_iff)

text \<open>No part of a safe text is unsafe for its content.\<close>

lemma scanSafe_part:
  assumes "scanSafe filename (a @ content @ b) secrets"
  shows "scanSafe filename content secrets"
  using assms unfolding scanSafe_iff by (auto dest: rxTest_mono) (metis append.assoc)

end
