(* ===== verification/WorkspaceStaging.thy ===== *)
theory WorkspaceStaging
  imports FileUpdates OutputScan
begin

text \<open>
  Input staging and output copyback of the credential executor,
  \<open>credential-executor/src/commands/workspace.ts\<close>, over the file tree of \<open>FileSystem\<close> with the permission
  bits of its files.

  \<open>cwd\<close> is the working directory, \<open>privileged\<close> tells whether the process may write files without write
  permission. \<open>during\<close> is what other processes do to the disk between the scan of an output and
  its copy; the identity stands for none.
\<close>

section \<open>Types\<close>

record disk =
  dkTree :: fileTree
  dkMode :: "string list \<Rightarrow> nat"

record workspaceOutput =
  woScratchPath :: string
  woWorkspacePath :: string

record stageConfig =
  scWorkspaceDir :: string
  scInputs :: "string list"
  scOutputs :: "workspaceOutput list"
  scSecrets :: "string list"

record stagedWorkspace =
  swScratchDir :: string
  swStagedInputs :: "string list"

datatype pathProblem =
    AbsolutePath string | Traversal string | EmptyPath
  | EscapesRoot string string
  | SymlinkOutside string string string

datatype stageError = InputPath pathProblem | InputMissing string | StageIO string

datatype copyReason =
    OutputPath pathProblem | OutputMissing string | ReadFailed string
  | ScanFailed "violation list" | CopyFailed

record copyResult =
  crScratchPath :: string
  crWorkspacePath :: string
  crSuccess :: bool
  crReason :: "copyReason option"
  crScan :: "violation list option"

section \<open>Path validation\<close>

definition validateRelativePath :: "string \<Rightarrow> pathProblem option" where
  "validateRelativePath p =
    (if startsWith p [slash] then Some (AbsolutePath p)
     else if ''..'' \<in> set (splitOn slash p) then Some (Traversal p)
     else if trim p = [] then Some EmptyPath
     else None)"

text \<open>The loop to the nearest existing ancestor. \<open>full\<close> is the whole path.\<close>

definition parentRank :: "string \<Rightarrow> nat" where
  "parentRank p = (if p = ''.'' then 0 else Suc (length p))"

lemma dirname_rank: "dirname p \<noteq> p \<Longrightarrow> parentRank (dirname p) < parentRank p"
proof (cases "dropWhile (\<lambda>c. c \<noteq> slash) (dropWhile (\<lambda>c. c = slash) (rev p))")
  case Nil
  assume ne: "dirname p \<noteq> p"
  have d: "dirname p = (if p = [] then ''.'' else if isAbsolute p then [slash] else ''.'')"
    unfolding dirname_def Nil by simp
  show ?thesis
  proof (cases "p \<noteq> [] \<and> isAbsolute p")
    case True
    then obtain q where q: "p = slash # q" by (auto simp: isAbsolute_def startsWith_iff)
    then have "q \<noteq> []" using ne d True by auto
    then show ?thesis using q d True by (cases q) (simp_all add: parentRank_def)
  next
    case False
    then have "dirname p = ''.''" using d by auto
    then show ?thesis using ne by (simp add: parentRank_def)
  qed
next
  case (Cons c r)
  have "Suc (length r) < length p"
  proof (cases "dropWhile (\<lambda>c. c = slash) (rev p)")
    case (Cons x xs)
    then have "x \<noteq> slash" using hd_dropWhile [of "\<lambda>c. c = slash" "rev p"] by simp
    then have "dropWhile (\<lambda>c. c \<noteq> slash) xs = c # r" using \<open>_ = c # r\<close> Cons by simp
    then have "Suc (length r) \<le> length xs" using length_dropWhile_le [of _ xs] by (metis length_Cons)
    moreover have "length (x # xs) \<le> length (rev p)"
      using length_dropWhile_le [of "\<lambda>c. c = slash" "rev p"] Cons by simp
    ultimately show ?thesis by simp
  next
    case Nil
    from \<open>_ = c # r\<close> show ?thesis unfolding Nil by simp
  qed
  moreover from this have "length (dirname p) \<le> Suc (length r)"
    unfolding dirname_def Cons by auto
  ultimately show ?thesis by (auto simp: parentRank_def)
qed

function ancestorPath :: "(string \<Rightarrow> string option) \<Rightarrow> string \<Rightarrow> string \<Rightarrow> string \<Rightarrow> string" where
  "ancestorPath realpath cwd full current =
    (case realpath (dirname current) of
       Some r \<Rightarrow> r @ drop (length (dirname current)) full
     | None \<Rightarrow>
         if dirname current = current then resolve cwd [full]
         else ancestorPath realpath cwd full (dirname current))"
  by pat_completeness auto
termination
  by (relation "measure (\<lambda>(realpath, cwd, full, current). parentRank current)") (auto intro: dirname_rank)

declare ancestorPath.simps [simp del]

definition validateContainedPath :: "(string \<Rightarrow> string option) \<Rightarrow> string \<Rightarrow> string \<Rightarrow> string \<Rightarrow> pathProblem option" where
  "validateContainedPath realpath cwd resolvedPath rootDir =
    (let normalizedRoot = orDefault (realpath rootDir) (resolve cwd [rootDir]);
         normalizedPath = (case realpath resolvedPath of
           Some r \<Rightarrow> r
         | None \<Rightarrow> ancestorPath realpath cwd resolvedPath resolvedPath) in
     if \<not> startsWith normalizedPath (normalizedRoot @ [slash]) \<and> normalizedPath \<noteq> normalizedRoot
     then Some (EscapesRoot normalizedPath normalizedRoot) else None)"

definition checkSymlinkEscape :: "(string \<Rightarrow> string option) \<Rightarrow> string \<Rightarrow> string \<Rightarrow> pathProblem option" where
  "checkSymlinkEscape realpath filePath rootDir =
    (case (realpath filePath, realpath rootDir) of
       (Some target, Some root) \<Rightarrow>
         if \<not> startsWith target (root @ [slash]) \<and> target \<noteq> root
         then Some (SymlinkOutside filePath target root) else None
     | _ \<Rightarrow> None)"

section \<open>Files and the scratch directory\<close>

text \<open>The write bit of the owner, and \<open>copyFileSync\<close>, which also copies the permission bits.\<close>

definition ownerWrites :: "nat \<Rightarrow> bool" where
  "ownerWrites mode = odd (mode div 128)"

definition copyFile :: "bool \<Rightarrow> disk \<Rightarrow> string \<Rightarrow> string \<Rightarrow> disk option" where
  "copyFile privileged d src dst =
    (case (locate (dkTree d) src, walk (dkTree d) True MAXSYMLINKS [] (splitOn slash dst), copyFileSync (dkTree d) src dst) of
       (Some s, Some q, Some t') \<Rightarrow>
         if dkTree d q \<noteq> None \<and> \<not> ownerWrites (dkMode d q) \<and> \<not> privileged then None
         else Some \<lparr>dkTree = t', dkMode = (dkMode d)(q := dkMode d s)\<rparr>
     | _ \<Rightarrow> None)"

definition chmodSync :: "disk \<Rightarrow> string \<Rightarrow> nat \<Rightarrow> disk option" where
  "chmodSync d p mode = map_option (\<lambda>q. d\<lparr>dkMode := (dkMode d)(q := mode)\<rparr>) (locate (dkTree d) p)"

definition mkdirDisk :: "disk \<Rightarrow> string \<Rightarrow> string \<Rightarrow> disk option" where
  "mkdirDisk d cwd p = map_option (\<lambda>t. d\<lparr>dkTree := t\<rparr>) (mkdirSync (dkTree d) cwd p)"

definition createScratchDir :: "string \<Rightarrow> string \<Rightarrow> string \<Rightarrow> disk \<Rightarrow> (string \<times> disk) option" where
  "createScratchDir cwd scratchBase uuid d =
    map_option (\<lambda>d'. (joinPaths [scratchBase, uuid], d')) (mkdirDisk d cwd (joinPaths [scratchBase, uuid]))"

definition cleanupScratchDir :: "string \<Rightarrow> string \<Rightarrow> disk \<Rightarrow> disk" where
  "cleanupScratchDir cwd scratchDir d =
    (let ss = resolveSegs cwd [scratchDir] in
     if ss = [] then d
     else (case walk (dkTree d) False MAXSYMLINKS [] (butlast ss) of
         None \<Rightarrow> d
       | Some parent \<Rightarrow> d\<lparr>dkTree := rmSync (dkTree d) (parent @ [last ss])\<rparr>))"

section \<open>Staging\<close>

definition stageInput :: "string \<Rightarrow> bool \<Rightarrow> string \<Rightarrow> string \<Rightarrow> string \<Rightarrow> disk \<Rightarrow> stageError + disk" where
  "stageInput cwd privileged workspaceDir scratchDir input d =
    (case validateRelativePath input of
       Some e \<Rightarrow> Inl (InputPath e)
     | None \<Rightarrow>
        (let sourcePath = joinPaths [workspaceDir, input]; destPath = joinPaths [scratchDir, input] in
         case validateContainedPath (realpathSync (dkTree d) cwd) cwd sourcePath workspaceDir of
           Some e \<Rightarrow> Inl (InputPath e)
         | None \<Rightarrow>
            if \<not> existsSync (dkTree d) sourcePath then Inl (InputMissing input)
            else (case mkdirDisk d cwd (dirname destPath) of
                None \<Rightarrow> Inl (StageIO input)
              | Some d1 \<Rightarrow>
                 (case Option.bind (copyFile privileged d1 sourcePath destPath) (\<lambda>d2. chmodSync d2 destPath 292) of
                    None \<Rightarrow> Inl (StageIO input)
                  | Some d3 \<Rightarrow> Inr d3))))"

text \<open>The loop stops at the first error; the disk at that point is still cleaned up by the caller.\<close>

fun stageLoop :: "string \<Rightarrow> bool \<Rightarrow> string \<Rightarrow> string \<Rightarrow> string list \<Rightarrow> string list \<Rightarrow> disk \<Rightarrow> (stageError + string list) \<times> disk" where
  "stageLoop cwd privileged workspaceDir scratchDir [] staged d = (Inr staged, d)"
| "stageLoop cwd privileged workspaceDir scratchDir (i # is) staged d =
     (case stageInput cwd privileged workspaceDir scratchDir i d of
        Inl e \<Rightarrow> (Inl e, d)
      | Inr d' \<Rightarrow> stageLoop cwd privileged workspaceDir scratchDir is (staged @ [i]) d')"

definition stageInputs :: "string \<Rightarrow> bool \<Rightarrow> string \<Rightarrow> string \<Rightarrow> stageConfig \<Rightarrow> disk \<Rightarrow> (stageError + stagedWorkspace) \<times> disk" where
  "stageInputs cwd privileged scratchBase uuid config d =
    (case createScratchDir cwd scratchBase uuid d of
       None \<Rightarrow> (Inl (StageIO scratchBase), d)
     | Some (scratchDir, d1) \<Rightarrow>
        (case stageLoop cwd privileged (scWorkspaceDir config) scratchDir (scInputs config) [] d1 of
           (Inl e, d2) \<Rightarrow> (Inl e, cleanupScratchDir cwd scratchDir d2)
         | (Inr staged, d2) \<Rightarrow> (Inr \<lparr>swScratchDir = scratchDir, swStagedInputs = staged\<rparr>, d2)))"

section \<open>Copyback\<close>

definition refused :: "workspaceOutput \<Rightarrow> copyReason \<Rightarrow> copyResult" where
  "refused out reason = \<lparr>crScratchPath = woScratchPath out, crWorkspacePath = woWorkspacePath out,
     crSuccess = False, crReason = Some reason, crScan = None\<rparr>"

text \<open>The checks before the file is read.\<close>

definition checkOutput :: "string \<Rightarrow> workspaceOutput \<Rightarrow> string \<Rightarrow> string \<Rightarrow> fileTree \<Rightarrow> copyReason option" where
  "checkOutput cwd out scratchDir workspaceDir t =
    (let scratchFile = joinPaths [scratchDir, woScratchPath out];
         workspaceFile = joinPaths [workspaceDir, woWorkspacePath out];
         real = realpathSync t cwd in
     case validateRelativePath (woScratchPath out) of Some e \<Rightarrow> Some (OutputPath e) | None \<Rightarrow>
     (case validateRelativePath (woWorkspacePath out) of Some e \<Rightarrow> Some (OutputPath e) | None \<Rightarrow>
     (case validateContainedPath real cwd scratchFile scratchDir of Some e \<Rightarrow> Some (OutputPath e) | None \<Rightarrow>
     (case validateContainedPath real cwd workspaceFile workspaceDir of Some e \<Rightarrow> Some (OutputPath e) | None \<Rightarrow>
      if \<not> existsSync t scratchFile then Some (OutputMissing (woScratchPath out))
      else (case checkSymlinkEscape real scratchFile scratchDir of Some e \<Rightarrow> Some (OutputPath e) | None \<Rightarrow> None)))))"

definition copybackSingleOutput ::
  "string \<Rightarrow> bool \<Rightarrow> (disk \<Rightarrow> disk) \<Rightarrow> workspaceOutput \<Rightarrow> string \<Rightarrow> string \<Rightarrow> string list \<Rightarrow> disk \<Rightarrow> copyResult \<times> disk" where
  "copybackSingleOutput cwd privileged during out scratchDir workspaceDir secrets d =
    (let scratchFile = joinPaths [scratchDir, woScratchPath out];
         workspaceFile = joinPaths [workspaceDir, woWorkspacePath out] in
     case checkOutput cwd out scratchDir workspaceDir (dkTree d) of
       Some e \<Rightarrow> (refused out e, d)
     | None \<Rightarrow>
        (case readFileSync (dkTree d) scratchFile of
           None \<Rightarrow> (refused out (ReadFailed (woScratchPath out)), d)
         | Some content \<Rightarrow>
            (let scan = scanOutputFile (basename (woScratchPath out)) content secrets in
             if scan \<noteq> [] then ((refused out (ScanFailed scan))\<lparr>crScan := Some scan\<rparr>, d)
             else
              (let d1 = during d in
               case mkdirDisk d1 cwd (dirname workspaceFile) of
                 None \<Rightarrow> (refused out CopyFailed, d1)
               | Some d2 \<Rightarrow>
                  (case copyFile privileged d2 scratchFile workspaceFile of
                     None \<Rightarrow> (refused out CopyFailed, d2)
                   | Some d3 \<Rightarrow>
                      (\<lparr>crScratchPath = woScratchPath out, crWorkspacePath = woWorkspacePath out,
                         crSuccess = True, crReason = None, crScan = Some scan\<rparr>, d3))))))"

fun copybackLoop :: "string \<Rightarrow> bool \<Rightarrow> (disk \<Rightarrow> disk) \<Rightarrow> string \<Rightarrow> string \<Rightarrow> string list \<Rightarrow> workspaceOutput list \<Rightarrow> disk \<Rightarrow> copyResult list \<times> disk" where
  "copybackLoop cwd privileged during scratchDir workspaceDir secrets [] d = ([], d)"
| "copybackLoop cwd privileged during scratchDir workspaceDir secrets (out # outs) d =
     (case copybackSingleOutput cwd privileged during out scratchDir workspaceDir secrets d of
        (r, d') \<Rightarrow>
          (case copybackLoop cwd privileged during scratchDir workspaceDir secrets outs d' of
             (rs, d'') \<Rightarrow> (r # rs, d'')))"

definition copybackOutputs :: "string \<Rightarrow> bool \<Rightarrow> (disk \<Rightarrow> disk) \<Rightarrow> stageConfig \<Rightarrow> string \<Rightarrow> disk \<Rightarrow> (copyResult list \<times> bool) \<times> disk" where
  "copybackOutputs cwd privileged during config scratchDir d =
    (case copybackLoop cwd privileged during scratchDir (scWorkspaceDir config) (scSecrets config) (scOutputs config) d of
       (rs, d') \<Rightarrow> ((rs, list_all crSuccess rs), d'))"

section \<open>Containment\<close>

lemma absPath_drop: "cs \<noteq> [] \<Longrightarrow> us \<noteq> [] \<Longrightarrow> drop (length (absPath cs)) (absPath (cs @ us)) = absPath us"
  by (simp add: absPath_append)

context file_tree
begin

lemma ancestorPath_absPath:
  "clean (cs @ us) \<Longrightarrow> realpath (absPath cs) = None \<Longrightarrow>
    \<exists>p. (p = [] \<or> p = [slash]) \<and>
      ancestorPath realpath cwd (absPath (cs @ us) @ z) (absPath cs) = p @ absPath (realSegs realpath cs @ us) @ z"
proof (induction cs arbitrary: us rule: rev_induct)
  case Nil
  then show ?case using real_root by simp
next
  case (snoc c cs)
  have dir: "dirname (absPath (cs @ [c])) = absPath cs" using snoc.prems(1) by (simp add: path_simps)
  have segs: "realSegs realpath (cs @ [c]) = realSegs realpath cs @ [c]" using snoc.prems(2) by (rule realSegs_missing)
  have clean: "clean cs" using snoc.prems(1) by simp
  show ?case
  proof (cases "realpath (absPath cs)")
    case (Some r)
    have r: "r = absPath (realSegs realpath cs)" using realSegs_exists(2) [OF clean Some] .
    have step: "ancestorPath realpath cwd (absPath ((cs @ [c]) @ us) @ z) (absPath (cs @ [c])) =
        r @ drop (length (absPath cs)) (absPath (cs @ c # us) @ z)"
      by (simp add: ancestorPath.simps [of _ _ _ "absPath (cs @ [c])"] dir Some)
    show ?thesis
    proof (cases "cs = []")
      case True
      then have "r = [slash]" "realSegs realpath cs = []" using Some real_root r realSegs_exists(1) [OF clean Some]
        absPath_inj [of "realSegs realpath cs" "[]"] by auto
      then have "r @ drop (length (absPath cs)) (absPath (cs @ c # us) @ z) = absPath (realSegs realpath cs @ c # us) @ z"
        using True by (simp add: absPath_def)
      then show ?thesis unfolding step segs by (intro exI [of _ "[]"]) simp
    next
      case False
      then have "drop (length (absPath cs)) (absPath (cs @ c # us) @ z) = absPath (c # us) @ z"
        by (simp add: absPath_append)
      then show ?thesis unfolding step segs r
        by (cases "realSegs realpath cs = []") (auto simp: absPath_append)
    qed
  next
    case None
    have "absPath cs \<noteq> absPath (cs @ [c])" using absPath_inj [of cs "cs @ [c]"] snoc.prems(1) by simp
    then have "ancestorPath realpath cwd (absPath ((cs @ [c]) @ us) @ z) (absPath (cs @ [c])) =
        ancestorPath realpath cwd (absPath (cs @ c # us) @ z) (absPath cs)"
      by (simp add: ancestorPath.simps [of _ _ _ "absPath (cs @ [c])"] dir None)
    then show ?thesis using snoc.IH [of "c # us"] snoc.prems(1) None segs by simp
  qed
qed

text \<open>A path that passes the check, with or without a separator at its end, has its real segments below the root.\<close>

lemma abs_prefix_sep:
  assumes "clean ss" "clean rs" "absPath ss @ z = absPath rs @ slash # t" "z = [] \<or> z = [slash]"
  shows "prefix rs ss"
proof (cases "z = [] \<or> t = []")
  case True
  then have "absPath ss = absPath rs \<or> absPath ss = absPath rs @ slash # t" using assms(3,4) by auto
  then have "inside (absPath ss) (absPath rs) \<or> rs = []"
    by (auto simp: inside_def rootPrefix_absPath [OF assms(2)] startsWith_iff)
  then show ?thesis using abs_within [OF assms(1,2)] by auto
next
  case False
  then have z: "z = [slash]" using assms(4) by blast
  have "butlast (absPath ss @ z) = butlast (absPath rs @ slash # t)" using assms(3) by simp
  then have "absPath ss = absPath rs @ slash # butlast t"
    using False z by (simp add: butlast_append)
  then have "inside (absPath ss) (absPath rs) \<or> rs = []"
    by (auto simp: inside_def rootPrefix_absPath [OF assms(2)] startsWith_iff)
  then show ?thesis using abs_within [OF assms(1,2)] by auto
qed

lemma contained_sound:
  assumes "clean ts" "clean ws" "realpath (absPath ws) = Some (absPath rs)" "clean rs"
    and "z = [] \<or> z = [slash] \<and> ts \<noteq> []" "\<And>r. realpath (absPath ts @ z) = realpath (absPath ts)"
    and "validateContainedPath realpath cwd (absPath ts @ z) (absPath ws) = None"
  shows "prefix rs (realSegs realpath ts)"
proof (cases "rs = []")
  case False
  let ?S = "realSegs realpath ts"
  have clean: "clean ?S" using clean_realSegs [OF assms(1)] .
  define n where "n = (case realpath (absPath ts @ z) of Some r \<Rightarrow> r
    | None \<Rightarrow> ancestorPath realpath cwd (absPath ts @ z) (absPath ts @ z))"
  have "startsWith n (absPath rs @ [slash]) \<or> n = absPath rs"
    using assms(3,7) unfolding validateContainedPath_def Let_def n_def by (simp split: if_splits)
  then obtain u where u: "n = absPath rs @ u" "u = [] \<or> (\<exists>t. u = slash # t)"
    unfolding startsWith_iff by fastforce
  have "\<exists>p z'. n = p @ absPath ?S @ z' \<and> (p = [] \<or> p = [slash]) \<and> (z' = [] \<or> z' = [slash])"
  proof (cases "realpath (absPath ts)")
    case (Some r)
    then have "n = absPath ?S" using realSegs_exists(2) [OF assms(1) Some] assms(6) by (simp add: n_def)
    then show ?thesis by (intro exI [of _ "[]"]) simp
  next
    case None
    have "ts \<noteq> []" using None real_root by auto
    then obtain cs c where ts: "ts = cs @ [c]" by (cases ts rule: rev_cases) auto
    have dir: "dirname (absPath ts @ z) = dirname (absPath ts)"
      using assms(5) dirname_trailing by auto
    have up: "dirname (absPath ts) \<noteq> absPath ts @ z" "dirname (absPath ts) \<noteq> absPath ts"
    proof -
      have "length (dirname (absPath ts)) < length (absPath ts)"
        unfolding dirname_absPath [OF assms(1)] using assms(1) ts
        by (simp add: absPath_snoc) (auto simp: cleanSeg_def)
      then show "dirname (absPath ts) \<noteq> absPath ts @ z" "dirname (absPath ts) \<noteq> absPath ts" by auto
    qed
    have "ancestorPath realpath cwd (absPath ts @ z) (absPath ts @ z) = ancestorPath realpath cwd (absPath ts @ z) (absPath ts)"
      using up unfolding ancestorPath.simps [of _ _ _ "absPath ts @ z"] ancestorPath.simps [of _ _ _ "absPath ts"] dir
      by (simp split: option.split)
    then have "n = ancestorPath realpath cwd (absPath (ts @ []) @ z) (absPath ts)"
      using None assms(6) by (simp add: n_def)
    moreover obtain p where "p = [] \<or> p = [slash]"
        "ancestorPath realpath cwd (absPath (ts @ []) @ z) (absPath ts) = p @ absPath (?S @ []) @ z"
      using ancestorPath_absPath [of ts "[]" cwd z] assms(1) None by auto
    ultimately show ?thesis using assms(5) by auto
  qed
  then obtain p z' where p: "n = p @ absPath ?S @ z'" "p = [] \<or> p = [slash]" "z' = [] \<or> z' = [slash]"
    by blast
  note n = p(1) [unfolded u(1), symmetric] u(2) p(2,3)
  have "p = []" using n(1,3) double_slash [OF assms(4) False] by (auto simp: absPath_def [of ?S])
  then have eq: "absPath ?S @ z' = absPath rs @ u" using n(1) by simp
  show ?thesis
  proof (cases "u = []")
    case True
    have "z' = []" using n(4) eq True absPath_last [OF assms(4) False] by (metis last_snoc append_Nil2)
    then show ?thesis using eq True absPath_inj [OF clean assms(4)] by simp
  next
    case False
    then show ?thesis using n(2) eq abs_prefix_sep [OF clean assms(4) _ n(4)] by blast
  qed
qed simp

end

section \<open>Outputs\<close>

lemma validateRelativePath_None:
  "validateRelativePath p = None \<longleftrightarrow> \<not> startsWith p [slash] \<and> ''..'' \<notin> set (splitOn slash p) \<and> trim p \<noteq> []"
  by (simp add: validateRelativePath_def)

lemma relative_not_Nil: "validateRelativePath p = None \<Longrightarrow> p \<noteq> []"
  by (auto simp: validateRelativePath_None trim_Nil_iff)

lemma splitOn_trailing: "clean ss \<Longrightarrow> splitOn slash (absPath ss @ [slash]) = [] # (if ss = [] then [[]] else ss) @ [[]]"
  using splitOn_append_sep [of slash "absPath ss" "[]"] by (simp add: splitOn_absPath)

lemma resolveSegs_trailing: "clean ss \<Longrightarrow> resolveSegs cwd [absPath ss @ [slash]] = ss"
proof -
  assume c: "clean ss"
  have "isAbsolute (absPath ss @ [slash])" by (simp add: isAbsolute_def startsWith_def absPath_def)
  then show ?thesis using c by (simp add: resolveSegs_def splitOn_trailing normSegs_append normSegs_id)
qed

lemma realpathSync_trailing: "clean ss \<Longrightarrow> realpathSync t cwd (absPath ss @ [slash]) = realpathSync t cwd (absPath ss)"
  by (simp add: realpathSync_def resolveSegs_trailing path_simps)

lemma write_trailing: "clean ss \<Longrightarrow> writeFileSync t (absPath ss @ [slash]) c = None"
proof (cases "walk t True MAXSYMLINKS [] (splitOn slash (absPath ss @ [slash]))")
  case (Some q)
  assume c: "clean ss"
  have "walk t True MAXSYMLINKS [] (ss @ [[]]) = Some q"
    using Some c by (cases "ss = []") (simp_all add: splitOn_trailing)
  then have "realDir t q"
    by (rule walk_trailing) (use c in \<open>auto simp: list_all_iff cleanSeg_def\<close>)
  then show ?thesis using Some by (auto simp: writeFileSync_def realDir_def)
qed (simp add: writeFileSync_def)

lemma contained_tree:
  assumes "clean ws" "realpathSync t cwd (absPath ws) = Some (absPath rs)" "clean rs" "validateRelativePath rel = None"
    and "validateContainedPath (realpathSync t cwd) cwd (joinPaths [absPath ws, rel]) (absPath ws) = None"
  shows "prefix rs (realSegs (realpathSync t cwd) (ws @ relSegs rel))"
proof -
  have rel: "rel \<noteq> []" "''..'' \<notin> set (splitOn slash rel)"
    using assms(4) relative_not_Nil by (auto simp: validateRelativePath_None)
  then have clean: "clean (ws @ relSegs rel)" using assms(1) clean_relSegs by simp
  show ?thesis
    by (rule fsTree.contained_sound [OF clean assms(1,2,3) _ _ assms(5) [unfolded joinPaths_rel [OF assms(1) rel]]])
      (use clean realpathSync_trailing [OF clean] in auto)
qed

text \<open>What a sequence of copies may change: below \<open>rs\<close>, new directories and files whose text is \<open>ok\<close>.\<close>

definition confined :: "string list \<Rightarrow> (string \<Rightarrow> bool) \<Rightarrow> fileTree \<Rightarrow> fileTree \<Rightarrow> bool" where
  "confined rs ok t t' = (\<forall>q. t' q = t q \<or> prefix rs q \<and>
     (t q = None \<and> t' q = Some DirNode \<or> (\<exists>c. t' q = Some (FileNode c) \<and> ok c)))"

definition noLinks :: "string list \<Rightarrow> fileTree \<Rightarrow> bool" where
  "noLinks rs t = (\<forall>q l. prefix rs q \<longrightarrow> t q \<noteq> Some (LinkNode l))"

lemma confined_refl [simp]: "confined rs ok t t"
  by (simp add: confined_def)

lemma confined_trans:
  assumes "confined rs ok t u" "confined rs ok u v"
  shows "confined rs ok t v"
  unfolding confined_def
proof
  fix q
  show "v q = t q \<or> prefix rs q \<and> (t q = None \<and> v q = Some DirNode \<or> (\<exists>c. v q = Some (FileNode c) \<and> ok c))"
    using assms [unfolded confined_def, rule_format, of q] by auto
qed

lemma confined_noLinks: "confined rs ok t u \<Longrightarrow> noLinks rs t \<Longrightarrow> noLinks rs u"
  unfolding confined_def noLinks_def by (metis node.distinct(3,5) option.inject)

lemma confined_mono: "confined rs ok t u \<Longrightarrow> (\<And>c. ok c \<Longrightarrow> ok' c) \<Longrightarrow> confined rs ok' t u"
  unfolding confined_def by blast

lemma read_unchanged:
  assumes "grows t u" "\<And>q. u q \<noteq> t q \<Longrightarrow> t q = None" "readFileSync t p = Some c"
  shows "readFileSync u p = Some c"
proof -
  obtain q where "locate t p = Some q" "t q = Some (FileNode c)"
    using assms(3) by (auto simp: readFileSync_def split: option.splits node.splits)
  moreover have "u q = t q" using assms(2) [of q] calculation(2) by auto
  moreover have "locate u p = Some q" using calculation(1) walk_grows [OF _ assms(1)] by (simp add: locate_def)
  ultimately show ?thesis by (simp add: readFileSync_def)
qed

lemma copyFile_tree:
  assumes "copyFile privileged d src dst = Some d'"
  obtains c where "readFileSync (dkTree d) src = Some c" "writeFileSync (dkTree d) dst c = Some (dkTree d')"
  using assms unfolding copyFile_def copyFileSync_def
  by (cases "readFileSync (dkTree d) src") (auto split: option.splits if_splits)

text \<open>The outcomes of one copyback without interference.\<close>

definition quiet :: "disk \<Rightarrow> disk" where
  "quiet d = d"

lemma copyback_outcome:
  fixes out :: workspaceOutput
  assumes "copybackSingleOutput cwd privileged quiet out scratchDir workspaceDir secrets d = (r, d')"
  defines "wfile \<equiv> joinPaths [workspaceDir, woWorkspacePath out]"
    and "sfile \<equiv> joinPaths [scratchDir, woScratchPath out]"
  obtains (unchanged) "d' = d" "\<not> crSuccess r"
  | (dirs) t1 where "checkOutput cwd out scratchDir workspaceDir (dkTree d) = None"
      "mkdirSync (dkTree d) cwd (dirname wfile) = Some t1" "dkTree d' = t1" "\<not> crSuccess r"
  | (copied) t1 c c' where "checkOutput cwd out scratchDir workspaceDir (dkTree d) = None"
      "readFileSync (dkTree d) sfile = Some c" "scanSafe (basename (woScratchPath out)) c secrets"
      "mkdirSync (dkTree d) cwd (dirname wfile) = Some t1"
      "readFileSync t1 sfile = Some c'" "writeFileSync t1 wfile c' = Some (dkTree d')" "crSuccess r"
proof (cases "checkOutput cwd out scratchDir workspaceDir (dkTree d)")
  case (Some e)
  then show ?thesis using assms(1) unchanged by (auto simp: copybackSingleOutput_def Let_def refused_def)
next
  case None
  note run = assms(1) [unfolded copybackSingleOutput_def Let_def None option.case]
  show ?thesis
  proof (cases "readFileSync (dkTree d) sfile")
    case None
    then show ?thesis using run unchanged by (auto simp: sfile_def refused_def)
  next
    case (Some c)
    show ?thesis
    proof (cases "scanSafe (basename (woScratchPath out)) c secrets")
      case False
      then show ?thesis using run Some unchanged by (auto simp: sfile_def refused_def scanSafe_def)
    next
      case True
      note run = run [unfolded Some [unfolded sfile_def] option.case quiet_def]
      show ?thesis
      proof (cases "mkdirSync (dkTree d) cwd (dirname wfile)")
        case None
        then show ?thesis using run True unchanged by (auto simp: wfile_def mkdirDisk_def refused_def scanSafe_def)
      next
        case (Some t1)
        then have mk: "mkdirDisk d cwd (dirname (joinPaths [workspaceDir, woWorkspacePath out])) = Some (d\<lparr>dkTree := t1\<rparr>)"
          by (simp add: wfile_def mkdirDisk_def)
        show ?thesis
        proof (cases "copyFile privileged (d\<lparr>dkTree := t1\<rparr>) sfile wfile")
          case None
          then show ?thesis using run True mk dirs [OF \<open>checkOutput _ _ _ _ _ = None\<close> Some]
            by (simp add: wfile_def sfile_def refused_def scanSafe_def) (auto simp: refused_def)
        next
          case (Some d3)
          then obtain c' where "readFileSync t1 sfile = Some c'" "writeFileSync t1 wfile c' = Some (dkTree d3)"
            using copyFile_tree [OF Some] by auto
          then show ?thesis
            using run True mk Some copied [OF \<open>checkOutput _ _ _ _ _ = None\<close> \<open>readFileSync _ _ = Some c\<close> True
                \<open>mkdirSync _ _ _ = Some t1\<close>]
            by (auto simp: wfile_def sfile_def scanSafe_def)
        qed
      qed
    qed
  qed
qed

section \<open>Confinement of the copies\<close>

lemma checkOutput_target:
  assumes "checkOutput cwd out scratchDir (absPath ws) t = None" "clean ws"
    and "realpathSync t cwd (absPath ws) = Some (absPath rs)" "clean rs"
  shows "validateRelativePath (woWorkspacePath out) = None"
    "prefix rs (realSegs (realpathSync t cwd) (ws @ relSegs (woWorkspacePath out)))"
proof -
  show v: "validateRelativePath (woWorkspacePath out) = None"
    using assms(1) by (simp add: checkOutput_def Let_def split: option.splits)
  show "prefix rs (realSegs (realpathSync t cwd) (ws @ relSegs (woWorkspacePath out)))"
    by (rule contained_tree [OF assms(2,3,4) v])
      (use assms(1) in \<open>simp add: checkOutput_def Let_def split: option.splits\<close>)
qed

lemma target_path:
  assumes "clean ws" "validateRelativePath rel = None"
  obtains z where "joinPaths [absPath ws, rel] = absPath (ws @ relSegs rel) @ z" "z = [] \<or> z = [slash]"
    "dirname (joinPaths [absPath ws, rel]) = absPath (butlast (ws @ relSegs rel))" "clean (ws @ relSegs rel)"
proof -
  have rel: "rel \<noteq> []" "''..'' \<notin> set (splitOn slash rel)"
    using assms(2) relative_not_Nil by (auto simp: validateRelativePath_None)
  have clean: "clean (ws @ relSegs rel)" using assms(1) clean_relSegs [OF rel(2)] by simp
  note j = joinPaths_rel [OF assms(1) rel]
  have "dirname (joinPaths [absPath ws, rel]) = absPath (butlast (ws @ relSegs rel))"
    unfolding j using dirname_absPath [OF clean] by (simp add: dirname_trailing)
  then show ?thesis by (intro that [OF j _ _ clean]) simp_all
qed

text \<open>Making the parent directories, and then writing, stays below the root.\<close>

lemma made_confined:
  assumes "treeWf t" "clean ts" "mkdirSync t cwd (absPath (butlast ts)) = Some t1" "realDir t rs"
    and "prefix rs (realSegs (realpathSync t cwd) ts)"
  shows "treeWf t1 \<and> grows t t1 \<and> confined rs ok t t1 \<and> (\<forall>q. t1 q \<noteq> t q \<longrightarrow> t q = None)"
proof (cases ts rule: rev_cases)
  case Nil
  then have "t1 = t" using assms(3) mkdirSync_def [of t cwd "absPath []"] resolve_absPath [of "[]" cwd] by simp
  then show ?thesis using assms(1) by simp
next
  case (snoc ss s)
  then have mk: "mkdirSync t cwd (absPath ss) = Some t1" and c: "clean (ss @ [s])" using assms(2,3) by simp_all
  then have "treeWf t1" "grows t t1" using parent_made [OF assms(1) _ mk] by auto
  moreover have "prefix rs p \<and> t p = None \<and> t1 p = Some DirNode" if "t1 p \<noteq> t p" for p
    using made_above [OF assms(1) c mk that] made_inside [OF assms(1) c mk that assms(4)] assms(5) snoc by blast
  ultimately show ?thesis unfolding confined_def by blast
qed

lemma written_confined:
  assumes "treeWf t" "clean ts" "z = [] \<or> z = [slash]" "mkdirSync t cwd (absPath (butlast ts)) = Some t1"
    and "writeFileSync t1 (absPath ts @ z) c = Some t2" "realDir t rs" "noLinks rs t"
    and "prefix rs (realSegs (realpathSync t cwd) ts)" "ok c"
  shows "treeWf t2 \<and> grows t t2 \<and> confined rs ok t t2"
proof -
  have z: "z = []" using assms(3,5) write_trailing [OF assms(2)] by auto
  show ?thesis
  proof (cases ts rule: rev_cases)
    case Nil
    then show ?thesis using assms(5) z walk_absPath [of "[]"] by (simp add: writeFileSync_def)
  next
    case (snoc ss s)
    let ?q = "realSegs (realpathSync t cwd) (ss @ [s])"
    have mk: "mkdirSync t cwd (absPath ss) = Some t1" and c: "clean (ss @ [s])"
      and wr: "writeFileSync t1 (absPath (ss @ [s])) c = Some t2" using assms(2,4,5) snoc z by simp_all
    have nl: "t ?q \<noteq> Some (LinkNode l)" for l using assms(7,8) snoc unfolding noLinks_def by blast
    have w: "t2 = t1(?q \<mapsto> FileNode c)" "treeWf t2" "grows t t2"
      using target_written [OF assms(1) c mk wr nl] grows_trans by blast+
    have "confined rs ok t1 t2" unfolding w(1) confined_def using assms(8,9) snoc by auto
    then show ?thesis
      using w made_confined [OF assms(1,2,4,6,8), of ok] confined_trans by blast
  qed
qed

lemma copyback_step:
  assumes "treeWf (dkTree d)" "clean ws" "realpathSync (dkTree d) cwd (absPath ws) = Some (absPath rs)" "realDir (dkTree d) rs"
    and "noLinks rs (dkTree d)"
    and "copybackSingleOutput cwd privileged quiet out scratchDir (absPath ws) secrets d = (r, d')"
  shows "treeWf (dkTree d') \<and> grows (dkTree d) (dkTree d') \<and>
    confined rs (\<lambda>c. scanSafe (basename (woScratchPath out)) c secrets) (dkTree d) (dkTree d')"
  using assms(6)
proof (cases rule: copyback_outcome)
  case unchanged
  then show ?thesis using assms(1) by simp
next
  case (dirs t1)
  have clean: "clean rs" using assms(4) by (simp add: realDir_def)
  note tgt = checkOutput_target [OF dirs(1) assms(2,3) clean]
  obtain z where "dirname (joinPaths [absPath ws, woWorkspacePath out]) = absPath (butlast (ws @ relSegs (woWorkspacePath out)))"
      "clean (ws @ relSegs (woWorkspacePath out))"
    using target_path [OF assms(2) tgt(1)] by blast
  then show ?thesis using made_confined [OF assms(1) _ _ assms(4) tgt(2)] dirs(2,3) by simp
next
  case (copied t1 c c')
  have clean: "clean rs" using assms(4) by (simp add: realDir_def)
  note tgt = checkOutput_target [OF copied(1) assms(2,3) clean]
  obtain z where z: "joinPaths [absPath ws, woWorkspacePath out] = absPath (ws @ relSegs (woWorkspacePath out)) @ z"
      "z = [] \<or> z = [slash]" and cl: "clean (ws @ relSegs (woWorkspacePath out))"
      and mk: "mkdirSync (dkTree d) cwd (absPath (butlast (ws @ relSegs (woWorkspacePath out)))) = Some t1"
    using target_path [OF assms(2) tgt(1)] copied(4) by metis
  have m: "grows (dkTree d) t1" "\<And>q. t1 q \<noteq> dkTree d q \<Longrightarrow> dkTree d q = None"
    using made_confined [OF assms(1) cl mk assms(4) tgt(2)] by blast+
  have "c' = c" using read_unchanged [OF m copied(2)] copied(5) by simp
  then show ?thesis
    using written_confined [OF assms(1) cl z(2) mk _ assms(4,5) tgt(2)] copied(3,6) z(1) by simp
qed

lemma realpath_grows:
  assumes "grows t u" "clean ss" "realpathSync t cwd (absPath ss) = Some r"
  shows "realpathSync u cwd (absPath ss) = Some r"
proof -
  obtain q where "walk t False MAXSYMLINKS [] ss = Some q" "r = absPath q"
    using assms(2,3) by (auto simp: realpathSync_absPath)
  moreover from this(1) have "walk u False MAXSYMLINKS [] ss = Some q" using assms(1) by (rule walk_grows)
  ultimately show ?thesis using assms(2) by (simp add: realpathSync_absPath)
qed

lemma copyback_loop:
  assumes "treeWf (dkTree d)" "clean ws" "realpathSync (dkTree d) cwd (absPath ws) = Some (absPath rs)" "realDir (dkTree d) rs"
    and "noLinks rs (dkTree d)"
    and "copybackLoop cwd privileged quiet scratchDir (absPath ws) secrets outs d = (r, d')"
  shows "confined rs (\<lambda>c. \<exists>out \<in> set outs. scanSafe (basename (woScratchPath out)) c secrets) (dkTree d) (dkTree d')"
  using assms
proof (induction outs arbitrary: d r)
  case (Cons out outs)
  obtain r1 d1 where one: "copybackSingleOutput cwd privileged quiet out scratchDir (absPath ws) secrets d = (r1, d1)" by fastforce
  then obtain rs' where rest: "copybackLoop cwd privileged quiet scratchDir (absPath ws) secrets outs d1 = (rs', d')"
    using Cons.prems(6) by (auto split: prod.splits)
  note step = copyback_step [OF Cons.prems(1-5) one]
  have root: "realpathSync (dkTree d1) cwd (absPath ws) = Some (absPath rs)"
    using realpath_grows [OF _ Cons.prems(2,3)] step by blast
  let ?ok = "\<lambda>c. \<exists>o' \<in> set (out # outs). scanSafe (basename (woScratchPath o')) c secrets"
  have "treeWf (dkTree d1)" "realDir (dkTree d1) rs" "noLinks rs (dkTree d1)"
    using step Cons.prems(4,5) realDir_grows confined_noLinks by blast+
  note tail = Cons.IH [OF this(1) Cons.prems(2) root this(2,3) rest]
  have "confined rs ?ok (dkTree d1) (dkTree d')" by (rule confined_mono [OF tail]) auto
  moreover have "confined rs ?ok (dkTree d) (dkTree d1)"
    by (rule confined_mono [of rs "\<lambda>c. scanSafe (basename (woScratchPath out)) c secrets"]) (use step in auto)
  ultimately show ?case using confined_trans by blast
qed simp

section \<open>Inputs\<close>

lemma walk_no_links:
  "walk t False n d us = Some q \<Longrightarrow> noLinks rs t \<Longrightarrow> prefix rs d \<Longrightarrow> clean us \<Longrightarrow> q = d @ us"
proof (induction us arbitrary: d)
  case (Cons u us)
  then have u: "u \<noteq> []" "u \<noteq> ''.''" "u \<noteq> ''..''" by (simp_all add: cleanSeg_def)
  have p: "prefix rs (d @ [u])" using Cons.prems(3) by (simp add: prefix_def) (metis append.assoc)
  then have nl: "t (d @ [u]) \<noteq> Some (LinkNode l)" for l using Cons.prems(2) by (auto simp: noLinks_def)
  show ?case
  proof (cases "t (d @ [u]) = Some DirNode")
    case True
    then have "walk t False n (d @ [u]) us = Some q" using Cons.prems(1) u by simp
    then show ?thesis using Cons.IH [OF _ Cons.prems(2) p] Cons.prems(4) by simp
  qed (use Cons.prems(1) u nl in \<open>auto split: option.splits node.splits if_splits\<close>)
qed simp

text \<open>Below a real directory without links the real segments are the segments.\<close>

lemma realSegs_no_links:
  assumes "realDir t d" "noLinks d t" "clean (d @ us)"
  shows "realSegs (realpathSync t cwd) (d @ us) = d @ us"
  using assms(3)
proof (induction us rule: rev_induct)
  case Nil
  then show ?case using realSegs_walk [OF _ walk_self] assms(1) realDir_node by simp
next
  case (snoc u us)
  show ?case
  proof (cases "walk t False MAXSYMLINKS [] (d @ us @ [u])")
    case None
    then have "realpathSync t cwd (absPath ((d @ us) @ [u])) = None"
      using snoc.prems by (simp add: realpathSync_absPath)
    from fsTree.realSegs_missing [OF this] show ?thesis using snoc by simp
  next
    case (Some q)
    obtain m where "walk t False MAXSYMLINKS [] (d @ us @ [u]) = walk t False m d (us @ [u])"
      using walk_continue [OF walk_self [OF realDir_node [OF assms(1)]] assms(1)] by blast
    then have "q = d @ us @ [u]"
      using Some walk_no_links [OF _ assms(2), of m d "us @ [u]" q] snoc.prems by simp
    then show ?thesis using realSegs_walk Some snoc.prems by metis
  qed
qed

text \<open>
  What holds of the disk while the inputs \<open>is\<close> have been staged into the scratch directory \<open>sd\<close> from the
  workspace with real segments \<open>rs\<close>, starting from the tree \<open>t\<close>.
\<close>

definition stagedInv :: "fileTree \<Rightarrow> string list \<Rightarrow> string list \<Rightarrow> string list \<Rightarrow> disk \<Rightarrow> bool" where
  "stagedInv t sd rs is d =
    (treeWf (dkTree d) \<and> grows t (dkTree d) \<and> (\<forall>q. dkTree d q \<noteq> t q \<longrightarrow> prefix sd q) \<and>
     realDir (dkTree d) sd \<and> noLinks sd (dkTree d) \<and>
     (\<forall>q c. prefix sd q \<longrightarrow> dkTree d q = Some (FileNode c) \<longrightarrow>
        dkMode d q = 292 \<and> (\<exists>p. prefix rs p \<and> t p = Some (FileNode c))) \<and>
     (\<forall>i \<in> set is. \<exists>c. dkTree d (sd @ relSegs i) = Some (FileNode c)))"

lemma stageInput_steps:
  assumes "stageInput cwd privileged ws sdir i d = Inr d'"
  obtains t1 c t2 q where "validateRelativePath i = None"
    "validateContainedPath (realpathSync (dkTree d) cwd) cwd (joinPaths [ws, i]) ws = None"
    "existsSync (dkTree d) (joinPaths [ws, i])"
    "mkdirSync (dkTree d) cwd (dirname (joinPaths [sdir, i])) = Some t1"
    "readFileSync t1 (joinPaths [ws, i]) = Some c" "writeFileSync t1 (joinPaths [sdir, i]) c = Some t2"
    "dkTree d' = t2" "walk t1 True MAXSYMLINKS [] (splitOn slash (joinPaths [sdir, i])) = Some q"
    "\<exists>m q'. locate t2 (joinPaths [sdir, i]) = Some q' \<and> dkMode d' = (dkMode d)(q := m, q' := 292)"
proof -
  from assms obtain d1 where s: "validateRelativePath i = None"
    "validateContainedPath (realpathSync (dkTree d) cwd) cwd (joinPaths [ws, i]) ws = None"
    "existsSync (dkTree d) (joinPaths [ws, i])" and d1: "mkdirDisk d cwd (dirname (joinPaths [sdir, i])) = Some d1"
    and b: "Option.bind (copyFile privileged d1 (joinPaths [ws, i]) (joinPaths [sdir, i]))
      (\<lambda>d2. chmodSync d2 (joinPaths [sdir, i]) 292) = Some d'"
    unfolding stageInput_def Let_def by (auto split: option.splits if_splits)
  from b obtain d2 where d2: "copyFile privileged d1 (joinPaths [ws, i]) (joinPaths [sdir, i]) = Some d2"
    and ch: "chmodSync d2 (joinPaths [sdir, i]) 292 = Some d'" by (auto simp: Option.bind_eq_Some_conv)
  obtain c where c: "readFileSync (dkTree d1) (joinPaths [ws, i]) = Some c"
    "writeFileSync (dkTree d1) (joinPaths [sdir, i]) c = Some (dkTree d2)"
    using copyFile_tree [OF d2] by blast
  obtain q m where q: "walk (dkTree d1) True MAXSYMLINKS [] (splitOn slash (joinPaths [sdir, i])) = Some q"
    "dkMode d2 = (dkMode d1)(q := m)"
    using d2 unfolding copyFile_def by (auto split: option.splits if_splits)
  obtain t1 where t1: "mkdirSync (dkTree d) cwd (dirname (joinPaths [sdir, i])) = Some t1" "d1 = d\<lparr>dkTree := t1\<rparr>"
    using d1 by (auto simp: mkdirDisk_def)
  obtain q' where q': "locate (dkTree d2) (joinPaths [sdir, i]) = Some q'" "d' = d2\<lparr>dkMode := (dkMode d2)(q' := 292)\<rparr>"
    using ch by (auto simp: chmodSync_def)
  show thesis
    by (rule that [OF s t1(1) _ _ _ _ exI [of _ m], of c "dkTree d2" q]) (use c q q' t1(2) in simp_all)
qed

lemma stage_step:
  assumes inv: "stagedInv t sd rs is d" and sd: "sd \<noteq> []"
    and ws: "clean ws" "realpathSync t cwd (absPath ws) = Some (absPath rs)" "clean rs"
    and apart: "\<not> prefix rs sd" "\<not> prefix sd rs"
    and run: "stageInput cwd privileged (absPath ws) (absPath sd) i d = Inr d'"
  shows "stagedInv t sd rs (is @ [i]) d'"
proof -
  let ?t = "dkTree d" and ?T = "sd @ relSegs i"
  obtain t1 c t2 w where st: "validateRelativePath i = None"
    "validateContainedPath (realpathSync ?t cwd) cwd (joinPaths [absPath ws, i]) (absPath ws) = None"
    "existsSync ?t (joinPaths [absPath ws, i])"
    "mkdirSync ?t cwd (dirname (joinPaths [absPath sd, i])) = Some t1"
    "readFileSync t1 (joinPaths [absPath ws, i]) = Some c" "writeFileSync t1 (joinPaths [absPath sd, i]) c = Some t2"
    "dkTree d' = t2" "walk t1 True MAXSYMLINKS [] (splitOn slash (joinPaths [absPath sd, i])) = Some w"
    "\<exists>m q'. locate t2 (joinPaths [absPath sd, i]) = Some q' \<and> dkMode d' = (dkMode d)(w := m, q' := 292)"
    using stageInput_steps [OF run] by metis
  have i: "treeWf ?t" "grows t ?t" "\<And>q. ?t q \<noteq> t q \<Longrightarrow> prefix sd q" "realDir ?t sd" "noLinks sd ?t"
    "\<And>q c. prefix sd q \<Longrightarrow> ?t q = Some (FileNode c) \<Longrightarrow> dkMode d q = 292 \<and> (\<exists>p. prefix rs p \<and> t p = Some (FileNode c))"
    "\<And>j. j \<in> set is \<Longrightarrow> \<exists>c. ?t (sd @ relSegs j) = Some (FileNode c)"
    using inv unfolding stagedInv_def by blast+
  have rel: "i \<noteq> []" "''..'' \<notin> set (splitOn slash i)"
    using st(1) relative_not_Nil by (auto simp: validateRelativePath_None)
  have csd: "clean sd" using i(4) by (simp add: realDir_def)
  have clean: "clean ?T" "clean (ws @ relSegs i)" using ws(1) csd clean_relSegs [OF rel(2)] by simp_all
  note dst = joinPaths_rel [OF csd rel] and src = joinPaths_rel [OF ws(1) rel]
  have nz: "last i \<noteq> slash"
    using st(6) sd write_trailing [OF clean(1)] unfolding dst by (auto split: if_splits)
  have paths: "joinPaths [absPath sd, i] = absPath ?T" "joinPaths [absPath ws, i] = absPath (ws @ relSegs i)"
    using dst src nz by simp_all
  obtain ss s where T: "?T = ss @ [s]" using sd by (cases ?T rule: rev_cases) auto
  have real: "realSegs (realpathSync ?t cwd) ?T = ?T" by (rule realSegs_no_links [OF i(4,5) clean(1)])
  have mk: "mkdirSync ?t cwd (absPath ss) = Some t1"
    using st(4) dirname_absPath [OF clean(1)] T by (simp add: paths)
  have wr: "writeFileSync t1 (absPath (ss @ [s])) c = Some t2" using st(6) T by (simp add: paths)
  have cT: "clean (ss @ [s])" using clean(1) T by simp
  have nl: "?t (realSegs (realpathSync ?t cwd) (ss @ [s])) \<noteq> Some (LinkNode l)" for l
  proof -
    have "prefix sd ?T" by simp
    then show ?thesis using i(5) unfolding noLinks_def real [unfolded T] T by blast
  qed
  have tw: "walk t1 True MAXSYMLINKS [] (ss @ [s]) = Some ?T" "t2 = t1(?T \<mapsto> FileNode c)" "treeWf t2" "grows ?t t1" "grows t1 t2"
    "\<And>p. t1 p \<noteq> ?t p \<Longrightarrow> ?t p = None \<and> t1 p = Some DirNode"
    using target_written [OF i(1) cT mk wr nl] unfolding real [unfolded T] T by blast+
  have below: "prefix sd p" if "t1 p \<noteq> ?t p" for p
  proof -
    have "prefix sd ?T" by simp
    then show ?thesis using made_inside [OF i(1) cT mk that i(4)] unfolding real [unfolded T] T by blast
  qed
  have orig: "\<exists>p. prefix rs p \<and> t p = Some (FileNode c)"
  proof -
    obtain p where p: "walk ?t False MAXSYMLINKS [] (ws @ relSegs i) = Some p"
      using st(3) by (auto simp: paths existsSync_def locate_absPath [OF clean(2)])
    then have "locate t1 (absPath (ws @ relSegs i)) = Some p"
      using walk_grows [OF p tw(4)] by (simp add: locate_absPath [OF clean(2)])
    then have t1p: "t1 p = Some (FileNode c)"
      using st(5) by (simp add: paths readFileSync_def split: option.splits node.splits)
    have "realpathSync ?t cwd (absPath ws) = Some (absPath rs)" using realpath_grows [OF i(2) ws(1,2)] .
    from contained_tree [OF ws(1) this ws(3) st(1,2)] have pr: "prefix rs p"
      using realSegs_walk [OF clean(2) p] by simp
    have "\<not> prefix sd p" using apart prefix_same_cases [OF pr] by blast
    then have "t p = Some (FileNode c)" using below [of p] i(3) [of p] t1p by metis
    with pr show ?thesis by blast
  qed
  have conf: "grows ?t t2 \<and> confined sd (\<lambda>x. x = c) ?t t2"
    using written_confined [OF i(1) clean(1), of "[]" cwd t1 c t2 sd "\<lambda>x. x = c"] st(4,6) i(4,5) real dirname_absPath [OF clean(1)]
    by (simp add: paths)
  have nl2: "noLinks sd t2" using confined_noLinks conf i(5) by blast
  have "w = ?T" using st(8) tw(1) unfolding paths(1) T walk_absPath [OF cT] by simp
  moreover have "q' = ?T" if "locate t2 (joinPaths [absPath sd, i]) = Some q'" for q'
    using that realSegs_no_links [OF realDir_grows [OF i(4)] nl2 clean(1), of cwd] conf
      realSegs_walk [OF clean(1), of t2 q' cwd] by (simp add: paths locate_absPath [OF clean(1)])
  ultimately have mode: "dkMode d' = (dkMode d)(?T := 292)" using st(9) by auto
  have "dkMode d' q = 292 \<and> (\<exists>p. prefix rs p \<and> t p = Some (FileNode c'))"
    if "prefix sd q" "t2 q = Some (FileNode c')" for q c'
  proof (cases "q = ?T")
    case True
    then show ?thesis using orig that(2) tw(2) mode T by simp
  next
    case False
    then have "t1 q = Some (FileNode c')" using that(2) tw(2) T by simp
    then have "?t q = Some (FileNode c')" using tw(6) [of q] by (cases "t1 q = ?t q") auto
    then show ?thesis using i(6) [OF that(1)] mode False by simp
  qed
  moreover have "t2 q \<noteq> t q \<Longrightarrow> prefix sd q" for q
    using i(3) [of q] conf unfolding confined_def by metis
  moreover have "\<exists>c. t2 (sd @ relSegs j) = Some (FileNode c)" if "j \<in> set (is @ [i])" for j
  proof (cases "j = i")
    case True
    then show ?thesis using tw(2) by simp
  next
    case False
    then show ?thesis using that i(7) [of j] growsD(3) [of ?t t2] conf by auto
  qed
  ultimately show ?thesis
    using tw(3) conf grows_trans [OF i(2)] realDir_grows [OF i(4)] nl2 unfolding stagedInv_def st(7) by blast
qed

lemma stage_loop:
  assumes sd: "sd \<noteq> []" and ws: "clean ws" "realpathSync t cwd (absPath ws) = Some (absPath rs)" "clean rs"
    and apart: "\<not> prefix rs sd" "\<not> prefix sd rs"
  shows "stagedInv t sd rs as d \<Longrightarrow> stageLoop cwd privileged (absPath ws) (absPath sd) is as d = (r, d') \<Longrightarrow>
    (\<exists>as'. stagedInv t sd rs as' d') \<and> (\<forall>xs. r = Inr xs \<longrightarrow> xs = as @ is \<and> stagedInv t sd rs xs d')"
proof (induction "is" arbitrary: as d)
  case (Cons i "is")
  show ?case
  proof (cases "stageInput cwd privileged (absPath ws) (absPath sd) i d")
    case (Inr d1)
    then have "stageLoop cwd privileged (absPath ws) (absPath sd) is (as @ [i]) d1 = (r, d')" using Cons.prems(2) by simp
    from Cons.IH [OF stage_step [OF Cons.prems(1) sd ws apart Inr] this] show ?thesis by simp
  qed (use Cons.prems in auto)
qed auto


lemma none_below: "treeWf t \<Longrightarrow> t p = None \<Longrightarrow> p \<noteq> [] \<Longrightarrow> t (p @ us) = None"
proof (induction us rule: rev_induct)
  case (snoc u us)
  then show ?case using below_missing [of t "p @ us" u] by simp
qed simp

lemma joinPaths_seg: "clean bs \<Longrightarrow> cleanSeg u \<Longrightarrow> joinPaths [absPath bs, u] = absPath (bs @ [u])"
proof -
  assume c: "clean bs" "cleanSeg u"
  then have u: "u \<noteq> []" "u \<noteq> ''.''" "u \<noteq> ''..''" "slash \<notin> set u" by (simp_all add: cleanSeg_def)
  then have "splitOn slash u = [u]" by (simp add: splitOn_single)
  moreover have "last u \<noteq> slash" using u(1,4) last_in_set by metis
  ultimately show ?thesis using joinPaths_rel [OF c(1), of u] u by (simp add: relSegs_def)
qed

lemma scratch_made:
  assumes "treeWf (dkTree d)" "realDir (dkTree d) bs" "cleanSeg u" "dkTree d (bs @ [u]) = None"
    and "createScratchDir cwd (absPath bs) u d = Some (sdir, d1)"
  shows "sdir = absPath (bs @ [u]) \<and> stagedInv (dkTree d) (bs @ [u]) rs [] d1"
proof -
  let ?t = "dkTree d" and ?D = "bs @ [u]"
  have c: "clean bs" "clean ?D" using assms(2,3) by (simp_all add: realDir_def)
  obtain t1 where t1: "mkdirSync ?t cwd (absPath ?D) = Some t1" "d1 = d\<lparr>dkTree := t1\<rparr>" "sdir = absPath ?D"
    using assms(5) unfolding createScratchDir_def mkdirDisk_def joinPaths_seg [OF c(1) assms(3)]
    by (cases "mkdirSync ?t cwd (absPath ?D)") simp_all
  have "walk ?t False MAXSYMLINKS [] ?D = None"
    using walk_one [OF walk_self [OF realDir_node [OF assms(2)]] assms(2,3), of False] assms(4) by simp
  then have real: "realSegs (realpathSync ?t cwd) ?D = ?D"
    using realSegs_beyond [of bs "[u]" ?t bs cwd] walk_self [OF realDir_node [OF assms(2)]] c by simp
  have made: "treeWf t1" "grows ?t t1" "realDir t1 ?D"
    "\<And>q. t1 q \<noteq> ?t q \<Longrightarrow> q \<noteq> [] \<and> ?t q = None \<and> t1 q = Some DirNode \<and> prefix q ?D"
    using parent_made [OF assms(1) c(2) t1(1)] real by auto
  have only: "t1 q \<noteq> ?t q \<Longrightarrow> q = ?D" for q
    using made(4) [of q] assms(2) by (auto simp: realDir_def prefix_snoc)
  have below: "prefix ?D q \<Longrightarrow> ?t q = None" for q
    using none_below [OF assms(1,4)] by (auto simp: prefix_def)
  have "prefix ?D q \<Longrightarrow> t1 q = None \<or> t1 q = Some DirNode" for q
    using below [of q] made(4) [of q] by metis
  then have "noLinks ?D t1" "\<And>q c. prefix ?D q \<Longrightarrow> t1 q \<noteq> Some (FileNode c)"
    unfolding noLinks_def by fastforce+
  then show ?thesis using t1(2,3) made only unfolding stagedInv_def by auto
qed

lemma cleanup_restores:
  assumes "stagedInv t (bs @ [u]) rs as d" "treeWf t" "t (bs @ [u]) = None"
  shows "dkTree (cleanupScratchDir cwd (absPath (bs @ [u])) d) = t"
proof -
  have i: "realDir (dkTree d) (bs @ [u])" "\<And>q. dkTree d q \<noteq> t q \<Longrightarrow> prefix (bs @ [u]) q"
    using assms(1) unfolding stagedInv_def by blast+
  have "clean (bs @ [u])" "realDir (dkTree d) bs" using i(1) by (auto simp: realDir_def realDir_snoc)
  then have "dkTree (cleanupScratchDir cwd (absPath (bs @ [u])) d) = rmSync (dkTree d) (bs @ [u])"
    using walk_self [OF realDir_node, of "dkTree d" bs]
    by (simp add: cleanupScratchDir_def Let_def resolve_absPath)
  also have "\<dots> = t"
  proof
    fix q
    show "rmSync (dkTree d) (bs @ [u]) q = t q"
      using none_below [OF assms(2,3)] i(2) [of q] by (auto simp: rmSync_def prefix_def)
  qed
  finally show ?thesis .
qed

section \<open>Properties\<close>

text \<open>C17: Outputs stay in the workspace and carry no secret. When no other process interferes, whatever is
  declared and whatever the command left in the scratch directory, the copyback changes nothing
  outside the real workspace directory, as long as the workspace holds no symbolic link; what it
  changes are new directories and files whose text passed the scan under a declared name.\<close>

theorem copyback_confined:
  assumes "treeWf (dkTree d)" "clean ws" "scWorkspaceDir config = absPath ws"
    and "realpathSync (dkTree d) cwd (absPath ws) = Some (absPath rs)" "realDir (dkTree d) rs" "noLinks rs (dkTree d)"
    and "copybackOutputs cwd privileged quiet config scratchDir d = (r, d')" "dkTree d' q \<noteq> dkTree d q"
  shows "prefix rs q \<and> (dkTree d q = None \<and> dkTree d' q = Some DirNode \<or>
    (\<exists>c out. dkTree d' q = Some (FileNode c) \<and> out \<in> set (scOutputs config) \<and>
       scanSafe (basename (woScratchPath out)) c (scSecrets config)))"
proof -
  obtain rs' where "copybackLoop cwd privileged quiet scratchDir (absPath ws) (scSecrets config) (scOutputs config) d = (rs', d')"
    using assms(3,7) by (auto simp: copybackOutputs_def split: prod.splits)
  from copyback_loop [OF assms(1,2,4,5,6) this] show ?thesis
    using assms(8) unfolding confined_def by blast
qed

text \<open>C18: Staging is all or nothing. If it fails the file tree is what it was before, the scratch directory
  included. If it succeeds the new directory holds a read-only file for every declared input, every
  file in it has the text of a file below the real workspace directory, whatever links the workspace
  contains, and nothing outside the scratch directory has changed.\<close>

theorem staging_all_or_nothing:
  assumes "treeWf (dkTree d)" "realDir (dkTree d) bs" "cleanSeg uuid" "dkTree d (bs @ [uuid]) = None"
    and "clean ws" "scWorkspaceDir config = absPath ws"
    and "realpathSync (dkTree d) cwd (absPath ws) = Some (absPath rs)" "clean rs"
    and "\<not> prefix rs (bs @ [uuid])" "\<not> prefix (bs @ [uuid]) rs"
    and "stageInputs cwd privileged (absPath bs) uuid config d = (r, d')"
  shows "case r of
      Inl e \<Rightarrow> dkTree d' = dkTree d
    | Inr sw \<Rightarrow> swScratchDir sw = absPath (bs @ [uuid]) \<and> swStagedInputs sw = scInputs config \<and>
        (\<forall>q. dkTree d' q = dkTree d q \<or> prefix (bs @ [uuid]) q) \<and>
        (\<forall>i \<in> set (scInputs config). \<exists>c. dkTree d' (bs @ [uuid] @ relSegs i) = Some (FileNode c)) \<and>
        (\<forall>q c. prefix (bs @ [uuid]) q \<and> dkTree d' q = Some (FileNode c) \<longrightarrow>
           dkMode d' q = 292 \<and> (\<exists>p. prefix rs p \<and> dkTree d p = Some (FileNode c)))"
proof (cases "createScratchDir cwd (absPath bs) uuid d")
  case None
  then show ?thesis using assms(11) by (auto simp: stageInputs_def)
next
  case (Some x)
  obtain sdir d1 where x: "x = (sdir, d1)" by fastforce
  note made = scratch_made [OF assms(1-4) Some [unfolded x], of rs]
  obtain r1 d2 where loop: "stageLoop cwd privileged (absPath ws) (absPath (bs @ [uuid])) (scInputs config) [] d1 = (r1, d2)"
    by fastforce
  have inv: "\<exists>as. stagedInv (dkTree d) (bs @ [uuid]) rs as d2"
    "\<And>xs. r1 = Inr xs \<Longrightarrow> xs = scInputs config \<and> stagedInv (dkTree d) (bs @ [uuid]) rs xs d2"
    using stage_loop [OF _ assms(5,7,8,9,10) _ loop] made by auto
  show ?thesis
  proof (cases r1)
    case (Inl e)
    then show ?thesis using assms(11) Some x made loop inv(1) cleanup_restores [OF _ assms(1,4)]
      by (auto simp: stageInputs_def assms(6))
  next
    case (Inr xs)
    have r: "r = Inr \<lparr>swScratchDir = absPath (bs @ [uuid]), swStagedInputs = scInputs config\<rparr>" "d' = d2"
      using assms(11) Some x made loop inv(2) [OF Inr] Inr by (auto simp: stageInputs_def assms(6))
    show ?thesis using inv(2) [OF Inr] unfolding r stagedInv_def by auto
  qed
qed

definition ex_disk :: disk where
  "ex_disk = \<lparr>dkTree = (\<lambda>q. if q \<in> {[''ws''], [''s''], [''etc'']} then Some DirNode
      else if q = [''s'', ''f''] then Some (FileNode ''data'')
      else if q = [''ws'', ''link''] then Some (LinkNode ''/etc/new'') else None),
     dkMode = (\<lambda>_. 420)\<rparr>"

text \<open>The check that an output stays in the workspace follows links that lead to an existing file only. A
  link in the workspace to a place where no file exists yet passes it, and the copy then follows the
  link: the file is created outside the workspace, where the command and the assistant cannot write.\<close>

theorem dangling_link_escapes:
  "case copybackSingleOutput ''/'' False quiet \<lparr>woScratchPath = ''f'', woWorkspacePath = ''link''\<rparr> ''/s'' ''/ws'' [] ex_disk of
    (r, d') \<Rightarrow> crSuccess r \<and> dkTree ex_disk [''etc'', ''new''] = None \<and> dkTree d' [''etc'', ''new''] = Some (FileNode ''data'')"
  by code_simp

text \<open>Another process that replaces the scanned file before it is copied gets a secret past the scan.\<close>

lemma scan_race:
  "case copybackSingleOutput ''/'' False (\<lambda>d. d\<lparr>dkTree := (dkTree d)([''s'', ''f''] \<mapsto> FileNode ''secret'')\<rparr>)
      \<lparr>woScratchPath = ''f'', woWorkspacePath = ''out''\<rparr> ''/s'' ''/ws'' [''secret''] ex_disk of
    (r, d') \<Rightarrow> crSuccess r \<and> dkTree d' [''ws'', ''out''] = Some (FileNode ''secret'')"
  by code_simp

definition ex_plain :: disk where
  "ex_plain = \<lparr>dkTree = (\<lambda>q. if q = [''ws''] \<or> q = [''s''] then Some DirNode
      else if q = [''ws'', ''in''] then Some (FileNode ''text'')
      else if q = [''s'', ''f''] then Some (FileNode ''data'') else None),
     dkMode = (\<lambda>_. 420)\<rparr>"

definition ex_config :: stageConfig where
  "ex_config = \<lparr>scWorkspaceDir = ''/ws'', scInputs = [''in''], scOutputs = [\<lparr>woScratchPath = ''f'', woWorkspacePath = ''a/f''\<rparr>],
     scSecrets = [''key'']\<rparr>"

lemma ex_plain_wf: "treeWf (dkTree ex_plain)"
  by (auto simp: treeWf_def ex_plain_def append_eq_Cons_conv split: if_splits)

lemma ex_plain_dirs: "realDir (dkTree ex_plain) [''ws'']" "realDir (dkTree ex_plain) [''s'']"
  by (auto simp: realDir_def ex_plain_def cleanSeg_def prefix_Cons)

lemma ex_plain_root: "realpathSync (dkTree ex_plain) ''/'' (absPath [''ws'']) = Some (absPath [''ws''])"
  by code_simp

theorem copyback_confined_witness:
  "prefix [''ws''] [''ws'', ''a'', ''f'']"
proof -
  obtain r d' where run: "copybackOutputs ''/'' False quiet ex_config ''/s'' ex_plain = (r, d')" by fastforce
  have "dkTree (snd (copybackOutputs ''/'' False quiet ex_config ''/s'' ex_plain)) [''ws'', ''a'', ''f''] \<noteq> dkTree ex_plain [''ws'', ''a'', ''f'']"
    by code_simp
  then have "dkTree d' [''ws'', ''a'', ''f''] \<noteq> dkTree ex_plain [''ws'', ''a'', ''f'']" using run by simp
  then show ?thesis
    using copyback_confined [OF ex_plain_wf _ _ ex_plain_root ex_plain_dirs(1) _ run]
    by (simp add: ex_config_def cleanSeg_def noLinks_def ex_plain_def absPath_def)
qed

theorem staging_all_or_nothing_witness:
  "case fst (stageInputs ''/'' False ''/s'' ''u1'' ex_config ex_plain) of
      Inl e \<Rightarrow> False
    | Inr sw \<Rightarrow> swScratchDir sw = ''/s/u1''"
proof -
  obtain r d' where run: "stageInputs ''/'' False (absPath [''s'']) ''u1'' ex_config ex_plain = (r, d')" by fastforce
  have ok: "\<not> isl (fst (stageInputs ''/'' False (absPath [''s'']) ''u1'' ex_config ex_plain))" by code_simp
  have "case r of
      Inl e \<Rightarrow> dkTree d' = dkTree ex_plain
    | Inr sw \<Rightarrow> swScratchDir sw = absPath ([''s''] @ [''u1''])"
    using staging_all_or_nothing [OF ex_plain_wf ex_plain_dirs(2) _ _ _ _ ex_plain_root _ _ _ run]
    by (cases r) (simp_all add: ex_config_def cleanSeg_def ex_plain_def absPath_def)
  then show ?thesis using run ok by (cases r) (simp_all add: absPath_def)
qed

end
