(* ===== verification/Toolstore.thy ===== *)
theory Toolstore
  imports WorkspaceStaging CommandManifest PathTemplate
begin

text \<open>
  The content-addressed toolstore of the credential executor: digests
  (\<open>credential-executor/src/toolstore/integrity.ts\<close>), source URLs (\<open>manifest.ts\<close>), publication, reading and
  removal of bundles (\<open>publish.ts\<close>), over the disk of \<open>WorkspaceStaging\<close>.

  \<open>toolRuntime\<close> holds what the code takes from outside: the URL parser, the SHA-256 function, the \<open>tar\<close>
  program, directory listings, and the JSON text of a toolstore manifest. \<open>depth\<close> bounds the depth of the
  scanned directory; the lemmas hold for every bound. Time stamps are arguments (the staging
  directory and the archive are named by two readings of the clock).
\<close>

section \<open>Types\<close>

record toolstoreManifest =
  tmDigest :: string
  tmBundleId :: string
  tmVersion :: string
  tmSourceUrl :: string
  tmFetchedAt :: millis
  tmDeclaredProfiles :: "string list"
  tmSecureManifest :: commandManifest
  tmPublishedAt :: millis

record publishRequest =
  puBundleBytes :: string
  puExpectedDigest :: string
  puBundleId :: string
  puVersion :: string
  puSourceUrl :: string
  puManifest :: commandManifest

record toolRuntime =
  trParse :: "string \<Rightarrow> url option"
  trSha256 :: "string \<Rightarrow> string"
  trUntar :: "string \<Rightarrow> string list \<Rightarrow> fileTree \<Rightarrow> fileTree option"
  trReaddir :: "fileTree \<Rightarrow> string list \<Rightarrow> string list"
  trEncode :: "toolstoreManifest \<Rightarrow> string"
  trDecode :: "string \<Rightarrow> toolstoreManifest option"

datatype sourceUrlError = UrlEmpty | UrlInvalid | UrlScheme string

datatype stageFailure =
    ArchiveNotWritten | ExtractionFailed | EscapingLinks "string list" | StagingGone
  | EntrypointOutside string | EntrypointSymlink string | EntrypointMissing string
  | ManifestNotWritten | RenameFailed

datatype publishError =
    BadSourceUrl sourceUrlError | WorkspaceOrigin string | WorkspaceOriginDecoded string
  | BadDigest string | BadManifest "manifestError list" | MetadataMismatch "string list"
  | DigestMismatch string | WriteFailed stageFailure

record publishResult =
  psSuccess :: bool
  psDeduplicated :: bool
  psBundlePath :: string
  psError :: "publishError option"

section \<open>Digests and source URLs\<close>

definition lowerHex :: "char \<Rightarrow> bool" where
  "lowerHex c = (c \<in> set ''abcdef0123456789'')"

definition isValidSha256Hex :: "string \<Rightarrow> bool" where
  "isValidSha256Hex d = (length d = 64 \<and> list_all lowerHex d)"

text \<open>\<open>Buffer.from(s, "hex")\<close> stops at the first pair that is not hexadecimal.\<close>

fun hexBytes :: "string \<Rightarrow> nat list" where
  "hexBytes (a # b # s) =
     (case (hexVal a, hexVal b) of (Some x, Some y) \<Rightarrow> (16 * x + y) # hexBytes s | _ \<Rightarrow> [])"
| "hexBytes s = []"

definition verifyDigest :: "(string \<Rightarrow> string) \<Rightarrow> string \<Rightarrow> string \<Rightarrow> bool" where
  "verifyDigest sha256 bytes expected =
    (let computedBuf = hexBytes (sha256 bytes); expectedBuf = hexBytes expected in
     if length computedBuf \<noteq> length expectedBuf \<or> length expectedBuf \<noteq> 32 then False
     else computedBuf = expectedBuf)"

definition validateSourceUrl :: "(string \<Rightarrow> url option) \<Rightarrow> string \<Rightarrow> sourceUrlError option" where
  "validateSourceUrl parse u =
    (if blank u then Some UrlEmpty
     else (case parse u of
         None \<Rightarrow> Some UrlInvalid
       | Some p \<Rightarrow> if protocol p \<noteq> ''https:'' then Some (UrlScheme (protocol p)) else None))"

definition isWorkspaceOriginPath :: "string \<Rightarrow> bool" where
  "isWorkspaceOriginPath p =
    (startsWith p ''.vellum/'' \<or> startsWith p ''~.vellum/'' \<or> startsWith p ''/.vellum/'' \<or> startsWith p ''~/.vellum/'' \<or>
     includesStr p ''/.vellum/'' \<or> includesStr (toLowerCase p) ''/workspace/'')"

section \<open>Paths\<close>

definition MANIFEST_FILENAME :: string where
  "MANIFEST_FILENAME = ''toolstore-manifest.json''"

definition BUNDLE_FILENAME :: string where
  "BUNDLE_FILENAME = ''bundle.bin''"

text \<open>\<open>None\<close> stands for the exception on an invalid digest.\<close>

definition getBundleDir :: "string \<Rightarrow> string \<Rightarrow> string option" where
  "getBundleDir toolstoreDir digest =
    (if isValidSha256Hex digest then Some (joinPaths [toolstoreDir, digest]) else None)"

definition getBundleManifestPath :: "string \<Rightarrow> string \<Rightarrow> string option" where
  "getBundleManifestPath toolstoreDir digest =
    map_option (\<lambda>d. joinPaths [d, MANIFEST_FILENAME]) (getBundleDir toolstoreDir digest)"

definition getBundleContentPath :: "string \<Rightarrow> string \<Rightarrow> string option" where
  "getBundleContentPath toolstoreDir digest =
    map_option (\<lambda>d. joinPaths [d, BUNDLE_FILENAME]) (getBundleDir toolstoreDir digest)"

section \<open>Reading and removal\<close>

definition isBundlePublished :: "fileTree \<Rightarrow> string \<Rightarrow> string \<Rightarrow> bool" where
  "isBundlePublished t toolstoreDir digest =
    (case (getBundleDir toolstoreDir digest, getBundleManifestPath toolstoreDir digest) of
       (Some d, Some m) \<Rightarrow> existsSync t d \<and> existsSync t m
     | _ \<Rightarrow> False)"

definition readPublishedManifest :: "toolRuntime \<Rightarrow> fileTree \<Rightarrow> string \<Rightarrow> string \<Rightarrow> toolstoreManifest option" where
  "readPublishedManifest rt t toolstoreDir digest =
    (case getBundleManifestPath toolstoreDir digest of
       None \<Rightarrow> None
     | Some m \<Rightarrow> if \<not> existsSync t m then None else Option.bind (readFileSync t m) (trDecode rt))"

definition deleteBundleFromToolstore :: "string \<Rightarrow> string \<Rightarrow> string \<Rightarrow> disk \<Rightarrow> bool \<times> disk" where
  "deleteBundleFromToolstore cwd toolstoreDir digest d =
    (case getBundleDir toolstoreDir digest of
       None \<Rightarrow> (False, d)
     | Some b \<Rightarrow> if \<not> existsSync (dkTree d) b then (False, d) else (True, cleanupScratchDir cwd b d))"

section \<open>Links in a bundle\<close>

text \<open>The recursion of \<open>findEscapingSymlinks\<close> below the real root; the answer is relative to the root.\<close>

fun scanLinks :: "nat \<Rightarrow> (fileTree \<Rightarrow> string list \<Rightarrow> string list) \<Rightarrow> fileTree \<Rightarrow> string list \<Rightarrow> string list \<Rightarrow> string list list" where
  "scanLinks 0 readdir t root dir = []"
| "scanLinks (Suc n) readdir t root dir =
     concat (map (\<lambda>entry.
       case t (dir @ [entry]) of
         Some (LinkNode target) \<Rightarrow>
           (let resolvedTarget = resolve (absPath dir) [absPath dir, target] in
            if \<not> startsWith resolvedTarget (absPath root @ [slash]) \<and> resolvedTarget \<noteq> absPath root
            then [drop (length root) (dir @ [entry])] else [])
       | Some DirNode \<Rightarrow> scanLinks n readdir t root (dir @ [entry])
       | _ \<Rightarrow> []) (readdir t dir))"

definition findEscapingSymlinks :: "nat \<Rightarrow> toolRuntime \<Rightarrow> string \<Rightarrow> fileTree \<Rightarrow> string \<Rightarrow> string list option" where
  "findEscapingSymlinks depth rt cwd t rootDir =
    (case realpathSync t cwd rootDir of
       None \<Rightarrow> None
     | Some r \<Rightarrow> Some (map (join [slash]) (scanLinks depth (trReaddir rt) t (resolveSegs cwd [r]) (resolveSegs cwd [r]))))"

section \<open>Publication\<close>

definition writeFile :: "bool \<Rightarrow> disk \<Rightarrow> string \<Rightarrow> string \<Rightarrow> nat \<Rightarrow> disk option" where
  "writeFile privileged d p text mode =
    (case (walk (dkTree d) True MAXSYMLINKS [] (splitOn slash p), writeFileSync (dkTree d) p text) of
       (Some q, Some t') \<Rightarrow>
         if dkTree d q = None then Some \<lparr>dkTree = t', dkMode = (dkMode d)(q := mode)\<rparr>
         else if \<not> ownerWrites (dkMode d q) \<and> \<not> privileged then None
         else Some (d\<lparr>dkTree := t'\<rparr>)
     | _ \<Rightarrow> None)"

text \<open>The node itself, without following a link in the last place.\<close>

definition lstatSync :: "fileTree \<Rightarrow> string \<Rightarrow> node option" where
  "lstatSync t p =
    (let ss = resolveSegs ''/'' [p] in
     if ss = [] then Some DirNode
     else Option.bind (walk t False MAXSYMLINKS [] (butlast ss)) (\<lambda>q. t (q @ [last ss])))"

definition unlinkSync :: "disk \<Rightarrow> string \<Rightarrow> disk" where
  "unlinkSync d p =
    (let ss = resolveSegs ''/'' [p] in
     if ss = [] then d
     else (case walk (dkTree d) False MAXSYMLINKS [] (butlast ss) of
         None \<Rightarrow> d
       | Some q \<Rightarrow>
          if dkTree d (q @ [last ss]) = Some DirNode then d
          else d\<lparr>dkTree := (dkTree d)(q @ [last ss] := None)\<rparr>))"

text \<open>\<open>renameSync\<close> of a directory to a path of the same parent; a directory with entries is not replaced.\<close>

definition renameSync :: "toolRuntime \<Rightarrow> disk \<Rightarrow> string list \<Rightarrow> string list \<Rightarrow> disk option" where
  "renameSync rt d src dst =
    (if dkTree d dst \<noteq> None \<and> (dkTree d dst \<noteq> Some DirNode \<or> trReaddir rt (dkTree d) dst \<noteq> []) then None
     else Some \<lparr>dkTree = (\<lambda>q. if prefix dst q then dkTree d (src @ drop (length dst) q)
                        else if prefix src q then None else dkTree d q),
                dkMode = (\<lambda>q. if prefix dst q then dkMode d (src @ drop (length dst) q) else dkMode d q)\<rparr>)"

text \<open>The checks before anything is written.\<close>

definition metadataMismatches :: "publishRequest \<Rightarrow> string list" where
  "metadataMismatches rq =
    (if cmBundleDigest (puManifest rq) \<noteq> Some (puExpectedDigest rq) then [''bundleDigest''] else []) @
    (if cmBundleId (puManifest rq) \<noteq> Some (puBundleId rq) then [''bundleId''] else []) @
    (if cmVersion (puManifest rq) \<noteq> Some (puVersion rq) then [''version''] else [])"

definition workspaceOrigin :: "toolRuntime \<Rightarrow> string \<Rightarrow> publishError option" where
  "workspaceOrigin rt u =
    (case trParse rt u of
       None \<Rightarrow> None
     | Some p \<Rightarrow>
        if isWorkspaceOriginPath (pathname p) then Some (WorkspaceOrigin (pathname p))
        else (case decodeURIComponent (pathname p) of
            None \<Rightarrow> None
          | Some q \<Rightarrow> if q \<noteq> pathname p \<and> isWorkspaceOriginPath q then Some (WorkspaceOriginDecoded q) else None))"

definition checkPublish :: "toolRuntime \<Rightarrow> publishRequest \<Rightarrow> publishError option" where
  "checkPublish rt rq =
    (case validateSourceUrl (trParse rt) (puSourceUrl rq) of Some e \<Rightarrow> Some (BadSourceUrl e) | None \<Rightarrow>
     (case workspaceOrigin rt (puSourceUrl rq) of Some e \<Rightarrow> Some e | None \<Rightarrow>
      if \<not> isValidSha256Hex (puExpectedDigest rq) then Some (BadDigest (puExpectedDigest rq))
      else if validateManifest (puManifest rq) \<noteq> [] then Some (BadManifest (validateManifest (puManifest rq)))
      else if metadataMismatches rq \<noteq> [] then Some (MetadataMismatch (metadataMismatches rq))
      else if \<not> verifyDigest (trSha256 rt) (puBundleBytes rq) (puExpectedDigest rq)
      then Some (DigestMismatch (puExpectedDigest rq))
      else None))"

definition toolstoreManifestOf :: "publishRequest \<Rightarrow> millis \<Rightarrow> toolstoreManifest" where
  "toolstoreManifestOf rq now =
    \<lparr>tmDigest = puExpectedDigest rq, tmBundleId = puBundleId rq, tmVersion = puVersion rq,
     tmSourceUrl = puSourceUrl rq, tmFetchedAt = now,
     tmDeclaredProfiles = map fst (profilesOf (puManifest rq)),
     tmSecureManifest = puManifest rq, tmPublishedAt = now\<rparr>"

text \<open>After the extraction: the links, the entrypoint, the manifest and the final name.\<close>

definition checkEntrypoint :: "string \<Rightarrow> string \<Rightarrow> string \<Rightarrow> fileTree \<Rightarrow> stageFailure option" where
  "checkEntrypoint cwd entrypoint stagingDir t =
    (case realpathSync t cwd stagingDir of
       None \<Rightarrow> Some StagingGone
     | Some r \<Rightarrow>
        (let e = resolve cwd [r, entrypoint] in
         if e \<noteq> r \<and> \<not> startsWith e (r @ [slash]) then Some (EntrypointOutside entrypoint)
         else if (case lstatSync t e of Some (LinkNode l) \<Rightarrow> True | _ \<Rightarrow> False) then Some (EntrypointSymlink entrypoint)
         else if \<not> existsSync t e then Some (EntrypointMissing entrypoint)
         else None))"

definition finishBundle ::
  "nat \<Rightarrow> toolRuntime \<Rightarrow> string \<Rightarrow> bool \<Rightarrow> publishRequest \<Rightarrow> millis \<Rightarrow> string \<Rightarrow> string \<Rightarrow> disk \<Rightarrow> stageFailure option \<times> disk" where
  "finishBundle depth rt cwd privileged rq now stagingDir bundleDir d =
    (case findEscapingSymlinks depth rt cwd (dkTree d) stagingDir of
       None \<Rightarrow> (Some StagingGone, d)
     | Some (l # ls) \<Rightarrow> (Some (EscapingLinks (l # ls)), d)
     | Some [] \<Rightarrow>
        (let entrypoint = orDefault (cmEntrypoint (puManifest rq)) [] in
         case checkEntrypoint cwd entrypoint stagingDir (dkTree d) of
           Some e \<Rightarrow> (Some e, d)
         | None \<Rightarrow>
            (let e = resolve cwd [orDefault (realpathSync (dkTree d) cwd stagingDir) [], entrypoint];
                 d1 = orDefault (chmodSync d e 365) d in
             case writeFile privileged d1 (joinPaths [stagingDir, MANIFEST_FILENAME])
                 (trEncode rt (toolstoreManifestOf rq now)) 292 of
               None \<Rightarrow> (Some ManifestNotWritten, d1)
             | Some d2 \<Rightarrow>
                (case renameSync rt d2 (resolveSegs cwd [stagingDir]) (resolveSegs cwd [bundleDir]) of
                   None \<Rightarrow> (Some RenameFailed, d2)
                 | Some d3 \<Rightarrow> (None, d3)))))"

definition archiveName :: "string \<Rightarrow> string" where
  "archiveName stamp = ''.ces-bundle-staging-'' @ stamp @ ''.tar.gz''"

definition stagingName :: "string \<Rightarrow> string \<Rightarrow> string" where
  "stagingName digest stamp = ''.staging-'' @ digest @ ''-'' @ stamp"

definition stageBundle ::
  "nat \<Rightarrow> toolRuntime \<Rightarrow> string \<Rightarrow> bool \<Rightarrow> publishRequest \<Rightarrow> string \<Rightarrow> millis \<Rightarrow> string \<Rightarrow> string \<Rightarrow> disk \<Rightarrow> stageFailure option \<times> disk" where
  "stageBundle depth rt cwd privileged rq stamp now stagingDir bundleDir d =
    (let archive = joinPaths [stagingDir, archiveName stamp] in
     case writeFile privileged d archive (puBundleBytes rq) 292 of
       None \<Rightarrow> (Some ArchiveNotWritten, d)
     | Some d1 \<Rightarrow>
        (case trUntar rt (puBundleBytes rq) (resolveSegs cwd [stagingDir]) (dkTree d1) of
           None \<Rightarrow> (Some ExtractionFailed, d1)
         | Some t2 \<Rightarrow>
            finishBundle depth rt cwd privileged rq now stagingDir bundleDir (unlinkSync (d1\<lparr>dkTree := t2\<rparr>) archive)))"

definition failedPublish :: "publishError \<Rightarrow> publishResult" where
  "failedPublish e = \<lparr>psSuccess = False, psDeduplicated = False, psBundlePath = [], psError = Some e\<rparr>"

definition publishedAt :: "bool \<Rightarrow> string \<Rightarrow> publishResult" where
  "publishedAt dedup bundleDir = \<lparr>psSuccess = True, psDeduplicated = dedup, psBundlePath = bundleDir, psError = None\<rparr>"

text \<open>\<open>None\<close> stands for the exceptions of the two \<open>mkdirSync\<close> calls, which are outside the try block.\<close>

definition publishBundle ::
  "nat \<Rightarrow> toolRuntime \<Rightarrow> string \<Rightarrow> bool \<Rightarrow> string \<Rightarrow> publishRequest \<Rightarrow> string \<Rightarrow> string \<Rightarrow> millis \<Rightarrow> disk \<Rightarrow> publishResult option \<times> disk" where
  "publishBundle depth rt cwd privileged toolstoreDir rq stamp stamp2 now d =
    (case checkPublish rt rq of
       Some e \<Rightarrow> (Some (failedPublish e), d)
     | None \<Rightarrow>
        (let digest = puExpectedDigest rq; bundleDir = joinPaths [toolstoreDir, digest];
             stagingDir = joinPaths [toolstoreDir, stagingName digest stamp] in
         if isBundlePublished (dkTree d) toolstoreDir digest then (Some (publishedAt True bundleDir), d)
         else (case mkdirDisk d cwd toolstoreDir of None \<Rightarrow> (None, d) | Some d1 \<Rightarrow>
           (case mkdirDisk d1 cwd stagingDir of None \<Rightarrow> (None, d1) | Some d2 \<Rightarrow>
             (case stageBundle depth rt cwd privileged rq stamp2 now stagingDir bundleDir d2 of
                (None, d3) \<Rightarrow> (Some (publishedAt False bundleDir), d3)
              | (Some e, d3) \<Rightarrow>
                 (let d4 = cleanupScratchDir cwd stagingDir d3 in
                  if isBundlePublished (dkTree d4) toolstoreDir digest then (Some (publishedAt True bundleDir), d4)
                  else (Some (failedPublish (WriteFailed e)), d4)))))))"

section \<open>Digests decide the bytes\<close>

lemma hexVal_digit:
  assumes "lowerHex a" "lowerHex b"
  shows "\<exists>x y. hexVal a = Some x \<and> hexVal b = Some y \<and> x < 16 \<and> y < 16"
proof -
  have "\<forall>c \<in> set ''abcdef0123456789''. \<exists>x. hexVal c = Some x \<and> x < 16" by (simp add: hexVal_def)
  with assms show ?thesis unfolding lowerHex_def by blast
qed

lemma hexVal_inj: "lowerHex a \<Longrightarrow> lowerHex b \<Longrightarrow> hexVal a = hexVal b \<Longrightarrow> a = b"
proof -
  have "\<forall>a \<in> set ''abcdef0123456789''. \<forall>b \<in> set ''abcdef0123456789''. hexVal a = hexVal b \<longrightarrow> a = b"
    by (simp add: hexVal_def)
  then show "lowerHex a \<Longrightarrow> lowerHex b \<Longrightarrow> hexVal a = hexVal b \<Longrightarrow> a = b" unfolding lowerHex_def by blast
qed

lemma hexBytes_Cons_inj:
  assumes "lowerHex a" "lowerHex b" "lowerHex c" "lowerHex d" "hexBytes (a # b # s) = hexBytes (c # d # t)"
  shows "a = c \<and> b = d \<and> hexBytes s = hexBytes t"
proof -
  obtain x y where xy: "hexVal a = Some x" "hexVal b = Some y" "x < 16" "y < 16"
    using hexVal_digit assms(1,2) by blast
  obtain u v where uv: "hexVal c = Some u" "hexVal d = Some v" "u < 16" "v < 16"
    using hexVal_digit assms(3,4) by blast
  have eq: "16 * x + y = 16 * u + v" "hexBytes s = hexBytes t" using assms(5) xy uv by simp_all
  have "(16 * x + y) div 16 = x" "(16 * x + y) mod 16 = y" "(16 * u + v) div 16 = u" "(16 * u + v) mod 16 = v"
    using xy(3,4) uv(3,4) by simp_all
  then have "x = u" "y = v" unfolding eq(1) by simp_all
  then have "hexVal a = hexVal c" "hexVal b = hexVal d" using xy uv by simp_all
  then show ?thesis using hexVal_inj assms(1-4) eq(2) by blast
qed

lemma hexBytes_not_Nil: "lowerHex a \<Longrightarrow> lowerHex b \<Longrightarrow> hexBytes (a # b # s) \<noteq> []"
  using hexVal_digit [of a b] by auto

lemma hexBytes_inj:
  "list_all lowerHex s \<Longrightarrow> list_all lowerHex t \<Longrightarrow> length s = length t \<Longrightarrow> even (length s) \<Longrightarrow>
    hexBytes s = hexBytes t \<Longrightarrow> s = t"
proof (induction "length s" arbitrary: s t rule: less_induct)
  case less
  show ?case
  proof (cases s rule: hexBytes.cases)
    case (1 a b s')
    then obtain c d t' where t: "t = c # d # t'" using less.prems(3) by (cases t rule: hexBytes.cases) auto
    have "a = c \<and> b = d \<and> hexBytes s' = hexBytes t'"
      by (rule hexBytes_Cons_inj) (use less.prems 1 t in auto)
    moreover from this have "s' = t'" using less.hyps [of s' t'] less.prems 1 t by simp
    ultimately show ?thesis using 1 t by simp
  qed (use less.prems in auto)
qed

lemma verifyDigest_iff:
  assumes "isValidSha256Hex (sha256 bytes)" "isValidSha256Hex expected"
  shows "verifyDigest sha256 bytes expected \<longleftrightarrow> sha256 bytes = expected"
proof
  assume "verifyDigest sha256 bytes expected"
  then have "hexBytes (sha256 bytes) = hexBytes expected"
    by (simp add: verifyDigest_def Let_def split: if_splits)
  then show "sha256 bytes = expected"
    using hexBytes_inj assms by (simp add: isValidSha256Hex_def)
next
  assume eq: "sha256 bytes = expected"
  have len: "list_all lowerHex s \<Longrightarrow> even (length s) \<Longrightarrow> 2 * length (hexBytes s) = length s" for s
    using hexVal_digit by (induction s rule: hexBytes.induct) fastforce+
  show "verifyDigest sha256 bytes expected"
    using len [of expected] assms(2) eq by (simp add: verifyDigest_def isValidSha256Hex_def)
qed

section \<open>Where a publication writes\<close>





text \<open>Everything outside the directories \<open>ds\<close> stays.\<close>

definition keepsOutside :: "string list list \<Rightarrow> fileTree \<Rightarrow> fileTree \<Rightarrow> bool" where
  "keepsOutside ds t u = (\<forall>q. (\<forall>d \<in> set ds. \<not> prefix d q) \<longrightarrow> u q = t q)"

lemma keepsOutside_refl [simp]: "keepsOutside ds t t"
  by (simp add: keepsOutside_def)



















section \<open>Properties\<close>

text \<open>C20: Whatever is reported as published has an HTTPS source outside any workspace, a manifest that satisfies
  every invariant of the validator and names the same digest, id and version, and bytes whose SHA-256
  digest is the requested one.\<close>

theorem published_bundle_verified:
  assumes "publishBundle depth rt cwd privileged toolstoreDir rq stamp stamp2 now d = (Some r, d')" "psSuccess r"
    and "isValidSha256Hex (trSha256 rt (puBundleBytes rq))"
  shows "trSha256 rt (puBundleBytes rq) = puExpectedDigest rq \<and> isValidSha256Hex (puExpectedDigest rq) \<and>
    validateManifest (puManifest rq) = [] \<and>
    cmBundleDigest (puManifest rq) = Some (puExpectedDigest rq) \<and>
    cmBundleId (puManifest rq) = Some (puBundleId rq) \<and> cmVersion (puManifest rq) = Some (puVersion rq) \<and>
    (\<exists>u. trParse rt (puSourceUrl rq) = Some u \<and> protocol u = ''https:'' \<and> \<not> isWorkspaceOriginPath (pathname u))"
proof -
  have ok: "checkPublish rt rq = None"
    using assms(1,2) by (cases "checkPublish rt rq") (auto simp: publishBundle_def failedPublish_def)
  then have src: "validateSourceUrl (trParse rt) (puSourceUrl rq) = None" "workspaceOrigin rt (puSourceUrl rq) = None"
    by (auto simp: checkPublish_def split: option.splits)
  have rest: "isValidSha256Hex (puExpectedDigest rq)" "validateManifest (puManifest rq) = []" "metadataMismatches rq = []"
    "verifyDigest (trSha256 rt) (puBundleBytes rq) (puExpectedDigest rq)"
    using ok src unfolding checkPublish_def by (auto split: if_splits)
  have "trSha256 rt (puBundleBytes rq) = puExpectedDigest rq"
    using rest(4) verifyDigest_iff [of "trSha256 rt", OF assms(3) rest(1)] by simp
  moreover have "\<exists>u. trParse rt (puSourceUrl rq) = Some u \<and> protocol u = ''https:'' \<and> \<not> isWorkspaceOriginPath (pathname u)"
    using src by (auto simp: validateSourceUrl_def workspaceOrigin_def split: option.splits if_splits)
  ultimately show ?thesis using rest by (simp add: metadataMismatches_def split: if_splits)
qed


definition ex_digest :: "char \<Rightarrow> string" where
  "ex_digest c = replicate 64 c"

definition ex_runtime :: "(string \<Rightarrow> string list \<Rightarrow> fileTree \<Rightarrow> fileTree option) \<Rightarrow> toolRuntime" where
  "ex_runtime untar = \<lparr>trParse = (\<lambda>u. Some \<lparr>protocol = ''https:'', hostname = ''host'', port = [], pathname = ''/gh.tgz''\<rparr>),
     trSha256 = (\<lambda>_. ex_digest CHR ''b''), trUntar = untar,
     trReaddir = (\<lambda>t d. filter (\<lambda>s. t (d @ [s]) \<noteq> None) [''gh'', ''a'', ''up'', MANIFEST_FILENAME]),
     trEncode = (\<lambda>_. ''published''), trDecode = (\<lambda>_. None)\<rparr>"

definition ex_request :: publishRequest where
  "ex_request = \<lparr>puBundleBytes = ''archive'', puExpectedDigest = ex_digest CHR ''b'', puBundleId = ''gh-cli'', puVersion = ''1.0'',
     puSourceUrl = ''https://host/gh.tgz'',
     puManifest = ex_manifest\<lparr>cmBundleDigest := Some (ex_digest CHR ''b''), cmEntrypoint := Some ''gh''\<rparr>\<rparr>"

definition ex_store :: disk where
  "ex_store = \<lparr>dkTree = (\<lambda>q. if q = [''t''] \<or> q = [''t'', ex_digest CHR ''a''] then Some DirNode
      else if q = [''t'', ex_digest CHR ''a'', MANIFEST_FILENAME] then Some (FileNode ''old'')
      else if q = [''grants''] then Some (FileNode ''grants'') else None),
     dkMode = (\<lambda>_. 384)\<rparr>"

definition ex_untar :: "string \<Rightarrow> string list \<Rightarrow> fileTree \<Rightarrow> fileTree option" where
  "ex_untar a dir t = (if t (dir @ [''gh'']) = None then Some (t(dir @ [''gh''] \<mapsto> FileNode ''binary'')) else None)"





theorem published_bundle_verified_witness:
  "trSha256 (ex_runtime ex_untar) (puBundleBytes ex_request) = puExpectedDigest ex_request"
proof -
  obtain r d' where run: "publishBundle 3 (ex_runtime ex_untar) ''/'' False ''/t'' ex_request ''1'' ''1'' 5 ex_store = (r, d')" by fastforce
  have "map_option psSuccess (fst (publishBundle 3 (ex_runtime ex_untar) ''/'' False ''/t'' ex_request ''1'' ''1'' 5 ex_store)) = Some True"
    by code_simp
  then obtain x where x: "r = Some x" "psSuccess x" using run by auto
  have "isValidSha256Hex (trSha256 (ex_runtime ex_untar) (puBundleBytes ex_request))" by code_simp
  from published_bundle_verified [OF run [unfolded x(1)] x(2) this] show ?thesis by blast
qed



definition ex_evil :: "string \<Rightarrow> string list \<Rightarrow> fileTree \<Rightarrow> fileTree option" where
  "ex_evil a dir t = Some (t(dir @ [''gh''] \<mapsto> FileNode ''binary'', dir @ [''a''] \<mapsto> DirNode,
     dir @ [''a'', ''up''] \<mapsto> LinkNode ''..'', dir @ [MANIFEST_FILENAME] \<mapsto> LinkNode ''a/up/../../grants''))"

text \<open>The scan for links that leave the bundle resolves a link by its text, so a link through another
  link is missed: a bundle that passes every check makes the publication write its manifest through
  such a link, over a file outside the toolstore.\<close>

theorem link_scan_bypassed:
  "case publishBundle 3 (ex_runtime ex_evil) ''/'' False ''/t'' ex_request ''1'' ''1'' 5 ex_store of
    (r, d') \<Rightarrow> map_option psSuccess r = Some True \<and> dkTree ex_store [''grants''] = Some (FileNode ''grants'') \<and>
      dkTree d' [''grants''] = Some (FileNode ''published'')"
  by code_simp

end
