(* ===== verification/EgressSessions.thy ===== *)
theory EgressSessions
  imports HumPrelude "HOL-Library.Multiset"
begin

text \<open>
  The sessions of the outbound proxy, \<open>packages/egress-proxy/src/session-core.ts\<close>: creation, start, stop,
  the idle timer, the environment of a session, and shutdown.

  A managed session is shared by reference between the map of the store, a start or stop that waits, and
  its idle timer, and these go on after the session has left the map; so the store has a heap of sessions
  and, apart from it, the keys of the map. Every operation that awaits something is split where it
  waits: \<open>session_step\<close> is the relation of the atomic pieces in any order. The hooks, the ports of the
  operating system and the clock are arguments.
\<close>

section \<open>Types\<close>

datatype proxySessionStatus = Starting | Active | Stopping | Stopped

record allowedTarget =
  atHost :: string
  atPorts :: "nat list option"
  atProtocols :: "string list option"

record proxySessionConfig =
  xcIdleTimeoutMs :: millis
  xcMaxSessions :: nat
  xcAllowedTargets :: "allowedTarget list option"

record configPatch =
  xpIdleTimeoutMs :: "millis option"
  xpMaxSessions :: "nat option"
  xpAllowedTargets :: "allowedTarget list option"

record proxySession =
  pxId :: string
  pxConversationId :: string
  pxCredentialIds :: "string list"
  pxStatus :: proxySessionStatus
  pxCreatedAt :: millis
  pxPort :: "nat option"

text \<open>\<open>msServer\<close> names the listening server; \<open>msIdleTimer\<close> is the time the timer is due.\<close>

record managedSession =
  msSession :: proxySession
  msServer :: "nat option"
  msIdleTimer :: "millis option"
  msConfig :: proxySessionConfig
  msDataDir :: "string option"
  msApprovalCallback :: bool
  msListenHost :: string
  msStopPromise :: bool
  msCABundle :: "string option"

record sessionStore =
  ssHeap :: "string \<Rightarrow> managedSession option"
  ssKeys :: "string list"

record proxyEnvVars =
  pvHttpProxy :: string
  pvHttpsProxy :: string
  pvNoProxy :: string
  pvNodeExtraCaCerts :: "string option"
  pvSslCertFile :: "string option"

datatype sessionError =
    MaxSessions nat string | SessionNotFound string | NotStarting string proxySessionStatus
  | NotActive string | SetupFailed | ServerFailed | ListenFailed | CloseFailed

definition DEFAULT_CONFIG :: proxySessionConfig where
  "DEFAULT_CONFIG = \<lparr>xcIdleTimeoutMs = 5 * 60 * 1000, xcMaxSessions = 3, xcAllowedTargets = None\<rparr>"

definition mergeConfig :: "configPatch \<Rightarrow> proxySessionConfig" where
  "mergeConfig c =
    \<lparr>xcIdleTimeoutMs = orDefault (xpIdleTimeoutMs c) (xcIdleTimeoutMs DEFAULT_CONFIG),
     xcMaxSessions = orDefault (xpMaxSessions c) (xcMaxSessions DEFAULT_CONFIG),
     xcAllowedTargets = orElse (xpAllowedTargets c) (xcAllowedTargets DEFAULT_CONFIG)\<rparr>"

section \<open>The store\<close>

definition emptyStore :: sessionStore where
  "emptyStore = \<lparr>ssHeap = (\<lambda>_. None), ssKeys = []\<rparr>"

definition getManaged :: "sessionStore \<Rightarrow> string \<Rightarrow> managedSession option" where
  "getManaged st i = (if i \<in> set (ssKeys st) then ssHeap st i else None)"

abbreviation putManaged :: "string \<Rightarrow> managedSession \<Rightarrow> sessionStore \<Rightarrow> sessionStore" where
  "putManaged i m st \<equiv> st\<lparr>ssHeap := (ssHeap st)(i \<mapsto> m)\<rparr>"

definition deleteKey :: "string \<Rightarrow> sessionStore \<Rightarrow> sessionStore" where
  "deleteKey i st = st\<lparr>ssKeys := filter (\<lambda>j. j \<noteq> i) (ssKeys st)\<rparr>"

definition managedValues :: "sessionStore \<Rightarrow> managedSession list" where
  "managedValues st = List.map_filter (ssHeap st) (ssKeys st)"

abbreviation statusOf :: "managedSession \<Rightarrow> proxySessionStatus" where
  "statusOf m \<equiv> pxStatus (msSession m)"

definition resetIdleTimer :: "millis \<Rightarrow> managedSession \<Rightarrow> managedSession" where
  "resetIdleTimer now m = m\<lparr>msIdleTimer := Some (now + xcIdleTimeoutMs (msConfig m))\<rparr>"

definition credentialIdsMatch :: "string list \<Rightarrow> string list \<Rightarrow> bool" where
  "credentialIdsMatch a b = (length a = length b \<and> list_all2 (=) (sort a) (sort b))"

definition getSessionsForConversation :: "sessionStore \<Rightarrow> string \<Rightarrow> proxySession list" where
  "getSessionsForConversation st conv =
    filter (\<lambda>s. pxConversationId s = conv) (map msSession (managedValues st))"

definition getActiveSession :: "sessionStore \<Rightarrow> string \<Rightarrow> proxySession option" where
  "getActiveSession st conv =
    find (\<lambda>s. pxConversationId s = conv \<and> pxStatus s = Active) (map msSession (managedValues st))"

lemma credentialIds_mset: "credentialIdsMatch a b \<longleftrightarrow> mset a = mset b"
proof -
  have "list_all2 (=) (sort a) (sort b) \<longleftrightarrow> sort a = sort b" by (simp add: list.rel_eq)
  also have "\<dots> \<longleftrightarrow> mset a = mset b" by (metis mset_sort properties_for_sort sorted_sort)
  finally show ?thesis by (auto simp: credentialIdsMatch_def dest: mset_eq_length)
qed

section \<open>Creation and start\<close>

definition liveCount :: "sessionStore \<Rightarrow> string \<Rightarrow> nat" where
  "liveCount st conv = length (filter (\<lambda>s. pxStatus s \<noteq> Stopped) (getSessionsForConversation st conv))"

definition newManaged :: "string \<Rightarrow> string list \<Rightarrow> proxySessionConfig \<Rightarrow> string option \<Rightarrow> bool \<Rightarrow> string \<Rightarrow> millis \<Rightarrow> managedSession" where
  "newManaged conv creds config dataDir cb uuid now =
    \<lparr>msSession = \<lparr>pxId = uuid, pxConversationId = conv, pxCredentialIds = creds, pxStatus = Starting,
       pxCreatedAt = now, pxPort = None\<rparr>,
     msServer = None, msIdleTimer = None, msConfig = config, msDataDir = dataDir, msApprovalCallback = cb,
     msListenHost = ''127.0.0.1'', msStopPromise = False, msCABundle = None\<rparr>"

definition createSession ::
  "string \<Rightarrow> string list \<Rightarrow> configPatch \<Rightarrow> string option \<Rightarrow> bool \<Rightarrow> string \<Rightarrow> millis \<Rightarrow> sessionStore \<Rightarrow>
    (sessionError + proxySession) \<times> sessionStore" where
  "createSession conv creds patch dataDir cb uuid now st =
    (let merged = mergeConfig patch in
     if xcMaxSessions merged \<le> liveCount st conv then (Inl (MaxSessions (xcMaxSessions merged) conv), st)
     else let m = newManaged conv creds merged dataDir cb uuid now in
       (Inr (msSession m), \<lparr>ssHeap = (ssHeap st)(uuid \<mapsto> m), ssKeys = ssKeys st @ [uuid]\<rparr>))"

text \<open>The start, up to the first hook; what the CA hook leaves; and the callback of \<open>listen\<close>.\<close>

definition startCheck :: "string \<Rightarrow> sessionStore \<Rightarrow> sessionError option" where
  "startCheck i st =
    (case getManaged st i of
       None \<Rightarrow> Some (SessionNotFound i)
     | Some m \<Rightarrow> if statusOf m \<noteq> Starting then Some (NotStarting i (statusOf m)) else None)"

definition caReady :: "string \<Rightarrow> string option \<Rightarrow> sessionStore \<Rightarrow> sessionStore" where
  "caReady i bundle st =
    (case ssHeap st i of None \<Rightarrow> st | Some m \<Rightarrow> putManaged i (m\<lparr>msCABundle := orElse bundle (msCABundle m)\<rparr>) st)"

definition nowListening :: "nat \<Rightarrow> nat \<Rightarrow> string \<Rightarrow> millis \<Rightarrow> managedSession \<Rightarrow> managedSession" where
  "nowListening server port host now m =
    resetIdleTimer now (m\<lparr>msServer := Some server, msListenHost := host,
      msSession := (msSession m)\<lparr>pxPort := Some port, pxStatus := Active\<rparr>\<rparr>)"

definition onListening :: "string \<Rightarrow> nat \<Rightarrow> nat \<Rightarrow> string \<Rightarrow> millis \<Rightarrow> sessionStore \<Rightarrow> sessionStore" where
  "onListening i server port host now st =
    (case ssHeap st i of None \<Rightarrow> st | Some m \<Rightarrow> putManaged i (nowListening server port host now m) st)"

text \<open>What the hooks and the operating system answer to one start.\<close>

datatype caAnswer = NoSetup | SetupOk "string option" | SetupThrows

record startAnswers =
  saSetupCA :: caAnswer
  saServer :: "nat option"
  saPort :: "nat option"

text \<open>A start without interference. A failure of \<open>createServer\<close> leaves the session in the store.\<close>

definition startSession ::
  "string \<Rightarrow> startAnswers \<Rightarrow> string \<Rightarrow> millis \<Rightarrow> sessionStore \<Rightarrow> (sessionError + proxySession) \<times> sessionStore" where
  "startSession i a host now st =
    (case startCheck i st of
       Some e \<Rightarrow> (Inl e, st)
     | None \<Rightarrow>
        if saSetupCA a = SetupThrows then (Inl SetupFailed, deleteKey i st)
        else let st1 = caReady i (case saSetupCA a of SetupOk b \<Rightarrow> b | _ \<Rightarrow> None) st in
        (case saServer a of
           None \<Rightarrow> (Inl ServerFailed, st1)
         | Some server \<Rightarrow>
            (case saPort a of
               None \<Rightarrow> (Inl ListenFailed, deleteKey i st1)
             | Some port \<Rightarrow>
                (let st2 = onListening i server port host now st1 in
                 case ssHeap st2 i of None \<Rightarrow> (Inl (SessionNotFound i), st2) | Some m \<Rightarrow> (Inr (msSession m), st2)))))"

section \<open>Stop and shutdown\<close>

definition stopped :: "managedSession \<Rightarrow> managedSession" where
  "stopped m = m\<lparr>msServer := None, msSession := (msSession m)\<lparr>pxStatus := Stopped, pxPort := None\<rparr>,
     msApprovalCallback := False, msStopPromise := False\<rparr>"

datatype stopAnswer = StopDone | StopPending

text \<open>The synchronous part of a stop. Without a server \<open>doStop\<close> runs to its end before its promise is stored.\<close>

definition stopBegin :: "string \<Rightarrow> sessionStore \<Rightarrow> (sessionError + stopAnswer) \<times> sessionStore" where
  "stopBegin i st =
    (case getManaged st i of
       None \<Rightarrow> (Inl (SessionNotFound i), st)
     | Some m \<Rightarrow>
        if statusOf m = Stopped then (Inr StopDone, st)
        else if statusOf m = Stopping \<and> msStopPromise m then (Inr StopPending, st)
        else let m1 = m\<lparr>msSession := (msSession m)\<lparr>pxStatus := Stopping\<rparr>, msIdleTimer := None\<rparr> in
        if msServer m1 = None then (Inr StopDone, putManaged i ((stopped m1)\<lparr>msStopPromise := True\<rparr>) st)
        else (Inr StopPending, putManaged i (m1\<lparr>msStopPromise := True\<rparr>) st))"

definition serverClosed :: "bool \<Rightarrow> string \<Rightarrow> sessionStore \<Rightarrow> sessionStore" where
  "serverClosed ok i st =
    (case ssHeap st i of
       None \<Rightarrow> st
     | Some m \<Rightarrow> if ok then putManaged i (stopped m) st else st)"

definition stopSession :: "string \<Rightarrow> bool \<Rightarrow> sessionStore \<Rightarrow> sessionError option \<times> sessionStore" where
  "stopSession i closes st =
    (case stopBegin i st of
       (Inl e, st1) \<Rightarrow> (Some e, st1)
     | (Inr StopDone, st1) \<Rightarrow> (None, st1)
     | (Inr StopPending, st1) \<Rightarrow> (if closes then None else Some CloseFailed, serverClosed closes i st1))"

definition idleFires :: "string \<Rightarrow> sessionStore \<Rightarrow> sessionStore" where
  "idleFires i st =
    (case ssHeap st i of
       None \<Rightarrow> st
     | Some m \<Rightarrow> if statusOf m = Active then snd (stopBegin i st) else st)"

definition stopAllBegin :: "sessionStore \<Rightarrow> sessionStore" where
  "stopAllBegin st = fold (\<lambda>i. snd \<circ> stopBegin i) (ssKeys st) st"

definition clearStore :: "sessionStore \<Rightarrow> sessionStore" where
  "clearStore st = st\<lparr>ssKeys := []\<rparr>"

fun stopEach :: "(string \<Rightarrow> bool) \<Rightarrow> string list \<Rightarrow> sessionStore \<Rightarrow> (string \<times> sessionError) list \<times> sessionStore" where
  "stopEach closes [] st = ([], st)"
| "stopEach closes (i # is) st =
     (case stopSession i (closes i) st of
        (r, st1) \<Rightarrow>
          (case stopEach closes is st1 of
             (es, st2) \<Rightarrow> ((case r of None \<Rightarrow> [] | Some e \<Rightarrow> [(i, e)]) @ es, st2)))"

definition stopAllSessions :: "(string \<Rightarrow> bool) \<Rightarrow> sessionStore \<Rightarrow> (string \<times> sessionError) list \<times> sessionStore" where
  "stopAllSessions closes st = (case stopEach closes (ssKeys st) st of (es, st1) \<Rightarrow> (es, clearStore st1))"

section \<open>The environment of a session\<close>

definition getSessionEnv ::
  "(string \<Rightarrow> string) option \<Rightarrow> string \<Rightarrow> millis \<Rightarrow> sessionStore \<Rightarrow> (sessionError + proxyEnvVars) \<times> sessionStore" where
  "getSessionEnv getCAPath i now st =
    (case getManaged st i of
       None \<Rightarrow> (Inl (SessionNotFound i), st)
     | Some m \<Rightarrow>
        (case pxPort (msSession m) of
           None \<Rightarrow> (Inl (NotActive i), st)
         | Some port \<Rightarrow>
            if statusOf m \<noteq> Active then (Inl (NotActive i), st)
            else let proxyUrl = ''http://127.0.0.1:'' @ showNat port; ca = truthy (msDataDir m) \<and> truthy (msCABundle m) in
              (Inr \<lparr>pvHttpProxy = proxyUrl, pvHttpsProxy = proxyUrl, pvNoProxy = ''localhost,127.0.0.1,::1'',
                 pvNodeExtraCaCerts = (if ca then (case getCAPath of None \<Rightarrow> None | Some f \<Rightarrow> Some (f (orDefault (msDataDir m) []))) else None),
                 pvSslCertFile = (if ca then msCABundle m else None)\<rparr>,
               putManaged i (resetIdleTimer now m) st)))"

section \<open>The pieces in any order\<close>

text \<open>\<open>wdStarts\<close> are the sessions with a start that waits for a hook or for the operating system; every caller
  starts a session at most once. \<open>wdServers\<close> are the servers that listen.\<close>

record sessionWorld =
  wdStore :: sessionStore
  wdStarts :: "string list"
  wdServers :: "nat list"

definition initialWorld :: sessionWorld where
  "initialWorld = \<lparr>wdStore = emptyStore, wdStarts = [], wdServers = []\<rparr>"

inductive session_step :: "sessionWorld \<Rightarrow> sessionWorld \<Rightarrow> bool" where
  create: "ssHeap (wdStore w) uuid = None \<Longrightarrow>
    session_step w (w\<lparr>wdStore := snd (createSession conv creds patch dataDir cb uuid now (wdStore w))\<rparr>)"
| start: "startCheck i (wdStore w) = None \<Longrightarrow> i \<notin> set (wdStarts w) \<Longrightarrow>
    session_step w (w\<lparr>wdStarts := i # wdStarts w\<rparr>)"
| ca_ready: "i \<in> set (wdStarts w) \<Longrightarrow> session_step w (w\<lparr>wdStore := caReady i bundle (wdStore w)\<rparr>)"
| start_fails: "i \<in> set (wdStarts w) \<Longrightarrow>
    session_step w (w\<lparr>wdStore := deleteKey i (wdStore w), wdStarts := removeAll i (wdStarts w)\<rparr>)"
| server_fails: "i \<in> set (wdStarts w) \<Longrightarrow> session_step w (w\<lparr>wdStarts := removeAll i (wdStarts w)\<rparr>)"
| listens: "i \<in> set (wdStarts w) \<Longrightarrow> server \<notin> set (wdServers w) \<Longrightarrow>
    session_step w (w\<lparr>wdStore := onListening i server port host now (wdStore w),
      wdStarts := removeAll i (wdStarts w), wdServers := server # wdServers w\<rparr>)"
| stop: "session_step w (w\<lparr>wdStore := snd (stopBegin i (wdStore w))\<rparr>)"
| closes: "ssHeap (wdStore w) i = Some m \<Longrightarrow> statusOf m = Stopping \<Longrightarrow> msServer m = Some server \<Longrightarrow>
    session_step w (w\<lparr>wdStore := serverClosed True i (wdStore w), wdServers := removeAll server (wdServers w)\<rparr>)"
| idle: "ssHeap (wdStore w) i = Some m \<Longrightarrow> msIdleTimer m = Some due \<Longrightarrow> due \<le> now \<Longrightarrow>
    session_step w (w\<lparr>wdStore := idleFires i (wdStore w)\<rparr>)"
| env: "session_step w (w\<lparr>wdStore := snd (getSessionEnv getCAPath i now (wdStore w))\<rparr>)"
| stop_all: "session_step w (w\<lparr>wdStore := stopAllBegin (wdStore w)\<rparr>)"
| clear: "session_step w (w\<lparr>wdStore := clearStore (wdStore w)\<rparr>)"

inductive session_reaches :: "sessionWorld \<Rightarrow> sessionWorld \<Rightarrow> bool" for w where
  here: "session_reaches w w"
| next_step: "session_reaches w v \<Longrightarrow> session_step v u \<Longrightarrow> session_reaches w u"

section \<open>Well-formed sessions\<close>

definition sessionOk :: "managedSession \<Rightarrow> bool" where
  "sessionOk m =
    (case statusOf m of
       Starting \<Rightarrow> msServer m = None \<and> pxPort (msSession m) = None \<and> msIdleTimer m = None \<and> \<not> msStopPromise m
     | Active \<Rightarrow> msServer m \<noteq> None \<and> pxPort (msSession m) \<noteq> None \<and> msIdleTimer m \<noteq> None
     | Stopping \<Rightarrow> msServer m \<noteq> None \<and> msIdleTimer m = None \<and> msStopPromise m
     | Stopped \<Rightarrow> msServer m = None \<and> pxPort (msSession m) = None \<and> msIdleTimer m = None \<and> \<not> msApprovalCallback m)"

definition storeOk :: "string list \<Rightarrow> sessionStore \<Rightarrow> bool" where
  "storeOk starts st \<longleftrightarrow>
    (\<forall>i m. ssHeap st i = Some m \<longrightarrow> pxId (msSession m) = i \<and> sessionOk m) \<and>
    distinct (ssKeys st) \<and> (\<forall>i \<in> set (ssKeys st). ssHeap st i \<noteq> None) \<and>
    (\<forall>i \<in> set starts. \<exists>m. ssHeap st i = Some m \<and> statusOf m \<in> {Starting, Stopped})"

definition worldOk :: "sessionWorld \<Rightarrow> bool" where
  "worldOk w \<longleftrightarrow> storeOk (wdStarts w) (wdStore w)"

lemma storeOk_put:
  assumes "storeOk starts st" "ssHeap st i = Some m" "sessionOk m'" "pxId (msSession m') = pxId (msSession m)"
    and "i \<in> set starts \<Longrightarrow> statusOf m' \<in> {Starting, Stopped}"
  shows "storeOk starts (putManaged i m' st)"
  using assms unfolding storeOk_def by (auto split: if_splits)

lemma storeOk_starts: "storeOk starts st \<Longrightarrow> set starts' \<subseteq> set starts \<Longrightarrow> storeOk starts' st"
  unfolding storeOk_def by blast

lemma storeOk_keys:
  "storeOk starts st \<Longrightarrow> distinct ks \<Longrightarrow> set ks \<subseteq> set (ssKeys st) \<Longrightarrow> storeOk starts (st\<lparr>ssKeys := ks\<rparr>)"
  unfolding storeOk_def by auto

lemma storeOk_sessionOk: "storeOk starts st \<Longrightarrow> ssHeap st i = Some m \<Longrightarrow> sessionOk m"
  unfolding storeOk_def by blast

lemma getManaged_heap: "getManaged st i = Some m \<Longrightarrow> ssHeap st i = Some m"
  by (simp add: getManaged_def split: if_splits)

definition beginStop :: "managedSession \<Rightarrow> managedSession" where
  "beginStop m = (let m1 = m\<lparr>msSession := (msSession m)\<lparr>pxStatus := Stopping\<rparr>, msIdleTimer := None\<rparr> in
     if msServer m = None then (stopped m1)\<lparr>msStopPromise := True\<rparr> else m1\<lparr>msStopPromise := True\<rparr>)"

lemma stopBegin_cases:
  obtains (same) "snd (stopBegin i st) = st"
  | (begun) m where "getManaged st i = Some m" "statusOf m \<noteq> Stopped" "snd (stopBegin i st) = putManaged i (beginStop m) st"
proof (cases "getManaged st i")
  case None
  then show ?thesis by (intro same) (simp add: stopBegin_def)
next
  case (Some m)
  show ?thesis
  proof (cases "statusOf m = Stopped \<or> statusOf m = Stopping \<and> msStopPromise m")
    case True
    then show ?thesis using Some by (intro same) (auto simp: stopBegin_def)
  next
    case False
    then show ?thesis using Some by (intro begun [of m]) (auto simp: stopBegin_def beginStop_def Let_def)
  qed
qed

lemma beginStop_ok:
  "sessionOk (beginStop m)" "pxId (msSession (beginStop m)) = pxId (msSession m)"
  "msServer m = None \<Longrightarrow> statusOf (beginStop m) = Stopped" "statusOf (beginStop m) \<in> {Stopping, Stopped}"
  by (simp_all add: beginStop_def stopped_def sessionOk_def Let_def)

lemma stopBegin_ok: "storeOk starts st \<Longrightarrow> storeOk starts (snd (stopBegin i st))"
proof (cases rule: stopBegin_cases [of i st])
  case (begun m)
  assume ok: "storeOk starts st"
  note heap = getManaged_heap [OF begun(1)]
  show ?thesis unfolding begun(3)
  proof (rule storeOk_put [OF ok heap beginStop_ok(1,2)])
    assume "i \<in> set starts"
    then have "statusOf m = Starting" using ok heap begun(2) unfolding storeOk_def by fastforce
    then have "msServer m = None" using storeOk_sessionOk [OF ok heap] by (simp add: sessionOk_def)
    then show "statusOf (beginStop m) \<in> {Starting, Stopped}" by (simp add: beginStop_ok)
  qed
qed simp

lemma stopAllBegin_ok: "storeOk starts st \<Longrightarrow> storeOk starts (stopAllBegin st)"
proof -
  have "storeOk starts st \<Longrightarrow> storeOk starts (fold (\<lambda>i. snd \<circ> stopBegin i) is st)" for "is" st
    by (induction "is" arbitrary: st) (simp_all add: stopBegin_ok)
  then show "storeOk starts st \<Longrightarrow> storeOk starts (stopAllBegin st)" by (simp add: stopAllBegin_def)
qed

lemma createSession_ok:
  assumes "storeOk starts st" "ssHeap st uuid = None"
  shows "storeOk starts (snd (createSession conv creds patch dataDir cb uuid now st))"
proof -
  have "uuid \<notin> set (ssKeys st)" "uuid \<notin> set starts" using assms unfolding storeOk_def by fastforce+
  then show ?thesis using assms
    unfolding storeOk_def createSession_def Let_def
    by (auto simp: newManaged_def sessionOk_def)
qed

lemma onListening_ok:
  assumes "storeOk starts st" "i \<in> set starts"
  shows "storeOk (removeAll i starts) (onListening i server port host now st)"
proof -
  obtain m where m: "ssHeap st i = Some m" using assms unfolding storeOk_def by blast
  have "storeOk (removeAll i starts) (putManaged i (nowListening server port host now m) st)"
    by (rule storeOk_put [OF storeOk_starts [OF assms(1)] m])
      (auto simp: nowListening_def resetIdleTimer_def sessionOk_def)
  then show ?thesis by (simp add: onListening_def m)
qed

lemma keep_ok:
  assumes "storeOk starts st"
  shows "storeOk starts (caReady i bundle st)" "storeOk starts (snd (getSessionEnv ca i now st))"
    "storeOk starts (idleFires i st)" "storeOk starts (clearStore st)" "storeOk starts (deleteKey i st)"
proof -
  have same: "sessionOk m \<Longrightarrow> sessionOk (m\<lparr>msCABundle := b\<rparr>)" for m b by (cases "statusOf m") (simp_all add: sessionOk_def)
  show "storeOk starts (caReady i bundle st)"
  proof (cases "ssHeap st i")
    case (Some m)
    have "i \<in> set starts \<Longrightarrow> statusOf m \<in> {Starting, Stopped}" using assms Some unfolding storeOk_def by fastforce
    then have "storeOk starts (putManaged i (m\<lparr>msCABundle := orElse bundle (msCABundle m)\<rparr>) st)"
      by (intro storeOk_put [OF assms Some same [OF storeOk_sessionOk [OF assms Some]]]) simp_all
    then show ?thesis by (simp add: caReady_def Some)
  qed (use assms in \<open>simp add: caReady_def\<close>)
  have timer: "statusOf m = Active \<Longrightarrow> sessionOk m \<Longrightarrow> sessionOk (resetIdleTimer now m)" for m
    by (simp add: sessionOk_def resetIdleTimer_def)
  show "storeOk starts (snd (getSessionEnv ca i now st))"
  proof (cases "\<exists>m port. getManaged st i = Some m \<and> pxPort (msSession m) = Some port \<and> statusOf m = Active")
    case True
    then obtain m port where m: "getManaged st i = Some m" "pxPort (msSession m) = Some port" "statusOf m = Active" by blast
    have "i \<notin> set starts" using assms m(3) getManaged_heap [OF m(1)] unfolding storeOk_def by force
    then have "storeOk starts (putManaged i (resetIdleTimer now m) st)"
      using getManaged_heap [OF m(1)] assms m(3)
      by (intro storeOk_put [OF assms _ timer]) (auto simp: storeOk_sessionOk resetIdleTimer_def)
    then show ?thesis by (simp add: getSessionEnv_def m Let_def)
  qed (use assms in \<open>auto simp: getSessionEnv_def split: option.splits\<close>)
  show "storeOk starts (idleFires i st)"
    using assms stopBegin_ok by (simp add: idleFires_def split: option.splits)
  show "storeOk starts (clearStore st)" unfolding clearStore_def by (rule storeOk_keys [OF assms]) auto
  show "storeOk starts (deleteKey i st)" unfolding deleteKey_def
    using assms by (intro storeOk_keys) (auto simp: storeOk_def)
qed

lemma serverClosed_ok: "storeOk starts st \<Longrightarrow> ssHeap st i = Some m \<Longrightarrow> statusOf m = Stopping \<Longrightarrow>
    storeOk starts (serverClosed True i st)"
  unfolding serverClosed_def
  using storeOk_sessionOk [of starts st i m]
  by (auto intro!: storeOk_put simp: sessionOk_def stopped_def)

lemma session_step_ok: "session_step w w' \<Longrightarrow> worldOk w \<Longrightarrow> worldOk w'"
proof (induction rule: session_step.induct)
  case (create w uuid)
  then show ?case by (simp add: worldOk_def createSession_ok)
next
  case (start i w)
  then obtain m where "getManaged (wdStore w) i = Some m" "statusOf m = Starting"
    by (auto simp: startCheck_def split: option.splits if_splits)
  then show ?case using start getManaged_heap unfolding worldOk_def storeOk_def by fastforce
next
  case (listens i w server)
  then show ?case by (simp add: worldOk_def onListening_ok)
next
  case (closes w i m server)
  then show ?case by (simp add: worldOk_def serverClosed_ok)
next
  case (start_fails i w)
  then show ?case using keep_ok(5) storeOk_starts [of "wdStarts w" _ "removeAll i (wdStarts w)"] by (simp add: worldOk_def)
next
  case (server_fails i w)
  then show ?case using storeOk_starts [of "wdStarts w" _ "removeAll i (wdStarts w)"] by (simp add: worldOk_def)
qed (simp_all add: worldOk_def keep_ok stopBegin_ok stopAllBegin_ok)

lemma initial_ok: "worldOk initialWorld"
  by (simp add: worldOk_def storeOk_def initialWorld_def emptyStore_def)

lemma session_reaches_ok: "session_reaches w w' \<Longrightarrow> worldOk w \<Longrightarrow> worldOk w'"
  by (induction rule: session_reaches.induct) (auto intro: session_step_ok)

section \<open>Servers\<close>

text \<open>The servers that listen are the servers of the sessions of the heap, each of one session.\<close>

definition serverAt :: "sessionStore \<Rightarrow> string \<Rightarrow> nat option" where
  "serverAt st i = Option.bind (ssHeap st i) msServer"

definition serversOk :: "sessionWorld \<Rightarrow> bool" where
  "serversOk w \<longleftrightarrow> set (wdServers w) = ran (serverAt (wdStore w)) \<and>
    inj_on (serverAt (wdStore w)) (dom (serverAt (wdStore w)))"

lemma serverAt_put [simp]: "serverAt (putManaged i m st) j = (if j = i then msServer m else serverAt st j)"
  by (simp add: serverAt_def)

lemma serverAt_keys [simp]: "serverAt (st\<lparr>ssKeys := ks\<rparr>) = serverAt st"
  by (rule ext) (simp add: serverAt_def)

lemma serverAt_same:
  "serverAt (snd (stopBegin i st)) = serverAt st" "serverAt (caReady i bundle st) = serverAt st"
  "serverAt (snd (getSessionEnv ca i now st)) = serverAt st" "serverAt (deleteKey i st) = serverAt st"
  "serverAt (clearStore st) = serverAt st"
proof -
  show begun: "serverAt (snd (stopBegin i st)) = serverAt st" for i st
  proof (cases rule: stopBegin_cases [of i st])
    case (begun m)
    then show ?thesis using getManaged_heap [OF begun(1)]
      by (auto simp: fun_eq_iff serverAt_def beginStop_def stopped_def Let_def)
  qed simp
  show "serverAt (caReady i bundle st) = serverAt st"
    by (cases "ssHeap st i") (auto simp: caReady_def fun_eq_iff serverAt_def)
  show "serverAt (snd (getSessionEnv ca i now st)) = serverAt st"
    using getManaged_heap [of st i]
    by (auto simp: getSessionEnv_def fun_eq_iff Let_def serverAt_def resetIdleTimer_def split: option.splits)
  show "serverAt (deleteKey i st) = serverAt st" "serverAt (clearStore st) = serverAt st"
    by (simp_all add: deleteKey_def clearStore_def)
qed

lemma serverAt_idle: "serverAt (idleFires i st) = serverAt st"
  by (simp add: idleFires_def serverAt_same split: option.splits)

lemma serverAt_stopAll: "serverAt (stopAllBegin st) = serverAt st"
proof -
  have "serverAt (fold (\<lambda>i. snd \<circ> stopBegin i) is st) = serverAt st" for "is" st
    by (induction "is" arbitrary: st) (simp_all add: serverAt_same)
  then show ?thesis by (simp add: stopAllBegin_def)
qed

lemma serverAt_create: "ssHeap st uuid = None \<Longrightarrow> serverAt (snd (createSession conv creds patch dataDir cb uuid now st)) = serverAt st"
  by (auto simp: createSession_def Let_def fun_eq_iff serverAt_def newManaged_def)

lemma inj_open: "inj_on f (dom f) \<Longrightarrow> x \<notin> ran f \<Longrightarrow> inj_on (f(i \<mapsto> x)) (dom (f(i \<mapsto> x)))"
proof (rule inj_onI)
  fix j k
  assume inj: "inj_on f (dom f)" "x \<notin> ran f" and d: "j \<in> dom (f(i \<mapsto> x))" "k \<in> dom (f(i \<mapsto> x))"
    and eq: "(f(i \<mapsto> x)) j = (f(i \<mapsto> x)) k"
  have out: "f l \<noteq> Some x" for l using inj(2) by (metis ranI)
  show "j = k"
  proof (cases "j = i \<or> k = i")
    case True
    then show ?thesis using eq out [of j] out [of k] by (metis fun_upd_apply)
  next
    case False
    then show ?thesis using eq d inj(1) unfolding inj_on_def by simp
  qed
qed

lemma inj_close: "inj_on f (dom f) \<Longrightarrow> f i = Some x \<Longrightarrow> ran (f(i := None)) = ran f - {x}"
proof -
  assume inj: "inj_on f (dom f)" "f i = Some x"
  have only: "j = i" if "f j = Some x" for j
    using inj_onD [OF inj(1), of j i] that inj(2) by (simp add: domI)
  have "s \<in> ran (f(i := None)) \<longleftrightarrow> (\<exists>j. j \<noteq> i \<and> f j = Some s)" for s unfolding ran_def by auto
  moreover have "s \<in> ran f - {x} \<longleftrightarrow> (\<exists>j. j \<noteq> i \<and> f j = Some s)" for s
  proof
    assume "s \<in> ran f - {x}"
    then obtain j where "f j = Some s" "s \<noteq> x" unfolding ran_def by blast
    then show "\<exists>j. j \<noteq> i \<and> f j = Some s" using inj(2) by (metis option.inject)
  next
    assume "\<exists>j. j \<noteq> i \<and> f j = Some s"
    then show "s \<in> ran f - {x}" using only unfolding ran_def by blast
  qed
  ultimately show ?thesis by blast
qed

lemma session_step_servers: "session_step w w' \<Longrightarrow> worldOk w \<Longrightarrow> serversOk w \<Longrightarrow> serversOk w'"
proof (induction rule: session_step.induct)
  case (listens i w server port host now)
  then obtain m where m: "ssHeap (wdStore w) i = Some m" "statusOf m \<in> {Starting, Stopped}"
    unfolding worldOk_def storeOk_def by blast
  let ?f = "serverAt (wdStore w)"
  have at: "serverAt (onListening i server port host now (wdStore w)) = ?f(i \<mapsto> server)"
    by (rule ext) (simp add: onListening_def m nowListening_def resetIdleTimer_def)
  have "sessionOk m" using listens.prems(1) m(1) unfolding worldOk_def by (rule storeOk_sessionOk)
  then have "?f i = None" using m by (auto simp: serverAt_def sessionOk_def)
  then show ?case using listens.prems(2) listens.hyps(2) inj_open [of ?f server i]
    by (simp add: serversOk_def at)
next
  case (closes w i m server)
  let ?f = "serverAt (wdStore w)"
  have at: "serverAt (serverClosed True i (wdStore w)) = ?f(i := None)"
    by (rule ext) (simp add: serverClosed_def closes.hyps(1) stopped_def)
  have "inj_on (?f(i := None)) (dom ?f - {i})"
    using closes.prems(2) unfolding serversOk_def inj_on_def by auto
  moreover have "?f i = Some server" using closes.hyps by (simp add: serverAt_def)
  ultimately show ?case using closes.prems(2) inj_close [of ?f i server] by (simp add: serversOk_def at)
qed (simp_all add: serversOk_def serverAt_create serverAt_same serverAt_idle serverAt_stopAll)

lemma initial_servers: "serversOk initialWorld"
  by (simp add: serversOk_def initialWorld_def emptyStore_def serverAt_def dom_def ran_def)

lemma session_reaches_servers: "session_reaches w w' \<Longrightarrow> worldOk w \<Longrightarrow> serversOk w \<Longrightarrow> serversOk w'"
  by (induction rule: session_reaches.induct) (auto intro: session_step_servers session_reaches_ok)

section \<open>Live sessions of a conversation\<close>

definition liveIn :: "sessionStore \<Rightarrow> string \<Rightarrow> string \<Rightarrow> bool" where
  "liveIn st conv i = (case ssHeap st i of
     None \<Rightarrow> False | Some m \<Rightarrow> pxConversationId (msSession m) = conv \<and> statusOf m \<noteq> Stopped)"

lemma liveCount_eq: "liveCount st conv = length (filter (liveIn st conv) (ssKeys st))"
proof -
  have "length (filter (\<lambda>s. pxStatus s \<noteq> Stopped) (filter (\<lambda>s. pxConversationId s = conv) (map msSession (List.map_filter h ks)))) =
      length (filter (\<lambda>i. case h i of None \<Rightarrow> False | Some m \<Rightarrow> pxConversationId (msSession m) = conv \<and> statusOf m \<noteq> Stopped) ks)"
    for h :: "string \<Rightarrow> managedSession option" and ks
    by (induction ks) (auto simp: map_filter_simps split: option.splits)
  then show ?thesis by (simp add: liveCount_def getSessionsForConversation_def managedValues_def liveIn_def [abs_def])
qed

lemma liveCount_le:
  assumes "distinct (ssKeys st')" "set (ssKeys st') \<subseteq> set (ssKeys st)" "\<And>i. liveIn st' conv i \<Longrightarrow> liveIn st conv i"
  shows "liveCount st' conv \<le> liveCount st conv"
proof -
  have "card (set (filter (liveIn st' conv) (ssKeys st'))) \<le> card (set (filter (liveIn st conv) (ssKeys st)))"
    using assms(2,3) by (intro card_mono) auto
  also have "\<dots> \<le> length (filter (liveIn st conv) (ssKeys st))" by (rule card_length)
  finally show ?thesis unfolding liveCount_eq using distinct_card [OF distinct_filter [OF assms(1)]] by simp
qed

text \<open>In a calm world no session with a pending start has been stopped, and no session was created with a larger limit.\<close>

definition calm :: "nat \<Rightarrow> sessionWorld \<Rightarrow> bool" where
  "calm n w \<longleftrightarrow> (\<forall>i \<in> set (wdStarts w). \<forall>m. ssHeap (wdStore w) i = Some m \<longrightarrow> statusOf m = Starting) \<and>
    (\<forall>i m. ssHeap (wdStore w) i = Some m \<longrightarrow> xcMaxSessions (msConfig m) \<le> n)"

inductive calm_reaches :: "nat \<Rightarrow> sessionWorld \<Rightarrow> sessionWorld \<Rightarrow> bool" for n w where
  calm_here: "calm_reaches n w w"
| calm_next: "calm_reaches n w v \<Longrightarrow> session_step v u \<Longrightarrow> calm n u \<Longrightarrow> calm_reaches n w u"

lemma liveIn_same: "liveIn (st\<lparr>ssKeys := ks\<rparr>) = liveIn st"
  by (intro ext) (simp add: liveIn_def)

lemma liveIn_put: "ssHeap st i = Some m \<Longrightarrow> pxConversationId (msSession m') = pxConversationId (msSession m) \<Longrightarrow>
    (statusOf m' \<noteq> Stopped \<Longrightarrow> statusOf m \<noteq> Stopped) \<Longrightarrow> liveIn (putManaged i m' st) conv j \<Longrightarrow> liveIn st conv j"
  by (auto simp: liveIn_def split: if_splits)

lemma stopBegin_live: "liveIn (snd (stopBegin i st)) conv j \<Longrightarrow> liveIn st conv j" "ssKeys (snd (stopBegin i st)) = ssKeys st"
proof -
  show "liveIn (snd (stopBegin i st)) conv j \<Longrightarrow> liveIn st conv j"
  proof (cases rule: stopBegin_cases [of i st])
    case (begun m)
    then show "liveIn (snd (stopBegin i st)) conv j \<Longrightarrow> ?thesis"
      using liveIn_put [OF getManaged_heap [OF begun(1)], of "beginStop m" conv j]
      by (auto simp: beginStop_def stopped_def Let_def)
  qed simp
  show "ssKeys (snd (stopBegin i st)) = ssKeys st" by (rule stopBegin_cases [of i st]) auto
qed

lemma stopAllBegin_live: "(liveIn (stopAllBegin st) conv j \<longrightarrow> liveIn st conv j) \<and> ssKeys (stopAllBegin st) = ssKeys st"
proof -
  have "(liveIn (fold (\<lambda>i. snd \<circ> stopBegin i) is st) conv j \<longrightarrow> liveIn st conv j) \<and>
      ssKeys (fold (\<lambda>i. snd \<circ> stopBegin i) is st) = ssKeys st" for "is"
  proof (induction "is" arbitrary: st)
    case (Cons i "is")
    from Cons.IH [of "snd (stopBegin i st)"] show ?case using stopBegin_live [of i st] by auto
  qed simp
  then show ?thesis by (simp add: stopAllBegin_def)
qed

lemma env_live: "liveIn (snd (getSessionEnv ca i now st)) conv j \<Longrightarrow> liveIn st conv j" "ssKeys (snd (getSessionEnv ca i now st)) = ssKeys st"
  by (auto simp: getSessionEnv_def Let_def resetIdleTimer_def liveIn_def dest: getManaged_heap split: option.splits if_splits)

text \<open>Every step but a creation leaves at most the live sessions there were.\<close>

lemma session_step_live:
  assumes "session_step w w'" "worldOk w" "calm n w" "calm n w'" "\<And>c. liveCount (wdStore w) c \<le> n"
  shows "liveCount (wdStore w') conv \<le> n"
proof -
  have ok': "distinct (ssKeys (wdStore w'))" using session_step_ok [OF assms(1,2)] by (simp add: worldOk_def storeOk_def)
  have less: "liveCount (wdStore w') conv \<le> n"
    if "set (ssKeys (wdStore w')) \<subseteq> set (ssKeys (wdStore w))" "\<And>j. liveIn (wdStore w') conv j \<Longrightarrow> liveIn (wdStore w) conv j"
    using liveCount_le [OF ok' that] assms(5) [of conv] by simp
  from assms(1) show ?thesis
  proof cases
    case (create uuid c creds patch dataDir cb now)
    let ?st = "wdStore w"
    have fresh: "liveIn ?st conv uuid = False" using create(2) by (simp add: liveIn_def)
    show ?thesis
    proof (cases "xcMaxSessions (mergeConfig patch) \<le> liveCount ?st c")
      case True
      then show ?thesis using create(1) assms(5) by (simp add: createSession_def)
    next
      case False
      let ?m = "newManaged c creds (mergeConfig patch) dataDir cb uuid now"
      have st': "wdStore w' = \<lparr>ssHeap = (ssHeap ?st)(uuid \<mapsto> ?m), ssKeys = ssKeys ?st @ [uuid]\<rparr>"
        using create(1) False by (simp add: createSession_def Let_def)
      have "xcMaxSessions (mergeConfig patch) \<le> n" using assms(4) st' unfolding calm_def
        by (metis fun_upd_same newManaged_def managedSession.select_convs(4) sessionStore.select_convs(1))
      moreover have "uuid \<notin> set (ssKeys ?st)" using create(2) assms(2) unfolding worldOk_def storeOk_def by blast
      then have "filter (liveIn (wdStore w') conv) (ssKeys ?st) = filter (liveIn ?st conv) (ssKeys ?st)"
        unfolding st' by (intro filter_cong) (auto simp: liveIn_def)
      then have "liveCount (wdStore w') conv \<le> liveCount ?st conv + (if c = conv then 1 else 0)"
        unfolding liveCount_eq by (simp add: st' liveIn_def newManaged_def)
      ultimately show ?thesis using False assms(5) [of conv] by (auto split: if_splits)
    qed
  next
    case (listens i server port host now)
    then obtain m where m: "ssHeap (wdStore w) i = Some m" "statusOf m = Starting"
      using assms(2,3) unfolding worldOk_def storeOk_def calm_def by blast
    then have w': "wdStore w' = putManaged i (nowListening server port host now m) (wdStore w)"
      using listens by (simp add: onListening_def)
    have "liveIn (wdStore w') conv j \<Longrightarrow> liveIn (wdStore w) conv j" for j
      unfolding w' using m(2)
      by (elim liveIn_put [OF m(1), rotated 2]) (simp_all add: nowListening_def resetIdleTimer_def)
    then show ?thesis using w' by (intro less) simp_all
  next
    case (closes i m server)
    then have w': "wdStore w' = putManaged i (stopped m) (wdStore w)" by (simp add: serverClosed_def)
    have "liveIn (wdStore w') conv j \<Longrightarrow> liveIn (wdStore w) conv j" for j
      unfolding w' by (elim liveIn_put [OF closes(2), rotated 2]) (simp_all add: stopped_def)
    then show ?thesis using w' by (intro less) simp_all
  next
    case (ca_ready i b)
    then show ?thesis
      by (intro less) (auto simp: caReady_def liveIn_def split: option.splits if_splits)
  next
    case (idle i m due now)
    then show ?thesis using stopBegin_live [of i "wdStore w"]
      by (intro less) (auto simp: idleFires_def split: if_splits)
  next
    case (stop i)
    then show ?thesis using stopBegin_live [of i "wdStore w"] by (intro less) auto
  next
    case stop_all
    then show ?thesis using stopAllBegin_live [of "wdStore w"] by (intro less) auto
  next
    case (env getCAPath i now)
    then show ?thesis using env_live [of getCAPath i now "wdStore w"] by (intro less) auto
  qed (intro less; auto simp: deleteKey_def clearStore_def liveIn_same)+
qed

lemma calm_initial: "calm n initialWorld"
  by (simp add: calm_def initialWorld_def emptyStore_def)

lemma calm_reaches_inv:
  "calm_reaches n w w' \<Longrightarrow> worldOk w \<Longrightarrow> calm n w \<Longrightarrow> (\<And>c. liveCount (wdStore w) c \<le> n) \<Longrightarrow>
    worldOk w' \<and> calm n w' \<and> (\<forall>c. liveCount (wdStore w') c \<le> n)"
proof (induction rule: calm_reaches.induct)
  case (calm_next v u)
  then show ?case using session_step_live [of v u n] session_step_ok by blast
qed simp

lemma detached_step:
  assumes "session_step w w'" "worldOk w" "ssHeap (wdStore w) i = Some m" "statusOf m = Active" "i \<notin> set (ssKeys (wdStore w))"
  shows "ssHeap (wdStore w') i = Some m \<and> i \<notin> set (ssKeys (wdStore w'))"
proof -
  let ?st = "wdStore w"
  have idle: "i \<notin> set (wdStarts w)" using assms(2,3,4) unfolding worldOk_def storeOk_def by force
  have begun: "ssHeap (snd (stopBegin j st)) i = ssHeap st i" if "i \<notin> set (ssKeys st)" for j st
    using that by (cases rule: stopBegin_cases [of j st]) (auto simp: getManaged_def split: if_splits)
  have all: "ssHeap (fold (\<lambda>j. snd \<circ> stopBegin j) js st) i = ssHeap st i" if "i \<notin> set (ssKeys st)" for js st
    using that by (induction js arbitrary: st) (simp_all add: begun stopBegin_live(2))
  from assms(1) show ?thesis
  proof cases
    case (stop_all)
    then show ?thesis using assms(3,5) all [of ?st] stopAllBegin_live [of ?st] by (simp add: stopAllBegin_def)
  next
    case (stop j)
    then show ?thesis using assms(3,5) begun [of ?st] stopBegin_live(2) by simp
  next
    case (idle j n due now)
    then show ?thesis using assms(3,5) begun [of ?st] stopBegin_live(2) by (simp add: idleFires_def)
  next
    case (env getCAPath j now)
    then show ?thesis using assms(3,5) env_live(2)
      by (auto simp: getSessionEnv_def getManaged_def Let_def split: option.splits)
  next
    case (ca_ready j b)
    then show ?thesis using assms(3,5) idle by (auto simp: caReady_def split: option.splits)
  next
    case (listens j server port host now)
    then show ?thesis using assms(3,5) idle by (auto simp: onListening_def split: option.splits)
  next
    case (closes j n server)
    then show ?thesis using assms(3,4,5) by (auto simp: serverClosed_def)
  qed (use assms(3,5) in \<open>auto simp: createSession_def Let_def deleteKey_def clearStore_def\<close>)
qed

lemma detached_reaches:
  assumes "session_reaches w w'" "worldOk w" "serversOk w" "ssHeap (wdStore w) i = Some m" "statusOf m = Active"
    "i \<notin> set (ssKeys (wdStore w))" "msServer m = Some s"
  shows "s \<in> set (wdServers w')"
proof -
  have "session_reaches w w' \<Longrightarrow> ssHeap (wdStore w') i = Some m \<and> i \<notin> set (ssKeys (wdStore w'))"
  proof (induction rule: session_reaches.induct)
    case (next_step v u)
    then show ?case using detached_step [OF next_step.hyps(2) session_reaches_ok [OF next_step.hyps(1)]] assms by blast
  qed (use assms in blast)+
  moreover have "serversOk w'" using session_reaches_servers assms(1-3) by blast
  ultimately show ?thesis using assms(1,7) ranI [of "serverAt (wdStore w')" i s] by (simp add: serversOk_def serverAt_def)
qed

section \<open>Properties\<close>

text \<open>C27: In every state the interleaved operations can reach, a session sits under its own id and its fields
  agree with its status (a live one has a server, a port and a timer; a stopped one has none of them),
  the keys of the map are distinct ids of sessions, and the servers that listen are the servers
  of the sessions, each of one session.\<close>

theorem sessions_well_formed:
  assumes "session_reaches initialWorld w"
  shows "(\<forall>i m. ssHeap (wdStore w) i = Some m \<longrightarrow> pxId (msSession m) = i \<and> sessionOk m) \<and>
    distinct (ssKeys (wdStore w)) \<and> set (ssKeys (wdStore w)) \<subseteq> dom (ssHeap (wdStore w)) \<and>
    set (wdServers w) = ran (serverAt (wdStore w)) \<and>
    inj_on (serverAt (wdStore w)) (dom (serverAt (wdStore w)))"
  using session_reaches_ok [OF assms initial_ok] session_reaches_servers [OF assms initial_ok initial_servers]
  unfolding worldOk_def storeOk_def serversOk_def by blast

text \<open>C13: As long as no session is stopped while its start is pending, a conversation never has more sessions
  that are not stopped than the largest limit that was asked for.\<close>

theorem live_sessions_bounded:
  assumes "calm_reaches n initialWorld w"
  shows "liveCount (wdStore w) conv \<le> n"
proof -
  have "liveCount (wdStore initialWorld) c = 0" for c by (simp add: liveCount_eq initialWorld_def emptyStore_def)
  then show ?thesis using calm_reaches_inv [OF assms initial_ok calm_initial] by simp
qed

definition ex_patch :: configPatch where
  "ex_patch = \<lparr>xpIdleTimeoutMs = None, xpMaxSessions = None, xpAllowedTargets = None\<rparr>"

text \<open>One session is created, started, stopped and the store cleared before its server listens.\<close>

definition ex_created :: sessionWorld where
  "ex_created = initialWorld\<lparr>wdStore := snd (createSession ''conv'' [''cred''] ex_patch None False ''s'' 0 emptyStore)\<rparr>"

definition ex_starting :: sessionWorld where
  "ex_starting = ex_created\<lparr>wdStarts := [''s'']\<rparr>"

definition ex_cleared :: sessionWorld where
  "ex_cleared = ex_starting\<lparr>wdStore := clearStore (stopAllBegin (wdStore ex_starting))\<rparr>"

definition ex_leaked :: sessionWorld where
  "ex_leaked = ex_cleared\<lparr>wdStore := onListening ''s'' 7 8080 ''127.0.0.1'' 5 (wdStore ex_cleared), wdStarts := [], wdServers := [7]\<rparr>"

lemma ex_starting_reached: "session_reaches initialWorld ex_starting"
proof -
  have "session_step initialWorld ex_created" unfolding ex_created_def
    using session_step.create [of initialWorld "''s''" "''conv''" "[''cred'']" ex_patch None False 0]
    by (simp add: initialWorld_def emptyStore_def)
  moreover have "startCheck ''s'' (wdStore ex_created) = None" by code_simp
  then have "session_step ex_created ex_starting" unfolding ex_starting_def
    using session_step.start [of "''s''" ex_created] by (simp add: ex_created_def initialWorld_def)
  ultimately show ?thesis by (blast intro: session_reaches.intros)
qed

lemma ex_leaked_reached: "session_reaches initialWorld ex_leaked"
proof -
  have "session_step ex_starting (ex_starting\<lparr>wdStore := stopAllBegin (wdStore ex_starting)\<rparr>)" by (rule session_step.stop_all)
  moreover have "session_step (ex_starting\<lparr>wdStore := stopAllBegin (wdStore ex_starting)\<rparr>) ex_cleared" unfolding ex_cleared_def
    using session_step.clear [of "ex_starting\<lparr>wdStore := stopAllBegin (wdStore ex_starting)\<rparr>"] by simp
  moreover have "session_step ex_cleared ex_leaked" unfolding ex_leaked_def
    using session_step.listens [of "''s''" ex_cleared 7 8080 "''127.0.0.1''" 5]
    by (simp add: ex_cleared_def ex_starting_def ex_created_def initialWorld_def)
  ultimately show ?thesis using ex_starting_reached by (blast intro: session_reaches.intros)
qed

text \<open>C29: A shutdown during a start leaks a server: the stop returns at once, the store is cleared, and then the
  server starts to listen and makes the stopped session active again; from there no operation, not
  even its idle timer, ever closes it.\<close>

theorem stop_during_start_leaks:
  "\<exists>w server. session_reaches initialWorld w \<and> ssKeys (wdStore w) = [] \<and> wdStarts w = [] \<and>
    (\<forall>w'. session_reaches w w' \<longrightarrow> server \<in> set (wdServers w'))"
proof (intro exI [of _ ex_leaked] exI [of _ 7] conjI allI impI)
  show "session_reaches initialWorld ex_leaked" by (rule ex_leaked_reached)
  show "ssKeys (wdStore ex_leaked) = []" by code_simp
  show "wdStarts ex_leaked = []" by (simp add: ex_leaked_def)
  fix w' assume r: "session_reaches ex_leaked w'"
  have "map_option (\<lambda>m. (statusOf m, msServer m)) (ssHeap (wdStore ex_leaked) ''s'') = Some (Active, Some 7)" by code_simp
  then obtain m where m: "ssHeap (wdStore ex_leaked) ''s'' = Some m" "statusOf m = Active" "msServer m = Some 7" by auto
  have "''s'' \<notin> set (ssKeys (wdStore ex_leaked))" using \<open>ssKeys (wdStore ex_leaked) = []\<close> by simp
  then show "7 \<in> set (wdServers w')"
    using detached_reaches [OF r session_reaches_ok [OF ex_leaked_reached initial_ok]
      session_reaches_servers [OF ex_leaked_reached initial_ok initial_servers] m(1,2) _ m(3)] by simp
qed

theorem stop_during_start_leaks_witness: "\<exists>w :: sessionWorld. ssKeys (wdStore w) = [] \<and> wdServers w \<noteq> []"
proof -
  obtain w server where "ssKeys (wdStore w) = []" "\<forall>w'. session_reaches w w' \<longrightarrow> server \<in> set (wdServers w')"
    using stop_during_start_leaks by blast
  moreover from this(2) have "server \<in> set (wdServers w)" using session_reaches.here by blast
  ultimately show ?thesis by (intro exI [of _ w]) auto
qed

theorem sessions_well_formed_witness: "distinct (ssKeys (wdStore ex_leaked)) \<and> ran (serverAt (wdStore ex_leaked)) = {7}"
  using sessions_well_formed [OF ex_leaked_reached] by (simp add: ex_leaked_def)

theorem live_sessions_bounded_witness: "liveCount (wdStore ex_starting) ''conv'' \<le> 3"
proof (rule live_sessions_bounded)
  have h: "ssHeap (wdStore ex_created) = [''s'' \<mapsto> newManaged ''conv'' [''cred''] (mergeConfig ex_patch) None False ''s'' 0]"
    by (simp add: ex_created_def createSession_def Let_def emptyStore_def liveCount_def getSessionsForConversation_def
      managedValues_def map_filter_simps mergeConfig_def ex_patch_def DEFAULT_CONFIG_def)
  have lim: "xcMaxSessions (mergeConfig ex_patch) = 3" by code_simp
  have c: "calm 3 ex_created" "calm 3 ex_starting"
    using h lim by (auto simp: calm_def ex_starting_def newManaged_def ex_created_def initialWorld_def split: if_splits)
  have "session_step initialWorld ex_created" unfolding ex_created_def
    using session_step.create [of initialWorld "''s''" "''conv''" "[''cred'']" ex_patch None False 0]
    by (simp add: initialWorld_def emptyStore_def)
  moreover have "startCheck ''s'' (wdStore ex_created) = None" by code_simp
  then have "session_step ex_created ex_starting" unfolding ex_starting_def
    using session_step.start [of "''s''" ex_created] by (simp add: ex_created_def initialWorld_def)
  ultimately show "calm_reaches 3 initialWorld ex_starting" using c by (blast intro: calm_reaches.intros)
qed

text \<open>When the hook that creates the server fails, the session stays in the store in its starting state, so
  three such failures use up the limit of the conversation: no further session of it can be created.\<close>

theorem failed_servers_exhaust_limit:
  "let attempt = (\<lambda>i st. snd (startSession i \<lparr>saSetupCA = NoSetup, saServer = None, saPort = None\<rparr> ''127.0.0.1'' 0
        (snd (createSession ''conv'' [''cred''] ex_patch None False i 0 st))));
      st = attempt ''c'' (attempt ''b'' (attempt ''a'' emptyStore)) in
    fst (createSession ''conv'' [''cred''] ex_patch None False ''d'' 1 st) = Inl (MaxSessions 3 ''conv'') \<and>
    map (\<lambda>m. (statusOf m, msServer m)) (managedValues st) = [(Starting, None), (Starting, None), (Starting, None)]"
  by code_simp

end
