(* ===== verification/CommandExecutor.thy ===== *)
theory CommandExecutor
  imports Toolstore EgressSessions HttpPolicy
begin

text \<open>
  The pipeline that runs an authenticated command, \<open>credential-executor/src/commands/executor.ts\<close>: bundle and
  profile, grant, staging, credential, proxy session, auth adapter, entrypoint, environment, the command,
  copyback, cleanup and audit record.

  \<open>execState\<close> is what the pipeline reads and changes: both grant stores, the disk, the proxy sessions, the
  audit log, and the processes it has launched. \<open>execRuntime\<close> is what it is given: configuration, the
  clock, random names, and the answers of the materializer, of the proxy hooks and of the processes.
  \<open>None\<close> in place of a result is an exception that leaves the function.
\<close>

section \<open>Types\<close>

type_synonym environment = "(string, string) jsMap"

record executeCommandRequest =
  eqBundleDigest :: string
  eqProfileName :: string
  eqCredentialHandle :: string
  eqArgv :: "string list"
  eqWorkspaceDir :: string
  eqInputs :: "string list option"
  eqOutputs :: "workspaceOutput list option"
  eqPurpose :: string
  eqGrantId :: "string option"
  eqConversationId :: "string option"

datatype helperFailure =
    HelperHasMetacharacters | HelperBinaryDenied string | HelperExited int string | HelperThrew

datatype adapterFailure = BadAdapter "manifestError list" | HelperFailed helperFailure | AdapterIO

datatype executeError =
    BundleNotPublished | ManifestUnreadable | EntrypointDenied string | BundleIdDenied string
  | ProfileNotFound string | CommandRejected commandReason | OtherProfileMatched string
  | ApprovalRequired string | StagingFailed stageError | MaterializationFailed string
  | NoEgressHooks | ProxyStartFailed sessionError | AdapterFailed adapterFailure
  | EntrypointTraversal | EntrypointUnresolved | EntrypointEscape string | ConfigDirsFailed
  | ExecutionFailed | ExitedWith int | CopybackFailures "copyResult list"

record executeCommandResult =
  erSuccess :: bool
  erExitCode :: "int option"
  erStdout :: "string option"
  erStderr :: "string option"
  erCopyback :: "(copyResult list \<times> bool) option"
  erErrors :: "executeError list"

record launchedProcess =
  lpProgram :: string
  lpArgv :: "string list"
  lpCwd :: "string option"
  lpStdin :: "string option"
  lpEnv :: environment

record auditRecord =
  auAuditId :: string
  auGrantId :: string
  auCredentialHandle :: string
  auTarget :: string
  auSessionId :: string
  auSuccess :: bool
  auErrors :: "executeError list"
  auTimestamp :: millis

datatype materializeResult = MaterializeOk string | MaterializeError string | MaterializeThrows

record execState =
  xsStores :: cesState
  xsDisk :: WorkspaceStaging.disk
  xsSessions :: sessionStore
  xsProcesses :: "launchedProcess list"
  xsAudit :: "auditRecord list"

record execRuntime =
  xrTools :: toolRuntime
  xrCwd :: string
  xrPrivileged :: bool
  xrToolstoreDir :: string
  xrScratchBase :: string
  xrTmpdir :: string
  xrPath :: "string option"
  xrMaxOutput :: "nat option"
  xrSessionId :: "string option"
  xrHooks :: "startAnswers option"
  xrCloses :: bool
  xrMaterialize :: "string \<Rightarrow> materializeResult"
  xrHelper :: "launchedProcess \<Rightarrow> (int \<times> string \<times> string) option"
  xrChild :: "launchedProcess \<Rightarrow> WorkspaceStaging.disk \<Rightarrow> (int \<times> string \<times> string) option \<times> WorkspaceStaging.disk"
  xrDuring :: "WorkspaceStaging.disk \<Rightarrow> WorkspaceStaging.disk"
  xrAuditWorks :: bool
  xrAuditId :: string
  xrScratchId :: string
  xrProxyId :: string
  xrAuthId :: string
  xrHomeId :: string
  xrNow :: millis

definition DEFAULT_MAX_OUTPUT_BYTES :: nat where
  "DEFAULT_MAX_OUTPUT_BYTES = 256 * 1024"

definition failedWith :: "executeError \<Rightarrow> executeCommandResult" where
  "failedWith e = \<lparr>erSuccess = False, erExitCode = None, erStdout = None, erStderr = None, erCopyback = None, erErrors = [e]\<rparr>"

section \<open>Bundle and profile\<close>

definition resolveBundle :: "execRuntime \<Rightarrow> fileTree \<Rightarrow> string \<Rightarrow> executeError + commandManifest" where
  "resolveBundle rt t digest =
    (if \<not> isBundlePublished t (xrToolstoreDir rt) digest then Inl BundleNotPublished
     else (case readPublishedManifest (xrTools rt) t (xrToolstoreDir rt) digest of
         None \<Rightarrow> Inl ManifestUnreadable
       | Some tm \<Rightarrow>
          (let manifest = tmSecureManifest tm; entrypoint = orDefault (cmEntrypoint manifest) [];
               bundleId = orDefault (cmBundleId manifest) [] in
           if isDeniedBinary entrypoint then Inl (EntrypointDenied entrypoint)
           else if isDeniedBinary bundleId then Inl (BundleIdDenied bundleId)
           else Inr manifest)))"

definition selectProfile :: "commandManifest \<Rightarrow> string \<Rightarrow> string list \<Rightarrow> executeError + commandProfile" where
  "selectProfile manifest profileName argv =
    (case map_of (profilesOf manifest) profileName of
       None \<Rightarrow> Inl (ProfileNotFound profileName)
     | Some profile \<Rightarrow>
        (case validateCommand manifest argv of
           Inl reason \<Rightarrow> Inl (CommandRejected reason)
         | Inr (matched, pattern) \<Rightarrow> if matched \<noteq> profileName then Inl (OtherProfileMatched matched) else Inr profile))"

section \<open>Grants\<close>

definition legacyCommand :: "executeCommandRequest \<Rightarrow> string" where
  "legacyCommand rq = trim (eqBundleDigest rq @ ''/'' @ eqProfileName rq @ '' '' @ join '' '' (eqArgv rq))"

definition canonicalPattern :: "executeCommandRequest \<Rightarrow> string" where
  "canonicalPattern rq = eqCredentialHandle rq @ '':'' @ eqBundleDigest rq @ '':'' @ eqProfileName rq"

definition grantMatchesCommand :: "string \<Rightarrow> executeCommandRequest \<Rightarrow> bool" where
  "grantMatchesCommand pattern rq = (pattern = canonicalPattern rq \<or> pattern = legacyCommand rq)"

definition commandGrantCovers :: "executeCommandRequest \<Rightarrow> persistentGrant \<Rightarrow> bool" where
  "commandGrantCovers rq g =
    (gTool g = ''command'' \<and> gScope g = eqCredentialHandle rq \<and> grantMatchesCommand (gPattern g) rq)"

definition tempProposal :: "executeCommandRequest \<Rightarrow> grantProposal" where
  "tempProposal rq = CommandProposal
    \<lparr>cpCredentialHandle = eqCredentialHandle rq, cpCommand = legacyCommand rq, cpPurpose = eqPurpose rq,
     cpAllowedCommandPatterns = Some [canonicalPattern rq]\<rparr>"

definition temporaryGrant :: "(string \<Rightarrow> string) \<Rightarrow> executeCommandRequest \<Rightarrow> millis \<Rightarrow> tempStore \<Rightarrow> string option \<times> tempStore" where
  "temporaryGrant sha256 rq now temp =
    (let h = hashProposal sha256 (tempProposal rq) in
     case tempCheckAny h (eqConversationId rq) now temp of
       (None, temp') \<Rightarrow> (None, temp')
     | (Some k, temp') \<Rightarrow> (Some (''temp:'' @ kindName k @ '':'' @ h), temp'))"

text \<open>The id of the grant that covers the request; \<open>Inl\<close> is an exception of the persistent store.\<close>

definition checkGrant ::
  "(string \<Rightarrow> string) \<Rightarrow> executeCommandRequest \<Rightarrow> millis \<Rightarrow> cesState \<Rightarrow> (storeError + string option) \<times> cesState" where
  "checkGrant sha256 rq now st =
    (let byPattern = (\<lambda>ps.
       case getAll ps of
         (Inl e, ps') \<Rightarrow> (Inl e, st\<lparr>persistent := ps'\<rparr>)
       | (Inr grants, ps') \<Rightarrow>
          (case find (commandGrantCovers rq) grants of
             Some g \<Rightarrow> (Inr (Some (gId g)), st\<lparr>persistent := ps'\<rparr>)
           | None \<Rightarrow>
              (case temporaryGrant sha256 rq now (temporary st) of
                 (r, temp') \<Rightarrow> (Inr r, \<lparr>persistent = ps', temporary = temp'\<rparr>)))) in
     if \<not> truthy (eqGrantId rq) then byPattern (persistent st)
     else (case getById (orDefault (eqGrantId rq) []) (persistent st) of
         (Inl e, ps') \<Rightarrow> (Inl e, st\<lparr>persistent := ps'\<rparr>)
       | (Inr None, ps') \<Rightarrow> byPattern ps'
       | (Inr (Some g), ps') \<Rightarrow>
          if commandGrantCovers rq g then (Inr (Some (gId g)), st\<lparr>persistent := ps'\<rparr>) else byPattern ps'))"

section \<open>Environments\<close>

datatype egressEnv = EgressProxy proxyEnvVars | EgressBlocked | EgressNone

definition setAll :: "(string \<times> string) list \<Rightarrow> environment \<Rightarrow> environment" where
  "setAll kvs env = fold (\<lambda>(k, v). mapSet k v) kvs env"

definition proxyVars :: "proxyEnvVars \<Rightarrow> (string \<times> string) list" where
  "proxyVars p =
    [(''HTTP_PROXY'', pvHttpProxy p), (''HTTPS_PROXY'', pvHttpsProxy p), (''NO_PROXY'', pvNoProxy p),
     (''http_proxy'', pvHttpProxy p), (''https_proxy'', pvHttpsProxy p), (''no_proxy'', pvNoProxy p)] @
    (if truthy (pvNodeExtraCaCerts p) then [(''NODE_EXTRA_CA_CERTS'', orDefault (pvNodeExtraCaCerts p) [])] else []) @
    (if truthy (pvSslCertFile p) then [(''SSL_CERT_FILE'', orDefault (pvSslCertFile p) [])] else [])"

definition noNetworkEnv :: "(string \<times> string) list" where
  "noNetworkEnv = (let blockedProxy = ''http://127.0.0.1:0'' in
    [(''HTTP_PROXY'', blockedProxy), (''HTTPS_PROXY'', blockedProxy), (''http_proxy'', blockedProxy),
     (''https_proxy'', blockedProxy), (''NO_PROXY'', []), (''no_proxy'', [])])"

definition egressVars :: "egressEnv \<Rightarrow> (string \<times> string) list" where
  "egressVars e = (case e of EgressProxy p \<Rightarrow> proxyVars p | EgressBlocked \<Rightarrow> noNetworkEnv | EgressNone \<Rightarrow> [])"

definition buildCommandEnv :: "string option \<Rightarrow> environment \<Rightarrow> egressEnv \<Rightarrow> string \<Rightarrow> environment" where
  "buildCommandEnv path adapterEnv egress homeDir =
    setAll (egressVars egress)
      (setAll [(''PATH'', orDefault path ''/usr/local/bin:/usr/bin:/bin''), (''LANG'', ''en_US.UTF-8''), (''HOME'', homeDir)]
        adapterEnv)"

section \<open>Auth adapters\<close>

definition helperProcess :: "string \<Rightarrow> string \<Rightarrow> egressEnv \<Rightarrow> launchedProcess" where
  "helperProcess helperCommand value egress =
    \<lparr>lpProgram = ''sh'', lpArgv = [''-c'', helperCommand], lpCwd = None, lpStdin = Some value,
     lpEnv = setAll (egressVars egress) []\<rparr>"

definition runCredentialProcess ::
  "execRuntime \<Rightarrow> string \<Rightarrow> string \<Rightarrow> egressEnv \<Rightarrow> (helperFailure + string) \<times> launchedProcess list" where
  "runCredentialProcess rt helperCommand value egress =
    (if containsShellMetacharacters helperCommand then (Inl HelperHasMetacharacters, [])
     else if isDeniedBinary (extractShellBinary helperCommand)
     then (Inl (HelperBinaryDenied (extractShellBinary helperCommand)), [])
     else let p = helperProcess helperCommand value egress in
       (case xrHelper rt p of
          None \<Rightarrow> (Inl HelperThrew, [p])
        | Some (exitCode, out, err) \<Rightarrow>
            if exitCode \<noteq> 0 then (Inl (HelperExited exitCode (trim err)), [p]) else (Inr (trim out), [p])))"

text \<open>The credential file of the temp-file adapter: its path, and the disk after the attempt.\<close>

definition writeCredentialFile ::
  "execRuntime \<Rightarrow> adapterConfig \<Rightarrow> string \<Rightarrow> WorkspaceStaging.disk \<Rightarrow> string option \<times> WorkspaceStaging.disk" where
  "writeCredentialFile rt adapter value d =
    (let tempDir = joinPaths [xrTmpdir rt, ''ces-auth-'' @ xrAuthId rt];
         tempPath = joinPaths [tempDir, ''credential'' @ orDefault (aaFileExtension adapter) []];
         mode = orDefault (aaFileMode adapter) 384 in
     case mkdirDisk d (xrCwd rt) tempDir of
       None \<Rightarrow> (None, d)
     | Some d1 \<Rightarrow>
        if mode < 0 then (None, d1)
        else (case Toolstore.writeFile (xrPrivileged rt) d1 tempPath value (nat mode) of
            None \<Rightarrow> (None, d1)
          | Some d2 \<Rightarrow> (Some tempPath, d2)))"

text \<open>The variables, the path of a temporary file, and what was changed and launched on the way.\<close>

definition buildAuthAdapterEnv ::
  "execRuntime \<Rightarrow> adapterConfig \<Rightarrow> string \<Rightarrow> egressEnv \<Rightarrow> execState \<Rightarrow>
    (adapterFailure + environment \<times> string option) \<times> execState" where
  "buildAuthAdapterEnv rt adapter value egress s =
    (let errors = validateAuthAdapterConfig adapter; name = orDefault (aaEnvVarName adapter) [] in
     if errors \<noteq> [] then (Inl (BadAdapter errors), s)
     else if aaType adapter = ''env_var'' then
       (Inr ([(name, if truthy (aaValuePrefix adapter) then orDefault (aaValuePrefix adapter) [] @ value else value)], None), s)
     else if aaType adapter = ''temp_file'' then
       (case writeCredentialFile rt adapter value (xsDisk s) of
          (None, d) \<Rightarrow> (Inl AdapterIO, s\<lparr>xsDisk := d\<rparr>)
        | (Some path, d) \<Rightarrow> (Inr ([(name, path)], Some path), s\<lparr>xsDisk := d\<rparr>))
     else
       (case runCredentialProcess rt (orDefault (aaHelperCommand adapter) []) value egress of
          (Inl e, ps) \<Rightarrow> (Inl (HelperFailed e), s\<lparr>xsProcesses := xsProcesses s @ ps\<rparr>)
        | (Inr out, ps) \<Rightarrow> (Inr ([(name, out)], None), s\<lparr>xsProcesses := xsProcesses s @ ps\<rparr>)))"

section \<open>Cleanup\<close>

definition stopProxy :: "execRuntime \<Rightarrow> string option \<Rightarrow> execState \<Rightarrow> execState" where
  "stopProxy rt proxy s =
    (case proxy of None \<Rightarrow> s | Some i \<Rightarrow> s\<lparr>xsSessions := snd (stopSession i (xrCloses rt) (xsSessions s))\<rparr>)"

definition removeTempFile :: "string \<Rightarrow> string option \<Rightarrow> WorkspaceStaging.disk \<Rightarrow> WorkspaceStaging.disk" where
  "removeTempFile cwd temp d =
    (case temp of
       None \<Rightarrow> d
     | Some p \<Rightarrow>
        (case lstatSync (dkTree d) p of
           None \<Rightarrow> d
         | Some DirNode \<Rightarrow> d
         | Some _ \<Rightarrow> cleanupScratchDir cwd (dirname p) (unlinkSync d p)))"

definition cleanupAll :: "execRuntime \<Rightarrow> string \<Rightarrow> string option \<Rightarrow> string option \<Rightarrow> execState \<Rightarrow> execState" where
  "cleanupAll rt scratchDir temp home s =
    s\<lparr>xsDisk := cleanupScratchDir (xrCwd rt) scratchDir
      (case home of None \<Rightarrow> removeTempFile (xrCwd rt) temp (xsDisk s)
       | Some h \<Rightarrow> cleanupScratchDir (xrCwd rt) h (removeTempFile (xrCwd rt) temp (xsDisk s)))\<rparr>"

section \<open>Entrypoint and home directory\<close>

text \<open>\<open>None\<close>: the bundle directory itself cannot be resolved, which is an exception.\<close>

definition checkEntry :: "string \<Rightarrow> fileTree \<Rightarrow> string \<Rightarrow> string \<Rightarrow> executeError option option" where
  "checkEntry cwd t bundleDir entrypoint =
    (let entrypointPath = resolve cwd [bundleDir, entrypoint] in
     if \<not> startsWith entrypointPath (bundleDir @ [slash]) \<and> entrypointPath \<noteq> bundleDir then Some (Some EntrypointTraversal)
     else (case realpathSync t cwd entrypointPath of
         None \<Rightarrow> Some (Some EntrypointUnresolved)
       | Some r \<Rightarrow>
          (case realpathSync t cwd bundleDir of
             None \<Rightarrow> None
           | Some b \<Rightarrow>
              if \<not> startsWith r (b @ [slash]) \<and> r \<noteq> b then Some (Some (EntrypointEscape r)) else Some None)))"

text \<open>The flag tells whether every directory could be made.\<close>

fun enforceCleanConfigDirs :: "string \<Rightarrow> string \<Rightarrow> string list \<Rightarrow> WorkspaceStaging.disk \<Rightarrow> bool \<times> WorkspaceStaging.disk" where
  "enforceCleanConfigDirs cwd homeDir [] d = (True, d)"
| "enforceCleanConfigDirs cwd homeDir (dirPath # dirs) d =
     (if startsWith dirPath ''~/'' then
        (let resolvedPath = resolve cwd [homeDir, drop 2 dirPath] in
         if \<not> startsWith resolvedPath (homeDir @ [slash]) \<and> resolvedPath \<noteq> homeDir
         then enforceCleanConfigDirs cwd homeDir dirs d
         else (case mkdirDisk d cwd resolvedPath of
             None \<Rightarrow> (False, d)
           | Some d1 \<Rightarrow> enforceCleanConfigDirs cwd homeDir dirs d1))
      else enforceCleanConfigDirs cwd homeDir dirs d)"

definition prepareHome :: "execRuntime \<Rightarrow> commandManifest \<Rightarrow> string \<Rightarrow> WorkspaceStaging.disk \<Rightarrow> bool \<times> WorkspaceStaging.disk" where
  "prepareHome rt manifest homeDir d =
    (case mkdirDisk d (xrCwd rt) homeDir of
       None \<Rightarrow> (False, d)
     | Some d1 \<Rightarrow> enforceCleanConfigDirs (xrCwd rt) homeDir (map fst (orDefault (cmCleanConfigDirs manifest) [])) d1)"

section \<open>Running the command\<close>

definition truncateOutput :: "nat \<Rightarrow> string \<Rightarrow> string" where
  "truncateOutput n s = (if n < length s then take n s @ [CHR 0x0A] @ ''[output truncated]'' else s)"

text \<open>\<open>None\<close> stands for the exceptions of the directory, of the start and of the pipes.\<close>

definition runCommand ::
  "execRuntime \<Rightarrow> string \<Rightarrow> string list \<Rightarrow> string \<Rightarrow> environment \<Rightarrow> nat \<Rightarrow> execState \<Rightarrow> executeCommandResult option \<times> execState" where
  "runCommand rt entrypointPath argv scratchDir env maxOutput s =
    (case mkdirDisk (xsDisk s) (xrCwd rt) (orDefault (mapGet env ''HOME'') []) of
       None \<Rightarrow> (None, s)
     | Some d \<Rightarrow>
        (let p = \<lparr>lpProgram = entrypointPath, lpArgv = argv, lpCwd = Some scratchDir, lpStdin = None, lpEnv = env\<rparr>;
             s1 = s\<lparr>xsProcesses := xsProcesses s @ [p], xsDisk := snd (xrChild rt p d)\<rparr> in
         case fst (xrChild rt p d) of
           None \<Rightarrow> (None, s1)
         | Some (exitCode, out, err) \<Rightarrow>
            (Some \<lparr>erSuccess = (exitCode = 0), erExitCode = Some exitCode,
               erStdout = Some (truncateOutput maxOutput out), erStderr = Some (truncateOutput maxOutput err),
               erCopyback = None, erErrors = (if exitCode \<noteq> 0 then [ExitedWith exitCode] else [])\<rparr>, s1)))"

definition stageConfigOf :: "executeCommandRequest \<Rightarrow> string list \<Rightarrow> stageConfig" where
  "stageConfigOf rq secrets =
    \<lparr>scWorkspaceDir = eqWorkspaceDir rq, scInputs = orDefault (eqInputs rq) [],
     scOutputs = orDefault (eqOutputs rq) [], scSecrets = secrets\<rparr>"

definition copyOutputs ::
  "execRuntime \<Rightarrow> executeCommandRequest \<Rightarrow> string \<Rightarrow> string \<Rightarrow> executeCommandResult \<Rightarrow> execState \<Rightarrow> executeCommandResult \<times> execState" where
  "copyOutputs rt rq value scratchDir r s =
    (if orDefault (eqOutputs rq) [] = [] \<or> erExitCode r = None then (r, s)
     else (case copybackOutputs (xrCwd rt) (xrPrivileged rt) (xrDuring rt) (stageConfigOf rq [value]) scratchDir (xsDisk s) of
         ((rs, ok), d) \<Rightarrow>
           (r\<lparr>erCopyback := Some (rs, ok),
              erErrors := erErrors r @ (if ok then [] else [CopybackFailures (filter (\<lambda>x. \<not> crSuccess x) rs)])\<rparr>,
            s\<lparr>xsDisk := d\<rparr>)))"

definition auditRecordOf :: "execRuntime \<Rightarrow> executeCommandRequest \<Rightarrow> string \<Rightarrow> executeCommandResult \<Rightarrow> auditRecord" where
  "auditRecordOf rt rq grantId r =
    \<lparr>auAuditId = xrAuditId rt, auGrantId = grantId, auCredentialHandle = eqCredentialHandle rq,
     auTarget = eqBundleDigest rq @ ''/'' @ eqProfileName rq, auSessionId = orDefault (xrSessionId rt) ''unknown'',
     auSuccess = erSuccess r, auErrors = erErrors r, auTimestamp = xrNow rt\<rparr>"

section \<open>The pipeline\<close>

text \<open>Steps 1 to 3. The outer \<open>None\<close> is an exception of the grant store.\<close>

definition authorize ::
  "execRuntime \<Rightarrow> executeCommandRequest \<Rightarrow> execState \<Rightarrow> (executeError + commandManifest \<times> string) option \<times> execState" where
  "authorize rt rq s =
    (case resolveBundle rt (dkTree (xsDisk s)) (eqBundleDigest rq) of
       Inl e \<Rightarrow> (Some (Inl e), s)
     | Inr manifest \<Rightarrow>
        (case selectProfile manifest (eqProfileName rq) (eqArgv rq) of
           Inl e \<Rightarrow> (Some (Inl e), s)
         | Inr profile \<Rightarrow>
            (case checkGrant (trSha256 (xrTools rt)) rq (xrNow rt) (xsStores s) of
               (Inl e, st) \<Rightarrow> (None, s\<lparr>xsStores := st\<rparr>)
             | (Inr None, st) \<Rightarrow> (Some (Inl (ApprovalRequired (legacyCommand rq))), s\<lparr>xsStores := st\<rparr>)
             | (Inr (Some g), st) \<Rightarrow> (Some (Inr (manifest, g)), s\<lparr>xsStores := st\<rparr>))))"

text \<open>Step 6: the proxy session, and the variables that route traffic through it.\<close>

definition allowedTargetsOf :: "commandManifest \<Rightarrow> string \<Rightarrow> allowedTarget list option" where
  "allowedTargetsOf manifest profileName =
    Option.bind (map_of (profilesOf manifest) profileName) (\<lambda>p. map_option
      (map (\<lambda>t. \<lparr>atHost = orDefault (ntHostPattern t) [], atPorts = map_option (map nat) (ntPorts t), atProtocols = ntProtocols t\<rparr>))
      (cfAllowedNetworkTargets p))"

definition openProxy ::
  "execRuntime \<Rightarrow> executeCommandRequest \<Rightarrow> commandManifest \<Rightarrow> startAnswers \<Rightarrow> sessionStore \<Rightarrow>
    (sessionError + string \<times> proxyEnvVars) \<times> sessionStore" where
  "openProxy rt rq manifest hooks st =
    (case createSession (orDefault (eqConversationId rq) (''ces-cmd-'' @ xrAuditId rt)) [eqCredentialHandle rq]
        \<lparr>xpIdleTimeoutMs = None, xpMaxSessions = None, xpAllowedTargets = allowedTargetsOf manifest (eqProfileName rq)\<rparr>
        None False (xrProxyId rt) (xrNow rt) st of
       (Inl e, st1) \<Rightarrow> (Inl e, st1)
     | (Inr session, st1) \<Rightarrow>
        (case startSession (pxId session) hooks ''127.0.0.1'' (xrNow rt) st1 of
           (Inl e, st2) \<Rightarrow> (Inl e, st2)
         | (Inr started, st2) \<Rightarrow>
            (case getSessionEnv None (pxId started) (xrNow rt) st2 of
               (Inl e, st3) \<Rightarrow> (Inl e, st3)
             | (Inr env, st3) \<Rightarrow> (Inr (pxId started, env), st3))))"

definition startEgress ::
  "execRuntime \<Rightarrow> executeCommandRequest \<Rightarrow> commandManifest \<Rightarrow> execState \<Rightarrow> (executeError + string option \<times> egressEnv) \<times> execState" where
  "startEgress rt rq manifest s =
    (if cmEgressMode manifest = Some ''proxy_required'' then
       (case xrHooks rt of
          None \<Rightarrow> (Inl NoEgressHooks, s)
        | Some hooks \<Rightarrow>
           (case openProxy rt rq manifest hooks (xsSessions s) of
              (Inl e, st) \<Rightarrow> (Inl (ProxyStartFailed e), s\<lparr>xsSessions := st\<rparr>)
            | (Inr (i, env), st) \<Rightarrow> (Inr (Some i, EgressProxy env), s\<lparr>xsSessions := st\<rparr>)))
     else if cmEgressMode manifest = Some ''no_network'' then (Inr (None, EgressBlocked), s)
     else (Inr (None, EgressNone), s))"

text \<open>Steps 8 to 12, with everything prepared.\<close>

definition runAndFinish ::
  "execRuntime \<Rightarrow> executeCommandRequest \<Rightarrow> string \<Rightarrow> string \<Rightarrow> string \<Rightarrow> string option \<Rightarrow> string \<Rightarrow> string option \<Rightarrow>
    environment \<Rightarrow> string \<Rightarrow> execState \<Rightarrow> executeCommandResult \<times> execState" where
  "runAndFinish rt rq grantId value entrypointPath proxy scratchDir temp env homeDir s =
    (case runCommand rt entrypointPath (eqArgv rq) scratchDir env (orDefault (xrMaxOutput rt) DEFAULT_MAX_OUTPUT_BYTES) s of
       (outcome, s1) \<Rightarrow>
         (case copyOutputs rt rq value scratchDir (orDefault outcome (failedWith ExecutionFailed)) s1 of
            (r, s2) \<Rightarrow>
              (let s3 = cleanupAll rt scratchDir temp (Some homeDir) (stopProxy rt proxy s2) in
               (r, if xrAuditWorks rt then s3\<lparr>xsAudit := xsAudit s3 @ [auditRecordOf rt rq grantId r]\<rparr> else s3))))"

definition runPrepared ::
  "execRuntime \<Rightarrow> executeCommandRequest \<Rightarrow> commandManifest \<Rightarrow> string \<Rightarrow> string \<Rightarrow> string option \<Rightarrow> egressEnv \<Rightarrow> string \<Rightarrow>
    environment \<Rightarrow> string option \<Rightarrow> execState \<Rightarrow> executeCommandResult option \<times> execState" where
  "runPrepared rt rq manifest grantId value proxy egress scratchDir adapterEnv temp s =
    (let bundleDir = dirname (joinPaths [xrToolstoreDir rt, eqBundleDigest rq, BUNDLE_FILENAME]);
         entrypoint = orDefault (cmEntrypoint manifest) [];
         homeDir = joinPaths [xrTmpdir rt, ''ces-home-'' @ xrHomeId rt] in
     case checkEntry (xrCwd rt) (dkTree (xsDisk s)) bundleDir entrypoint of
       None \<Rightarrow> (None, s)
     | Some (Some e) \<Rightarrow> (Some (failedWith e), cleanupAll rt scratchDir temp None (stopProxy rt proxy s))
     | Some None \<Rightarrow>
        (case prepareHome rt manifest homeDir (xsDisk s) of
           (False, d) \<Rightarrow> (Some (failedWith ConfigDirsFailed),
             cleanupAll rt scratchDir temp (Some homeDir) (stopProxy rt proxy (s\<lparr>xsDisk := d\<rparr>)))
         | (True, d) \<Rightarrow>
            (case runAndFinish rt rq grantId value (resolve (xrCwd rt) [bundleDir, entrypoint]) proxy scratchDir temp
                (buildCommandEnv (xrPath rt) adapterEnv egress homeDir) homeDir (s\<lparr>xsDisk := d\<rparr>) of
               (r, s') \<Rightarrow> (Some r, s'))))"

text \<open>Steps 6 and 7, with the credential.\<close>

definition runWithCredential ::
  "execRuntime \<Rightarrow> executeCommandRequest \<Rightarrow> commandManifest \<Rightarrow> string \<Rightarrow> string \<Rightarrow> string \<Rightarrow> execState \<Rightarrow>
    executeCommandResult option \<times> execState" where
  "runWithCredential rt rq manifest grantId scratchDir value s =
    (case startEgress rt rq manifest s of
       (Inl e, s1) \<Rightarrow> (Some (failedWith e), cleanupAll rt scratchDir None None s1)
     | (Inr (proxy, egress), s1) \<Rightarrow>
        (case cmAuthAdapter manifest of
           None \<Rightarrow> (Some (failedWith (AdapterFailed (BadAdapter []))), cleanupAll rt scratchDir None None (stopProxy rt proxy s1))
         | Some adapter \<Rightarrow>
            (case buildAuthAdapterEnv rt adapter value egress s1 of
               (Inl e, s2) \<Rightarrow> (Some (failedWith (AdapterFailed e)), cleanupAll rt scratchDir None None (stopProxy rt proxy s2))
             | (Inr (adapterEnv, temp), s2) \<Rightarrow>
                runPrepared rt rq manifest grantId value proxy egress scratchDir adapterEnv temp s2)))"

definition executeAuthenticatedCommand ::
  "execRuntime \<Rightarrow> executeCommandRequest \<Rightarrow> execState \<Rightarrow> executeCommandResult option \<times> execState" where
  "executeAuthenticatedCommand rt rq s =
    (case authorize rt rq s of
       (None, s1) \<Rightarrow> (None, s1)
     | (Some (Inl e), s1) \<Rightarrow> (Some (failedWith e), s1)
     | (Some (Inr (manifest, grantId)), s1) \<Rightarrow>
        (case stageInputs (xrCwd rt) (xrPrivileged rt) (xrScratchBase rt) (xrScratchId rt) (stageConfigOf rq []) (xsDisk s1) of
           (Inl e, d) \<Rightarrow> (Some (failedWith (StagingFailed e)), s1\<lparr>xsDisk := d\<rparr>)
         | (Inr staged, d) \<Rightarrow>
            (let s2 = s1\<lparr>xsDisk := d\<rparr>; scratchDir = swScratchDir staged in
             case xrMaterialize rt (eqCredentialHandle rq) of
               MaterializeThrows \<Rightarrow> (None, s2)
             | MaterializeError e \<Rightarrow> (Some (failedWith (MaterializationFailed e)), cleanupAll rt scratchDir None None s2)
             | MaterializeOk value \<Rightarrow> runWithCredential rt rq manifest grantId scratchDir value s2)))"

section \<open>What covers a command\<close>

lemma getById_ok:
  assumes "cesOk st"
  shows "getById i (persistent st) = (Inr (byKey gId i (activeGrants st)), persistent st)"
  using getAll_ok [OF assms] by (simp add: getById_def)

lemma checkGrant_ok:
  assumes "cesOk st"
  shows "\<exists>r. fst (checkGrant sha256 rq now st) = Inr r \<and>
    (r \<noteq> None \<longleftrightarrow> (\<exists>g \<in> set (activeGrants st). commandGrantCovers rq g) \<or>
      tempGranted (temporary st) now (hashProposal sha256 (tempProposal rq)) (eqConversationId rq))"
proof -
  let ?h = "hashProposal sha256 (tempProposal rq)"
  have temp: "fst (temporaryGrant sha256 rq now (temporary st)) \<noteq> None \<longleftrightarrow> tempGranted (temporary st) now ?h (eqConversationId rq)"
    using tempCheckAny_granted [OF cesOkD(2) [OF assms], of ?h "eqConversationId rq" now]
    by (auto simp: temporaryGrant_def Let_def split: prod.splits option.splits)
  let ?fp = "(case find (commandGrantCovers rq) (activeGrants st) of
      Some g \<Rightarrow> (Inr (Some (gId g)), st)
    | None \<Rightarrow> (case temporaryGrant sha256 rq now (temporary st) of (r, temp') \<Rightarrow> (Inr r, \<lparr>persistent = persistent st, temporary = temp'\<rparr>)))
    :: (storeError + string option) \<times> cesState"
  have run: "checkGrant sha256 rq now st = ?fp \<or>
      (\<exists>g \<in> set (activeGrants st). commandGrantCovers rq g \<and> checkGrant sha256 rq now st = (Inr (Some (gId g)), st))"
    by (auto simp: checkGrant_def Let_def getById_ok [OF assms] getAll_ok [OF assms] split: option.split dest: byKey_Some)
  show ?thesis
    using run
  proof
    assume fp: "checkGrant sha256 rq now st = ?fp"
    show ?thesis
    proof (cases "find (commandGrantCovers rq) (activeGrants st)")
      case None
      then have "\<not> (\<exists>g \<in> set (activeGrants st). commandGrantCovers rq g)" by (simp add: find_None_iff)
      moreover have "fst (checkGrant sha256 rq now st) = Inr (fst (temporaryGrant sha256 rq now (temporary st)))"
        unfolding fp None by (simp split: prod.split)
      ultimately show ?thesis using temp by simp
    next
      case (Some g)
      then have "\<exists>g \<in> set (activeGrants st). commandGrantCovers rq g" by (auto simp: find_Some_iff)
      then show ?thesis unfolding fp Some by simp
    qed
  qed auto
qed

section \<open>The environment of a process\<close>

lemma setAll_get: "distinct (map fst kvs) \<Longrightarrow>
    mapGet (setAll kvs env) k = (case map_of kvs k of Some v \<Rightarrow> Some v | None \<Rightarrow> mapGet env k)"
proof (induction kvs arbitrary: env)
  case (Cons kv kvs)
  obtain a b where kv: "kv = (a, b)" by fastforce
  have "map_of kvs a = None" using Cons.prems kv by (simp add: map_of_eq_None_iff)
  then show ?case using Cons.IH [of "mapSet a b env"] Cons.prems
    by (auto simp: kv setAll_def split: option.split)
qed (simp add: setAll_def)

lemma egressVars_distinct: "distinct (map fst (egressVars e))"
  by (cases e) (simp_all add: egressVars_def proxyVars_def noNetworkEnv_def Let_def)

lemma buildCommandEnv_get:
  "mapGet (buildCommandEnv path adapterEnv egress homeDir) k =
    (case map_of (egressVars egress) k of Some v \<Rightarrow> Some v
     | None \<Rightarrow> if k = ''PATH'' then Some (orDefault path ''/usr/local/bin:/usr/bin:/bin'')
        else if k = ''LANG'' then Some ''en_US.UTF-8'' else if k = ''HOME'' then Some homeDir else mapGet adapterEnv k)"
  unfolding buildCommandEnv_def by (simp add: setAll_get egressVars_distinct split: option.split)

definition underEgress :: "egressEnv \<Rightarrow> launchedProcess \<Rightarrow> bool" where
  "underEgress egress p = (\<forall>k v. map_of (egressVars egress) k = Some v \<longrightarrow> mapGet (lpEnv p) k = Some v)"

lemma helper_under: "underEgress egress (helperProcess c v egress)"
  by (simp add: underEgress_def helperProcess_def setAll_get egressVars_distinct)

text \<open>The variables a process can get besides the one of the adapter.\<close>

definition PROXY_VARS :: "string list" where
  "PROXY_VARS = [''HTTP_PROXY'', ''HTTPS_PROXY'', ''NO_PROXY'', ''http_proxy'', ''https_proxy'', ''no_proxy'',
     ''NODE_EXTRA_CA_CERTS'', ''SSL_CERT_FILE'']"

definition onlyVars :: "string list \<Rightarrow> environment \<Rightarrow> bool" where
  "onlyVars names env = (fst ` set env \<subseteq> set names)"

lemma setAll_keys: "fst ` set (setAll kvs env) \<subseteq> fst ` set kvs \<union> fst ` set env"
proof (induction kvs arbitrary: env)
  case (Cons kv kvs)
  obtain a b where kv: "kv = (a, b)" by fastforce
  have "fst ` set (setAll kvs (mapSet a b env)) \<subseteq> fst ` set kvs \<union> fst ` set (mapSet a b env)" by (rule Cons.IH)
  also have "fst ` set (mapSet a b env) = insert a (fst ` set env)"
    by (subst set_map[symmetric], subst update_keys) auto
  finally show ?case by (simp add: kv setAll_def)
qed (simp add: setAll_def)

lemma egressVars_keys: "fst ` set (egressVars e) \<subseteq> set PROXY_VARS"
  by (cases e) (auto simp: egressVars_def proxyVars_def noNetworkEnv_def Let_def PROXY_VARS_def)

lemma helper_vars: "onlyVars PROXY_VARS (lpEnv (helperProcess c v egress))"
  using setAll_keys [of "egressVars egress" "[]"] egressVars_keys [of egress]
  by (auto simp: onlyVars_def helperProcess_def)

lemma command_vars:
  assumes "onlyVars names adapterEnv"
  shows "onlyVars (names @ [''PATH'', ''LANG'', ''HOME''] @ PROXY_VARS) (buildCommandEnv path adapterEnv egress homeDir)"
proof -
  let ?base = "setAll [(''PATH'', orDefault path ''/usr/local/bin:/usr/bin:/bin''), (''LANG'', ''en_US.UTF-8''), (''HOME'', homeDir)] adapterEnv"
  have "fst ` set ?base \<subseteq> {''PATH'', ''LANG'', ''HOME''} \<union> set names"
    using setAll_keys [of "[(''PATH'', orDefault path ''/usr/local/bin:/usr/bin:/bin''), (''LANG'', ''en_US.UTF-8''), (''HOME'', homeDir)]" adapterEnv]
      assms unfolding onlyVars_def by auto
  then show ?thesis
    using setAll_keys [of "egressVars egress" ?base] egressVars_keys [of egress]
    unfolding onlyVars_def buildCommandEnv_def by (simp only: set_append list.set) blast
qed

text \<open>The processes an operation launches, all with property \<open>Q\<close>.\<close>

definition launches :: "(launchedProcess \<Rightarrow> bool) \<Rightarrow> execState \<Rightarrow> execState \<Rightarrow> bool" where
  "launches Q s s' = (\<exists>ps. xsProcesses s' = xsProcesses s @ ps \<and> list_all Q ps)"

named_theorems launch_intros "operations and the processes they launch"

lemma launches_same [launch_intros]: "xsProcesses s' = xsProcesses s \<Longrightarrow> launches Q s s'"
  by (simp add: launches_def)

lemma launches_trans: "launches Q s t \<Longrightarrow> launches Q t u \<Longrightarrow> launches Q s u"
  unfolding launches_def by (metis append_assoc list_all_append)

lemma launches_mono: "launches Q s t \<Longrightarrow> (\<And>p. Q p \<Longrightarrow> R p) \<Longrightarrow> launches R s t"
  unfolding launches_def by (auto simp: list_all_iff)

lemma launches_new: "launches Q s s' \<Longrightarrow> p \<in> set (drop (length (xsProcesses s)) (xsProcesses s')) \<Longrightarrow> Q p"
  by (auto simp: launches_def list_all_iff)

lemma quiet_steps [simp]:
  "xsProcesses (stopProxy rt proxy s) = xsProcesses s" "xsProcesses (cleanupAll rt scratchDir temp home s) = xsProcesses s"
  by (simp_all add: stopProxy_def cleanupAll_def split: option.split)

lemma adapter_launches:
  "buildAuthAdapterEnv rt a v egress s = (r, s') \<Longrightarrow> launches (underEgress egress) s s'"
  by (auto simp: buildAuthAdapterEnv_def runCredentialProcess_def Let_def launches_def helper_under
      split: if_splits option.splits prod.splits sum.splits)

lemma run_launches:
  assumes "runCommand rt e argv dir env n s = (r, s')"
  shows "launches (\<lambda>p. lpProgram p = e \<and> lpArgv p = argv \<and> lpCwd p = Some dir \<and> lpStdin p = None \<and> lpEnv p = env) s s'"
  using assms by (auto simp: runCommand_def Let_def launches_def split: option.splits prod.splits)

lemma copy_launches: "copyOutputs rt rq v dir r s = (r', s') \<Longrightarrow> xsProcesses s' = xsProcesses s"
  by (auto simp: copyOutputs_def split: if_splits prod.splits)

text \<open>The variable in which the command gets the credential.\<close>

definition adapterVars :: "commandManifest \<Rightarrow> string list" where
  "adapterVars manifest = (case cmAuthAdapter manifest of None \<Rightarrow> [] | Some adapter \<Rightarrow> [orDefault (aaEnvVarName adapter) []])"

text \<open>The command itself: the entrypoint of the bundle with the requested arguments, in a directory of its own, with
  nothing on its input and no other variables than the one of the adapter, the standard ones and those of
  the proxy.\<close>

definition mainProcess :: "execRuntime \<Rightarrow> executeCommandRequest \<Rightarrow> commandManifest \<Rightarrow> launchedProcess \<Rightarrow> bool" where
  "mainProcess rt rq manifest p =
    (let bundleDir = dirname (joinPaths [xrToolstoreDir rt, eqBundleDigest rq, BUNDLE_FILENAME]) in
     lpProgram p = resolve (xrCwd rt) [bundleDir, orDefault (cmEntrypoint manifest) []] \<and>
     (startsWith (lpProgram p) (bundleDir @ [slash]) \<or> lpProgram p = bundleDir) \<and> lpArgv p = eqArgv rq \<and>
     lpCwd p \<noteq> None \<and> lpStdin p = None \<and>
     onlyVars (adapterVars manifest @ [''PATH'', ''LANG'', ''HOME''] @ PROXY_VARS) (lpEnv p) \<and>
     mapGet (lpEnv p) ''HOME'' = Some (joinPaths [xrTmpdir rt, ''ces-home-'' @ xrHomeId rt]) \<and>
     mapGet (lpEnv p) ''PATH'' = Some (orDefault (xrPath rt) ''/usr/local/bin:/usr/bin:/bin''))"

text \<open>The helper: the shell with the helper command of the manifest, which has no metacharacters and does not start a
  denied binary, with the credential on its input and no variables but those of the proxy.\<close>

definition helperLaunch :: "commandManifest \<Rightarrow> string \<Rightarrow> launchedProcess \<Rightarrow> bool" where
  "helperLaunch manifest value p \<longleftrightarrow>
    (\<exists>adapter command. cmAuthAdapter manifest = Some adapter \<and> aaType adapter = ''credential_process'' \<and>
       aaHelperCommand adapter = Some command \<and> \<not> containsShellMetacharacters command \<and>
       \<not> isDeniedBinary (extractShellBinary command) \<and> lpProgram p = ''sh'' \<and> lpArgv p = [''-c'', command] \<and>
       lpCwd p = None \<and> lpStdin p = Some value \<and> onlyVars PROXY_VARS (lpEnv p))"

definition expectedProcess :: "execRuntime \<Rightarrow> executeCommandRequest \<Rightarrow> commandManifest \<Rightarrow> string \<Rightarrow> egressEnv \<Rightarrow> launchedProcess \<Rightarrow> bool" where
  "expectedProcess rt rq manifest value egress p =
    (underEgress egress p \<and> (helperLaunch manifest value p \<or> mainProcess rt rq manifest p))"

lemma credentialProcess_valid:
  assumes "validateAuthAdapterConfig a = []" "aaType a \<noteq> ''env_var''" "aaType a \<noteq> ''temp_file''"
  shows "aaType a = ''credential_process'' \<and> (\<exists>command. aaHelperCommand a = Some command)"
  using assms by (auto simp: validateAuthAdapterConfig_def AUTH_ADAPTER_TYPES_def missing_def complain_def split: if_splits option.splits)

lemma adapter_helper:
  assumes "buildAuthAdapterEnv rt a v egress s = (r, s')" "cmAuthAdapter manifest = Some a"
  shows "launches (\<lambda>p. underEgress egress p \<and> helperLaunch manifest v p) s s'"
proof (cases "xsProcesses s' = xsProcesses s")
  case False
  let ?c = "orDefault (aaHelperCommand a) []" and ?p = "helperProcess (orDefault (aaHelperCommand a) []) v egress"
  have run: "validateAuthAdapterConfig a = []" "aaType a \<noteq> ''env_var''" "aaType a \<noteq> ''temp_file''"
    "xsProcesses s' = xsProcesses s @ [?p]" "\<not> containsShellMetacharacters ?c" "\<not> isDeniedBinary (extractShellBinary ?c)"
    using assms(1) False
    by (auto simp: buildAuthAdapterEnv_def runCredentialProcess_def Let_def split: if_splits option.splits prod.splits sum.splits)
  obtain command where "aaType a = ''credential_process''" "aaHelperCommand a = Some command"
    using credentialProcess_valid [OF run(1-3)] by blast
  then have "helperLaunch manifest v ?p"
    using run(5,6) assms(2) helper_vars [of command v egress] by (auto simp: helperLaunch_def helperProcess_def)
  then show ?thesis using run(4) helper_under by (simp add: launches_def)
qed (rule launches_same)

lemma adapter_vars:
  assumes "buildAuthAdapterEnv rt a v egress s = (Inr (env, temp), s')" "cmAuthAdapter manifest = Some a"
  shows "onlyVars (adapterVars manifest) env"
  using assms by (auto simp: buildAuthAdapterEnv_def adapterVars_def onlyVars_def Let_def split: if_splits option.splits prod.splits sum.splits)

lemma finish_launches:
  assumes "runAndFinish rt rq g v e proxy dir temp env home s = (r, s')"
  shows "launches (\<lambda>p. lpProgram p = e \<and> lpArgv p = eqArgv rq \<and> lpCwd p = Some dir \<and> lpStdin p = None \<and> lpEnv p = env) s s'"
proof -
  obtain ran s1 where 1: "runCommand rt e (eqArgv rq) dir env (orDefault (xrMaxOutput rt) DEFAULT_MAX_OUTPUT_BYTES) s = (ran, s1)" by fastforce
  obtain r2 s2 where 2: "copyOutputs rt rq v dir (orDefault ran (failedWith ExecutionFailed)) s1 = (r2, s2)" by fastforce
  have "xsProcesses s' = xsProcesses s1"
    using assms copy_launches [OF 2] by (auto simp: runAndFinish_def 1 2 Let_def)
  then show ?thesis using run_launches [OF 1] by (simp add: launches_def)
qed

lemma egressKeys: "map_of (egressVars e) ''PATH'' = None" "map_of (egressVars e) ''HOME'' = None" "map_of (egressVars e) ''LANG'' = None"
  by (cases e; simp add: egressVars_def proxyVars_def noNetworkEnv_def Let_def)+

lemma prepared_launches:
  assumes "runPrepared rt rq manifest g v proxy egress dir adapterEnv temp s = (r, s')"
    and "onlyVars (adapterVars manifest) adapterEnv"
  shows "launches (expectedProcess rt rq manifest v egress) s s'"
proof -
  let ?b = "dirname (joinPaths [xrToolstoreDir rt, eqBundleDigest rq, BUNDLE_FILENAME])"
  let ?e = "orDefault (cmEntrypoint manifest) []"
  let ?home = "joinPaths [xrTmpdir rt, ''ces-home-'' @ xrHomeId rt]"
  let ?env = "buildCommandEnv (xrPath rt) adapterEnv egress ?home"
  show ?thesis
  proof (cases "checkEntry (xrCwd rt) (dkTree (xsDisk s)) ?b ?e = Some None \<and> fst (prepareHome rt manifest ?home (xsDisk s))")
    case False
    then have "xsProcesses s' = xsProcesses s"
      using assms(1) by (auto simp: runPrepared_def Let_def split: option.splits prod.splits bool.splits)
    then show ?thesis by (rule launches_same)
  next
    case True
    then obtain d where d: "prepareHome rt manifest ?home (xsDisk s) = (True, d)"
      by (cases "prepareHome rt manifest ?home (xsDisk s)") simp
    have entry: "startsWith (resolve (xrCwd rt) [?b, ?e]) (?b @ [slash]) \<or> resolve (xrCwd rt) [?b, ?e] = ?b"
      using True by (auto simp: checkEntry_def Let_def split: if_splits)
    obtain r2 where fin: "runAndFinish rt rq g v (resolve (xrCwd rt) [?b, ?e]) proxy dir temp ?env ?home (s\<lparr>xsDisk := d\<rparr>) = (r2, s')"
      using assms(1) True d by (auto simp: runPrepared_def Let_def split: prod.splits)
    have "underEgress egress p" if "lpEnv p = ?env" for p using that by (simp add: underEgress_def buildCommandEnv_get)
    moreover have "mainProcess rt rq manifest p"
      if "lpProgram p = resolve (xrCwd rt) [?b, ?e]" "lpArgv p = eqArgv rq" "lpCwd p = Some dir" "lpStdin p = None" "lpEnv p = ?env" for p
      using that entry command_vars [OF assms(2), of "xrPath rt" egress ?home]
      unfolding mainProcess_def Let_def by (simp add: buildCommandEnv_get egressKeys)
    ultimately have each: "expectedProcess rt rq manifest v egress p"
      if "lpProgram p = resolve (xrCwd rt) [?b, ?e] \<and> lpArgv p = eqArgv rq \<and> lpCwd p = Some dir \<and> lpStdin p = None \<and> lpEnv p = ?env" for p
      using that unfolding expectedProcess_def by blast
    have "launches (expectedProcess rt rq manifest v egress) (s\<lparr>xsDisk := d\<rparr>) s'"
      by (rule launches_mono [OF finish_launches [OF fin]]) (rule each)
    then show ?thesis by (simp add: launches_def)
  qed
qed

section \<open>Egress\<close>

definition egressFor :: "execRuntime \<Rightarrow> commandManifest \<Rightarrow> egressEnv \<Rightarrow> bool" where
  "egressFor rt manifest egress \<longleftrightarrow>
    (cmEgressMode manifest = Some ''proxy_required'' \<longrightarrow>
      (\<exists>hooks port env. xrHooks rt = Some hooks \<and> saPort hooks = Some port \<and> egress = EgressProxy env \<and>
        pvHttpProxy env = ''http://127.0.0.1:'' @ showNat port \<and> pvHttpsProxy env = pvHttpProxy env)) \<and>
    (cmEgressMode manifest = Some ''no_network'' \<longrightarrow> egress = EgressBlocked)"

text \<open>A session that starts listens on the port of the operating system, under its own id, at the end of the map.\<close>

lemma startSession_active:
  assumes "startSession i a host now st = (Inr px, st')" "ssHeap st i = Some m"
  shows "\<exists>port server m'. saPort a = Some port \<and> ssHeap st' = (ssHeap st)(i \<mapsto> m') \<and> ssKeys st' = ssKeys st \<and> msSession m' = px \<and>
    statusOf m' = Active \<and> pxPort px = Some port \<and> msServer m' = Some server \<and> pxId px = pxId (msSession m)"
  using assms
  by (auto simp: startSession_def onListening_def caReady_def nowListening_def resetIdleTimer_def Let_def fun_eq_iff
      split: option.splits if_splits)

lemma createSession_new:
  assumes "createSession conv creds patch dataDir cb uuid now st = (Inr px, st')"
  shows "st' = \<lparr>ssHeap = (ssHeap st)(uuid \<mapsto> newManaged conv creds (mergeConfig patch) dataDir cb uuid now), ssKeys = ssKeys st @ [uuid]\<rparr>"
    "pxId px = uuid"
  using assms by (auto simp: createSession_def Let_def newManaged_def split: if_splits)

lemma openProxy_Inr:
  assumes "openProxy rt rq manifest hooks st = (Inr (i, env), st')"
  shows "\<exists>port m. saPort hooks = Some port \<and> pvHttpProxy env = ''http://127.0.0.1:'' @ showNat port \<and>
    pvHttpsProxy env = pvHttpProxy env \<and> i = xrProxyId rt \<and> ssHeap st' = (ssHeap st)(i \<mapsto> m) \<and>
    ssKeys st' = ssKeys st @ [i] \<and> statusOf m = Active \<and> msServer m \<noteq> None"
proof -
  let ?conv = "orDefault (eqConversationId rq) (''ces-cmd-'' @ xrAuditId rt)"
  let ?patch = "\<lparr>xpIdleTimeoutMs = None, xpMaxSessions = None, xpAllowedTargets = allowedTargetsOf manifest (eqProfileName rq)\<rparr>"
  obtain px st1 where c: "createSession ?conv [eqCredentialHandle rq] ?patch None False (xrProxyId rt) (xrNow rt) st = (Inr px, st1)"
    using assms by (auto simp: openProxy_def split: prod.splits sum.splits)
  note new = createSession_new [OF c]
  obtain started st2 where s: "startSession (pxId px) hooks ''127.0.0.1'' (xrNow rt) st1 = (Inr started, st2)"
    using assms c by (auto simp: openProxy_def split: prod.splits sum.splits)
  have "ssHeap st1 (pxId px) = Some (newManaged ?conv [eqCredentialHandle rq] (mergeConfig ?patch) None False (xrProxyId rt) (xrNow rt))"
    using new by simp
  from startSession_active [OF s this] obtain port server m where
    m: "saPort hooks = Some port" "ssHeap st2 = (ssHeap st1)(pxId px \<mapsto> m)" "ssKeys st2 = ssKeys st1" "msSession m = started"
      "statusOf m = Active" "pxPort started = Some port" "msServer m = Some server" "pxId started = xrProxyId rt"
    by (auto simp: newManaged_def)
  have "getManaged st2 (xrProxyId rt) = Some m" using m(2,3) new by (simp add: getManaged_def)
  have "(case getSessionEnv None (pxId started) (xrNow rt) st2 of
      (Inl e, st3) \<Rightarrow> (Inl e, st3) | (Inr env, st3) \<Rightarrow> (Inr (pxId started, env), st3)) = (Inr (i, env), st')"
    using assms c s by (simp add: openProxy_def)
  note run = this [unfolded m(8)]
  have "i = xrProxyId rt" "env = \<lparr>pvHttpProxy = ''http://127.0.0.1:'' @ showNat port, pvHttpsProxy = ''http://127.0.0.1:'' @ showNat port,
      pvNoProxy = ''localhost,127.0.0.1,::1'', pvNodeExtraCaCerts = None,
      pvSslCertFile = (if truthy (msDataDir m) \<and> truthy (msCABundle m) then msCABundle m else None)\<rparr>"
    "st' = putManaged (xrProxyId rt) (resetIdleTimer (xrNow rt) m) st2"
    using run \<open>getManaged st2 _ = Some m\<close> m(4,5,6) by (auto simp: getSessionEnv_def Let_def)
  then show ?thesis using m new by (auto simp: resetIdleTimer_def)
qed

lemma startEgress_for: "startEgress rt rq manifest s = (Inr (proxy, egress), s') \<Longrightarrow> egressFor rt manifest egress"
  by (auto simp: startEgress_def egressFor_def dest!: openProxy_Inr split: if_splits option.splits prod.splits sum.splits)

lemma startEgress_launches: "startEgress rt rq manifest s = (x, s') \<Longrightarrow> xsProcesses s' = xsProcesses s"
  by (auto simp: startEgress_def split: if_splits option.splits prod.splits sum.splits)

lemma credential_launches:
  assumes "runWithCredential rt rq manifest g dir v s = (r, s')"
  shows "\<exists>egress. (egressFor rt manifest egress \<or> xsProcesses s' = xsProcesses s) \<and> launches (expectedProcess rt rq manifest v egress) s s'"
proof -
  obtain x s1 where 1: "startEgress rt rq manifest s = (x, s1)" by fastforce
  note quiet1 = startEgress_launches [OF 1]
  show ?thesis
  proof (cases "\<exists>proxy egress adapter. x = Inr (proxy, egress) \<and> cmAuthAdapter manifest = Some adapter")
    case False
    then have "xsProcesses s' = xsProcesses s" using assms quiet1
      by (auto simp: runWithCredential_def 1 split: sum.splits option.splits prod.splits)
    then show ?thesis by (auto intro: launches_same)
  next
    case True
    then obtain proxy egress adapter where x: "x = Inr (proxy, egress)" "cmAuthAdapter manifest = Some adapter" by blast
    have eg: "egressFor rt manifest egress" using 1 unfolding x by (rule startEgress_for)
    obtain y s2 where 2: "buildAuthAdapterEnv rt adapter v egress s1 = (y, s2)" by fastforce
    have "launches (expectedProcess rt rq manifest v egress) s1 s2"
      by (rule launches_mono [OF adapter_helper [OF 2 x(2)]]) (simp add: expectedProcess_def)
    moreover have "launches (expectedProcess rt rq manifest v egress) s2 s'"
    proof (cases y)
      case (Inl e)
      then have "xsProcesses s' = xsProcesses s2" using assms by (auto simp: runWithCredential_def 1 x 2)
      then show ?thesis by (rule launches_same)
    next
      case (Inr z)
      obtain adapterEnv temp where z: "z = (adapterEnv, temp)" by fastforce
      have "runPrepared rt rq manifest g v proxy egress dir adapterEnv temp s2 = (r, s')"
        using assms by (simp add: runWithCredential_def 1 x 2 Inr z)
      then show ?thesis using adapter_vars [OF 2 [unfolded Inr z] x(2)] by (rule prepared_launches)
    qed
    ultimately have "launches (expectedProcess rt rq manifest v egress) s s'"
      using launches_trans [OF launches_trans [OF launches_same [OF quiet1]]] by blast
    with eg show ?thesis by blast
  qed
qed

section \<open>Authorisation\<close>

definition commandAuthorised :: "execRuntime \<Rightarrow> executeCommandRequest \<Rightarrow> execState \<Rightarrow> commandManifest \<Rightarrow> bool" where
  "commandAuthorised rt rq s manifest \<longleftrightarrow>
    isBundlePublished (dkTree (xsDisk s)) (xrToolstoreDir rt) (eqBundleDigest rq) \<and>
    map_option tmSecureManifest (readPublishedManifest (xrTools rt) (dkTree (xsDisk s)) (xrToolstoreDir rt) (eqBundleDigest rq)) = Some manifest \<and>
    \<not> isDeniedBinary (orDefault (cmEntrypoint manifest) []) \<and> \<not> isDeniedBinary (orDefault (cmBundleId manifest) []) \<and>
    (\<exists>pat. validateCommand manifest (eqArgv rq) = Inr (eqProfileName rq, pat)) \<and>
    ((\<exists>g \<in> set (activeGrants (xsStores s)). commandGrantCovers rq g) \<or>
      tempGranted (temporary (xsStores s)) (xrNow rt) (hashProposal (trSha256 (xrTools rt)) (tempProposal rq)) (eqConversationId rq))"

lemma firstMatch_profile: "firstMatch argv ps = Some (name, pat) \<Longrightarrow> map_of ps name \<noteq> None"
proof -
  assume "firstMatch argv ps = Some (name, pat)"
  then obtain rest where "concat (map (\<lambda>(name, p). map (\<lambda>pat. (name, apName pat))
        (filter (matchesArgvPattern argv) (orDefault (cfAllowedArgvPatterns p) []))) ps) = (name, pat) # rest"
    by (auto simp: firstMatch_def split: list.splits)
  then have "(name, pat) \<in> set (concat (map (\<lambda>(name, p). map (\<lambda>pat. (name, apName pat))
        (filter (matchesArgvPattern argv) (orDefault (cfAllowedArgvPatterns p) []))) ps))" by simp
  then have "name \<in> fst ` set ps" by force
  then show ?thesis by (simp add: map_of_eq_None_iff)
qed

lemma selectProfile_Inr:
  "(\<exists>p. selectProfile m name argv = Inr p) \<longleftrightarrow> (\<exists>pat. validateCommand m argv = Inr (name, pat))"
proof
  assume "\<exists>pat. validateCommand m argv = Inr (name, pat)"
  then obtain pat where v: "validateCommand m argv = Inr (name, pat)" by blast
  then have "firstMatch argv (profilesOf m) = Some (name, pat)"
    by (auto simp: validateCommand_def split: if_splits option.splits)
  then obtain p where "map_of (profilesOf m) name = Some p" using firstMatch_profile by blast
  then show "\<exists>p. selectProfile m name argv = Inr p" using v by (simp add: selectProfile_def)
qed (auto simp: selectProfile_def split: option.splits sum.splits if_splits)

lemma resolveBundle_Inr:
  "resolveBundle rt t digest = Inr m \<longleftrightarrow> isBundlePublished t (xrToolstoreDir rt) digest \<and>
    map_option tmSecureManifest (readPublishedManifest (xrTools rt) t (xrToolstoreDir rt) digest) = Some m \<and>
    \<not> isDeniedBinary (orDefault (cmEntrypoint m) []) \<and> \<not> isDeniedBinary (orDefault (cmBundleId m) [])"
  by (auto simp: resolveBundle_def Let_def split: option.splits)

lemma authorize_iff:
  assumes "cesOk (xsStores s)"
  shows "(\<exists>g s'. authorize rt rq s = (Some (Inr (m, g)), s')) \<longleftrightarrow> commandAuthorised rt rq s m"
proof (cases "resolveBundle rt (dkTree (xsDisk s)) (eqBundleDigest rq) = Inr m")
  case False
  then have "\<not> commandAuthorised rt rq s m" using resolveBundle_Inr unfolding commandAuthorised_def by blast
  moreover have "authorize rt rq s \<noteq> (Some (Inr (m, g)), s')" for g s'
    using False by (auto simp: authorize_def split: sum.splits option.splits prod.splits)
  ultimately show ?thesis by blast
next
  case True
  obtain r where r: "fst (checkGrant (trSha256 (xrTools rt)) rq (xrNow rt) (xsStores s)) = Inr r"
    "r \<noteq> None \<longleftrightarrow> (\<exists>g \<in> set (activeGrants (xsStores s)). commandGrantCovers rq g) \<or>
      tempGranted (temporary (xsStores s)) (xrNow rt) (hashProposal (trSha256 (xrTools rt)) (tempProposal rq)) (eqConversationId rq)"
    using checkGrant_ok [OF assms] by blast
  then obtain st where check: "checkGrant (trSha256 (xrTools rt)) rq (xrNow rt) (xsStores s) = (Inr r, st)" by (metis prod.collapse)
  have "(\<exists>g s'. authorize rt rq s = (Some (Inr (m, g)), s')) \<longleftrightarrow>
      (\<exists>p. selectProfile m (eqProfileName rq) (eqArgv rq) = Inr p) \<and> r \<noteq> None"
    by (cases "selectProfile m (eqProfileName rq) (eqArgv rq)"; cases r) (simp_all add: authorize_def True check)
  also have "\<dots> \<longleftrightarrow> commandAuthorised rt rq s m"
    using True resolveBundle_Inr [of rt "dkTree (xsDisk s)" "eqBundleDigest rq" m] r(2)
    unfolding selectProfile_Inr commandAuthorised_def by blast
  finally show ?thesis .
qed

lemma authorize_keeps:
  "authorize rt rq s = (x, s') \<Longrightarrow> xsProcesses s' = xsProcesses s \<and> xsSessions s' = xsSessions s \<and> xsDisk s' = xsDisk s \<and> xsAudit s' = xsAudit s"
  by (auto simp: authorize_def split: sum.splits option.splits prod.splits)

lemma execute_cases:
  assumes "executeAuthenticatedCommand rt rq s = (r, s')"
  obtains (early) "xsProcesses s' = xsProcesses s" "xsSessions s' = xsSessions s" "xsAudit s' = xsAudit s"
  | (late) m g dir v s2 where "\<exists>s1. authorize rt rq s = (Some (Inr (m, g)), s1)" "xsProcesses s2 = xsProcesses s" "xsSessions s2 = xsSessions s"
      "xsAudit s2 = xsAudit s" "xrMaterialize rt (eqCredentialHandle rq) = MaterializeOk v"
      "runWithCredential rt rq m g dir v s2 = (r, s')"
proof -
  obtain x s1 where 1: "authorize rt rq s = (x, s1)" by fastforce
  note keep = authorize_keeps [OF 1]
  show thesis
  proof (cases "\<exists>m g. x = Some (Inr (m, g))")
    case False
    then have "s' = s1" using assms by (auto simp: executeAuthenticatedCommand_def 1 split: option.splits sum.splits)
    then show thesis using early keep by blast
  next
    case True
    then obtain m g where x: "x = Some (Inr (m, g))" by blast
    obtain y d where 2: "stageInputs (xrCwd rt) (xrPrivileged rt) (xrScratchBase rt) (xrScratchId rt) (stageConfigOf rq []) (xsDisk s1) = (y, d)" by fastforce
    show thesis
    proof (cases "\<exists>staged v. y = Inr staged \<and> xrMaterialize rt (eqCredentialHandle rq) = MaterializeOk v")
      case False
      then have "xsProcesses s' = xsProcesses s1" "xsSessions s' = xsSessions s1" "xsAudit s' = xsAudit s1"
        using assms by (auto simp: executeAuthenticatedCommand_def 1 x 2 Let_def cleanupAll_def split: sum.splits materializeResult.splits)
      then show thesis using early keep by simp
    next
      case True
      then obtain staged v where y: "y = Inr staged" "xrMaterialize rt (eqCredentialHandle rq) = MaterializeOk v" by blast
      have run: "runWithCredential rt rq m g (swScratchDir staged) v (s1\<lparr>xsDisk := d\<rparr>) = (r, s')"
        using assms by (simp add: executeAuthenticatedCommand_def 1 x 2 y Let_def)
      from 1 have "\<exists>s1. authorize rt rq s = (Some (Inr (m, g)), s1)" unfolding x by blast
      then show thesis by (rule late [OF _ _ _ _ y(2) run]) (use keep in simp_all)
    qed
  qed
qed

section \<open>Sessions and audit records\<close>

lemma cleanup_sessions [simp]: "xsSessions (cleanupAll rt scratchDir temp home s) = xsSessions s"
  "xsAudit (cleanupAll rt scratchDir temp home s) = xsAudit s" "xsAudit (stopProxy rt proxy s) = xsAudit s"
  by (simp_all add: cleanupAll_def stopProxy_def split: option.split)

lemma stopProxy_sessions: "xsSessions s = xsSessions t \<Longrightarrow> xsSessions (stopProxy rt proxy s) = xsSessions (stopProxy rt proxy t)"
  by (simp add: stopProxy_def split: option.split)

lemma adapter_keeps: "buildAuthAdapterEnv rt a v egress s = (r, s') \<Longrightarrow> xsSessions s' = xsSessions s \<and> xsAudit s' = xsAudit s"
  by (auto simp: buildAuthAdapterEnv_def Let_def split: if_splits option.splits prod.splits sum.splits)

lemma run_keeps: "runCommand rt e argv dir env n s = (r, s') \<Longrightarrow> xsSessions s' = xsSessions s \<and> xsAudit s' = xsAudit s"
  by (auto simp: runCommand_def Let_def split: option.splits prod.splits)

lemma copy_keeps: "copyOutputs rt rq v dir r s = (r', s') \<Longrightarrow> xsSessions s' = xsSessions s \<and> xsAudit s' = xsAudit s"
  by (auto simp: copyOutputs_def split: if_splits prod.splits)

lemma finish_keeps:
  assumes "runAndFinish rt rq g v e proxy dir temp env home s = (r, s')"
  shows "xsSessions s' = xsSessions (stopProxy rt proxy s)"
    "xsAudit s' = xsAudit s @ (if xrAuditWorks rt then [auditRecordOf rt rq g r] else [])"
proof -
  obtain ran s1 where 1: "runCommand rt e (eqArgv rq) dir env (orDefault (xrMaxOutput rt) DEFAULT_MAX_OUTPUT_BYTES) s = (ran, s1)" by fastforce
  obtain r2 s2 where 2: "copyOutputs rt rq v dir (orDefault ran (failedWith ExecutionFailed)) s1 = (r2, s2)" by fastforce
  have same: "xsSessions s2 = xsSessions s" "xsAudit s2 = xsAudit s" using run_keeps [OF 1] copy_keeps [OF 2] by simp_all
  show "xsSessions s' = xsSessions (stopProxy rt proxy s)"
    using assms stopProxy_sessions [OF same(1), of rt proxy] by (auto simp: runAndFinish_def 1 2 Let_def)
  show "xsAudit s' = xsAudit s @ (if xrAuditWorks rt then [auditRecordOf rt rq g r] else [])"
    using assms same(2) by (auto simp: runAndFinish_def 1 2 Let_def)
qed

lemma prepared_sessions:
  assumes "runPrepared rt rq manifest g v proxy egress dir adapterEnv temp s = (Some r, s')"
  shows "xsSessions s' = xsSessions (stopProxy rt proxy s)"
  using assms finish_keeps(1) stopProxy_sessions [of "s\<lparr>xsDisk := _\<rparr>" s rt proxy]
  by (auto simp: runPrepared_def Let_def split: option.splits prod.splits bool.splits)

text \<open>Sessions that were there are as they were, and a new one has been stopped.\<close>

definition sessionsClosed :: "sessionStore \<Rightarrow> sessionStore \<Rightarrow> bool" where
  "sessionsClosed st st' \<longleftrightarrow>
     (\<forall>j \<in> set (ssKeys st). j \<in> set (ssKeys st') \<and> ssHeap st' j = ssHeap st j) \<and>
     (\<forall>j \<in> set (ssKeys st'). j \<notin> set (ssKeys st) \<longrightarrow>
        (\<exists>m. ssHeap st' j = Some m \<and> statusOf m = Stopped \<and> msServer m = None))"

lemma sessionsClosed_refl: "sessionsClosed st st"
  by (simp add: sessionsClosed_def)

lemma proxy_closed:
  assumes "openProxy rt rq manifest hooks st = (Inr (i, env), st')" "xrCloses rt" "xrProxyId rt \<notin> set (ssKeys st)"
  shows "sessionsClosed st (snd (stopSession i (xrCloses rt) st'))"
proof -
  obtain m where m: "ssHeap st' = (ssHeap st)(i \<mapsto> m)" "ssKeys st' = ssKeys st @ [i]" "statusOf m = Active" "msServer m \<noteq> None"
    and i: "i = xrProxyId rt"
    using openProxy_Inr [OF assms(1)] by blast
  have "getManaged st' i = Some m" by (simp add: getManaged_def m)
  then have "snd (stopSession i True st') = putManaged i (stopped (m\<lparr>msSession := (msSession m)\<lparr>pxStatus := Stopping\<rparr>,
      msIdleTimer := None, msStopPromise := True\<rparr>)) st'"
    using m by (auto simp: stopSession_def stopBegin_def Let_def serverClosed_def)
  then show ?thesis using m i assms(2,3) by (auto simp: sessionsClosed_def stopped_def)
qed

lemma proxy_failed:
  assumes "openProxy rt rq manifest hooks st = (Inl e, st')" "saServer hooks \<noteq> None" "ssHeap st (xrProxyId rt) = None"
    and "xrProxyId rt \<notin> set (ssKeys st)"
  shows "sessionsClosed st st'"
proof -
  let ?conv = "orDefault (eqConversationId rq) (''ces-cmd-'' @ xrAuditId rt)"
  let ?patch = "\<lparr>xpIdleTimeoutMs = None, xpMaxSessions = None, xpAllowedTargets = allowedTargetsOf manifest (eqProfileName rq)\<rparr>"
  obtain x st1 where c: "createSession ?conv [eqCredentialHandle rq] ?patch None False (xrProxyId rt) (xrNow rt) st = (x, st1)" by fastforce
  show ?thesis
  proof (cases x)
    case (Inl e')
    then have "st' = st" using assms(1) c by (auto simp: openProxy_def createSession_def Let_def split: if_splits)
    then show ?thesis by (simp add: sessionsClosed_refl)
  next
    case (Inr px)
    note new = createSession_new [OF c [unfolded Inr]]
    obtain y st2 where s: "startSession (pxId px) hooks ''127.0.0.1'' (xrNow rt) st1 = (y, st2)" by fastforce
    show ?thesis
    proof (cases y)
      case (Inl e')
      then have "st' = st2" using assms(1) c Inr s by (auto simp: openProxy_def)
      moreover have "j \<in> set (ssKeys st2) \<longleftrightarrow> j \<in> set (ssKeys st)" "j \<in> set (ssKeys st) \<Longrightarrow> ssHeap st2 j = ssHeap st j" for j
        using s Inl new assms(2,3,4)
        by (auto simp: startSession_def startCheck_def getManaged_def newManaged_def deleteKey_def caReady_def onListening_def Let_def
            split: option.splits if_splits)
      ultimately show ?thesis by (auto simp: sessionsClosed_def)
    next
      case (Inr started)
      have "ssHeap st1 (pxId px) = Some (newManaged ?conv [eqCredentialHandle rq] (mergeConfig ?patch) None False (xrProxyId rt) (xrNow rt))"
        using new by simp
      from startSession_active [OF s [unfolded Inr] this] obtain port m where
        m: "ssHeap st2 (pxId px) = Some m" "ssKeys st2 = ssKeys st1" "msSession m = started" "statusOf m = Active"
          "pxPort started = Some port" "pxId started = xrProxyId rt"
        by (auto simp: newManaged_def)
      then have "fst (getSessionEnv None (pxId started) (xrNow rt) st2) \<noteq> Inl e" using new
        by (auto simp: getSessionEnv_def getManaged_def Let_def)
      then show ?thesis using assms(1) c s Inr \<open>x = Inr px\<close> by (auto simp: openProxy_def split: prod.splits sum.splits)
    qed
  qed
qed

lemma egress_closed:
  assumes "startEgress rt rq manifest s = (x, s')" "xrCloses rt" "\<forall>hooks. xrHooks rt = Some hooks \<longrightarrow> saServer hooks \<noteq> None"
    and "ssHeap (xsSessions s) (xrProxyId rt) = None" "xrProxyId rt \<notin> set (ssKeys (xsSessions s))"
  shows "sessionsClosed (xsSessions s) (xsSessions (stopProxy rt (case x of Inr (proxy, egress) \<Rightarrow> proxy | _ \<Rightarrow> None) s'))"
proof (cases "cmEgressMode manifest = Some ''proxy_required'' \<and> xrHooks rt \<noteq> None")
  case False
  then show ?thesis using assms(1)
    by (auto simp: startEgress_def stopProxy_def sessionsClosed_refl split: if_splits option.splits)
next
  case True
  then obtain hooks where hooks: "xrHooks rt = Some hooks" by blast
  obtain y st where o: "openProxy rt rq manifest hooks (xsSessions s) = (y, st)" by fastforce
  show ?thesis
  proof (cases y)
    case (Inl e)
    then show ?thesis using assms True hooks o proxy_failed [OF o [unfolded Inl]]
      by (auto simp: startEgress_def stopProxy_def)
  next
    case (Inr z)
    obtain i env where "z = (i, env)" by fastforce
    then show ?thesis using assms True hooks o Inr proxy_closed [of rt rq manifest hooks "xsSessions s" i env st]
      by (auto simp: startEgress_def stopProxy_def)
  qed
qed

lemma credential_closed:
  assumes "runWithCredential rt rq manifest g dir v s = (Some r, s')" "xrCloses rt"
    and "\<forall>hooks. xrHooks rt = Some hooks \<longrightarrow> saServer hooks \<noteq> None"
    and "ssHeap (xsSessions s) (xrProxyId rt) = None" "xrProxyId rt \<notin> set (ssKeys (xsSessions s))"
  shows "sessionsClosed (xsSessions s) (xsSessions s')"
proof -
  obtain x s1 where 1: "startEgress rt rq manifest s = (x, s1)" by fastforce
  note closed = egress_closed [OF 1 assms(2-5)]
  show ?thesis
  proof (cases x)
    case (Inl e)
    then show ?thesis using assms(1) closed by (auto simp: runWithCredential_def 1 stopProxy_def)
  next
    case (Inr z)
    obtain proxy egress where z: "z = (proxy, egress)" by fastforce
    have "xsSessions s' = xsSessions (stopProxy rt proxy s1)"
    proof (cases "cmAuthAdapter manifest")
      case None
      then show ?thesis using assms(1) by (auto simp: runWithCredential_def 1 Inr z)
    next
      case (Some adapter)
      obtain y s2 where 2: "buildAuthAdapterEnv rt adapter v egress s1 = (y, s2)" by fastforce
      note same = stopProxy_sessions [OF conjunct1 [OF adapter_keeps [OF 2]], of rt proxy]
      show ?thesis
      proof (cases y)
        case (Inl e)
        then show ?thesis using assms(1) same by (auto simp: runWithCredential_def 1 Inr z Some 2)
      next
        case yr: (Inr w)
        obtain adapterEnv temp where w: "w = (adapterEnv, temp)" by fastforce
        have "runPrepared rt rq manifest g v proxy egress dir adapterEnv temp s2 = (Some r, s')"
          using assms(1) by (simp add: runWithCredential_def 1 Inr z Some 2 yr w)
        then show ?thesis using prepared_sessions same by simp
      qed
    qed
    then show ?thesis using closed Inr z by simp
  qed
qed

section \<open>Properties\<close>

text \<open>C9: Whatever the pipeline launches: the bundle is published with a manifest whose entrypoint and id are not
  denied binaries, the arguments are allowed under the requested profile, and an active persistent or a live
  temporary grant covers the request. The process is either the helper of the manifest, which is the shell with the
  helper command of a credential-process adapter without metacharacters and without a denied binary at its head, the
  credential on its input and only proxy variables, or the entrypoint of the bundle with the requested arguments, no
  input, a private home directory, and no variables but the one of the adapter, the standard ones and those of the
  proxy. The proxy variables lead to the proxy session, or nowhere, as the manifest demands.\<close>

theorem command_launched_only_if_authorised:
  assumes "cesOk (xsStores s)" "executeAuthenticatedCommand rt rq s = (r, s')"
    and "p \<in> set (drop (length (xsProcesses s)) (xsProcesses s'))" "k \<in> {''HTTP_PROXY'', ''HTTPS_PROXY'', ''http_proxy'', ''https_proxy''}"
  shows "\<exists>manifest. commandAuthorised rt rq s manifest \<and>
    (mainProcess rt rq manifest p \<or>
      (\<exists>value. xrMaterialize rt (eqCredentialHandle rq) = MaterializeOk value \<and> helperLaunch manifest value p)) \<and>
    (cmEgressMode manifest = Some ''no_network'' \<longrightarrow> mapGet (lpEnv p) k = Some ''http://127.0.0.1:0'') \<and>
    (cmEgressMode manifest = Some ''proxy_required'' \<longrightarrow>
      (\<exists>hooks port. xrHooks rt = Some hooks \<and> saPort hooks = Some port \<and>
        mapGet (lpEnv p) k = Some (''http://127.0.0.1:'' @ showNat port)))"
  using assms(2)
proof (cases rule: execute_cases)
  case early
  then show ?thesis using assms(3) by simp
next
  case (late m g dir v s2)
  obtain egress where e: "egressFor rt m egress \<or> xsProcesses s' = xsProcesses s2" "launches (expectedProcess rt rq m v egress) s2 s'"
    using credential_launches [OF late(6)] by blast
  have p: "p \<in> set (drop (length (xsProcesses s2)) (xsProcesses s'))" using assms(3) late(2) by simp
  then have for_m: "egressFor rt m egress" using e(1) by auto
  have exp: "expectedProcess rt rq m v egress p" using launches_new [OF e(2) p] .
  have blocked: "mapGet (lpEnv p) k = Some ''http://127.0.0.1:0''" if "cmEgressMode m = Some ''no_network''"
  proof -
    have "map_of (egressVars egress) k = Some ''http://127.0.0.1:0''"
      using that for_m assms(4) by (auto simp: egressFor_def egressVars_def noNetworkEnv_def Let_def)
    then show ?thesis using exp unfolding expectedProcess_def underEgress_def by blast
  qed
  have proxied: "\<exists>hooks port. xrHooks rt = Some hooks \<and> saPort hooks = Some port \<and>
      mapGet (lpEnv p) k = Some (''http://127.0.0.1:'' @ showNat port)" if mode: "cmEgressMode m = Some ''proxy_required''"
  proof -
    obtain hooks port env where h: "xrHooks rt = Some hooks" "saPort hooks = Some port" "egress = EgressProxy env"
      "pvHttpProxy env = ''http://127.0.0.1:'' @ showNat port" "pvHttpsProxy env = pvHttpProxy env"
      using mode for_m unfolding egressFor_def by blast
    have "map_of (egressVars egress) k = Some (pvHttpProxy env)"
      using assms(4) h(3,5) by (auto simp: egressVars_def proxyVars_def)
    then have "mapGet (lpEnv p) k = Some (pvHttpProxy env)" using exp unfolding expectedProcess_def underEgress_def by blast
    then show ?thesis using h by metis
  qed
  have "commandAuthorised rt rq s m" using authorize_iff [OF assms(1), of rt rq m] late(1) by blast
  then show ?thesis using blocked proxied exp late(5) unfolding expectedProcess_def by blast
qed

text \<open>C12: When the pipeline returns a result, a success or any failure, every session that was there before is as
  it was, and a session that it has started is stopped and its server closed. Assumed are that servers close when they
  are asked to, that the creation of the server does not throw (when it does, the session stays,
  as \<open>failed_servers_exhaust_limit\<close> of \<open>EgressSessions\<close> shows), and that the id of the new session is fresh.\<close>

theorem pipeline_stops_its_proxy:
  assumes "executeAuthenticatedCommand rt rq s = (Some r, s')" "xrCloses rt"
    and "\<forall>hooks. xrHooks rt = Some hooks \<longrightarrow> saServer hooks \<noteq> None"
    and "ssHeap (xsSessions s) (xrProxyId rt) = None" "xrProxyId rt \<notin> set (ssKeys (xsSessions s))"
  shows "sessionsClosed (xsSessions s) (xsSessions s')"
  using assms(1)
proof (cases rule: execute_cases)
  case early
  then show ?thesis by (simp add: sessionsClosed_refl)
next
  case (late m g dir v s2)
  then show ?thesis using credential_closed [OF late(6) assms(2,3)] assms(4,5) by simp
qed

text \<open>Legacy and temporary grants bind the arguments only as one string joined with blanks: two argument lists
  that join to the same string are covered by exactly the same grants.\<close>

theorem argv_boundaries_not_bound:
  assumes "join '' '' argv = join '' '' (eqArgv rq)"
  shows "checkGrant sha256 (rq\<lparr>eqArgv := argv\<rparr>) now st = checkGrant sha256 rq now st"
proof -
  have "legacyCommand (rq\<lparr>eqArgv := argv\<rparr>) = legacyCommand rq" "canonicalPattern (rq\<lparr>eqArgv := argv\<rparr>) = canonicalPattern rq"
    using assms by (simp_all add: legacyCommand_def canonicalPattern_def)
  then have same: "commandGrantCovers (rq\<lparr>eqArgv := argv\<rparr>) = commandGrantCovers rq" "tempProposal (rq\<lparr>eqArgv := argv\<rparr>) = tempProposal rq"
    by (auto simp: commandGrantCovers_def grantMatchesCommand_def tempProposal_def)
  have args: "eqGrantId (rq\<lparr>eqArgv := argv\<rparr>) = eqGrantId rq" "eqConversationId (rq\<lparr>eqArgv := argv\<rparr>) = eqConversationId rq" by simp_all
  show ?thesis unfolding checkGrant_def temporaryGrant_def same args by (rule refl)
qed

section \<open>A concrete executor\<close>

text \<open>One published bundle whose helper or temporary file carries the credential.\<close>

definition ex_adapterConfig :: "string \<Rightarrow> string option \<Rightarrow> adapterConfig" where
  "ex_adapterConfig ty ext = \<lparr>aaType = ty, aaEnvVarName = Some ''GH_TOKEN'', aaValuePrefix = None, aaFileExtension = ext,
     aaFileMode = None, aaHelperCommand = Some ''helper'', aaTimeoutMs = None\<rparr>"

definition ex_bundle :: "adapterConfig \<Rightarrow> commandManifest" where
  "ex_bundle a = ex_manifest\<lparr>cmBundleDigest := Some (ex_digest CHR ''b''), cmEntrypoint := Some ''gh'', cmAuthAdapter := Some a\<rparr>"

definition ex_disk :: WorkspaceStaging.disk where
  "ex_disk = \<lparr>dkTree = (\<lambda>q.
      if q \<in> {[''t''], [''t'', ex_digest CHR ''b''], [''tmp''], [''w''], [''s'']} then Some DirNode
      else if q = [''t'', ex_digest CHR ''b'', MANIFEST_FILENAME] then Some (FileNode ''manifest'')
      else if q = [''t'', ex_digest CHR ''b'', ''gh''] then Some (FileNode ''binary'')
      else if q = [''tmp'', ''other''] then Some (FileNode ''other'') else None),
    dkMode = (\<lambda>_. 384)\<rparr>"

definition ex_exec :: "adapterConfig \<Rightarrow> (launchedProcess \<Rightarrow> (int \<times> string \<times> string) option) \<Rightarrow> execRuntime" where
  "ex_exec a helper = \<lparr>xrTools = (ex_runtime ex_untar)\<lparr>trDecode := (\<lambda>_. Some (toolstoreManifestOf (Toolstore.ex_request\<lparr>puManifest := ex_bundle a\<rparr>) 0))\<rparr>,
     xrCwd = ''/'', xrPrivileged = False, xrToolstoreDir = ''/t'', xrScratchBase = ''/s'', xrTmpdir = ''/tmp'',
     xrPath = None, xrMaxOutput = None, xrSessionId = None, xrHooks = None, xrCloses = True,
     xrMaterialize = (\<lambda>_. MaterializeOk ''secret''), xrHelper = helper,
     xrChild = (\<lambda>p d. case Toolstore.writeFile False d (orDefault (lpCwd p) [] @ ''/out'') (orDefault (mapGet (lpEnv p) ''GH_TOKEN'') []) 384 of
        None \<Rightarrow> (None, d) | Some d' \<Rightarrow> (Some (0, [], []), d')),
     xrDuring = (\<lambda>d. d), xrAuditWorks = True, xrAuditId = ''a'', xrScratchId = ''1'', xrProxyId = ''p'', xrAuthId = ''2'',
     xrHomeId = ''3'', xrNow = 0\<rparr>"

definition ex_command :: executeCommandRequest where
  "ex_command = \<lparr>eqBundleDigest = ex_digest CHR ''b'', eqProfileName = ''api'', eqCredentialHandle = ''cred'', eqArgv = [''api'', ''/repos''],
     eqWorkspaceDir = ''/w'', eqInputs = None, eqOutputs = Some [\<lparr>woScratchPath = ''out'', woWorkspacePath = ''out''\<rparr>],
     eqPurpose = ''list'', eqGrantId = None, eqConversationId = None\<rparr>"

definition ex_grant :: persistentGrant where
  "ex_grant = \<lparr>gId = ''g'', gTool = ''command'', gPattern = canonicalPattern ex_command, gScope = ''cred'', gCreatedAt = 0,
     gSessionId = None, gRevokedAt = None, gRevokedReason = None\<rparr>"

definition ex_state :: execState where
  "ex_state = \<lparr>xsStores = \<lparr>persistent = \<lparr>disk = GrantsFile 1 (Some [ex_grant]), corrupt = False\<rparr>, temporary = []\<rparr>,
     xsDisk = ex_disk, xsSessions = emptyStore, xsProcesses = [], xsAudit = []\<rparr>"

definition ex_exchange :: "launchedProcess \<Rightarrow> (int \<times> string \<times> string) option" where
  "ex_exchange p = Some (0, ''token'', [])"

text \<open>A scratch directory in which the command has left the token it was given.\<close>

definition ex_left :: execState where
  "ex_left = ex_state\<lparr>xsDisk := ex_disk\<lparr>dkTree := (dkTree ex_disk)([''s'', ''out''] \<mapsto> FileNode ''token'')\<rparr>\<rparr>"

text \<open>The output scan looks for the stored credential only. When the adapter is a helper that exchanges the
  credential for a token, the command gets the token, and a declared output that holds the token passes the
  scan and is copied into the workspace.\<close>

theorem exchanged_token_not_scanned:
  "let a = ex_adapterConfig ''credential_process'' None; rt = ex_exec a ex_exchange in
    (case fst (buildAuthAdapterEnv rt a ''secret'' EgressBlocked ex_state) of
       Inr (env, _) \<Rightarrow> mapGet env ''GH_TOKEN'' = Some ''token'' | _ \<Rightarrow> False) \<and>
    (case copyOutputs rt ex_command ''secret'' ''/s'' (failedWith ExecutionFailed\<lparr>erExitCode := Some 0\<rparr>) ex_left of
       (r, s') \<Rightarrow> map_option snd (erCopyback r) = Some True \<and> dkTree (xsDisk s') [''w'', ''out''] = Some (FileNode ''token''))"
  by code_simp

text \<open>The file extension of the temp-file adapter is not validated. With separators and parent segments in it the
  credential is written outside its private directory, and the cleanup removes the directory it
  landed in with everything else there.\<close>

theorem extension_escapes_and_erases:
  "let a = ex_adapterConfig ''temp_file'' (Some ''/../../x''); rt = ex_exec a ex_exchange in
    validateAuthAdapterConfig a = [] \<and>
    (case buildAuthAdapterEnv rt a ''secret'' EgressBlocked ex_state of
       (Inr (env, temp), s') \<Rightarrow> temp = Some ''/tmp/x'' \<and> dkTree (xsDisk s') [''tmp'', ''x''] = Some (FileNode ''secret'') \<and>
         dkTree (xsDisk s') [''tmp'', ''other''] = Some (FileNode ''other'') \<and>
         dkTree (xsDisk (cleanupAll rt ''/s/1'' temp None s')) [''tmp'', ''other''] = None
     | _ \<Rightarrow> False)"
  by code_simp

section \<open>Witnesses\<close>

lemma ex_cesOk: "cesOk (xsStores ex_state)"
  by (simp add: cesOk_def ex_state_def healthy_def GRANTS_FILE_VERSION_def tempWf_def)

definition ex_failing :: execRuntime where
  "ex_failing = ex_exec (ex_adapterConfig ''credential_process'' None) (\<lambda>p. Some (1, [], []))"

text \<open>The helper of this executor fails, so it is the only process.\<close>

lemma ex_failing_run:
  obtains r s' p where "executeAuthenticatedCommand ex_failing ex_command ex_state = (Some r, s')" "xsProcesses s' = [p]" "lpCwd p = None"
proof -
  let ?a = "ex_adapterConfig ''credential_process'' None"
  have "fst (authorize ex_failing ex_command ex_state) = Some (Inr (ex_bundle ?a, ''g''))" by code_simp
  then obtain s1 where 1: "authorize ex_failing ex_command ex_state = (Some (Inr (ex_bundle ?a, ''g'')), s1)" by (metis prod.collapse)
  have keep: "xsDisk s1 = ex_disk" "xsProcesses s1 = []" using authorize_keeps [OF 1] by (simp_all add: ex_state_def)
  have "\<not> isl (fst (stageInputs (xrCwd ex_failing) (xrPrivileged ex_failing) (xrScratchBase ex_failing) (xrScratchId ex_failing)
      (stageConfigOf ex_command []) ex_disk))" by code_simp
  then obtain staged d where 2: "stageInputs (xrCwd ex_failing) (xrPrivileged ex_failing) (xrScratchBase ex_failing) (xrScratchId ex_failing)
      (stageConfigOf ex_command []) ex_disk = (Inr staged, d)" by (metis prod.collapse sum.collapse(2))
  have m: "xrMaterialize ex_failing (eqCredentialHandle ex_command) = MaterializeOk ''secret''" by (simp add: ex_failing_def ex_exec_def)
  have eg: "startEgress ex_failing ex_command (ex_bundle ?a) s = (Inr (None, EgressBlocked), s)" for s
    by (simp add: startEgress_def ex_bundle_def ex_manifest_def)
  let ?p = "helperProcess ''helper'' ''secret'' EgressBlocked"
  have helper: "runCredentialProcess ex_failing (orDefault (aaHelperCommand ?a) []) ''secret'' EgressBlocked = (Inl (HelperExited 1 (trim [])), [?p])"
  proof -
    have "\<not> containsShellMetacharacters ''helper''" "\<not> isDeniedBinary (extractShellBinary ''helper'')" by code_simp+
    then show ?thesis by (simp add: runCredentialProcess_def ex_adapterConfig_def ex_failing_def ex_exec_def Let_def)
  qed
  have "validateAuthAdapterConfig ?a = []" by code_simp
  then have ad: "buildAuthAdapterEnv ex_failing ?a ''secret'' EgressBlocked s =
      (Inl (HelperFailed (HelperExited 1 (trim []))), s\<lparr>xsProcesses := xsProcesses s @ [?p]\<rparr>)" for s
    using helper by (simp add: buildAuthAdapterEnv_def Let_def, simp add: ex_adapterConfig_def)
  have "cmAuthAdapter (ex_bundle ?a) = Some ?a" by (simp add: ex_bundle_def)
  then have "\<exists>r s'. executeAuthenticatedCommand ex_failing ex_command ex_state = (Some r, s') \<and> xsProcesses s' = [?p]"
    by (simp add: executeAuthenticatedCommand_def 1 2 keep m Let_def runWithCredential_def eg ad)
  moreover have "lpCwd ?p = None" by (simp add: helperProcess_def)
  ultimately show thesis using that by blast
qed

theorem command_launched_only_if_authorised_witness:
  "\<exists>s' p manifest. snd (executeAuthenticatedCommand ex_failing ex_command ex_state) = s' \<and> xsProcesses s' = [p] \<and>
     commandAuthorised ex_failing ex_command ex_state manifest \<and> helperLaunch manifest ''secret'' p"
proof -
  obtain r s' p where run: "executeAuthenticatedCommand ex_failing ex_command ex_state = (Some r, s')" "xsProcesses s' = [p]" "lpCwd p = None"
    by (rule ex_failing_run)
  have "xsProcesses ex_state = []" by (simp add: ex_state_def)
  then have p: "p \<in> set (drop (length (xsProcesses ex_state)) (xsProcesses s'))" using run(2) by simp
  have m: "xrMaterialize ex_failing (eqCredentialHandle ex_command) = MaterializeOk ''secret''" by (simp add: ex_failing_def ex_exec_def)
  have "\<not> mainProcess ex_failing ex_command manifest p" for manifest using run(3) by (simp add: mainProcess_def Let_def)
  then have "\<exists>manifest. commandAuthorised ex_failing ex_command ex_state manifest \<and> helperLaunch manifest ''secret'' p"
    using command_launched_only_if_authorised [OF ex_cesOk run(1) p, of "''HTTP_PROXY''"] m by auto
  then show ?thesis using run(1,2) by auto
qed

text \<open>The same bundle with a proxy, on which the helper fails after the proxy has started.\<close>

definition ex_proxied_bundle :: commandManifest where
  "ex_proxied_bundle = (ex_bundle (ex_adapterConfig ''credential_process'' None))\<lparr>cmEgressMode := Some ''proxy_required''\<rparr>"

definition ex_proxied :: execRuntime where
  "ex_proxied = ex_failing\<lparr>xrHooks := Some \<lparr>saSetupCA = NoSetup, saServer = Some 7, saPort = Some 8080\<rparr>,
     xrTools := (xrTools ex_failing)\<lparr>trDecode := (\<lambda>_. Some (toolstoreManifestOf (Toolstore.ex_request\<lparr>puManifest := ex_proxied_bundle\<rparr>) 0))\<rparr>\<rparr>"

lemma ex_proxied_run:
  obtains r s' p where "executeAuthenticatedCommand ex_proxied ex_command ex_state = (Some r, s')" "xsProcesses s' = [p]"
    "mapGet (lpEnv p) ''HTTPS_PROXY'' = Some (''http://127.0.0.1:'' @ showNat 8080)" "ssKeys (xsSessions s') = [''p'']"
proof -
  let ?a = "ex_adapterConfig ''credential_process'' None"
  have "fst (authorize ex_proxied ex_command ex_state) = Some (Inr (ex_proxied_bundle, ''g''))" by code_simp
  then obtain s1 where 1: "authorize ex_proxied ex_command ex_state = (Some (Inr (ex_proxied_bundle, ''g'')), s1)" by (metis prod.collapse)
  have keep: "xsDisk s1 = ex_disk" "xsProcesses s1 = []" "xsSessions s1 = emptyStore" using authorize_keeps [OF 1] by (simp_all add: ex_state_def)
  have "\<not> isl (fst (stageInputs (xrCwd ex_proxied) (xrPrivileged ex_proxied) (xrScratchBase ex_proxied) (xrScratchId ex_proxied)
      (stageConfigOf ex_command []) ex_disk))" by code_simp
  then obtain staged d where 2: "stageInputs (xrCwd ex_proxied) (xrPrivileged ex_proxied) (xrScratchBase ex_proxied) (xrScratchId ex_proxied)
      (stageConfigOf ex_command []) ex_disk = (Inr staged, d)" by (metis prod.collapse sum.collapse(2))
  have m: "xrMaterialize ex_proxied (eqCredentialHandle ex_command) = MaterializeOk ''secret''" by (simp add: ex_proxied_def ex_failing_def ex_exec_def)
  let ?h = "\<lparr>saSetupCA = NoSetup, saServer = Some 7, saPort = Some 8080\<rparr>"
  have opened: "(case openProxy ex_proxied ex_command ex_proxied_bundle ?h emptyStore of
      (Inr (i, env), st) \<Rightarrow> i = ''p'' \<and> pvHttpsProxy env = (''http://127.0.0.1:'' @ showNat 8080) \<and> ssKeys st = [''p''] | _ \<Rightarrow> False)"
    by (simp add: openProxy_def createSession_def startSession_def startCheck_def caReady_def onListening_def nowListening_def resetIdleTimer_def
        getSessionEnv_def getManaged_def liveCount_def emptyStore_def newManaged_def mergeConfig_def ex_proxied_def ex_failing_def
        ex_exec_def ex_command_def Let_def allowedTargetsOf_def getSessionsForConversation_def managedValues_def DEFAULT_CONFIG_def)
  then obtain env st where o: "openProxy ex_proxied ex_command ex_proxied_bundle ?h emptyStore = (Inr (''p'', env), st)"
    "pvHttpsProxy env = (''http://127.0.0.1:'' @ showNat 8080)" "ssKeys st = [''p'']"
    by (cases "openProxy ex_proxied ex_command ex_proxied_bundle ?h emptyStore"; cases "fst (openProxy ex_proxied ex_command ex_proxied_bundle ?h emptyStore)")
       (simp_all split: prod.splits)
  have mode: "cmEgressMode ex_proxied_bundle = Some ''proxy_required''" by (simp add: ex_proxied_bundle_def)
  have hooks: "xrHooks ex_proxied = Some ?h" by (simp add: ex_proxied_def)
  have eg: "startEgress ex_proxied ex_command ex_proxied_bundle s = (Inr (Some ''p'', EgressProxy env), s\<lparr>xsSessions := st\<rparr>)"
    if "xsSessions s = emptyStore" for s
    using that by (simp add: startEgress_def mode hooks o(1))
  let ?p = "helperProcess ''helper'' ''secret'' (EgressProxy env)"
  have helper: "runCredentialProcess ex_proxied (orDefault (aaHelperCommand ?a) []) ''secret'' (EgressProxy env) = (Inl (HelperExited 1 (trim [])), [?p])"
  proof -
    have "\<not> containsShellMetacharacters ''helper''" "\<not> isDeniedBinary (extractShellBinary ''helper'')" by code_simp+
    then show ?thesis by (simp add: runCredentialProcess_def ex_adapterConfig_def ex_proxied_def ex_failing_def ex_exec_def Let_def)
  qed
  have "validateAuthAdapterConfig ?a = []" by code_simp
  then have ad: "buildAuthAdapterEnv ex_proxied ?a ''secret'' (EgressProxy env) s =
      (Inl (HelperFailed (HelperExited 1 (trim []))), s\<lparr>xsProcesses := xsProcesses s @ [?p]\<rparr>)" for s
    using helper by (simp add: buildAuthAdapterEnv_def Let_def, simp add: ex_adapterConfig_def)
  have "cmAuthAdapter ex_proxied_bundle = Some ?a" by (simp add: ex_proxied_bundle_def ex_bundle_def)
  then obtain r s' where run: "executeAuthenticatedCommand ex_proxied ex_command ex_state = (Some r, s')" "xsProcesses s' = [?p]"
    "xsSessions s' = snd (stopSession ''p'' (xrCloses ex_proxied) st)"
    using keep(3) by (simp add: executeAuthenticatedCommand_def 1 2 keep m Let_def runWithCredential_def eg ad stopProxy_def)
  have keys: "ssKeys (snd (stopSession i ok st)) = ssKeys st" for i ok
    by (simp add: stopSession_def stopBegin_def serverClosed_def Let_def split: option.split)
  have "mapGet (lpEnv ?p) ''HTTPS_PROXY'' = Some (''http://127.0.0.1:'' @ showNat 8080)"
    using o(2) helper_under [of "EgressProxy env" "''helper''" "''secret''"]
    by (simp add: underEgress_def egressVars_def proxyVars_def)
  then show thesis using that [OF run(1,2)] keys o(3) run(3) by simp
qed

theorem pipeline_stops_its_proxy_witness:
  "\<exists>r s' p. executeAuthenticatedCommand ex_proxied ex_command ex_state = (Some r, s') \<and> xsProcesses s' = [p] \<and>
     mapGet (lpEnv p) ''HTTPS_PROXY'' = Some (''http://127.0.0.1:'' @ showNat 8080) \<and>
     ssKeys (xsSessions s') = [''p''] \<and> map_option statusOf (ssHeap (xsSessions s') ''p'') = Some Stopped"
proof -
  obtain r s' p where run: "executeAuthenticatedCommand ex_proxied ex_command ex_state = (Some r, s')" "xsProcesses s' = [p]"
    "mapGet (lpEnv p) ''HTTPS_PROXY'' = Some (''http://127.0.0.1:'' @ showNat 8080)" "ssKeys (xsSessions s') = [''p'']"
    by (rule ex_proxied_run)
  have "sessionsClosed (xsSessions ex_state) (xsSessions s')"
    by (rule pipeline_stops_its_proxy [OF run(1)]) (simp_all add: ex_proxied_def ex_failing_def ex_exec_def ex_state_def emptyStore_def)
  then have "map_option statusOf (ssHeap (xsSessions s') ''p'') = Some Stopped"
    using run(4) by (auto simp: sessionsClosed_def ex_state_def emptyStore_def)
  then show ?thesis using run by blast
qed

theorem argv_boundaries_not_bound_witness:
  "fst (checkGrant rev (ex_command\<lparr>eqArgv := [''pr'', ''view 1'']\<rparr>) 0 (xsStores ex_state)) =
   fst (checkGrant rev (ex_command\<lparr>eqArgv := [''pr'', ''view'', ''1'']\<rparr>) 0 (xsStores ex_state))"
  using argv_boundaries_not_bound [of "[''pr'', ''view 1'']" "ex_command\<lparr>eqArgv := [''pr'', ''view'', ''1'']\<rparr>" rev 0 "xsStores ex_state"]
  by simp

end
