(* ===== verification/ResponseFilter.thy ===== *)
theory ResponseFilter
  imports HumPrelude
begin

text \<open>
  What the assistant gets to see of an HTTP response, \<open>credential-executor/src/http/response-filter.ts\<close>: the
  headers of a list, a body of bounded size, without the secrets.

  A body is the list of its UTF-8 bytes, and a secret is ASCII, so that its length in characters is the number of
  its bytes.
\<close>

section \<open>Headers\<close>

definition ALLOWED_RESPONSE_HEADERS :: "string list" where
  "ALLOWED_RESPONSE_HEADERS = [''content-type'', ''content-length'', ''content-encoding'', ''content-language'',
     ''content-disposition'', ''cache-control'', ''etag'', ''last-modified'', ''date'', ''x-request-id'',
     ''x-ratelimit-limit'', ''x-ratelimit-remaining'', ''x-ratelimit-reset'', ''retry-after'', ''link'', ''location'',
     ''vary'', ''accept-ranges'', ''access-control-allow-origin'', ''access-control-allow-methods'',
     ''access-control-allow-headers'', ''access-control-expose-headers'']"

record rawHttpResponse =
  hrStatusCode :: nat
  hrHeaders :: "(string, string) jsMap"
  hrBody :: string

record sanitisedHttpResponse =
  shStatusCode :: nat
  shHeaders :: "(string, string) jsMap"
  shBody :: string
  shTruncated :: bool
  shOriginalBodyBytes :: nat

definition filterResponseHeaders :: "(string, string) jsMap \<Rightarrow> (string, string) jsMap" where
  "filterResponseHeaders headers =
    fold (\<lambda>(k, v) filtered.
      if toLowerCase k \<in> set ALLOWED_RESPONSE_HEADERS then mapSet (toLowerCase k) v filtered else filtered) headers []"

section \<open>The size of the body\<close>

definition MAX_BODY_BYTES :: nat where
  "MAX_BODY_BYTES = 256 * 1024"

definition continuationByte :: "char \<Rightarrow> bool" where
  "continuationByte c = (let n = (of_char c :: nat) in 128 \<le> n \<and> n < 192)"

definition sequenceLength :: "char \<Rightarrow> nat" where
  "sequenceLength c = (let n = (of_char c :: nat) in if n < 128 then 1 else if n < 224 then 2 else if n < 240 then 3 else 4)"

text \<open>\<open>toString\<close> of a prefix of a valid text: an unfinished sequence at the end becomes the replacement character.\<close>

definition decodePrefix :: "string \<Rightarrow> string" where
  "decodePrefix s =
    (let conts = takeWhile continuationByte (rev s) in
     case drop (length conts) (rev s) of
       [] \<Rightarrow> s
     | lead # before \<Rightarrow>
         if Suc (length conts) < sequenceLength lead then rev before @ [CHR 0xEF, CHR 0xBF, CHR 0xBD] else s)"

definition truncationNote :: "nat \<Rightarrow> string" where
  "truncationNote bytes = [CHR 0x0A, CHR 0x0A] @ ''[CES: Response truncated from '' @ showNat bytes @ '' bytes to '' @
     showNat MAX_BODY_BYTES @ '' bytes]''"

definition clampBody :: "string \<Rightarrow> string \<times> bool \<times> nat" where
  "clampBody body =
    (if length body \<le> MAX_BODY_BYTES then (body, False, length body)
     else (decodePrefix (take MAX_BODY_BYTES body) @ truncationNote (length body), True, length body))"

section \<open>Secrets\<close>

definition REDACTED :: string where
  "REDACTED = ''[CES:REDACTED]''"

function (sequential) replaceFrom :: "string \<Rightarrow> string \<Rightarrow> string \<Rightarrow> string" where
  "replaceFrom search replacement [] = []"
| "replaceFrom search replacement (c # s) =
     (if search \<noteq> [] \<and> prefix search (c # s)
      then replacement @ replaceFrom search replacement (drop (length search) (c # s))
      else c # replaceFrom search replacement s)"
  by pat_completeness auto
termination
  by (relation "measure (\<lambda>(a, b, s). length s)") auto

definition replaceAll :: "string \<Rightarrow> string \<Rightarrow> string \<Rightarrow> string" where
  "replaceAll str search replacement = (if search = [] then str else replaceFrom search replacement str)"

definition scrubSecrets :: "string \<Rightarrow> string list \<Rightarrow> string" where
  "scrubSecrets body secrets =
    fold (\<lambda>secret result. if length secret < 8 then result else replaceAll result secret REDACTED) secrets body"

definition filterHttpResponse :: "rawHttpResponse \<Rightarrow> string list \<Rightarrow> sanitisedHttpResponse" where
  "filterHttpResponse raw secrets =
    (case clampBody (hrBody raw) of
       (clampedBody, truncated, originalBytes) \<Rightarrow>
         \<lparr>shStatusCode = hrStatusCode raw, shHeaders = filterResponseHeaders (hrHeaders raw),
          shBody = scrubSecrets clampedBody secrets, shTruncated = truncated, shOriginalBodyBytes = originalBytes\<rparr>)"

section \<open>Facts on headers\<close>

lemma filterResponseHeaders_keys: "set (map fst (filterResponseHeaders headers)) \<subseteq> set ALLOWED_RESPONSE_HEADERS"
proof -
  have "set (map fst (fold (\<lambda>(k, v) filtered. if toLowerCase k \<in> set ALLOWED_RESPONSE_HEADERS
      then mapSet (toLowerCase k) v filtered else filtered) hs acc)) \<subseteq> set (map fst acc) \<union> set ALLOWED_RESPONSE_HEADERS"
    for hs and acc :: "(string, string) jsMap"
  proof (induction hs arbitrary: acc)
    case (Cons h hs)
    obtain k v where h: "h = (k, v)" by fastforce
    show ?case
    proof (cases "toLowerCase k \<in> set ALLOWED_RESPONSE_HEADERS")
      case True
      have "set (map fst (mapSet (toLowerCase k) v acc)) \<subseteq> set (map fst acc) \<union> set ALLOWED_RESPONSE_HEADERS"
        using True by (subst update_keys) auto
      then show ?thesis using Cons[of "mapSet (toLowerCase k) v acc"] h True by (simp only: fold.simps o_def split if_True) blast
    next
      case False
      then show ?thesis using Cons[of acc] h by (simp only: fold.simps o_def split if_False)
    qed
  qed simp
  from this[of headers "[]"] show ?thesis by (simp add: filterResponseHeaders_def)
qed

section \<open>Facts on secrets\<close>

text \<open>A secret that the placeholder can neither contain nor be a part of.\<close>

definition scrubbable :: "string \<Rightarrow> bool" where
  "scrubbable w \<longleftrightarrow> CHR 0x5B \<notin> set w \<and> CHR 0x5D \<notin> set w \<and> 8 \<le> length w \<and> \<not> sublist w ''CES:REDACTED''"

lemma REDACTED_parts: "REDACTED = CHR 0x5B # ''CES:REDACTED'' @ [CHR 0x5D]"
  by (simp add: REDACTED_def)

lemma sublist_around:
  assumes "c \<notin> set w" "sublist w (a @ c # b)"
  shows "sublist w a \<or> sublist w b"
proof -
  obtain u v where e: "a @ c # b = u @ w @ v" using assms(2) by (auto simp: sublist_def)
  then consider k where "u = a @ c # k" | k where "a = u @ w @ k" | "c \<in> set w"
    by (auto simp: append_eq_append_conv2 append_eq_Cons_conv Cons_eq_append_conv) 
  then show ?thesis
  proof cases
    case 1
    then have "b = k @ w @ v" using e by simp
    then show ?thesis by auto
  qed (use assms(1) in auto)
qed

lemma sublist_redacted:
  assumes "scrubbable w" "sublist w (REDACTED @ t)"
  shows "sublist w t"
proof -
  have b: "CHR 0x5B \<notin> set w" "CHR 0x5D \<notin> set w" "w \<noteq> []" "\<not> sublist w ''CES:REDACTED''"
    using assms(1) by (auto simp: scrubbable_def)
  have "sublist w ([] @ CHR 0x5B # (''CES:REDACTED'' @ CHR 0x5D # t))" using assms(2) by (simp add: REDACTED_parts)
  then have "sublist w (''CES:REDACTED'' @ CHR 0x5D # t)" using sublist_around[OF b(1)] b(3) by fastforce
  then show ?thesis using sublist_around[OF b(2)] b(4) by blast
qed

lemma prefix_replaceFrom:
  "prefix u (replaceFrom r REDACTED s) \<Longrightarrow> CHR 0x5B \<notin> set u \<Longrightarrow> prefix u s"
proof (induction u arbitrary: s)
  case (Cons x u)
  show ?case
  proof (cases s)
    case (Cons c t)
    show ?thesis
    proof (cases "r \<noteq> [] \<and> prefix r s")
      case True
      then have "prefix (x # u) (REDACTED @ replaceFrom r REDACTED (drop (length r) s))" using Cons.prems(1) Cons by simp
      then have "x = CHR 0x5B" by (simp add: REDACTED_parts)
      then show ?thesis using Cons.prems(2) by simp
    next
      case False
      then have "x = c" "prefix u (replaceFrom r REDACTED t)" using Cons.prems(1) Cons by auto
      then show ?thesis using Cons.IH[of t] Cons.prems(2) Cons by simp
    qed
  qed (use Cons.prems in simp)
qed simp

lemma sublist_replaceFrom:
  "scrubbable w \<Longrightarrow> r \<noteq> [] \<Longrightarrow> sublist w (replaceFrom r REDACTED s) \<Longrightarrow> sublist w s \<and> w \<noteq> r"
proof (induction "length s" arbitrary: s rule: less_induct)
  case less
  show ?case
  proof (cases s)
    case Nil
    then show ?thesis using less.prems by (auto simp: scrubbable_def)
  next
    case (Cons c t)
    show ?thesis
    proof (cases "prefix r s")
      case True
      let ?rest = "drop (length r) s"
      have "sublist w (REDACTED @ replaceFrom r REDACTED ?rest)" using True less.prems(2,3) Cons by simp
      then have "sublist w (replaceFrom r REDACTED ?rest)" by (rule sublist_redacted[OF less.prems(1)])
      moreover have "length ?rest < length s" using less.prems(2) Cons by simp
      ultimately have "sublist w ?rest \<and> w \<noteq> r" using less by blast
      then show ?thesis by (meson sublist_order.order.trans sublist_drop)
    next
      case False
      then have e: "replaceFrom r REDACTED s = c # replaceFrom r REDACTED t" using Cons by simp
      then have "prefix w (c # replaceFrom r REDACTED t) \<or> sublist w (replaceFrom r REDACTED t)"
        using less.prems(3) by (simp add: sublist_Cons_right)
      then show ?thesis
      proof
        assume "prefix w (c # replaceFrom r REDACTED t)"
        then have "prefix w s" using prefix_replaceFrom[of w r s] e less.prems(1) by (auto simp: scrubbable_def)
        then show ?thesis using False by auto
      next
        assume "sublist w (replaceFrom r REDACTED t)"
        then show ?thesis using less.hyps[of t] less.prems(1,2) Cons by (auto simp: sublist_Cons_right)
      qed
    qed
  qed
qed

lemma scrub_keeps: "scrubbable w \<Longrightarrow> sublist w (scrubSecrets body secrets) \<Longrightarrow> sublist w body \<and> w \<notin> set secrets"
proof (induction secrets arbitrary: body)
  case (Cons s secrets)
  let ?b = "if length s < 8 then body else replaceAll body s REDACTED"
  have "sublist w ?b \<and> w \<notin> set secrets" using Cons by (simp add: scrubSecrets_def)
  moreover have "sublist w body \<and> w \<noteq> s"
  proof (cases "length s < 8")
    case True
    then show ?thesis using calculation Cons.prems(1) by (auto simp: scrubbable_def)
  next
    case False
    then have "s \<noteq> []" by auto
    then show ?thesis using sublist_replaceFrom[OF Cons.prems(1), of s body] calculation False by (simp add: replaceAll_def)
  qed
  ultimately show ?case by simp
qed (simp add: scrubSecrets_def)

lemma includes_sublist: "includesStr s w \<longleftrightarrow> sublist w s"
  by (auto simp: includes_iff sublist_def)

lemma replaceFrom_absent: "\<not> sublist r s \<Longrightarrow> replaceFrom r p s = s"
proof (induction s)
  case (Cons c s)
  then show ?case by (auto simp: sublist_Cons_right)
qed simp

section \<open>Properties\<close>

text \<open>C31: The response that the assistant sees has only headers of the list, and its body contains none of the secrets
  that are long enough to be scrubbed and that the placeholder neither contains nor can become a part of; also
  the replacement of one secret does not bring back another.\<close>

theorem filtered_response_clean:
  "set (map fst (shHeaders (filterHttpResponse raw secrets))) \<subseteq> set ALLOWED_RESPONSE_HEADERS \<and>
   {w \<in> set secrets. scrubbable w \<and> includesStr (shBody (filterHttpResponse raw secrets)) w} = {}"
proof -
  obtain b n k where c: "clampBody (hrBody raw) = (b, n, k)" by (metis prod_cases3)
  then have "shHeaders (filterHttpResponse raw secrets) = filterResponseHeaders (hrHeaders raw)"
    "shBody (filterHttpResponse raw secrets) = scrubSecrets b secrets"
    by (simp_all add: filterHttpResponse_def)
  then show ?thesis using filterResponseHeaders_keys[of "hrHeaders raw"] scrub_keeps[of _ b secrets]
    by (simp only: includes_sublist) blast
qed

text \<open>The body is cut before it is scrubbed: a secret that lies across the cut is not recognised, and all of it but its
  last character is shown.\<close>

definition ex_secret :: string where
  "ex_secret = ''ghp_'' @ replicate 8 (CHR ''#'')"

definition ex_body :: string where
  "ex_body = replicate (MAX_BODY_BYTES - 11) (CHR ''x'') @ ex_secret"

lemma count_sublist: "sublist u v \<Longrightarrow> length (filter P u) \<le> length (filter P v)"
  by (auto simp: sublist_def)

theorem clamp_before_scrub:
  "\<exists>a b. shBody (filterHttpResponse \<lparr>hrStatusCode = 200, hrHeaders = [], hrBody = ex_body\<rparr> [ex_secret]) =
     a @ butlast ex_secret @ b"
proof -
  let ?a = "replicate (MAX_BODY_BYTES - 11) (CHR ''x'')" and ?k = "butlast ex_secret"
  have secret: "length ex_secret = 12" "take 11 ex_secret = ?k" "rev ?k = CHR ''#'' # tl (rev ?k)"
    "filter (\<lambda>c. c = CHR ''#'') ?k = replicate 7 (CHR ''#'')" "filter (\<lambda>c. c = CHR ''#'') ex_secret = replicate 8 (CHR ''#'')"
    by code_simp+
  obtain n where n: "MAX_BODY_BYTES = n + 11" by (rule that[of "MAX_BODY_BYTES - 11"]) (simp add: MAX_BODY_BYTES_def)
  have len: "length ex_body = MAX_BODY_BYTES + 1" by (simp add: ex_body_def secret n)
  have take: "take MAX_BODY_BYTES ex_body = ?a @ ?k" by (simp add: ex_body_def secret n)
  have dec: "decodePrefix (?a @ ?k) = ?a @ ?k"
    unfolding decodePrefix_def rev_append
    by (subst secret(3), subst secret(3)) (simp add: continuationByte_def sequenceLength_def)
  have clamp: "clampBody ex_body = (?a @ ?k @ truncationNote (length ex_body), True, length ex_body)"
    using len by (simp add: clampBody_def take dec)
  have "CHR ''#'' \<notin> set (showNat n)" for n
  proof
    assume "CHR ''#'' \<in> set (showNat n)"
    then obtain i :: nat where i: "char_of i = CHR ''#''" "48 \<le> i" "i \<le> 57" using showNat_digits[of n] by force
    then have "(of_char (char_of i :: char) :: nat) = 35" by simp
    then show False using i(2,3) by (simp add: of_char_of)
  qed
  then have "filter (\<lambda>c. c = CHR ''#'') (truncationNote n) = []" for n
    by (auto simp: truncationNote_def filter_empty_conv)
  then have "length (filter (\<lambda>c. c = CHR ''#'') (?a @ ?k @ truncationNote n)) < length (filter (\<lambda>c. c = CHR ''#'') ex_secret)" for n
    by (simp add: secret)
  then have "\<not> sublist ex_secret (?a @ ?k @ truncationNote n)" for n
    using count_sublist leD by blast
  then have "shBody (filterHttpResponse \<lparr>hrStatusCode = 200, hrHeaders = [], hrBody = ex_body\<rparr> [ex_secret]) =
      ?a @ ?k @ truncationNote (length ex_body)"
    by (simp add: filterHttpResponse_def clamp scrubSecrets_def replaceAll_def replaceFrom_absent secret)
  then show ?thesis by metis
qed

text \<open>Headers are not scrubbed: a secret that the server repeats in the address of the created resource is shown.\<close>

theorem secret_in_header_passes:
  "shHeaders (filterHttpResponse \<lparr>hrStatusCode = 201, hrHeaders = [(''Location'', ''/x?api_key='' @ ex_secret)], hrBody = []\<rparr>
     [ex_secret]) = [(''location'', ''/x?api_key='' @ ex_secret)]"
proof -
  have "toLowerCase ''Location'' = ''location''" "''location'' \<in> set ALLOWED_RESPONSE_HEADERS" by code_simp+
  then show ?thesis by (simp add: filterHttpResponse_def clampBody_def filterResponseHeaders_def)
qed

end
