(* ===== verification/CredentialHandles.thy ===== *)
theory CredentialHandles
  imports HumPrelude
begin

text \<open>
  Credential handles, \<open>packages/service-contracts/src/handles.ts\<close>, their resolution to the metadata of a local
  credential, \<open>credential-executor/src/subjects/local.ts\<close>, and the policy of a static credential,
  \<open>subjects/policy.ts\<close>.

  The metadata file and the table of connections are lists of records, of which the lookups take the first
  match (\<open>getByServiceField\<close> of \<open>packages/credential-storage\<close>). The texts of the errors are constructors that
  carry what the texts show. A parsed handle does not repeat its text (\<open>raw\<close>), which its operations get as well.
\<close>

section \<open>Handles\<close>

datatype parsedHandle =
    LocalStaticHandle (phService: string) (phField: string)
  | LocalOAuthHandle (phProviderKey: string) (phConnectionId: string)
  | PlatformOAuthHandle (phConnectionId: string)

datatype handleError =
    MissingPrefix string
  | InvalidLocalStatic string
  | InvalidLocalOAuth string
  | InvalidPlatformOAuth string
  | UnknownPrefix string string

definition localStaticHandle :: "string \<Rightarrow> string \<Rightarrow> string" where
  "localStaticHandle service field = ''local_static'' @ '':'' @ service @ ''/'' @ field"

definition localOAuthHandle :: "string \<Rightarrow> string \<Rightarrow> string" where
  "localOAuthHandle providerKey connectionId = ''local_oauth'' @ '':'' @ providerKey @ ''/'' @ connectionId"

definition platformOAuthHandle :: "string \<Rightarrow> string" where
  "platformOAuthHandle connectionId = ''platform_oauth'' @ '':'' @ connectionId"

text \<open>The two parts around the first slash, both not empty.\<close>

definition slashParts :: "string \<Rightarrow> (string \<times> string) option" where
  "slashParts rest =
    (case indexOf (CHR ''/'') rest of
       None \<Rightarrow> None
     | Some i \<Rightarrow> if i = 0 \<or> i = length rest - 1 then None else Some (take i rest, drop (Suc i) rest))"

definition parseHandle :: "string \<Rightarrow> handleError + parsedHandle" where
  "parseHandle raw =
    (case indexOf (CHR '':'') raw of
       None \<Rightarrow> Inl (MissingPrefix raw)
     | Some i \<Rightarrow>
         (let prefix = take i raw; rest = drop (Suc i) raw in
          if prefix = ''local_static'' then
            (case slashParts rest of
               None \<Rightarrow> Inl (InvalidLocalStatic raw)
             | Some (service, field) \<Rightarrow> Inr (LocalStaticHandle service field))
          else if prefix = ''local_oauth'' then
            (case slashParts rest of
               None \<Rightarrow> Inl (InvalidLocalOAuth raw)
             | Some (providerKey, connectionId) \<Rightarrow> Inr (LocalOAuthHandle providerKey connectionId))
          else if prefix = ''platform_oauth'' then
            (if rest = [] then Inl (InvalidPlatformOAuth raw) else Inr (PlatformOAuthHandle rest))
          else Inl (UnknownPrefix prefix raw)))"

section \<open>Subjects\<close>

record injectionTemplate =
  itHostPattern :: string
  itIsHeader :: bool
  itHeaderName :: "string option"
  itValuePrefix :: "string option"
  itQueryParamName :: "string option"

record staticCredential =
  scCredentialId :: string
  scService :: string
  scField :: string
  scAllowedTools :: "string list option"
  scAllowedDomains :: "string list option"
  scUsageDescription :: "string option"
  scAlias :: "string option"
  scInjectionTemplates :: "injectionTemplate list option"
  scCreatedAt :: millis
  scUpdatedAt :: millis

record oauthConnection =
  ocId :: string
  ocProviderKey :: string
  ocAccountInfo :: "string option"
  ocGrantedScopes :: "string list"
  ocAccessTokenPath :: string
  ocHasRefreshToken :: bool
  ocExpiresAt :: "millis option"
  ocCreatedAt :: millis
  ocUpdatedAt :: millis

definition credentialKey :: "string \<Rightarrow> string \<Rightarrow> string" where
  "credentialKey service field = ''credential/'' @ service @ ''/'' @ field"

definition getByServiceField :: "staticCredential list \<Rightarrow> string \<Rightarrow> string \<Rightarrow> staticCredential option" where
  "getByServiceField credentials service field =
    List.find (\<lambda>c. scService c = service \<and> scField c = field) credentials"

datatype resolvedSubject =
    StaticSubject staticCredential string
  | OAuthSubject oauthConnection

datatype subjectError =
    SubjectHandle handleError
  | NoStaticCredential string string
  | NoConnection string
  | ProviderMismatch string string string
  | NotLocal

definition resolveLocalSubject ::
  "staticCredential list \<Rightarrow> oauthConnection list \<Rightarrow> string \<Rightarrow> subjectError + resolvedSubject" where
  "resolveLocalSubject credentials connections rawHandle =
    (case parseHandle rawHandle of
       Inl e \<Rightarrow> Inl (SubjectHandle e)
     | Inr (LocalStaticHandle service field) \<Rightarrow>
         (case getByServiceField credentials service field of
            None \<Rightarrow> Inl (NoStaticCredential service field)
          | Some metadata \<Rightarrow> Inr (StaticSubject metadata (credentialKey service field)))
     | Inr (LocalOAuthHandle providerKey connectionId) \<Rightarrow>
         (case List.find (\<lambda>c. ocId c = connectionId) connections of
            None \<Rightarrow> Inl (NoConnection connectionId)
          | Some connection \<Rightarrow>
              if ocProviderKey connection \<noteq> providerKey
              then Inl (ProviderMismatch connectionId (ocProviderKey connection) providerKey)
              else Inr (OAuthSubject connection))
     | Inr (PlatformOAuthHandle connectionId) \<Rightarrow> Inl NotLocal)"

datatype credentialPolicyError =
    DomainRestricted string string "string list"
  | NoToolAllowed string string
  | ToolNotAllowed string string string "string list"

text \<open>\<open>None\<close>: the tool may use the credential.\<close>

definition checkCredentialPolicy :: "staticCredential \<Rightarrow> string \<Rightarrow> credentialPolicyError option" where
  "checkCredentialPolicy metadata cesToolName =
    (if orDefault (scAllowedDomains metadata) [] \<noteq> []
     then Some (DomainRestricted (scService metadata) (scField metadata) (orDefault (scAllowedDomains metadata) []))
     else (case scAllowedTools metadata of
             None \<Rightarrow> None
           | Some tools \<Rightarrow>
               if cesToolName \<in> set tools then None
               else if tools = [] then Some (NoToolAllowed (scService metadata) (scField metadata))
               else Some (ToolNotAllowed cesToolName (scService metadata) (scField metadata) tools)))"

section \<open>Facts\<close>

lemma indexOf_first: "c \<notin> set a \<Longrightarrow> indexOf c (a @ c # b) = Some (length a)"
  by (induction a) auto

lemma indexOf_split: "indexOf c s = Some i \<Longrightarrow> s = take i s @ c # drop (Suc i) s \<and> c \<notin> set (take i s)"
  by (induction s arbitrary: i) (auto split: if_splits)

lemma slashParts_iff:
  "slashParts rest = Some (a, b) \<longleftrightarrow> rest = a @ CHR ''/'' # b \<and> CHR ''/'' \<notin> set a \<and> a \<noteq> [] \<and> b \<noteq> []"
proof
  assume "slashParts rest = Some (a, b)"
  then obtain i where i: "indexOf (CHR ''/'') rest = Some i" "i \<noteq> 0" "i \<noteq> length rest - 1"
    "a = take i rest" "b = drop (Suc i) rest"
    by (auto simp: slashParts_def split: option.splits if_splits)
  from indexOf_split[OF i(1)] have s: "rest = a @ CHR ''/'' # b" "CHR ''/'' \<notin> set a" using i by auto
  moreover have "length a = i" using s(1) i(4) by (metis length_take length_append length_Cons min.absorb2 nat_le_linear
        add_Suc_right le_add1 le_antisym take_all_iff not_less_eq_eq length_drop i(5) append_take_drop_id)
  ultimately show "rest = a @ CHR ''/'' # b \<and> CHR ''/'' \<notin> set a \<and> a \<noteq> [] \<and> b \<noteq> []" using i(2,3) by auto
next
  assume "rest = a @ CHR ''/'' # b \<and> CHR ''/'' \<notin> set a \<and> a \<noteq> [] \<and> b \<noteq> []"
  then show "slashParts rest = Some (a, b)" by (simp add: slashParts_def indexOf_first)
qed

text \<open>The text of a handle.\<close>

fun handleText :: "parsedHandle \<Rightarrow> string" where
  "handleText (LocalStaticHandle service field) = localStaticHandle service field"
| "handleText (LocalOAuthHandle providerKey connectionId) = localOAuthHandle providerKey connectionId"
| "handleText (PlatformOAuthHandle connectionId) = platformOAuthHandle connectionId"

fun properHandle :: "parsedHandle \<Rightarrow> bool" where
  "properHandle (LocalStaticHandle service field) \<longleftrightarrow> service \<noteq> [] \<and> CHR ''/'' \<notin> set service \<and> field \<noteq> []"
| "properHandle (LocalOAuthHandle providerKey connectionId) \<longleftrightarrow>
     providerKey \<noteq> [] \<and> CHR ''/'' \<notin> set providerKey \<and> connectionId \<noteq> []"
| "properHandle (PlatformOAuthHandle connectionId) \<longleftrightarrow> connectionId \<noteq> []"

lemma slashParts_text: "CHR ''/'' \<notin> set a \<Longrightarrow> a \<noteq> [] \<Longrightarrow> b \<noteq> [] \<Longrightarrow> slashParts (a @ CHR ''/'' # b) = Some (a, b)"
  by (simp add: slashParts_iff)

lemma parse_colon:
  assumes "CHR '':'' \<notin> set p"
  shows "parseHandle (p @ CHR '':'' # rest) =
    (let raw = p @ CHR '':'' # rest in
     if p = ''local_static'' then
       (case slashParts rest of None \<Rightarrow> Inl (InvalidLocalStatic raw) | Some (a, b) \<Rightarrow> Inr (LocalStaticHandle a b))
     else if p = ''local_oauth'' then
       (case slashParts rest of None \<Rightarrow> Inl (InvalidLocalOAuth raw) | Some (a, b) \<Rightarrow> Inr (LocalOAuthHandle a b))
     else if p = ''platform_oauth'' then (if rest = [] then Inl (InvalidPlatformOAuth raw) else Inr (PlatformOAuthHandle rest))
     else Inl (UnknownPrefix p raw))"
  by (simp add: parseHandle_def indexOf_first[OF assms] Let_def)

lemma handleText_colon:
  "handleText (LocalStaticHandle a b) = ''local_static'' @ CHR '':'' # (a @ CHR ''/'' # b)"
  "handleText (LocalOAuthHandle a b) = ''local_oauth'' @ CHR '':'' # (a @ CHR ''/'' # b)"
  "handleText (PlatformOAuthHandle c) = ''platform_oauth'' @ CHR '':'' # c"
  by (simp_all add: localStaticHandle_def localOAuthHandle_def platformOAuthHandle_def)

lemma parse_text: "properHandle h \<Longrightarrow> parseHandle (handleText h) = Inr h"
proof (cases h)
  case (LocalStaticHandle a b)
  assume "properHandle h"
  then have "slashParts (a @ CHR ''/'' # b) = Some (a, b)" using LocalStaticHandle by (simp add: slashParts_text)
  then show ?thesis unfolding LocalStaticHandle handleText_colon by (subst parse_colon) (auto simp: Let_def)
next
  case (LocalOAuthHandle a b)
  assume "properHandle h"
  then have "slashParts (a @ CHR ''/'' # b) = Some (a, b)" using LocalOAuthHandle by (simp add: slashParts_text)
  then show ?thesis unfolding LocalOAuthHandle handleText_colon by (subst parse_colon) (auto simp: Let_def)
next
  case (PlatformOAuthHandle c)
  assume "properHandle h"
  then show ?thesis using PlatformOAuthHandle unfolding PlatformOAuthHandle handleText_colon
    by (subst parse_colon) (auto simp: Let_def)
qed

lemma text_parse:
  assumes "parseHandle raw = Inr h"
  shows "handleText h = raw \<and> properHandle h"
proof -
  obtain i where i: "indexOf (CHR '':'') raw = Some i" using assms by (auto simp: parseHandle_def split: option.splits)
  obtain p rest where r: "raw = p @ CHR '':'' # rest" "CHR '':'' \<notin> set p" using indexOf_split[OF i] by blast
  have "parseHandle (p @ CHR '':'' # rest) = Inr h" using assms r(1) by simp
  then show ?thesis unfolding parse_colon[OF r(2)] r(1)
    by (auto simp: Let_def slashParts_iff handleText_colon simp del: handleText.simps split: if_splits option.splits)
qed

text \<open>The subject of a handle is the one its parts name.\<close>

fun subjectOf :: "parsedHandle \<Rightarrow> resolvedSubject \<Rightarrow> bool" where
  "subjectOf (LocalStaticHandle service field) (StaticSubject m key) \<longleftrightarrow>
     scService m = service \<and> scField m = field \<and> key = credentialKey service field"
| "subjectOf (LocalOAuthHandle providerKey connectionId) (OAuthSubject c) \<longleftrightarrow>
     ocProviderKey c = providerKey \<and> ocId c = connectionId"
| "subjectOf _ _ \<longleftrightarrow> False"

lemma resolved_subject:
  assumes "resolveLocalSubject credentials connections raw = Inr s"
  shows "\<exists>h. parseHandle raw = Inr h \<and> subjectOf h s"
  using assms
  by (auto simp: resolveLocalSubject_def getByServiceField_def find_Some_iff
      split: sum.splits parsedHandle.splits option.splits if_splits)

lemma credential_policy_iff:
  "checkCredentialPolicy m tool = None \<longleftrightarrow>
    orDefault (scAllowedDomains m) [] = [] \<and> (case scAllowedTools m of None \<Rightarrow> True | Some tools \<Rightarrow> tool \<in> set tools)"
  by (auto simp: checkCredentialPolicy_def split: option.splits)

section \<open>Properties\<close>

text \<open>C32: Handles are read as they are written: a text is accepted exactly when it is the text of a handle whose parts
  are not empty and whose first part has no slash, and it then stands for this handle only.\<close>

theorem handle_roundtrip:
  "(parseHandle raw = Inr h) = (handleText h = raw \<and> properHandle h)"
  using parse_text text_parse by blast

text \<open>A service name with a slash is read as another credential.\<close>

theorem slash_in_service:
  "parseHandle (localStaticHandle ''a/b'' ''c'') = Inr (LocalStaticHandle ''a'' ''b/c'')"
  by code_simp

end
