(* ===== verification/HttpExecutor.thy ===== *)
theory HttpExecutor
  imports HttpPolicy ResponseFilter CredentialHandles
begin

text \<open>
  The pipeline of an authenticated HTTP request, \<open>credential-executor/src/http/executor.ts\<close>, with its audit
  records, \<open>http/audit.ts\<close>: handle, policy, credential, injection, the request with its redirects, the filtered
  response.

  \<open>httpState\<close> is what the pipeline reads and changes: the grant stores, the requests it has sent, and the audit log.
  \<open>httpRuntime\<close> is what it is given: the URL class, the credentials, the answers of the network, and, as the
  pipeline waits for credentials and for each answer, what other calls do to the grant stores in the meantime.
  The body of a request is the text that is sent. The expiry of a token, which nothing here reads, is left out.
\<close>

section \<open>Data\<close>

datatype handleType = LocalStatic | LocalOAuth | PlatformOAuth

record materialisedCredential =
  mcValue :: string
  mcHandleType :: handleType
  mcInjectionTemplates :: "injectionTemplate list option"

record makeAuthenticatedRequest =
  maCredentialHandle :: string
  maMethod :: string
  maUrl :: string
  maHeaders :: "(string, string) jsMap option"
  maBody :: "string option"
  maPurpose :: string
  maGrantId :: "string option"
  maConversationId :: "string option"

record outboundRequest =
  obMethod :: string
  obUrl :: string
  obHeaders :: "(string, string) jsMap"
  obBody :: "string option"

text \<open>An answer of \<open>fetch\<close>: an exception with its message, or a response with lower case header names.\<close>

datatype fetchAnswer = FetchThrows string | Responds rawHttpResponse

datatype materialiseError =
    MeSubject subjectError
  | MePolicy credentialPolicyError
  | MeMissingSecret string
  | MeConnection string
  | MeNotConfigured
  | MeManaged string

datatype auditMessage = AmMaterialise materialiseError | AmText string

record httpAudit =
  haAuditId :: string
  haGrantId :: string
  haCredentialHandle :: string
  haTarget :: string
  haSessionId :: string
  haSuccess :: bool
  haErrorMessage :: "auditMessage option"
  haTimestamp :: millis

datatype httpExecResult =
    HxInvalidHandle handleError
  | HxForbiddenHeaders "string list"
  | HxApprovalRequired httpGrantProposal string
  | HxMaterialisationFailed materialiseError string
  | HxRequestFailed string string
  | HxSuccess nat "(string, string) jsMap" string string

record httpState =
  hsStores :: cesState
  hsSent :: "outboundRequest list"
  hsAudit :: "httpAudit list"

record httpRuntime =
  xhParse :: "string \<Rightarrow> url option"
  xhResolve :: "string \<Rightarrow> string \<Rightarrow> string + string"
  xhSetQuery :: "string \<Rightarrow> string \<Rightarrow> string \<Rightarrow> string option"
  xhEncode :: "string \<Rightarrow> string"
  xhSha256 :: "string \<Rightarrow> string"
  xhPolicyMessage :: "policyError \<Rightarrow> string"
  xhCredentials :: "staticCredential list"
  xhConnections :: "oauthConnection list"
  xhSecureKey :: "string \<Rightarrow> string option"
  xhConnectionToken :: "oauthConnection \<Rightarrow> string + string"
  xhManagedToken :: "(string \<Rightarrow> string + string) option"
  xhFetch :: "nat \<Rightarrow> outboundRequest \<Rightarrow> fetchAnswer"
  xhMeanwhile :: "nat \<Rightarrow> cesState \<Rightarrow> cesState"
  xhNow :: "nat \<Rightarrow> millis"
  xhAuditNow :: millis
  xhSessionId :: string
  xhAuditId :: string
  xhAuditFails :: bool

section \<open>Injection of the credential\<close>

definition AUTH_HEADERS_TO_STRIP :: "string list" where
  "AUTH_HEADERS_TO_STRIP = [''authorization'', ''cookie'', ''proxy-authorization'', ''x-api-key'', ''x-auth-token'']"

definition matchHostPatternHttp :: "string \<Rightarrow> string \<Rightarrow> bool" where
  "matchHostPatternHttp pattern host =
    (let p = toLowerCase pattern; h = toLowerCase host in
     if p = ''*'' then True
     else if startsWith p ''*.'' then endsWith h (drop 1 p) \<or> h = drop 2 p
     else p = h)"

definition findMatchingTemplate :: "httpRuntime \<Rightarrow> string \<Rightarrow> injectionTemplate list option \<Rightarrow> injectionTemplate option" where
  "findMatchingTemplate rt url templates =
    (if orDefault templates [] = [] then None
     else (case xhParse rt url of
             None \<Rightarrow> None
           | Some u \<Rightarrow> List.find (\<lambda>t. matchHostPatternHttp (itHostPattern t) (hostname u)) (orDefault templates [])))"

definition appendQueryParam :: "httpRuntime \<Rightarrow> string \<Rightarrow> string \<Rightarrow> string \<Rightarrow> string" where
  "appendQueryParam rt url name value =
    (case xhSetQuery rt url name value of
       Some u \<Rightarrow> u
     | None \<Rightarrow> url @ (if includesStr url ''?'' then ''&'' else ''?'') @ xhEncode rt name @ ''='' @ xhEncode rt value)"

definition copiedHeaders :: "(string, string) jsMap \<Rightarrow> (string, string) jsMap" where
  "copiedHeaders callerHeaders =
    fold (\<lambda>(k, v) headers. if toLowerCase k \<notin> set AUTH_HEADERS_TO_STRIP then mapSet k v headers else headers)
      callerHeaders []"

definition bearer :: "materialisedCredential \<Rightarrow> (string, string) jsMap \<Rightarrow> (string, string) jsMap" where
  "bearer credential headers = mapSet ''Authorization'' (''Bearer '' @ mcValue credential) headers"

definition buildAuthenticatedRequest ::
  "httpRuntime \<Rightarrow> string \<Rightarrow> (string, string) jsMap \<Rightarrow> materialisedCredential \<Rightarrow> (string, string) jsMap \<times> string" where
  "buildAuthenticatedRequest rt url callerHeaders credential =
    (let headers = copiedHeaders callerHeaders in
     case mcHandleType credential of
       LocalStatic \<Rightarrow>
         (case findMatchingTemplate rt url (mcInjectionTemplates credential) of
            Some t \<Rightarrow>
              if itIsHeader t then
                (mapSet (orDefault (itHeaderName t) ''Authorization'')
                   (orDefault (itValuePrefix t) [] @ mcValue credential) headers, url)
              else (headers, appendQueryParam rt url (orDefault (itQueryParamName t) ''api_key'') (mcValue credential))
          | None \<Rightarrow> (bearer credential headers, url))
     | _ \<Rightarrow> (bearer credential headers, url))"

section \<open>Materialisation\<close>

definition materialiseCredential :: "httpRuntime \<Rightarrow> parsedHandle \<Rightarrow> string \<Rightarrow> materialiseError + materialisedCredential" where
  "materialiseCredential rt handle rawHandle =
    (case handle of
       PlatformOAuthHandle c \<Rightarrow>
         (case xhManagedToken rt of
            None \<Rightarrow> Inl MeNotConfigured
          | Some token \<Rightarrow>
              (case token rawHandle of
                 Inl e \<Rightarrow> Inl (MeManaged e)
               | Inr t \<Rightarrow> Inr \<lparr>mcValue = t, mcHandleType = PlatformOAuth, mcInjectionTemplates = None\<rparr>))
     | _ \<Rightarrow>
         (case resolveLocalSubject (xhCredentials rt) (xhConnections rt) rawHandle of
            Inl e \<Rightarrow> Inl (MeSubject e)
          | Inr (StaticSubject metadata key) \<Rightarrow>
              (case checkCredentialPolicy metadata ''make_authenticated_request'' of
                 Some e \<Rightarrow> Inl (MePolicy e)
               | None \<Rightarrow>
                   (case xhSecureKey rt key of
                      None \<Rightarrow> Inl (MeMissingSecret key)
                    | Some v \<Rightarrow> Inr \<lparr>mcValue = v, mcHandleType = LocalStatic,
                                     mcInjectionTemplates = scInjectionTemplates metadata\<rparr>))
          | Inr (OAuthSubject connection) \<Rightarrow>
              (case xhConnectionToken rt connection of
                 Inl e \<Rightarrow> Inl (MeConnection e)
               | Inr v \<Rightarrow> Inr \<lparr>mcValue = v, mcHandleType = LocalOAuth, mcInjectionTemplates = None\<rparr>)))"

section \<open>The request and its redirects\<close>

definition MAX_REDIRECTS :: nat where
  "MAX_REDIRECTS = 5"

definition REDIRECT_STATUSES :: "nat list" where
  "REDIRECT_STATUSES = [301, 302, 303, 307, 308]"

definition sanitiseUrl :: "httpRuntime \<Rightarrow> string \<Rightarrow> string" where
  "sanitiseUrl rt url =
    (case xhParse rt url of
       None \<Rightarrow> ''[invalid-url]''
     | Some u \<Rightarrow> protocol u @ ''//'' @ hostname u @ (if port u = [] then [] else CHR '':'' # port u) @ pathname u)"

definition redirectPolicyRequest :: "httpRuntime \<Rightarrow> string \<Rightarrow> string \<Rightarrow> string \<Rightarrow> string \<Rightarrow> httpPolicyRequest" where
  "redirectPolicyRequest rt handle meth redirectUrl currentUrl =
    \<lparr>rqCredentialHandle = handle, rqMethod = meth, rqUrl = redirectUrl, rqHeaders = None,
     rqPurpose = ''redirect from '' @ sanitiseUrl rt currentUrl, rqGrantId = None, rqConversationId = None\<rparr>"

definition redirectDenied :: "httpRuntime \<Rightarrow> string \<Rightarrow> string \<Rightarrow> string" where
  "redirectDenied rt redirectUrl handle = ''Redirect to '' @ sanitiseUrl rt redirectUrl @
     '' denied: the redirect target does not satisfy the grant policy for credential handle '' @ [CHR 0x22] @ handle @ [CHR 0x22] @ ''.''"

text \<open>
  One turn of the loop with \<open>left\<close> redirects left; \<open>k\<close> counts the requests. \<open>Inl\<close> is the message of the exception.
\<close>

fun performHttpRequest ::
  "nat \<Rightarrow> httpRuntime \<Rightarrow> nat \<Rightarrow> string \<Rightarrow> materialisedCredential \<Rightarrow> (string, string) jsMap \<Rightarrow> outboundRequest \<Rightarrow>
    httpState \<Rightarrow> (string + rawHttpResponse) \<times> httpState" where
  "performHttpRequest left rt k handle credential callerHeaders out st =
    (let st1 = st\<lparr>hsSent := hsSent st @ [out]\<rparr>;
         st2 = st1\<lparr>hsStores := xhMeanwhile rt (Suc k) (hsStores st1)\<rparr> in
     case xhFetch rt k out of
       FetchThrows m \<Rightarrow> (Inl m, st2)
     | Responds r \<Rightarrow>
         if hrStatusCode r \<notin> set REDIRECT_STATUSES then (Inr r, st2)
         else (case left of
             0 \<Rightarrow> (Inl (''Too many redirects (exceeded '' @ showNat MAX_REDIRECTS @ ''). Aborting.''), st2)
           | Suc left' \<Rightarrow>
               if \<not> truthy (mapGet (hrHeaders r) ''location'')
               then (Inl (''Redirect response ('' @ showNat (hrStatusCode r) @ '') missing Location header.''), st2)
               else (case xhResolve rt (the (mapGet (hrHeaders r) ''location'')) (obUrl out) of
                   Inl m \<Rightarrow> (Inl m, st2)
                 | Inr redirectUrl \<Rightarrow>
                     (let nextMethod = (if hrStatusCode r = 303 then ''GET'' else obMethod out) in
                      case evaluateHttpPolicy (xhParse rt) (xhSha256 rt)
                             (redirectPolicyRequest rt handle nextMethod redirectUrl (obUrl out)) (xhNow rt (Suc k)) (hsStores st2) of
                        (Inl e, stores) \<Rightarrow> (Inl (xhPolicyMessage rt e), st2\<lparr>hsStores := stores\<rparr>)
                      | (Inr (Allowed i src), stores) \<Rightarrow>
                          (case buildAuthenticatedRequest rt redirectUrl callerHeaders credential of
                             (headers, url) \<Rightarrow>
                               performHttpRequest left' rt (Suc k) handle credential callerHeaders
                                 \<lparr>obMethod = nextMethod, obUrl = url, obHeaders = headers,
                                  obBody = if hrStatusCode r = 303 then None else obBody out\<rparr>
                                 (st2\<lparr>hsStores := stores\<rparr>))
                      | (Inr other, stores) \<Rightarrow> (Inl (redirectDenied rt redirectUrl handle), st2\<lparr>hsStores := stores\<rparr>)))))"

section \<open>The pipeline\<close>

definition sanitiseErrorMessage :: "string \<Rightarrow> string list \<Rightarrow> string" where
  "sanitiseErrorMessage message secrets =
    fold (\<lambda>secret result. if length secret < 8 then result else replaceAll result secret REDACTED) secrets message"

definition generateHttpAuditSummary ::
  "httpRuntime \<Rightarrow> makeAuthenticatedRequest \<Rightarrow> string \<Rightarrow> bool \<Rightarrow> nat option \<Rightarrow> auditMessage option \<Rightarrow> httpAudit" where
  "generateHttpAuditSummary rt q grantId success status message =
    \<lparr>haAuditId = xhAuditId rt, haGrantId = grantId, haCredentialHandle = maCredentialHandle q,
     haTarget = toUpperCase (maMethod q) @ '' '' @
       (case derivePathTemplate (xhParse rt) (maUrl q) of Inl e \<Rightarrow> ''[invalid-url]'' | Inr template \<Rightarrow> template) @
       (case status of None \<Rightarrow> [] | Some s \<Rightarrow> '' -> '' @ showNat s),
     haSessionId = xhSessionId rt, haSuccess = success,
     haErrorMessage = (if message = Some (AmText []) then None else message), haTimestamp = xhAuditNow rt\<rparr>"

definition appendAudit :: "httpRuntime \<Rightarrow> httpAudit \<Rightarrow> httpState \<Rightarrow> httpState" where
  "appendAudit rt a st = (if xhAuditFails rt then st else st\<lparr>hsAudit := hsAudit st @ [a]\<rparr>)"

definition policyRequestOf :: "makeAuthenticatedRequest \<Rightarrow> httpPolicyRequest" where
  "policyRequestOf q =
    \<lparr>rqCredentialHandle = maCredentialHandle q, rqMethod = maMethod q, rqUrl = maUrl q, rqHeaders = maHeaders q,
     rqPurpose = maPurpose q, rqGrantId = maGrantId q, rqConversationId = maConversationId q\<rparr>"

text \<open>Steps 4 to 7, with the credential.\<close>

definition sendRequest ::
  "httpRuntime \<Rightarrow> makeAuthenticatedRequest \<Rightarrow> string \<Rightarrow> materialisedCredential \<Rightarrow> httpState \<Rightarrow> httpExecResult \<times> httpState" where
  "sendRequest rt q grantId credential st =
    (let callerHeaders = orDefault (maHeaders q) [] in
     case buildAuthenticatedRequest rt (maUrl q) callerHeaders credential of
       (headers, url) \<Rightarrow>
         (case performHttpRequest MAX_REDIRECTS rt 0 (maCredentialHandle q) credential callerHeaders
                 \<lparr>obMethod = maMethod q, obUrl = url, obHeaders = headers, obBody = maBody q\<rparr> st of
            (Inl m, st1) \<Rightarrow>
              (let safe = sanitiseErrorMessage m [mcValue credential] in
               (HxRequestFailed safe (xhAuditId rt),
                appendAudit rt (generateHttpAuditSummary rt q grantId False None (Some (AmText safe))) st1))
          | (Inr r, st1) \<Rightarrow>
              (let f = filterHttpResponse r [mcValue credential] in
               (HxSuccess (shStatusCode f) (shHeaders f) (shBody f) (xhAuditId rt),
                appendAudit rt (generateHttpAuditSummary rt q grantId True (Some (hrStatusCode r)) None) st1))))"

definition executeAuthenticatedHttpRequest ::
  "httpRuntime \<Rightarrow> makeAuthenticatedRequest \<Rightarrow> httpState \<Rightarrow> (policyError + httpExecResult) \<times> httpState" where
  "executeAuthenticatedHttpRequest rt q st =
    (case parseHandle (maCredentialHandle q) of
       Inl e \<Rightarrow> (Inr (HxInvalidHandle e), st)
     | Inr handle \<Rightarrow>
         (case evaluateHttpPolicy (xhParse rt) (xhSha256 rt) (policyRequestOf q) (xhNow rt 0) (hsStores st) of
            (Inl e, stores) \<Rightarrow> (Inl e, st\<lparr>hsStores := stores\<rparr>)
          | (Inr (ForbiddenHeaders hs), stores) \<Rightarrow> (Inr (HxForbiddenHeaders hs), st\<lparr>hsStores := stores\<rparr>)
          | (Inr (ApprovalRequired p), stores) \<Rightarrow>
              (Inr (HxApprovalRequired p (hashProposal (xhSha256 rt) (HttpProposal p))), st\<lparr>hsStores := stores\<rparr>)
          | (Inr (Allowed grantId src), stores) \<Rightarrow>
              (let st1 = st\<lparr>hsStores := xhMeanwhile rt 0 stores\<rparr> in
               case materialiseCredential rt handle (maCredentialHandle q) of
                 Inl e \<Rightarrow>
                   (Inr (HxMaterialisationFailed e (xhAuditId rt)),
                    appendAudit rt (generateHttpAuditSummary rt q grantId False None (Some (AmMaterialise e))) st1)
               | Inr credential \<Rightarrow>
                   (case sendRequest rt q grantId credential st1 of (r, st2) \<Rightarrow> (Inr r, st2)))))"

section \<open>What is sent\<close>

text \<open>The request for a method, a target and a body, with the headers of the caller and the credential.\<close>

definition builtFor ::
  "httpRuntime \<Rightarrow> materialisedCredential \<Rightarrow> (string, string) jsMap \<Rightarrow> string \<Rightarrow> string \<Rightarrow> string option \<Rightarrow> outboundRequest \<Rightarrow> bool" where
  "builtFor rt credential callerHeaders meth target body out \<longleftrightarrow>
    obMethod out = meth \<and> obBody out = body \<and>
    (obHeaders out, obUrl out) = buildAuthenticatedRequest rt target callerHeaders credential"

text \<open>
  The requests \<open>outs\<close> that follow the request \<open>out\<close>, the one with number \<open>k\<close>, when the grant stores are \<open>stores\<close> as
  it leaves. Each answers a redirect, and the policy has allowed its handle, method and target at the time the
  answer came, in the grant stores that the other calls have left by then.
\<close>

fun grantedRedirects ::
  "httpRuntime \<Rightarrow> string \<Rightarrow> materialisedCredential \<Rightarrow> (string, string) jsMap \<Rightarrow> nat \<Rightarrow> cesState \<Rightarrow> outboundRequest \<Rightarrow>
    outboundRequest list \<Rightarrow> bool" where
  "grantedRedirects rt handle credential callerHeaders k stores out [] \<longleftrightarrow> True"
| "grantedRedirects rt handle credential callerHeaders k stores out (follow # outs) \<longleftrightarrow>
    (\<exists>answer location target rq i src stores'. xhFetch rt k out = Responds answer \<and> hrStatusCode answer \<in> {301, 302, 303, 307, 308} \<and>
       mapGet (hrHeaders answer) ''location'' = Some location \<and> xhResolve rt location (obUrl out) = Inr target \<and>
       rqCredentialHandle rq = handle \<and> rqUrl rq = target \<and>
       rqMethod rq = (if hrStatusCode answer = 303 then ''GET'' else obMethod out) \<and>
       evaluateHttpPolicy (xhParse rt) (xhSha256 rt) rq (xhNow rt (Suc k)) (xhMeanwhile rt (Suc k) stores) = (Inr (Allowed i src), stores') \<and>
       builtFor rt credential callerHeaders (rqMethod rq) target (if hrStatusCode answer = 303 then None else obBody out) follow \<and>
       grantedRedirects rt handle credential callerHeaders (Suc k) stores' follow outs)"

declare performHttpRequest.simps [simp del]

text \<open>One turn of the loop: it ends with this request, or it goes on with a request that the policy has allowed.\<close>

lemma perform_turn:
  assumes "performHttpRequest (Suc left) rt k handle credential callerHeaders out st = (r, st')"
  obtains (ends) "hsSent st' = hsSent st @ [out]" "hsAudit st' = hsAudit st"
  | (redirect) answer location target i src stores' follow where "xhFetch rt k out = Responds answer"
      "hrStatusCode answer \<in> set REDIRECT_STATUSES" "mapGet (hrHeaders answer) ''location'' = Some location"
      "xhResolve rt location (obUrl out) = Inr target"
      "evaluateHttpPolicy (xhParse rt) (xhSha256 rt) (redirectPolicyRequest rt handle
        (if hrStatusCode answer = 303 then ''GET'' else obMethod out) target (obUrl out)) (xhNow rt (Suc k))
        (xhMeanwhile rt (Suc k) (hsStores st)) = (Inr (Allowed i src), stores')"
      "builtFor rt credential callerHeaders (if hrStatusCode answer = 303 then ''GET'' else obMethod out) target
        (if hrStatusCode answer = 303 then None else obBody out) follow"
      "performHttpRequest left rt (Suc k) handle credential callerHeaders follow
        (st\<lparr>hsSent := hsSent st @ [out], hsStores := stores'\<rparr>) = (r, st')"
proof (cases "\<exists>answer target i src stores'. xhFetch rt k out = Responds answer \<and> hrStatusCode answer \<in> set REDIRECT_STATUSES \<and>
      truthy (mapGet (hrHeaders answer) ''location'') \<and> xhResolve rt (the (mapGet (hrHeaders answer) ''location'')) (obUrl out) = Inr target \<and>
      evaluateHttpPolicy (xhParse rt) (xhSha256 rt) (redirectPolicyRequest rt handle
        (if hrStatusCode answer = 303 then ''GET'' else obMethod out) target (obUrl out)) (xhNow rt (Suc k))
        (xhMeanwhile rt (Suc k) (hsStores st)) = (Inr (Allowed i src), stores')")
  case True
  then obtain answer target i src stores' where h: "xhFetch rt k out = Responds answer"
    "hrStatusCode answer \<in> set REDIRECT_STATUSES" "truthy (mapGet (hrHeaders answer) ''location'')"
    "xhResolve rt (the (mapGet (hrHeaders answer) ''location'')) (obUrl out) = Inr target"
    "evaluateHttpPolicy (xhParse rt) (xhSha256 rt) (redirectPolicyRequest rt handle
        (if hrStatusCode answer = 303 then ''GET'' else obMethod out) target (obUrl out)) (xhNow rt (Suc k))
        (xhMeanwhile rt (Suc k) (hsStores st)) = (Inr (Allowed i src), stores')"
    by blast
  obtain headers url where b: "buildAuthenticatedRequest rt target callerHeaders credential = (headers, url)" by fastforce
  obtain location where l: "mapGet (hrHeaders answer) ''location'' = Some location" using h(3) by (cases "mapGet (hrHeaders answer) ''location''") (auto simp: truthy_def)
  let ?follow = "\<lparr>obMethod = if hrStatusCode answer = 303 then ''GET'' else obMethod out, obUrl = url, obHeaders = headers,
      obBody = if hrStatusCode answer = 303 then None else obBody out\<rparr>"
  have built: "builtFor rt credential callerHeaders (if hrStatusCode answer = 303 then ''GET'' else obMethod out) target
      (if hrStatusCode answer = 303 then None else obBody out) ?follow"
    unfolding builtFor_def b by (simp only: outboundRequest.select_convs simp_thms)
  have "performHttpRequest left rt (Suc k) handle credential callerHeaders ?follow (st\<lparr>hsSent := hsSent st @ [out], hsStores := stores'\<rparr>) = (r, st')"
    using assms h b by (simp add: performHttpRequest.simps [of "Suc left"] Let_def)
  then show thesis by (rule redirect [OF h(1,2) l h(4) [unfolded l option.sel] h(5) built])
next
  case False
  then have "hsSent st' = hsSent st @ [out] \<and> hsAudit st' = hsAudit st"
    using assms by (auto simp: performHttpRequest.simps [of "Suc left"] Let_def split: fetchAnswer.splits if_splits sum.splits prod.splits policyResult.splits)
  then show thesis using ends by blast
qed

lemma perform_sends:
  "performHttpRequest left rt k handle credential callerHeaders out st = (r, st') \<Longrightarrow>
    \<exists>outs. hsSent st' = hsSent st @ out # outs \<and> length outs \<le> left \<and> hsAudit st' = hsAudit st \<and>
      grantedRedirects rt handle credential callerHeaders k (hsStores st) out outs"
proof (induction left arbitrary: k out st)
  case 0
  then have "hsSent st' = hsSent st @ [out] \<and> hsAudit st' = hsAudit st"
    by (auto simp: performHttpRequest.simps [of 0] Let_def split: fetchAnswer.splits if_splits)
  then show ?case by auto
next
  case (Suc left)
  from Suc.prems show ?case
  proof (cases rule: perform_turn)
    case ends
    then show ?thesis by (auto intro!: exI [of _ "[]"])
  next
    case (redirect answer location target i src stores' follow)
    let ?rq = "redirectPolicyRequest rt handle (if hrStatusCode answer = 303 then ''GET'' else obMethod out) target (obUrl out)"
    obtain outs where outs: "hsSent st' = hsSent st @ out # follow # outs" "length outs \<le> left" "hsAudit st' = hsAudit st"
      "grantedRedirects rt handle credential callerHeaders (Suc k) stores' follow outs"
      using Suc.IH [OF redirect(7)] by auto
    have "grantedRedirects rt handle credential callerHeaders k (hsStores st) out (follow # outs)"
      unfolding grantedRedirects.simps using redirect outs(4)
      by (intro exI [of _ answer] exI [of _ location] exI [of _ target] exI [of _ ?rq] exI [of _ i] exI [of _ src] exI [of _ stores'])
         (simp add: redirectPolicyRequest_def REDIRECT_STATUSES_def)
    then show ?thesis using outs by (intro exI [of _ "follow # outs"]) simp
  qed
qed

lemma sendRequest_sends:
  assumes "sendRequest rt q grantId credential st = (r, st')"
  shows "\<exists>out outs. hsSent st' = hsSent st @ out # outs \<and> length outs \<le> MAX_REDIRECTS \<and>
    builtFor rt credential (orDefault (maHeaders q) []) (maMethod q) (maUrl q) (maBody q) out \<and>
    grantedRedirects rt (maCredentialHandle q) credential (orDefault (maHeaders q) []) 0 (hsStores st) out outs"
proof -
  obtain headers url where b: "buildAuthenticatedRequest rt (maUrl q) (orDefault (maHeaders q) []) credential = (headers, url)"
    by fastforce
  let ?out = "\<lparr>obMethod = maMethod q, obUrl = url, obHeaders = headers, obBody = maBody q\<rparr>"
  obtain x st1 where run: "performHttpRequest MAX_REDIRECTS rt 0 (maCredentialHandle q) credential (orDefault (maHeaders q) []) ?out st = (x, st1)"
    by fastforce
  have "hsSent st' = hsSent st1"
    using assms b run by (cases x) (auto simp: sendRequest_def Let_def appendAudit_def)
  moreover have "builtFor rt credential (orDefault (maHeaders q) []) (maMethod q) (maUrl q) (maBody q) ?out" using b by (simp add: builtFor_def)
  ultimately show ?thesis using perform_sends [OF run] by metis
qed

section \<open>What is shown\<close>

text \<open>The text of the result that comes from the network.\<close>

fun shownText :: "httpExecResult \<Rightarrow> string" where
  "shownText (HxRequestFailed message auditId) = message"
| "shownText (HxSuccess status headers body auditId) = body"
| "shownText _ = []"

text \<open>The message of an audit record; the rest of the record is determined by the request, the grant and the status.\<close>

fun auditText :: "httpAudit \<Rightarrow> string" where
  "auditText a = (case haErrorMessage a of Some (AmText m) \<Rightarrow> m | _ \<Rightarrow> [])"

definition auditOfRequest :: "httpRuntime \<Rightarrow> makeAuthenticatedRequest \<Rightarrow> string \<Rightarrow> httpAudit \<Rightarrow> bool" where
  "auditOfRequest rt q grantId a \<longleftrightarrow>
    haAuditId a = xhAuditId rt \<and> haGrantId a = grantId \<and> haCredentialHandle a = maCredentialHandle q \<and>
    haSessionId a = xhSessionId rt \<and>
    (\<exists>template status. haTarget a = toUpperCase (maMethod q) @ '' '' @ template @ status \<and>
       template = (case derivePathTemplate (xhParse rt) (maUrl q) of Inl e \<Rightarrow> ''[invalid-url]'' | Inr t \<Rightarrow> t) \<and>
       (status = [] \<or> (\<exists>n. status = '' -> '' @ showNat n)))"

lemma summary_ofRequest: "auditOfRequest rt q grantId (generateHttpAuditSummary rt q grantId success status message)"
proof -
  define template where "template = (case derivePathTemplate (xhParse rt) (maUrl q) of Inl e \<Rightarrow> ''[invalid-url]'' | Inr t \<Rightarrow> t)"
  define s where "s = (case status of None \<Rightarrow> [] | Some s \<Rightarrow> '' -> '' @ showNat s)"
  have "s = [] \<or> (\<exists>n. s = '' -> '' @ showNat n)" by (auto simp: s_def split: option.split)
  moreover have "haTarget (generateHttpAuditSummary rt q grantId success status message) = toUpperCase (maMethod q) @ '' '' @ template @ s"
    by (simp add: generateHttpAuditSummary_def template_def s_def)
  ultimately show ?thesis 
    unfolding auditOfRequest_def template_def by (auto simp: generateHttpAuditSummary_def)
qed

lemma scrubbed_absent: "scrubbable w \<Longrightarrow> \<not> includesStr (scrubSecrets s [w]) w"
  using scrub_keeps[of w s "[w]"] by (auto simp: includes_sublist)

lemma scrubbable_Nil: "scrubbable w \<Longrightarrow> \<not> includesStr [] w"
  by (auto simp: includes_sublist scrubbable_def)

lemma perform_log: "hsAudit (snd (performHttpRequest left rt k handle credential callerHeaders out st)) = hsAudit st"
proof (induction left arbitrary: k out st)
  case 0
  then show ?case by (auto simp: performHttpRequest.simps[of 0] Let_def split: fetchAnswer.splits)
next
  case (Suc left)
  then show ?case
    by (auto simp: performHttpRequest.simps[of "Suc left"] Let_def
        split: fetchAnswer.splits sum.splits prod.splits policyResult.splits)
qed

lemma summary_message:
  "haErrorMessage (generateHttpAuditSummary rt q grantId success status message) = (if message = Some (AmText []) then None else message)"
  by (simp add: generateHttpAuditSummary_def)

lemma sendRequest_hides:
  assumes "sendRequest rt q grantId credential st = (r, st')" "scrubbable (mcValue credential)"
  shows "\<not> includesStr (shownText r) (mcValue credential) \<and>
    (\<exists>audits. hsAudit st' = hsAudit st @ audits \<and> length audits \<le> 1 \<and>
       list_all (\<lambda>a. \<not> includesStr (auditText a) (mcValue credential) \<and> auditOfRequest rt q grantId a) audits)"
proof -
  let ?v = "mcValue credential"
  obtain headers url where b: "buildAuthenticatedRequest rt (maUrl q) (orDefault (maHeaders q) []) credential = (headers, url)"
    by fastforce
  obtain x st1 where run: "performHttpRequest MAX_REDIRECTS rt 0 (maCredentialHandle q) credential (orDefault (maHeaders q) [])
      \<lparr>obMethod = maMethod q, obUrl = url, obHeaders = headers, obBody = maBody q\<rparr> st = (x, st1)"
    by fastforce
  have log: "hsAudit st1 = hsAudit st"
    using perform_log[of MAX_REDIRECTS rt 0 "maCredentialHandle q" credential "orDefault (maHeaders q) []"
        "\<lparr>obMethod = maMethod q, obUrl = url, obHeaders = headers, obBody = maBody q\<rparr>" st] run by simp
  show ?thesis
  proof (cases x)
    case (Inl m)
    let ?safe = "sanitiseErrorMessage m [?v]"
    have "?safe = scrubSecrets m [?v]" by (simp add: sanitiseErrorMessage_def scrubSecrets_def)
    then have "\<not> includesStr ?safe ?v" using scrubbed_absent[OF assms(2)] by simp
    then show ?thesis
      using assms(1) b run log Inl scrubbable_Nil[OF assms(2)]
      by (auto simp: sendRequest_def Let_def appendAudit_def summary_ofRequest summary_message)
  next
    case (Inr resp)
    obtain body t n where "clampBody (hrBody resp) = (body, t, n)" by (metis prod_cases3)
    then have "shBody (filterHttpResponse resp [?v]) = scrubSecrets body [?v]" by (simp add: filterHttpResponse_def)
    then have "\<not> includesStr (shBody (filterHttpResponse resp [?v])) ?v" using scrubbed_absent[OF assms(2)] by simp
    then show ?thesis
      using assms(1) b run log Inr scrubbable_Nil[OF assms(2)]
      by (auto simp: sendRequest_def Let_def appendAudit_def summary_ofRequest summary_message)
  qed
qed

text \<open>The pipeline sends only with a credential, after the policy has allowed the request itself.\<close>

lemma http_execute_cases:
  assumes "executeAuthenticatedHttpRequest rt q st = (r, st')"
  shows "hsSent st' = hsSent st \<and> (\<exists>audits. hsAudit st' = hsAudit st @ audits \<and> length audits \<le> 1 \<and>
      list_all (\<lambda>a. auditText a = []) audits) \<and> (\<forall>x. r = Inr x \<longrightarrow> shownText x = []) \<or>
    (\<exists>h grantId src stores credential x. parseHandle (maCredentialHandle q) = Inr h \<and>
      evaluateHttpPolicy (xhParse rt) (xhSha256 rt) (policyRequestOf q) (xhNow rt 0) (hsStores st) = (Inr (Allowed grantId src), stores) \<and>
      materialiseCredential rt h (maCredentialHandle q) = Inr credential \<and> r = Inr x \<and>
      sendRequest rt q grantId credential (st\<lparr>hsStores := xhMeanwhile rt 0 stores\<rparr>) = (x, st'))"
proof (cases "\<exists>h grantId src stores credential. parseHandle (maCredentialHandle q) = Inr h \<and>
      evaluateHttpPolicy (xhParse rt) (xhSha256 rt) (policyRequestOf q) (xhNow rt 0) (hsStores st) = (Inr (Allowed grantId src), stores) \<and>
      materialiseCredential rt h (maCredentialHandle q) = Inr credential")
  case True
  then show ?thesis using assms
    by (auto simp: executeAuthenticatedHttpRequest_def Let_def split: prod.splits)
next
  case False
  then show ?thesis using assms
    by (auto simp: executeAuthenticatedHttpRequest_def Let_def appendAudit_def generateHttpAuditSummary_def
        split: sum.splits prod.splits policyResult.splits)
qed

section \<open>Properties\<close>

text \<open>C10: Nothing is sent, or the requests that leave the pipeline are exactly these: the one of the caller, when the
  policy has allowed it in the grant stores as they were at the start of the call, and at most five redirects, each
  for the method and the target that the answer before it demands, and each allowed by the policy for the same handle
  when that answer came, in the grant stores that the decisions of this call and the other calls have left by then. So
  a grant that is revoked or has run out in the meantime lets no redirect through. Each request has the headers of the
  caller and the credential injected for its own target.\<close>

theorem request_sent_only_if_granted:
  assumes "executeAuthenticatedHttpRequest rt q st = (r, st')"
  shows "hsSent st' = hsSent st \<or>
    (\<exists>h credential i src stores out outs. parseHandle (maCredentialHandle q) = Inr h \<and>
      materialiseCredential rt h (maCredentialHandle q) = Inr credential \<and>
      evaluateHttpPolicy (xhParse rt) (xhSha256 rt) (policyRequestOf q) (xhNow rt 0) (hsStores st) = (Inr (Allowed i src), stores) \<and>
      hsSent st' = hsSent st @ out # outs \<and> length outs \<le> 5 \<and>
      builtFor rt credential (orDefault (maHeaders q) []) (maMethod q) (maUrl q) (maBody q) out \<and>
      grantedRedirects rt (maCredentialHandle q) credential (orDefault (maHeaders q) []) 0 (xhMeanwhile rt 0 stores) out outs)"
  using http_execute_cases[OF assms]
proof
  assume "\<exists>h grantId src stores credential x. parseHandle (maCredentialHandle q) = Inr h \<and>
      evaluateHttpPolicy (xhParse rt) (xhSha256 rt) (policyRequestOf q) (xhNow rt 0) (hsStores st) = (Inr (Allowed grantId src), stores) \<and>
      materialiseCredential rt h (maCredentialHandle q) = Inr credential \<and> r = Inr x \<and>
      sendRequest rt q grantId credential (st\<lparr>hsStores := xhMeanwhile rt 0 stores\<rparr>) = (x, st')"
  then obtain h grantId src stores credential x where
    m: "parseHandle (maCredentialHandle q) = Inr h" "materialiseCredential rt h (maCredentialHandle q) = Inr credential"
      "evaluateHttpPolicy (xhParse rt) (xhSha256 rt) (policyRequestOf q) (xhNow rt 0) (hsStores st) = (Inr (Allowed grantId src), stores)"
    and s: "sendRequest rt q grantId credential (st\<lparr>hsStores := xhMeanwhile rt 0 stores\<rparr>) = (x, st')"
    by blast
  then show ?thesis using sendRequest_sends[OF s] by (simp add: MAX_REDIRECTS_def)
qed auto

text \<open>C11: The credential is not shown: if its value is one that can be scrubbed, neither the body of the response nor
  the message of a failure nor the message in the audit record contains it. At most one record is written, and the rest of
  it comes from the request, the grant and the status: its target is the method, the path template of the address that
  the caller gave, before the injection, and the status.\<close>

theorem credential_not_shown:
  assumes "executeAuthenticatedHttpRequest rt q st = (Inr r, st')"
    and "parseHandle (maCredentialHandle q) = Inr h" "materialiseCredential rt h (maCredentialHandle q) = Inr credential"
    and "evaluateHttpPolicy (xhParse rt) (xhSha256 rt) (policyRequestOf q) (xhNow rt 0) (hsStores st) = (Inr (Allowed grantId src), stores)"
    and "scrubbable (mcValue credential)"
  shows "\<not> includesStr (shownText r) (mcValue credential) \<and>
    (\<exists>audits. hsAudit st' = hsAudit st @ audits \<and> length audits \<le> 1 \<and>
       list_all (\<lambda>a. \<not> includesStr (auditText a) (mcValue credential) \<and> auditOfRequest rt q grantId a) audits)"
proof -
  have "sendRequest rt q grantId credential (st\<lparr>hsStores := xhMeanwhile rt 0 stores\<rparr>) = (r, st')"
    using assms(1-4) by (auto simp: executeAuthenticatedHttpRequest_def Let_def split: prod.splits)
  from sendRequest_hides[OF this assms(5)] show ?thesis by simp
qed

text \<open>A run with one redirect: a static credential, a persistent grant, and a server that answers the second request.\<close>

definition ex_grant :: persistentGrant where
  "ex_grant = \<lparr>gId = ''g'', gTool = ''http'', gPattern = ''GET https://api.a.com/users/{:num}'', gScope = ''local_static:s/f'',
     gCreatedAt = 1, gSessionId = None, gRevokedAt = None, gRevokedReason = None\<rparr>"

definition ex_key :: string where
  "ex_key = ''key-12345678''"

definition ex_http_runtime :: httpRuntime where
  "ex_http_runtime = \<lparr>xhParse = httpParse, xhResolve = (\<lambda>location base. Inr location), xhSetQuery = (\<lambda>u n v. None),
     xhEncode = (\<lambda>s. s), xhSha256 = rev, xhPolicyMessage = (\<lambda>e. []),
     xhCredentials = [\<lparr>scCredentialId = ''c'', scService = ''s'', scField = ''f'', scAllowedTools = None, scAllowedDomains = None,
       scUsageDescription = None, scAlias = None, scInjectionTemplates = None, scCreatedAt = 1, scUpdatedAt = 1\<rparr>],
     xhConnections = [], xhSecureKey = (\<lambda>k. Some ex_key), xhConnectionToken = (\<lambda>c. Inl []), xhManagedToken = None,
     xhFetch = (\<lambda>k out. Responds (if k = 0
       then \<lparr>hrStatusCode = 302, hrHeaders = [(''location'', ''https://api.a.com/users/7'')], hrBody = []\<rparr>
       else \<lparr>hrStatusCode = 200, hrHeaders = [], hrBody = ''hello key-12345678''\<rparr>)),
     xhMeanwhile = (\<lambda>k s. s), xhNow = (\<lambda>k. 5), xhAuditNow = 6, xhSessionId = ''x'', xhAuditId = ''a'', xhAuditFails = False\<rparr>"

definition ex_call :: makeAuthenticatedRequest where
  "ex_call = \<lparr>maCredentialHandle = ''local_static:s/f'', maMethod = ''GET'', maUrl = ''https://api.a.com/users/42'',
     maHeaders = None, maBody = None, maPurpose = ''read'', maGrantId = None, maConversationId = None\<rparr>"

definition ex_stores :: cesState where
  "ex_stores = \<lparr>persistent = writeToDisk [ex_grant] empty_store, temporary = []\<rparr>"

definition ex_http_state :: httpState where
  "ex_http_state = \<lparr>hsStores = ex_stores, hsSent = [], hsAudit = []\<rparr>"

lemma ex_policy:
  "evaluateHttpPolicy httpParse rev (policyRequestOf ex_call) 5 ex_stores = (Inr (Allowed ''g'' SourcePersistent), ex_stores)"
  by code_simp

lemma ex_policy2:
  "evaluateHttpPolicy httpParse rev (redirectPolicyRequest ex_http_runtime ''local_static:s/f'' ''GET'' ''https://api.a.com/users/7''
     ''https://api.a.com/users/42'') 5 ex_stores = (Inr (Allowed ''g'' SourcePersistent), ex_stores)"
  by code_simp

lemma ex_cred:
  "parseHandle ''local_static:s/f'' = Inr (LocalStaticHandle ''s'' ''f'')"
  "materialiseCredential ex_http_runtime (LocalStaticHandle ''s'' ''f'') ''local_static:s/f'' =
     Inr \<lparr>mcValue = ex_key, mcHandleType = LocalStatic, mcInjectionTemplates = None\<rparr>"
  by code_simp+

definition ex_credential :: materialisedCredential where
  "ex_credential = \<lparr>mcValue = ex_key, mcHandleType = LocalStatic, mcInjectionTemplates = None\<rparr>"

definition ex_out :: "string \<Rightarrow> outboundRequest" where
  "ex_out path = \<lparr>obMethod = ''GET'', obUrl = ''https://api.a.com/users/'' @ path,
     obHeaders = [(''Authorization'', ''Bearer key-12345678'')], obBody = None\<rparr>"

lemma ex_http_runtime_sel:
  "xhParse ex_http_runtime = httpParse" "xhSha256 ex_http_runtime = rev" "xhMeanwhile ex_http_runtime k s = s" "xhNow ex_http_runtime k = 5"
  "xhResolve ex_http_runtime l u = Inr l" "xhFetch ex_http_runtime 0 out = Responds \<lparr>hrStatusCode = 302,
     hrHeaders = [(''location'', ''https://api.a.com/users/7'')], hrBody = []\<rparr>"
  "xhFetch ex_http_runtime (Suc 0) out = Responds \<lparr>hrStatusCode = 200, hrHeaders = [], hrBody = ''hello key-12345678''\<rparr>"
  by (simp_all add: ex_http_runtime_def)

lemma ex_build: "buildAuthenticatedRequest ex_http_runtime u [] ex_credential = ([(''Authorization'', ''Bearer key-12345678'')], u)"
  by (simp add: buildAuthenticatedRequest_def ex_credential_def findMatchingTemplate_def copiedHeaders_def bearer_def ex_key_def)

lemma ex_second:
  "performHttpRequest left ex_http_runtime (Suc 0) ''local_static:s/f'' ex_credential [] (ex_out ''7'') st =
    (Inr \<lparr>hrStatusCode = 200, hrHeaders = [], hrBody = ''hello key-12345678''\<rparr>, st\<lparr>hsSent := hsSent st @ [ex_out ''7'']\<rparr>)"
  by (cases left) (simp_all add: performHttpRequest.simps ex_http_runtime_sel REDIRECT_STATUSES_def)

lemma ex_first:
  "performHttpRequest (Suc left) ex_http_runtime 0 ''local_static:s/f'' ex_credential [] (ex_out ''42'') ex_http_state =
    (Inr \<lparr>hrStatusCode = 200, hrHeaders = [], hrBody = ''hello key-12345678''\<rparr>,
     ex_http_state\<lparr>hsSent := [ex_out ''42'', ex_out ''7'']\<rparr>)"
proof -
  have o: "\<lparr>obMethod = ''GET'', obUrl = ''https://api.a.com/users/7'', obHeaders = [(''Authorization'', ''Bearer key-12345678'')],
     obBody = None\<rparr> = ex_out ''7''" "obMethod (ex_out p) = ''GET''" "obUrl (ex_out ''42'') = ''https://api.a.com/users/42''"
     "obBody (ex_out p) = None" for p
    by (simp_all add: ex_out_def)
  show ?thesis
    by (simp add: performHttpRequest.simps[of "Suc left"] ex_http_runtime_sel REDIRECT_STATUSES_def truthy_def ex_http_state_def
        ex_policy2 ex_build o ex_second)
qed

lemma ex_sent:
  "sendRequest ex_http_runtime ex_call ''g'' ex_credential ex_http_state = (r, st') \<Longrightarrow> map obUrl (hsSent st') =
     [''https://api.a.com/users/42'', ''https://api.a.com/users/7'']"
proof -
  have c: "maUrl ex_call = ''https://api.a.com/users/42''" "orDefault (maHeaders ex_call) [] = []" "maMethod ex_call = ''GET''"
    "maBody ex_call = None" "maCredentialHandle ex_call = ''local_static:s/f''" "xhAuditFails ex_http_runtime = False"
    by (simp_all add: ex_call_def ex_http_runtime_def)
  have first: "performHttpRequest MAX_REDIRECTS ex_http_runtime 0 ''local_static:s/f'' ex_credential [] (ex_out ''42'') ex_http_state =
    (Inr \<lparr>hrStatusCode = 200, hrHeaders = [], hrBody = ''hello key-12345678''\<rparr>,
     ex_http_state\<lparr>hsSent := [ex_out ''42'', ex_out ''7'']\<rparr>)"
    using ex_first[of 4] by (simp add: MAX_REDIRECTS_def)
  have o: "\<lparr>obMethod = ''GET'', obUrl = ''https://api.a.com/users/42'', obHeaders = [(''Authorization'', ''Bearer key-12345678'')],
     obBody = None\<rparr> = ex_out ''42''" by (simp add: ex_out_def)
  assume "sendRequest ex_http_runtime ex_call ''g'' ex_credential ex_http_state = (r, st')"
  then show ?thesis
    by (auto simp: sendRequest_def c ex_build o first Let_def appendAudit_def) (simp_all add: ex_out_def)
qed

lemma ex_run:
  obtains r st' where "executeAuthenticatedHttpRequest ex_http_runtime ex_call ex_http_state = (Inr r, st')"
    "map obUrl (hsSent st') = [''https://api.a.com/users/42'', ''https://api.a.com/users/7'']"
proof -
  obtain r st' where s: "sendRequest ex_http_runtime ex_call ''g'' ex_credential ex_http_state = (r, st')" by fastforce
  have c: "maCredentialHandle ex_call = ''local_static:s/f''" "hsStores ex_http_state = ex_stores"
    "ex_http_state\<lparr>hsStores := ex_stores\<rparr> = ex_http_state"
    by (simp_all add: ex_call_def ex_http_state_def)
  have "executeAuthenticatedHttpRequest ex_http_runtime ex_call ex_http_state = (Inr r, st')"
    by (simp add: executeAuthenticatedHttpRequest_def c ex_http_runtime_sel ex_policy ex_cred ex_credential_def[symmetric] s)
  then show thesis by (rule that[OF _ ex_sent[OF s]])
qed

theorem request_sent_only_if_granted_witness:
  "\<exists>credential out outs. map obUrl (out # outs) = [''https://api.a.com/users/42'', ''https://api.a.com/users/7''] \<and>
     grantedRedirects ex_http_runtime ''local_static:s/f'' credential [] 0 ex_stores out outs"
proof -
  obtain r st' where run: "executeAuthenticatedHttpRequest ex_http_runtime ex_call ex_http_state = (Inr r, st')"
    "map obUrl (hsSent st') = [''https://api.a.com/users/42'', ''https://api.a.com/users/7'']" by (rule ex_run)
  have none: "hsSent ex_http_state = []" "hsStores ex_http_state = ex_stores" "orDefault (maHeaders ex_call) [] = []"
    "maCredentialHandle ex_call = ''local_static:s/f''" by (simp_all add: ex_http_state_def ex_call_def)
  note pol = ex_policy[folded none(2)]
  have "hsSent st' \<noteq> hsSent ex_http_state" using run(2) none(1) by auto
  then obtain credential i src stores out outs where sent: "hsSent st' = hsSent ex_http_state @ out # outs"
    "evaluateHttpPolicy httpParse rev (policyRequestOf ex_call) 5 ex_stores = (Inr (Allowed i src), stores)"
    "grantedRedirects ex_http_runtime ''local_static:s/f'' credential [] 0 stores out outs"
    using request_sent_only_if_granted[OF run(1), unfolded none(2-4) ex_http_runtime_sel] by blast
  then have "stores = ex_stores" using ex_policy by simp
  then have "map obUrl (out # outs) = [''https://api.a.com/users/42'', ''https://api.a.com/users/7''] \<and>
     grantedRedirects ex_http_runtime ''local_static:s/f'' credential [] 0 ex_stores out outs" using run(2) none(1) sent by simp
  then show ?thesis by (intro exI)
qed

lemma ex_scrubbable: "scrubbable ex_key"
proof -
  have "\<not> includesStr ''CES:REDACTED'' ex_key" by code_simp
  then show ?thesis by (simp add: scrubbable_def includes_sublist ex_key_def)
qed

theorem credential_not_shown_witness:
  "\<exists>r st'. executeAuthenticatedHttpRequest ex_http_runtime ex_call ex_http_state = (Inr r, st') \<and> \<not> includesStr (shownText r) ex_key"
proof -
  obtain r st' where run: "executeAuthenticatedHttpRequest ex_http_runtime ex_call ex_http_state = (Inr r, st')" by (rule ex_run)
  have h: "parseHandle (maCredentialHandle ex_call) = Inr (LocalStaticHandle ''s'' ''f'')"
    "materialiseCredential ex_http_runtime (LocalStaticHandle ''s'' ''f'') (maCredentialHandle ex_call) = Inr ex_credential"
    using ex_cred by (simp_all add: ex_call_def ex_credential_def)
  have "scrubbable (mcValue ex_credential)" using ex_scrubbable by (simp add: ex_credential_def)
  moreover have "evaluateHttpPolicy (xhParse ex_http_runtime) (xhSha256 ex_http_runtime) (policyRequestOf ex_call) (xhNow ex_http_runtime 0)
      (hsStores ex_http_state) = (Inr (Allowed ''g'' SourcePersistent), ex_stores)"
    using ex_policy by (simp add: ex_http_runtime_sel ex_http_state_def)
  ultimately show ?thesis using credential_not_shown[OF run h] run by (auto simp: ex_credential_def)
qed

end
