(* ===== verification/EgressAcquire.thy ===== *)
theory EgressAcquire
  imports EgressSessions
begin

text \<open>
  \<open>getOrStartSession\<close> of \<open>packages/egress-proxy/src/session-core.ts\<close>: concurrent callers that share, replace or
  create the session of a conversation under the lock of the conversation.

  A caller is a small program; \<open>callerState\<close> is the place where it waits, and \<open>acquire_step\<close> runs one
  piece of one caller, or one step of \<open>session_step\<close> by somebody else (the idle timer, another
  stop, a server that closes). \<open>rq\<close> gives the arguments of each call. The promise kept in
  \<open>acquireLocks\<close> is the name of the caller that will resolve it.
\<close>

record acquireRequest =
  aqConversationId :: string
  aqCredentialIds :: "string list"
  aqListenHost :: "string option"
  aqPatch :: configPatch
  aqDataDir :: "string option"
  aqCallback :: bool

datatype callerState =
    NotCalled
  | AwaitLock string
  | WaiterStop string
  | OwnerStop string
  | OwnerStart string
  | OwnerDone proxySession bool
  | OwnerFailed
  | Returned proxySession bool
  | Rejected

record acquireWorld =
  awSessions :: sessionWorld
  awLocks :: "string \<Rightarrow> string option"
  awCallers :: "string \<Rightarrow> callerState"

definition requestedHost :: "acquireRequest \<Rightarrow> string" where
  "requestedHost q = orDefault (aqListenHost q) ''127.0.0.1''"

text \<open>The test of a found session, made in three places of the code.\<close>

definition usable :: "acquireRequest \<Rightarrow> sessionStore \<Rightarrow> proxySession \<Rightarrow> bool" where
  "usable q st s = (credentialIdsMatch (pxCredentialIds s) (aqCredentialIds q) \<and>
     (case getManaged st (pxId s) of None \<Rightarrow> False | Some m \<Rightarrow> msListenHost m = requestedHost q))"

definition fastPath :: "acquireRequest \<Rightarrow> sessionStore \<Rightarrow> proxySession option" where
  "fastPath q st = (case getActiveSession st (aqConversationId q) of
     Some s \<Rightarrow> if usable q st s then Some s else None | None \<Rightarrow> None)"

definition setCaller :: "string \<Rightarrow> callerState \<Rightarrow> acquireWorld \<Rightarrow> acquireWorld" where
  "setCaller c x w = w\<lparr>awCallers := (awCallers w)(c := x)\<rparr>"

abbreviation storeOf :: "acquireWorld \<Rightarrow> sessionStore" where
  "storeOf w \<equiv> wdStore (awSessions w)"

definition setStore :: "sessionStore \<Rightarrow> acquireWorld \<Rightarrow> acquireWorld" where
  "setStore st w = w\<lparr>awSessions := (awSessions w)\<lparr>wdStore := st\<rparr>\<rparr>"

text \<open>The owner creates its session and starts it, up to the first hook.\<close>

definition ownerCreate :: "string \<Rightarrow> acquireRequest \<Rightarrow> string \<Rightarrow> millis \<Rightarrow> acquireWorld \<Rightarrow> acquireWorld" where
  "ownerCreate c q uuid now w =
    (case createSession (aqConversationId q) (aqCredentialIds q) (aqPatch q) (aqDataDir q) (aqCallback q) uuid now (storeOf w) of
       (Inl e, st) \<Rightarrow> setCaller c OwnerFailed (setStore st w)
     | (Inr s, st) \<Rightarrow>
        (case startCheck (pxId s) st of
           Some e \<Rightarrow> setCaller c OwnerFailed (setStore st w)
         | None \<Rightarrow> setCaller c (OwnerStart (pxId s))
             (w\<lparr>awSessions := (awSessions w)\<lparr>wdStore := st, wdStarts := pxId s # wdStarts (awSessions w)\<rparr>\<rparr>)))"

text \<open>The part after the lock has been won: the check again, then a stop or the creation.\<close>

definition ownerBegin :: "string \<Rightarrow> acquireRequest \<Rightarrow> string \<Rightarrow> millis \<Rightarrow> acquireWorld \<Rightarrow> acquireWorld" where
  "ownerBegin c q uuid now w0 =
    (let w = w0\<lparr>awLocks := (awLocks w0)(aqConversationId q \<mapsto> c)\<rparr> in
     case getActiveSession (storeOf w) (aqConversationId q) of
       None \<Rightarrow> ownerCreate c q uuid now w
     | Some s \<Rightarrow>
        if usable q (storeOf w) s then setCaller c (OwnerDone s False) w
        else (case stopBegin (pxId s) (storeOf w) of
            (Inl e, st) \<Rightarrow> setCaller c OwnerFailed (setStore st w)
          | (Inr a, st) \<Rightarrow> setCaller c (OwnerStop (pxId s)) (setStore st w)))"

text \<open>One turn of the loop over the lock.\<close>

definition lockTurn :: "string \<Rightarrow> acquireRequest \<Rightarrow> string \<Rightarrow> millis \<Rightarrow> acquireWorld \<Rightarrow> acquireWorld" where
  "lockTurn c q uuid now w =
    (case awLocks w (aqConversationId q) of
       Some owner \<Rightarrow> setCaller c (AwaitLock owner) w
     | None \<Rightarrow> ownerBegin c q uuid now w)"

definition callBegins :: "string \<Rightarrow> acquireRequest \<Rightarrow> string \<Rightarrow> millis \<Rightarrow> acquireWorld \<Rightarrow> acquireWorld" where
  "callBegins c q uuid now w =
    (case fastPath q (storeOf w) of
       Some s \<Rightarrow> setCaller c (Returned s False) w
     | None \<Rightarrow> lockTurn c q uuid now w)"

text \<open>A waiter sees the result of the owner.\<close>

definition waiterResumes :: "string \<Rightarrow> acquireRequest \<Rightarrow> callerState \<Rightarrow> acquireWorld \<Rightarrow> acquireWorld" where
  "waiterResumes c q result w =
    (case (case result of OwnerDone s b \<Rightarrow> Some s | Returned s b \<Rightarrow> Some s | _ \<Rightarrow> None) of
       None \<Rightarrow> setCaller c Rejected w
     | Some s \<Rightarrow>
        if usable q (storeOf w) s then setCaller c (Returned s False) w
        else (case stopBegin (pxId s) (storeOf w) of
            (Inl e, st) \<Rightarrow> setCaller c Rejected (setStore st w)
          | (Inr a, st) \<Rightarrow> setCaller c (WaiterStop (pxId s)) (setStore st w)))"

text \<open>The \<open>finally\<close> block and the end of the call.\<close>

definition settle :: "string \<Rightarrow> acquireRequest \<Rightarrow> acquireWorld \<Rightarrow> acquireWorld" where
  "settle c q w =
    (setCaller c (case awCallers w c of OwnerDone s b \<Rightarrow> Returned s b | _ \<Rightarrow> Rejected) w)
      \<lparr>awLocks := (awLocks w)(aqConversationId q := None)\<rparr>"

definition settled :: "callerState \<Rightarrow> bool" where
  "settled x = (case x of OwnerDone _ _ \<Rightarrow> True | OwnerFailed \<Rightarrow> True | Returned _ _ \<Rightarrow> True | Rejected \<Rightarrow> True | _ \<Rightarrow> False)"

inductive acquire_step :: "(string \<Rightarrow> acquireRequest) \<Rightarrow> acquireWorld \<Rightarrow> acquireWorld \<Rightarrow> bool" for rq where
  call: "awCallers w c = NotCalled \<Longrightarrow> ssHeap (storeOf w) uuid = None \<Longrightarrow>
    acquire_step rq w (callBegins c (rq c) uuid now w)"
| lock_resolved: "awCallers w c = AwaitLock owner \<Longrightarrow> settled (awCallers w owner) \<Longrightarrow>
    acquire_step rq w (waiterResumes c (rq c) (awCallers w owner) w)"
| waiter_stopped: "awCallers w c = WaiterStop i \<Longrightarrow> ssHeap (storeOf w) i = Some m \<Longrightarrow> statusOf m = Stopped \<Longrightarrow>
    ssHeap (storeOf w) uuid = None \<Longrightarrow> acquire_step rq w (lockTurn c (rq c) uuid now w)"
| waiter_stop_fails: "awCallers w c = WaiterStop i \<Longrightarrow> acquire_step rq w (setCaller c Rejected w)"
| owner_stopped: "awCallers w c = OwnerStop i \<Longrightarrow> ssHeap (storeOf w) i = Some m \<Longrightarrow> statusOf m = Stopped \<Longrightarrow>
    ssHeap (storeOf w) uuid = None \<Longrightarrow> acquire_step rq w (ownerCreate c (rq c) uuid now w)"
| owner_stop_fails: "awCallers w c = OwnerStop i \<Longrightarrow> acquire_step rq w (setCaller c OwnerFailed w)"
| owner_listens: "awCallers w c = OwnerStart i \<Longrightarrow> i \<in> set (wdStarts (awSessions w)) \<Longrightarrow> server \<notin> set (wdServers (awSessions w)) \<Longrightarrow>
    st = onListening i server port (requestedHost (rq c)) now (storeOf w) \<Longrightarrow> ssHeap st i = Some m \<Longrightarrow>
    acquire_step rq w (setCaller c (OwnerDone (msSession m) True)
      (w\<lparr>awSessions := (awSessions w)\<lparr>wdStore := st, wdStarts := removeAll i (wdStarts (awSessions w)),
          wdServers := server # wdServers (awSessions w)\<rparr>\<rparr>))"
| owner_start_fails: "awCallers w c = OwnerStart i \<Longrightarrow> i \<in> set (wdStarts (awSessions w)) \<Longrightarrow>
    st = storeOf w \<or> st = deleteKey i (storeOf w) \<Longrightarrow>
    acquire_step rq w (setCaller c OwnerFailed
      (w\<lparr>awSessions := (awSessions w)\<lparr>wdStore := st, wdStarts := removeAll i (wdStarts (awSessions w))\<rparr>\<rparr>))"
| settles: "awCallers w c = OwnerFailed \<or> awCallers w c = OwnerDone s b \<Longrightarrow> acquire_step rq w (settle c (rq c) w)"
| others: "session_step (awSessions w) v \<Longrightarrow>
    (\<And>c i. awCallers w c = OwnerStart i \<Longrightarrow> i \<in> set (wdStarts (awSessions w)) \<Longrightarrow> i \<in> set (wdStarts v)) \<Longrightarrow>
    acquire_step rq w (w\<lparr>awSessions := v\<rparr>)"

inductive acquire_reaches :: "(string \<Rightarrow> acquireRequest) \<Rightarrow> acquireWorld \<Rightarrow> acquireWorld \<Rightarrow> bool" for rq w where
  acquire_here: "acquire_reaches rq w w"
| acquire_next: "acquire_reaches rq w v \<Longrightarrow> acquire_step rq v u \<Longrightarrow> acquire_reaches rq w u"

definition quietWorld :: "sessionWorld \<Rightarrow> acquireWorld" where
  "quietWorld v = \<lparr>awSessions = v, awLocks = (\<lambda>_. None), awCallers = (\<lambda>_. NotCalled)\<rparr>"

section \<open>What a session is never changes\<close>

definition identAt :: "sessionStore \<Rightarrow> string \<Rightarrow> (string \<times> string \<times> string list) option" where
  "identAt st i = map_option (\<lambda>m. (pxId (msSession m), pxConversationId (msSession m), pxCredentialIds (msSession m))) (ssHeap st i)"

lemma identAt_put: "ssHeap st i = Some m \<Longrightarrow> pxId (msSession m') = pxId (msSession m) \<Longrightarrow>
    pxConversationId (msSession m') = pxConversationId (msSession m) \<Longrightarrow> pxCredentialIds (msSession m') = pxCredentialIds (msSession m) \<Longrightarrow>
    identAt (putManaged i m' st) = identAt st"
  by (rule ext) (simp add: identAt_def)

lemma identAt_keys: "identAt (st\<lparr>ssKeys := ks\<rparr>) = identAt st"
  by (rule ext) (simp add: identAt_def)

lemma identAt_stop: "identAt (snd (stopBegin i st)) = identAt st"
proof (cases rule: stopBegin_cases [of i st])
  case (begun m)
  then show ?thesis using identAt_put [OF getManaged_heap [OF begun(1)], of "beginStop m"]
    by (simp add: beginStop_def stopped_def Let_def)
qed simp

lemma identAt_stopAll: "identAt (stopAllBegin st) = identAt st"
proof -
  have "identAt (fold (\<lambda>i. snd \<circ> stopBegin i) is st) = identAt st" for "is"
    by (induction "is" arbitrary: st) (simp_all add: identAt_stop)
  then show ?thesis by (simp add: stopAllBegin_def)
qed

lemma identAt_listening: "identAt (onListening i server port host now st) = identAt st"
  by (cases "ssHeap st i") (auto simp: onListening_def nowListening_def resetIdleTimer_def intro!: identAt_put)

lemma identAt_create: "ssHeap st uuid = None \<Longrightarrow> identAt st \<subseteq>\<^sub>m identAt (snd (createSession conv creds patch dataDir cb uuid now st))"
  by (auto simp: createSession_def Let_def map_le_def identAt_def)

lemma identAt_delete: "identAt (deleteKey i st) = identAt st"
  by (simp add: deleteKey_def identAt_keys)

lemma session_step_ident: "session_step w w' \<Longrightarrow> identAt (wdStore w) \<subseteq>\<^sub>m identAt (wdStore w')"
proof (induction rule: session_step.induct)
  case (ca_ready i w b)
  then show ?case by (cases "ssHeap (wdStore w) i") (auto simp: caReady_def map_le_def identAt_def)
next
  case (closes w i m server)
  then show ?case by (auto simp: serverClosed_def stopped_def map_le_def identAt_def)
next
  case (env w ca i now)
  then show ?case
    by (auto simp: getSessionEnv_def Let_def resetIdleTimer_def map_le_def identAt_def dest: getManaged_heap split: option.splits)
next
  case (idle w i m due now)
  then show ?case by (simp add: idleFires_def identAt_stop)
qed (simp_all add: identAt_create identAt_delete identAt_listening identAt_stop identAt_stopAll clearStore_def identAt_keys)

section \<open>The lock\<close>

definition ownsLock :: "callerState \<Rightarrow> bool" where
  "ownsLock x = (case x of OwnerStop _ \<Rightarrow> True | OwnerStart _ \<Rightarrow> True | OwnerDone _ _ \<Rightarrow> True | OwnerFailed \<Rightarrow> True | _ \<Rightarrow> False)"

definition fits :: "acquireRequest \<Rightarrow> proxySession \<Rightarrow> bool" where
  "fits q s = (credentialIdsMatch (pxCredentialIds s) (aqCredentialIds q) \<and> pxConversationId s = aqConversationId q)"

definition callerOk :: "(string \<Rightarrow> acquireRequest) \<Rightarrow> sessionStore \<Rightarrow> string \<Rightarrow> callerState \<Rightarrow> bool" where
  "callerOk rq st c x =
    (case x of
       AwaitLock owner \<Rightarrow> aqConversationId (rq owner) = aqConversationId (rq c)
     | OwnerStart i \<Rightarrow> identAt st i = Some (i, aqConversationId (rq c), aqCredentialIds (rq c))
     | OwnerDone s _ \<Rightarrow> fits (rq c) s
     | Returned s _ \<Rightarrow> fits (rq c) s
     | _ \<Rightarrow> True)"

definition locksOk :: "(string \<Rightarrow> acquireRequest) \<Rightarrow> acquireWorld \<Rightarrow> bool" where
  "locksOk rq w \<longleftrightarrow> (\<forall>c. callerOk rq (storeOf w) c (awCallers w c)) \<and>
    (\<forall>conv c. awLocks w conv = Some c \<longleftrightarrow> ownsLock (awCallers w c) \<and> aqConversationId (rq c) = conv)"

lemma callerOk_mono: "callerOk rq st c x \<Longrightarrow> identAt st \<subseteq>\<^sub>m identAt st' \<Longrightarrow> callerOk rq st' c x"
  by (cases x) (auto simp: callerOk_def map_le_def dom_def)

lemma locksOk_update:
  assumes "locksOk rq w" "identAt (storeOf w) \<subseteq>\<^sub>m identAt (storeOf w')" "awCallers w' = (awCallers w)(c := x)"
    and "callerOk rq (storeOf w') c x"
    and "awLocks w' = awLocks w \<and> ownsLock x = ownsLock (awCallers w c) \<or>
      awLocks w' = (awLocks w)(aqConversationId (rq c) \<mapsto> c) \<and> awLocks w (aqConversationId (rq c)) = None \<and> ownsLock x \<or>
      awLocks w' = (awLocks w)(aqConversationId (rq c) := None) \<and> ownsLock (awCallers w c) \<and> \<not> ownsLock x"
  shows "locksOk rq w'"
proof -
  have lock: "awLocks w conv = Some d \<longleftrightarrow> ownsLock (awCallers w d) \<and> aqConversationId (rq d) = conv" for conv d
    using assms(1) unfolding locksOk_def by blast
  have ok: "callerOk rq (storeOf w') d (awCallers w' d)" for d
    using assms(1,4) callerOk_mono [OF _ assms(2)] unfolding locksOk_def assms(3) by simp
  have "awLocks w' conv = Some d \<longleftrightarrow> ownsLock (awCallers w' d) \<and> aqConversationId (rq d) = conv" for conv d
    using assms(5)
  proof (elim disjE conjE)
    assume "awLocks w' = awLocks w" "ownsLock x = ownsLock (awCallers w c)"
    then show ?thesis using lock [of conv d] unfolding assms(3) by simp
  next
    assume l: "awLocks w' = (awLocks w)(aqConversationId (rq c) \<mapsto> c)" "awLocks w (aqConversationId (rq c)) = None" "ownsLock x"
    then show ?thesis using lock [of conv d] unfolding assms(3) by auto
  next
    assume l: "awLocks w' = (awLocks w)(aqConversationId (rq c) := None)" "ownsLock (awCallers w c)" "\<not> ownsLock x"
    then have "awLocks w (aqConversationId (rq c)) = Some c" using lock by blast
    then show ?thesis using l lock [of conv d] unfolding assms(3) by auto
  qed
  with ok show ?thesis unfolding locksOk_def by blast
qed

lemma usable_fits: "usable q st s \<Longrightarrow> pxConversationId s = aqConversationId q \<Longrightarrow> fits q s"
  by (simp add: usable_def fits_def)

lemma active_conversation: "getActiveSession st conv = Some s \<Longrightarrow> pxConversationId s = conv"
  by (auto simp: getActiveSession_def find_Some_iff)

lemma ident_stopBegin: "stopBegin i st = (r, st') \<Longrightarrow> identAt st' = identAt st"
  using identAt_stop [of i st] by simp

text \<open>What the pieces of an owner and of a waiter do to the lock and the caller.\<close>

lemma ownerCreate_effect:
  assumes "ssHeap (storeOf w) uuid = None"
  obtains x where "awCallers (ownerCreate c q uuid now w) = (awCallers w)(c := x)" "ownsLock x"
    "awLocks (ownerCreate c q uuid now w) = awLocks w"
    "identAt (storeOf w) \<subseteq>\<^sub>m identAt (storeOf (ownerCreate c q uuid now w))"
    "rq c = q \<Longrightarrow> callerOk rq (storeOf (ownerCreate c q uuid now w)) c x"
proof -
  obtain r st where cr: "createSession (aqConversationId q) (aqCredentialIds q) (aqPatch q) (aqDataDir q) (aqCallback q) uuid now (storeOf w) = (r, st)"
    by fastforce
  have le: "identAt (storeOf w) \<subseteq>\<^sub>m identAt st" using identAt_create [OF assms] cr by (metis snd_conv)
  show thesis
  proof (cases r)
    case (Inl e)
    then show thesis using that [of OwnerFailed] cr le
      by (simp add: ownerCreate_def setCaller_def setStore_def ownsLock_def callerOk_def)
  next
    case (Inr s)
    have new: "pxId s = uuid" "identAt st uuid = Some (uuid, aqConversationId q, aqCredentialIds q)"
      using cr Inr by (auto simp: createSession_def Let_def newManaged_def identAt_def split: if_splits)
    show thesis
    proof (cases "startCheck uuid st")
      case None
      then show thesis using that [of "OwnerStart uuid"] cr Inr le new
        by (simp add: ownerCreate_def setCaller_def ownsLock_def callerOk_def)
    next
      case (Some e)
      then show thesis using that [of OwnerFailed] cr Inr le new
        by (simp add: ownerCreate_def setCaller_def setStore_def ownsLock_def callerOk_def)
    qed
  qed
qed

lemma locksOk_lockTurn:
  assumes "locksOk rq w" "\<not> ownsLock (awCallers w c)" "ssHeap (storeOf w) uuid = None"
  shows "locksOk rq (lockTurn c (rq c) uuid now w)"
proof (cases "awLocks w (aqConversationId (rq c))")
  case (Some owner)
  then have "aqConversationId (rq owner) = aqConversationId (rq c)" using assms(1) unfolding locksOk_def by blast
  then have ok: "callerOk rq st c (AwaitLock owner)" for st by (simp add: callerOk_def)
  have w': "lockTurn c (rq c) uuid now w = w\<lparr>awCallers := (awCallers w)(c := AwaitLock owner)\<rparr>"
    using Some by (simp add: lockTurn_def setCaller_def)
  have "\<not> ownsLock (AwaitLock owner)" by (simp add: ownsLock_def)
  then show ?thesis unfolding w' using assms(2) ok by (intro locksOk_update [OF assms(1), of _ c "AwaitLock owner"]) simp_all
next
  case None
  let ?q = "rq c" and ?w = "w\<lparr>awLocks := (awLocks w)(aqConversationId (rq c) \<mapsto> c)\<rparr>"
  show ?thesis
  proof (cases "getActiveSession (storeOf w) (aqConversationId ?q)")
    case no: None
    have same: "lockTurn c ?q uuid now w = ownerCreate c ?q uuid now ?w"
      using None no by (simp add: lockTurn_def ownerBegin_def Let_def)
    obtain x where x: "awCallers (ownerCreate c ?q uuid now ?w) = (awCallers ?w)(c := x)" "ownsLock x"
      "awLocks (ownerCreate c ?q uuid now ?w) = awLocks ?w"
      "identAt (storeOf ?w) \<subseteq>\<^sub>m identAt (storeOf (ownerCreate c ?q uuid now ?w))"
      "callerOk rq (storeOf (ownerCreate c ?q uuid now ?w)) c x"
      using ownerCreate_effect [of ?w uuid c ?q now rq] assms(3) by auto
    show ?thesis unfolding same
      by (rule locksOk_update [OF assms(1), of _ c x]) (use x None in simp_all)
  next
    case (Some s)
    note conv = active_conversation [OF Some]
    show ?thesis
    proof (cases "usable ?q (storeOf w) s")
      case True
      then have w': "lockTurn c ?q uuid now w = ?w\<lparr>awCallers := (awCallers w)(c := OwnerDone s False)\<rparr>"
        using None Some by (simp add: lockTurn_def ownerBegin_def setCaller_def)
      have "callerOk rq st c (OwnerDone s False)" for st using usable_fits [OF True conv] by (simp add: callerOk_def)
      then show ?thesis unfolding w'
        by (intro locksOk_update [OF assms(1), of _ c "OwnerDone s False"]) (simp_all add: None ownsLock_def)
    next
      case False
      obtain r st where st: "stopBegin (pxId s) (storeOf w) = (r, st)" by fastforce
      let ?x = "case r of Inl e \<Rightarrow> OwnerFailed | Inr a \<Rightarrow> OwnerStop (pxId s)"
      have w': "lockTurn c ?q uuid now w = (setStore st ?w)\<lparr>awCallers := (awCallers w)(c := ?x)\<rparr>"
        using None Some False st by (simp add: lockTurn_def ownerBegin_def setCaller_def setStore_def split: sum.split)
      have "callerOk rq st' c ?x" "ownsLock ?x" for st' by (simp_all add: callerOk_def ownsLock_def split: sum.split)
      then show ?thesis unfolding w'
        by (intro locksOk_update [OF assms(1), of _ c ?x]) (simp_all add: None setStore_def ident_stopBegin [OF st])
    qed
  qed
qed

lemma locksOk_callBegins:
  assumes "locksOk rq w" "\<not> ownsLock (awCallers w c)" "ssHeap (storeOf w) uuid = None"
  shows "locksOk rq (callBegins c (rq c) uuid now w)"
proof (cases "fastPath (rq c) (storeOf w)")
  case (Some s)
  then have "getActiveSession (storeOf w) (aqConversationId (rq c)) = Some s" "usable (rq c) (storeOf w) s"
    by (auto simp: fastPath_def split: option.splits if_splits)
  then have "callerOk rq st c (Returned s False)" for st
    using usable_fits active_conversation by (simp add: callerOk_def)
  moreover have "callBegins c (rq c) uuid now w = w\<lparr>awCallers := (awCallers w)(c := Returned s False)\<rparr>"
    using Some by (simp add: callBegins_def setCaller_def)
  ultimately show ?thesis using assms(2)
    by (intro locksOk_update [OF assms(1), of _ c "Returned s False"]) (simp_all add: ownsLock_def)
next
  case None
  then show ?thesis using locksOk_lockTurn [OF assms] by (simp add: callBegins_def)
qed

lemma locksOk_waiterResumes:
  assumes "locksOk rq w" "awCallers w c = AwaitLock owner"
  shows "locksOk rq (waiterResumes c (rq c) (awCallers w owner) w)"
proof -
  have free: "\<not> ownsLock (awCallers w c)" by (simp add: assms(2) ownsLock_def)
  have own: "callerOk rq (storeOf w) d (awCallers w d)" for d using assms(1) unfolding locksOk_def by blast
  have conv: "aqConversationId (rq owner) = aqConversationId (rq c)" using own [of c] by (simp add: assms(2) callerOk_def)
  let ?s = "case awCallers w owner of OwnerDone s b \<Rightarrow> Some s | Returned s b \<Rightarrow> Some s | _ \<Rightarrow> None"
  have plain: "locksOk rq w'" if "awCallers w' = (awCallers w)(c := x)" "awLocks w' = awLocks w"
    "identAt (storeOf w') = identAt (storeOf w)" "\<And>st. callerOk rq st c x" "\<not> ownsLock x" for w' x
    using that free by (intro locksOk_update [OF assms(1), of _ c x]) simp_all
  show ?thesis
  proof (cases ?s)
    case None
    then show ?thesis by (intro plain [of _ Rejected]) (simp_all add: waiterResumes_def setCaller_def callerOk_def ownsLock_def)
  next
    case (Some s)
    then have "pxConversationId s = aqConversationId (rq c)"
      using own [of owner] conv by (auto simp: callerOk_def fits_def split: callerState.splits)
    then have fit: "usable (rq c) (storeOf w) s \<Longrightarrow> fits (rq c) s" by (rule usable_fits [rotated])
    show ?thesis
    proof (cases "usable (rq c) (storeOf w) s")
      case True
      with Some fit show ?thesis
        by (intro plain [of _ "Returned s False"]) (simp_all add: waiterResumes_def setCaller_def callerOk_def ownsLock_def)
    next
      case False
      obtain r st where st: "stopBegin (pxId s) (storeOf w) = (r, st)" by fastforce
      show ?thesis
        by (rule plain [of _ "case r of Inl e \<Rightarrow> Rejected | Inr a \<Rightarrow> WaiterStop (pxId s)"])
          (use Some False st ident_stopBegin [OF st] in \<open>simp_all add: waiterResumes_def setCaller_def setStore_def
            callerOk_def ownsLock_def split: sum.split\<close>)
    qed
  qed
qed

lemma locksOk_caller:
  assumes "locksOk rq w" "\<And>st. callerOk rq st c x" "ownsLock x = ownsLock (awCallers w c)"
  shows "locksOk rq (setCaller c x w)"
  by (rule locksOk_update [OF assms(1), of _ c x]) (simp_all add: setCaller_def assms(2,3))

lemma acquire_step_ok: "acquire_step rq w w' \<Longrightarrow> locksOk rq w \<Longrightarrow> locksOk rq w'"
proof (induction rule: acquire_step.induct)
  case (call w c uuid now)
  then show ?case by (intro locksOk_callBegins) (simp_all add: ownsLock_def)
next
  case (lock_resolved w c owner)
  then show ?case by (intro locksOk_waiterResumes)
next
  case (waiter_stopped w c i m uuid now)
  then show ?case by (intro locksOk_lockTurn) (simp_all add: ownsLock_def)
next
  case (waiter_stop_fails w c i)
  show ?case by (rule locksOk_caller [OF waiter_stop_fails.prems]) (simp_all add: waiter_stop_fails.hyps callerOk_def ownsLock_def)
next
  case (owner_stopped w c i m uuid now)
  obtain x where x: "awCallers (ownerCreate c (rq c) uuid now w) = (awCallers w)(c := x)" "ownsLock x"
    "awLocks (ownerCreate c (rq c) uuid now w) = awLocks w"
    "identAt (storeOf w) \<subseteq>\<^sub>m identAt (storeOf (ownerCreate c (rq c) uuid now w))"
    "callerOk rq (storeOf (ownerCreate c (rq c) uuid now w)) c x"
    using ownerCreate_effect [of w uuid c "rq c" now rq] owner_stopped.hyps(4) by auto
  have "ownsLock (awCallers w c)" by (simp add: owner_stopped.hyps(1) ownsLock_def)
  then show ?case using x by (intro locksOk_update [OF owner_stopped.prems, of _ c x]) simp_all
next
  case (owner_stop_fails w c i)
  show ?case by (rule locksOk_caller [OF owner_stop_fails.prems]) (simp_all add: owner_stop_fails.hyps callerOk_def ownsLock_def)
next
  case (owner_listens w c i server st port now m)
  have ident: "identAt st = identAt (storeOf w)" by (simp add: owner_listens.hyps(4) identAt_listening)
  have "callerOk rq (storeOf w) c (awCallers w c)" using owner_listens.prems unfolding locksOk_def by blast
  then have "callerOk rq (storeOf w) c (OwnerStart i)" by (simp add: owner_listens.hyps(1))
  then have "identAt st i = Some (i, aqConversationId (rq c), aqCredentialIds (rq c))" by (simp add: callerOk_def ident)
  then have "pxConversationId (msSession m) = aqConversationId (rq c)" "pxCredentialIds (msSession m) = aqCredentialIds (rq c)"
    using owner_listens.hyps(5) by (simp_all add: identAt_def)
  then have "fits (rq c) (msSession m)" by (simp add: fits_def credentialIdsMatch_def list.rel_eq)
  then show ?case using owner_listens.hyps(1) ident
    by (intro locksOk_update [OF owner_listens.prems, of _ c "OwnerDone (msSession m) True"])
      (simp_all add: setCaller_def callerOk_def ownsLock_def)
next
  case (owner_start_fails w c i st)
  then have "identAt st = identAt (storeOf w)" using identAt_delete by auto
  then show ?case using owner_start_fails.hyps(1)
    by (intro locksOk_update [OF owner_start_fails.prems, of _ c OwnerFailed])
      (simp_all add: setCaller_def callerOk_def ownsLock_def)
next
  case (settles w c s b)
  have own: "ownsLock (awCallers w c)" using settles.hyps by (auto simp: ownsLock_def)
  have "callerOk rq (storeOf w) c (awCallers w c)" using settles.prems unfolding locksOk_def by blast
  then have "callerOk rq (storeOf w) c (case awCallers w c of OwnerDone s b \<Rightarrow> Returned s b | _ \<Rightarrow> Rejected)"
    by (auto simp: callerOk_def split: callerState.splits)
  then show ?case using own
    by (intro locksOk_update [OF settles.prems, of _ c "case awCallers w c of OwnerDone s b \<Rightarrow> Returned s b | _ \<Rightarrow> Rejected"])
      (simp_all add: settle_def setCaller_def ownsLock_def split: callerState.split)
next
  case (others w v)
  then show ?case using session_step_ident [OF others.hyps(1)] callerOk_mono unfolding locksOk_def by simp blast
qed

lemma acquire_reaches_ok: "acquire_reaches rq w w' \<Longrightarrow> locksOk rq w \<Longrightarrow> locksOk rq w'"
  by (induction rule: acquire_reaches.induct) (auto intro: acquire_step_ok)

lemma quiet_ok: "locksOk rq (quietWorld v)"
  by (simp add: locksOk_def quietWorld_def callerOk_def ownsLock_def)

section \<open>A run of three callers\<close>

definition ex_rq :: "string \<Rightarrow> acquireRequest" where
  "ex_rq c = \<lparr>aqConversationId = ''conv'', aqCredentialIds = (if c = ''c'' then [''other''] else [''x'', ''y'']),
     aqListenHost = None, aqPatch = ex_patch, aqDataDir = None, aqCallback = False\<rparr>"

definition ex_w3 :: acquireWorld where
  "ex_w3 = callBegins ''c'' (ex_rq ''c'') ''s'' 2 (callBegins ''b'' (ex_rq ''b'') ''s'' 1
     (callBegins ''a'' (ex_rq ''a'') ''r'' 0 (quietWorld initialWorld)))"

definition ex_listening :: sessionStore where
  "ex_listening = onListening ''r'' 7 8080 (requestedHost (ex_rq ''a'')) 3 (storeOf ex_w3)"

definition ex_w4 :: acquireWorld where
  "ex_w4 = setCaller ''a'' (OwnerDone (msSession (orDefault (ssHeap ex_listening ''r'') (newManaged [] [] (mergeConfig ex_patch) None False [] 0))) True)
     (ex_w3\<lparr>awSessions := (awSessions ex_w3)\<lparr>wdStore := ex_listening, wdStarts := removeAll ''r'' (wdStarts (awSessions ex_w3)),
        wdServers := 7 # wdServers (awSessions ex_w3)\<rparr>\<rparr>)"

definition ex_w6 :: acquireWorld where
  "ex_w6 = (let w5 = waiterResumes ''c'' (ex_rq ''c'') (awCallers ex_w4 ''a'') ex_w4 in
     waiterResumes ''b'' (ex_rq ''b'') (awCallers w5 ''a'') w5)"

lemma ex_w3_reached: "acquire_reaches ex_rq (quietWorld initialWorld) ex_w3"
proof -
  let ?w1 = "callBegins ''a'' (ex_rq ''a'') ''r'' 0 (quietWorld initialWorld)"
  let ?w2 = "callBegins ''b'' (ex_rq ''b'') ''s'' 1 ?w1"
  have 1: "acquire_step ex_rq (quietWorld initialWorld) ?w1"
    by (rule acquire_step.call) (simp_all add: quietWorld_def initialWorld_def emptyStore_def)
  have "awCallers ?w1 ''b'' = NotCalled" "ssHeap (storeOf ?w1) ''s'' = None" by code_simp+
  then have 2: "acquire_step ex_rq ?w1 ?w2" by (rule acquire_step.call)
  have "awCallers ?w2 ''c'' = NotCalled" "ssHeap (storeOf ?w2) ''s'' = None" by code_simp+
  then have "acquire_step ex_rq ?w2 ex_w3" unfolding ex_w3_def by (rule acquire_step.call)
  with 1 2 show ?thesis by (blast intro: acquire_reaches.intros)
qed

lemma ex_w4_reached: "acquire_reaches ex_rq (quietWorld initialWorld) ex_w4"
proof -
  have "ssHeap ex_listening ''r'' \<noteq> None" by code_simp
  then obtain m where m: "ssHeap ex_listening ''r'' = Some m" by blast
  have pre: "awCallers ex_w3 ''a'' = OwnerStart ''r''" "''r'' \<in> set (wdStarts (awSessions ex_w3))" "7 \<notin> set (wdServers (awSessions ex_w3))"
    by code_simp+
  show ?thesis unfolding ex_w4_def m orDefault_simps
    by (rule acquire_next [OF ex_w3_reached]) (intro acquire_step.owner_listens [of ex_w3 "''a''" "''r''" 7 ex_listening 8080 ex_rq 3 m] pre ex_listening_def m)
qed

lemma ex_w6_reached: "acquire_reaches ex_rq (quietWorld initialWorld) ex_w6"
proof -
  let ?w5 = "waiterResumes ''c'' (ex_rq ''c'') (awCallers ex_w4 ''a'') ex_w4"
  have "awCallers ex_w4 ''c'' = AwaitLock ''a''" "settled (awCallers ex_w4 ''a'')" by code_simp+
  then have 5: "acquire_step ex_rq ex_w4 ?w5" by (rule acquire_step.lock_resolved)
  have "awCallers ?w5 ''b'' = AwaitLock ''a''" "settled (awCallers ?w5 ''a'')" by code_simp+
  then have "acquire_step ex_rq ?w5 ex_w6" unfolding ex_w6_def Let_def by (rule acquire_step.lock_resolved)
  with ex_w4_reached 5 show ?thesis by (blast intro: acquire_reaches.intros)
qed

section \<open>Properties\<close>

text \<open>C28: However the pieces of concurrent callers, of the idle timer and of other stops interleave, at most one caller
  of a conversation is past the lock, so two callers never replace or create its session at the same time, and
  every session that is handed out belongs to the conversation and has exactly the requested
  credentials up to order.\<close>

theorem acquire_serialised:
  assumes "acquire_reaches rq (quietWorld v) w"
  shows "(ownsLock (awCallers w c) \<and> ownsLock (awCallers w d) \<and> aqConversationId (rq c) = aqConversationId (rq d) \<longrightarrow> c = d) \<and>
    (awCallers w c = Returned s b \<longrightarrow> pxConversationId s = aqConversationId (rq c) \<and>
      mset (pxCredentialIds s) = mset (aqCredentialIds (rq c)))"
proof -
  have ok: "locksOk rq w" using acquire_reaches_ok [OF assms quiet_ok] .
  then have lock: "awLocks w conv = Some e \<longleftrightarrow> ownsLock (awCallers w e) \<and> aqConversationId (rq e) = conv" for conv e
    unfolding locksOk_def by blast
  have "callerOk rq (storeOf w) c (awCallers w c)" using ok unfolding locksOk_def by blast
  then have "awCallers w c = Returned s b \<Longrightarrow> fits (rq c) s" by (simp add: callerOk_def)
  moreover have "c = d" if "ownsLock (awCallers w c)" "ownsLock (awCallers w d)" "aqConversationId (rq c) = aqConversationId (rq d)"
    using lock [of "aqConversationId (rq d)" c] lock [of "aqConversationId (rq d)" d] that by simp
  ultimately show ?thesis by (auto simp: fits_def credentialIds_mset)
qed

text \<open>A caller that waited for the lock can be given a session that another waiter, which wanted other credentials,
  is already stopping: the status of the session is not tested again.\<close>

theorem waiter_gets_stopping_session:
  "acquire_reaches ex_rq (quietWorld initialWorld) ex_w6 \<and>
   (case awCallers ex_w6 ''b'' of
      Returned s b \<Rightarrow> map_option statusOf (getManaged (storeOf ex_w6) (pxId s)) = Some Stopping
    | _ \<Rightarrow> False)"
  by (rule conjI [OF ex_w6_reached]) code_simp

theorem acquire_serialised_witness:
  "\<exists>s. awCallers ex_w6 ''b'' = Returned s False \<and> mset (pxCredentialIds s) = {#''x'', ''y''#}"
proof -
  have "(case awCallers ex_w6 ''b'' of Returned s b \<Rightarrow> \<not> b | _ \<Rightarrow> False)" by code_simp
  then obtain s where s: "awCallers ex_w6 ''b'' = Returned s False" by (auto split: callerState.splits)
  with acquire_serialised [OF ex_w6_reached, of "''b''" "''b''" s False] show ?thesis by (simp add: ex_rq_def)
qed

end
