(* ===== verification/IncludeGraph.thy ===== *)
theory IncludeGraph
  imports HumPrelude
begin

text \<open>
  The include graph of skills, \<open>assistant/src/skills/include-graph.ts\<close>: its validation by a depth-first search
  with three colours, the traversal and the collection of missing skills.

  The searches recurse along the catalog and may meet cycles. Each takes the depth of the recursion it may
  use as fuel, \<open>None\<close> stands for running out of it, and \<open>searchFuel\<close> is proved to be enough.
\<close>

section \<open>The catalog\<close>

record skillSummary =
  skId :: string
  skDirectoryPath :: string
  skIncludes :: "string list option"

type_synonym catalogIndex = "(string, skillSummary) jsMap"

definition indexCatalogById :: "skillSummary list \<Rightarrow> catalogIndex" where
  "indexCatalogById catalog = fold (\<lambda>s. mapSet (skId s) s) catalog []"

text \<open>The includes of a skill; none for one that is not in the catalog.\<close>

definition includesOf :: "catalogIndex \<Rightarrow> string \<Rightarrow> string list" where
  "includesOf idx i = (case mapGet idx i of None \<Rightarrow> [] | Some s \<Rightarrow> orDefault (skIncludes s) [])"

definition getImmediateChildren :: "string \<Rightarrow> catalogIndex \<Rightarrow> skillSummary list" where
  "getImmediateChildren parent idx = List.map_filter (mapGet idx) (includesOf idx parent)"

section \<open>Validation\<close>

datatype nodeState = Unseen | Visiting | Done

datatype includeError =
    MissingChild string string "string list"
  | CycleFound "string list"

record searchState =
  srState :: "(string, nodeState) jsMap"
  srVisited :: "string list"
  srAncestry :: "string list"

definition stateOf :: "searchState \<Rightarrow> string \<Rightarrow> nodeState" where
  "stateOf s i = orDefault (mapGet (srState s) i) Unseen"

definition enterNode :: "string \<Rightarrow> searchState \<Rightarrow> searchState" where
  "enterNode i s = \<lparr>srState = mapSet i Visiting (srState s), srVisited = srVisited s @ [i], srAncestry = srAncestry s @ [i]\<rparr>"

definition leaveNode :: "string \<Rightarrow> searchState \<Rightarrow> searchState" where
  "leaveNode i s = s\<lparr>srAncestry := butlast (srAncestry s), srState := mapSet i Done (srState s)\<rparr>"

function (sequential) dfs :: "nat \<Rightarrow> catalogIndex \<Rightarrow> bool \<Rightarrow> string \<Rightarrow> searchState \<Rightarrow> (includeError option \<times> searchState) option"
  and dfsChildren :: "nat \<Rightarrow> catalogIndex \<Rightarrow> bool \<Rightarrow> string \<Rightarrow> string list \<Rightarrow> searchState \<Rightarrow> (includeError option \<times> searchState) option" where
  "dfs 0 idx failOnMissing i s = None"
| "dfs (Suc n) idx failOnMissing i s =
     (case stateOf s i of
        Done \<Rightarrow> Some (None, s)
      | Visiting \<Rightarrow> Some (Some (CycleFound (dropWhile (\<lambda>j. j \<noteq> i) (srAncestry s) @ [i])), s)
      | Unseen \<Rightarrow>
         (case dfsChildren n idx failOnMissing i (includesOf idx i) (enterNode i s) of
            None \<Rightarrow> None
          | Some (Some e, s') \<Rightarrow> Some (Some e, s')
          | Some (None, s') \<Rightarrow> Some (None, leaveNode i s')))"
| "dfsChildren n idx failOnMissing i [] s = Some (None, s)"
| "dfsChildren n idx failOnMissing i (c # cs) s =
     (if \<not> mapHas idx c then
        (if failOnMissing then Some (Some (MissingChild c i (srAncestry s)), s)
         else dfsChildren n idx failOnMissing i cs s)
      else
        (case dfs n idx failOnMissing c s of
           None \<Rightarrow> None
         | Some (Some e, s') \<Rightarrow> Some (Some e, s')
         | Some (None, s') \<Rightarrow> dfsChildren n idx failOnMissing i cs s'))"
  by pat_completeness auto
termination
  by (relation "measures [\<lambda>x. case x of Inl (n, _) \<Rightarrow> n | Inr (n, _) \<Rightarrow> n,
      \<lambda>x. case x of Inl _ \<Rightarrow> 0 | Inr (n, idx, f, i, cs, s) \<Rightarrow> Suc (length cs)]") auto

definition searchFuel :: "catalogIndex \<Rightarrow> nat" where
  "searchFuel idx = Suc (length idx)"

definition startSearch :: searchState where
  "startSearch = \<lparr>srState = [], srVisited = [], srAncestry = []\<rparr>"

definition validateIncludeGraph :: "string \<Rightarrow> catalogIndex \<Rightarrow> bool \<Rightarrow> (includeError + string list) option" where
  "validateIncludeGraph root idx failOnMissing =
    (case dfs (searchFuel idx) idx failOnMissing root startSearch of
       None \<Rightarrow> None
     | Some (Some e, s) \<Rightarrow> Some (Inl e)
     | Some (None, s) \<Rightarrow> Some (Inr (srVisited s)))"

definition validateIncludes :: "string \<Rightarrow> catalogIndex \<Rightarrow> (includeError + string list) option" where
  "validateIncludes root idx = validateIncludeGraph root idx True"

definition validateIncludeCycles :: "string \<Rightarrow> catalogIndex \<Rightarrow> (includeError + string list) option" where
  "validateIncludeCycles root idx = validateIncludeGraph root idx False"

section \<open>Traversal and missing skills\<close>

text \<open>The set \<open>seen\<close> always holds the ids of \<open>visited\<close>, so one list stands for both.\<close>

function (sequential) walkFrom :: "nat \<Rightarrow> catalogIndex \<Rightarrow> string \<Rightarrow> string list \<Rightarrow> string list option"
  and walkChildren :: "nat \<Rightarrow> catalogIndex \<Rightarrow> string list \<Rightarrow> string list \<Rightarrow> string list option" where
  "walkFrom 0 idx i visited = None"
| "walkFrom (Suc n) idx i visited =
     (if i \<in> set visited then Some visited else walkChildren n idx (includesOf idx i) (visited @ [i]))"
| "walkChildren n idx [] visited = Some visited"
| "walkChildren n idx (c # cs) visited =
     (if c \<in> set visited \<or> \<not> mapHas idx c then walkChildren n idx cs visited
      else (case walkFrom n idx c visited of None \<Rightarrow> None | Some visited' \<Rightarrow> walkChildren n idx cs visited'))"
  by pat_completeness auto
termination
  by (relation "measures [\<lambda>x. case x of Inl (n, _) \<Rightarrow> n | Inr (n, _) \<Rightarrow> n,
      \<lambda>x. case x of Inl _ \<Rightarrow> 0 | Inr (n, idx, cs, v) \<Rightarrow> Suc (length cs)]") auto

definition traverseIncludes :: "string \<Rightarrow> catalogIndex \<Rightarrow> string list option" where
  "traverseIncludes root idx = walkFrom (searchFuel idx) idx root []"

text \<open>The visited ids and the missing ids, each in the order of insertion.\<close>

function (sequential) missingFrom :: "nat \<Rightarrow> catalogIndex \<Rightarrow> string \<Rightarrow> string list \<times> string list \<Rightarrow> (string list \<times> string list) option"
  and missingChildren :: "nat \<Rightarrow> catalogIndex \<Rightarrow> string list \<Rightarrow> string list \<times> string list \<Rightarrow> (string list \<times> string list) option" where
  "missingFrom 0 idx i vm = None"
| "missingFrom (Suc n) idx i (visited, missing) =
     (if i \<in> set visited then Some (visited, missing)
      else missingChildren n idx (includesOf idx i) (visited @ [i], missing))"
| "missingChildren n idx [] vm = Some vm"
| "missingChildren n idx (c # cs) (visited, missing) =
     (if \<not> mapHas idx c then missingChildren n idx cs (visited, if c \<in> set missing then missing else missing @ [c])
      else if c \<notin> set visited then
        (case missingFrom n idx c (visited, missing) of None \<Rightarrow> None | Some vm \<Rightarrow> missingChildren n idx cs vm)
      else missingChildren n idx cs (visited, missing))"
  by pat_completeness auto
termination
  by (relation "measures [\<lambda>x. case x of Inl (n, _) \<Rightarrow> n | Inr (n, _) \<Rightarrow> n,
      \<lambda>x. case x of Inl _ \<Rightarrow> 0 | Inr (n, idx, cs, v) \<Rightarrow> Suc (length cs)]") auto

definition collectAllMissing :: "string \<Rightarrow> catalogIndex \<Rightarrow> string list option" where
  "collectAllMissing root idx = map_option snd (missingFrom (searchFuel idx) idx root ([], []))"

section \<open>Edges of the graph\<close>

definition includesSkill :: "catalogIndex \<Rightarrow> string \<Rightarrow> string \<Rightarrow> bool" where
  "includesSkill idx i c \<longleftrightarrow> c \<in> set (includesOf idx i) \<and> mapHas idx c"

definition reachable :: "catalogIndex \<Rightarrow> string \<Rightarrow> string set" where
  "reachable idx root = {i. (includesSkill idx)\<^sup>*\<^sup>* root i}"

definition missingIncludes :: "catalogIndex \<Rightarrow> string set \<Rightarrow> string set" where
  "missingIncludes idx A = {c. \<exists>i \<in> A. c \<in> set (includesOf idx i) \<and> \<not> mapHas idx c}"

lemma includesOf_outside: "\<not> mapHas idx i \<Longrightarrow> includesOf idx i = []"
  by (simp add: includesOf_def)

lemma reachable_root [simp]: "root \<in> reachable idx root"
  by (simp add: reachable_def)

lemma reachable_step: "i \<in> reachable idx root \<Longrightarrow> includesSkill idx i c \<Longrightarrow> c \<in> reachable idx root"
  by (simp add: reachable_def)

lemma reachable_trans: "i \<in> reachable idx root \<Longrightarrow> j \<in> reachable idx i \<Longrightarrow> j \<in> reachable idx root"
  by (auto simp: reachable_def)

text \<open>A set closed under the edges holds everything reachable from its members.\<close>

lemma reachable_closed:
  assumes "\<And>i c. i \<in> A \<Longrightarrow> includesSkill idx i c \<Longrightarrow> c \<in> A" "root \<in> A"
  shows "reachable idx root \<subseteq> A"
proof
  fix i assume "i \<in> reachable idx root"
  then have "(includesSkill idx)\<^sup>*\<^sup>* root i" by (simp add: reachable_def)
  then show "i \<in> A" by (induction rule: rtranclp_induct) (auto intro: assms)
qed

section \<open>The fuel is enough\<close>

definition unseen :: "catalogIndex \<Rightarrow> searchState \<Rightarrow> string set" where
  "unseen idx s = {i. mapHas idx i \<and> stateOf s i = Unseen}"

lemma stateOf_enter [simp]: "stateOf (enterNode i s) j = (if j = i then Visiting else stateOf s j)"
  by (simp add: stateOf_def enterNode_def)

lemma stateOf_leave [simp]: "stateOf (leaveNode i s) j = (if j = i then Done else stateOf s j)"
  by (simp add: stateOf_def leaveNode_def)

lemma stateOf_start [simp]: "stateOf startSearch i = Unseen"
  by (simp add: stateOf_def startSearch_def)

lemma finite_catalog [simp]: "finite {i. mapHas idx i}" "finite {i. \<exists>y. mapGet idx i = Some y}"
  using finite_dom_map_of[of idx] by (simp_all add: dom_def)

lemma finite_unseen [simp]: "finite (unseen idx s)"
  by (rule finite_subset[OF _ finite_catalog(1)[of idx]]) (auto simp: unseen_def)

lemma card_catalog: "card {i. mapHas idx i} \<le> length idx"
proof -
  have "card (dom (map_of idx)) \<le> card (set (map fst idx))" by (simp add: dom_map_of_conv_image_fst)
  also have "\<dots> \<le> length idx" using card_length[of "map fst idx"] by simp
  finally show ?thesis by (simp add: dom_def)
qed

lemma unseen_enter:
  assumes "stateOf s i = Unseen" "mapHas idx i"
  shows "card (unseen idx s) = Suc (card (unseen idx (enterNode i s)))"
proof -
  have "unseen idx (enterNode i s) = unseen idx s - {i}" by (auto simp: unseen_def)
  moreover have "i \<in> unseen idx s" using assms by (simp add: unseen_def)
  ultimately show ?thesis using card_Suc_Diff1[of "unseen idx s" i] by simp
qed

lemma dfs_shrinks:
  "dfs n idx f i s = Some (r, s') \<Longrightarrow> unseen idx s' \<subseteq> unseen idx s"
  "dfsChildren n idx f i cs s = Some (r, s') \<Longrightarrow> unseen idx s' \<subseteq> unseen idx s"
proof (induction n idx f i s and n idx f i cs s arbitrary: r s' and r s' rule: dfs_dfsChildren.induct)
  case (2 n idx f i s)
  then show ?case
    by (auto simp: unseen_def split: nodeState.splits option.splits prod.splits if_splits)
next
  case (4 n idx f i c cs s)
  show ?case
  proof (cases "mapHas idx c")
    case True
    then obtain r1 s1 where d: "dfs n idx f c s = Some (r1, s1)" using "4.prems"
      by (auto split: option.splits)
    then show ?thesis using True "4.IH"(2)[OF _ d] "4.IH"(3)[OF _ d refl, of r s'] "4.prems"
      by (cases r1) auto
  next
    case False
    then show ?thesis using "4.IH"(1)[of r s'] "4.prems" by (auto split: if_splits)
  qed
qed auto

lemma dfs_enough:
  "card (unseen idx s) < n \<Longrightarrow> dfs n idx f i s \<noteq> None"
  "card (unseen idx s) < n \<Longrightarrow> dfsChildren n idx f i cs s \<noteq> None"
proof (induction n idx f i s and n idx f i cs s rule: dfs_dfsChildren.induct)
  case (2 n idx f i s)
  have "dfsChildren n idx f i (includesOf idx i) (enterNode i s) \<noteq> None" if "stateOf s i = Unseen"
  proof (cases "mapHas idx i")
    case True
    then show ?thesis using 2 that unseen_enter[of s i idx] by simp
  qed (simp add: includesOf_outside)
  then show ?case by (auto split: nodeState.splits option.splits)
next
  case (4 n idx f i c cs s)
  have "card (unseen idx s') < n" if "dfs n idx f c s = Some (r, s')" for r s'
    using card_mono[OF finite_unseen dfs_shrinks(1)[OF that]] "4.prems" by simp
  note rest = this
  show ?case
  proof (cases "mapHas idx c")
    case True
    then obtain r s' where d: "dfs n idx f c s = Some (r, s')" using 4 by fastforce
    then show ?thesis using True "4.IH"(3)[OF _ d refl] rest[OF d] by (cases r) auto
  next
    case False
    then show ?thesis using "4.IH"(1) "4.prems" by simp
  qed
qed auto

lemma card_unseen: "card (unseen idx s) < searchFuel idx"
proof -
  have "card (unseen idx s) \<le> card {i. mapHas idx i}" by (intro card_mono finite_catalog(1)) (auto simp: unseen_def)
  then show ?thesis using card_catalog[of idx] by (simp add: searchFuel_def)
qed

lemma validate_returns: "validateIncludeGraph root idx f \<noteq> None"
  using dfs_enough(1)[OF card_unseen[of idx startSearch], of f root]
  by (auto simp: validateIncludeGraph_def split: option.splits)

text \<open>The walks stop when no catalog entry is left to visit.\<close>

abbreviation unvisited :: "catalogIndex \<Rightarrow> string list \<Rightarrow> string set" where
  "unvisited idx visited \<equiv> {i. mapHas idx i} - set visited"

lemma visit_grows:
  "walkFrom n idx i v = Some v' \<Longrightarrow> insert i (set v) \<subseteq> set v'"
  "walkChildren n idx cs v = Some v' \<Longrightarrow> set v \<subseteq> set v'"
proof (induction n idx i v and n idx cs v arbitrary: v' and v' rule: walkFrom_walkChildren.induct)
  case (4 n idx c cs v)
  then show ?case by (auto split: if_splits option.splits)
qed (auto split: if_splits)

lemma walk_enough:
  "card (unvisited idx v) < n \<Longrightarrow> walkFrom n idx i v \<noteq> None"
  "card (unvisited idx v) < n \<Longrightarrow> walkChildren n idx cs v \<noteq> None"
proof (induction n idx i v and n idx cs v rule: walkFrom_walkChildren.induct)
  case (2 n idx i v)
  have "walkChildren n idx (includesOf idx i) (v @ [i]) \<noteq> None" if "i \<notin> set v"
  proof (cases "mapHas idx i")
    case True
    then have "i \<in> unvisited idx v" using that by simp
    moreover have "unvisited idx (v @ [i]) = unvisited idx v - {i}" by auto
    ultimately have "card (unvisited idx v) = Suc (card (unvisited idx (v @ [i])))"
      using card_Suc_Diff1[of "unvisited idx v" i] by simp
    then show ?thesis using 2 that by (simp del: set_append)
  qed (simp add: includesOf_outside)
  then show ?case by simp
next
  case (4 n idx c cs v)
  show ?case
  proof (cases "c \<in> set v \<or> \<not> mapHas idx c")
    case False
    then obtain v' where w: "walkFrom n idx c v = Some v'" using 4 by fastforce
    then have "card (unvisited idx v') \<le> card (unvisited idx v)"
      using visit_grows(1)[OF w] by (intro card_mono) auto
    then show ?thesis using False 4 w by simp
  qed (use 4 in simp)
qed auto

lemma traverse_returns: "traverseIncludes root idx \<noteq> None"
  using walk_enough(1)[of idx "[]" "searchFuel idx" root] card_catalog[of idx]
  by (simp add: traverseIncludes_def searchFuel_def)

text \<open>The search for missing skills visits what the traversal visits.\<close>

lemma missing_visits:
  "map_option fst (missingFrom n idx i vm) = walkFrom n idx i (fst vm)"
  "map_option fst (missingChildren n idx cs vm) = walkChildren n idx cs (fst vm)"
proof (induction n idx i vm and n idx cs vm rule: missingFrom_missingChildren.induct)
  case (4 n idx c cs visited missing)
  then show ?case
    by (cases "missingFrom n idx c (visited, missing)"; cases "walkFrom n idx c visited") auto
qed auto

lemma missing_returns: "collectAllMissing root idx \<noteq> None"
  using missing_visits(1)[of "searchFuel idx" idx root "([], [])"] traverse_returns[of root idx]
  by (auto simp: collectAllMissing_def traverseIncludes_def)

section \<open>What the validation answers\<close>

text \<open>A finished node: its includes are finished, none is missing if that matters, and it is on no cycle.\<close>

definition settled :: "catalogIndex \<Rightarrow> bool \<Rightarrow> searchState \<Rightarrow> string \<Rightarrow> bool" where
  "settled idx f s i \<longleftrightarrow> (\<forall>c. includesSkill idx i c \<longrightarrow> stateOf s c = Done) \<and>
    (f \<longrightarrow> missingIncludes idx {i} = {}) \<and> \<not> (includesSkill idx)\<^sup>+\<^sup>+ i i"

definition ancestryOk :: "catalogIndex \<Rightarrow> string \<Rightarrow> searchState \<Rightarrow> bool" where
  "ancestryOk idx root s \<longleftrightarrow> distinct (srAncestry s) \<and> successively (includesSkill idx) (srAncestry s) \<and>
    (srAncestry s \<noteq> [] \<longrightarrow> hd (srAncestry s) = root) \<and> (\<forall>i. i \<in> set (srAncestry s) \<longleftrightarrow> stateOf s i = Visiting)"

definition visitedOk :: "catalogIndex \<Rightarrow> string \<Rightarrow> searchState \<Rightarrow> bool" where
  "visitedOk idx root s \<longleftrightarrow> distinct (srVisited s) \<and> set (srVisited s) = {i. stateOf s i \<noteq> Unseen} \<and>
    set (srVisited s) \<subseteq> reachable idx root"

definition searchOk :: "catalogIndex \<Rightarrow> bool \<Rightarrow> string \<Rightarrow> searchState \<Rightarrow> bool" where
  "searchOk idx f root s \<longleftrightarrow> ancestryOk idx root s \<and> visitedOk idx root s \<and>
    (\<forall>i. stateOf s i = Done \<longrightarrow> settled idx f s i)"

text \<open>The node that is about to be searched continues the ancestry.\<close>

definition nextOk :: "catalogIndex \<Rightarrow> string \<Rightarrow> searchState \<Rightarrow> string \<Rightarrow> bool" where
  "nextOk idx root s i \<longleftrightarrow>
    (if srAncestry s = [] then i = root else includesSkill idx (last (srAncestry s)) i)"

text \<open>An error names a path of the graph that shows it.\<close>

fun genuineError :: "catalogIndex \<Rightarrow> bool \<Rightarrow> string \<Rightarrow> includeError \<Rightarrow> bool" where
  "genuineError idx f root (MissingChild c p path) \<longleftrightarrow> f \<and> path \<noteq> [] \<and> hd path = root \<and> last path = p \<and>
     successively (includesSkill idx) path \<and> c \<in> set (includesOf idx p) \<and> \<not> mapHas idx c"
| "genuineError idx f root (CycleFound path) \<longleftrightarrow> 2 \<le> length path \<and> hd path = last path \<and>
     successively (includesSkill idx) path \<and> set path \<subseteq> reachable idx root"

lemma path_reachable:
  "successively (includesSkill idx) xs \<Longrightarrow> xs \<noteq> [] \<Longrightarrow> hd xs \<in> reachable idx root \<Longrightarrow> set xs \<subseteq> reachable idx root"
proof (induction xs)
  case (Cons x xs)
  then show ?case by (cases xs) (auto intro: reachable_step)
qed simp

lemma next_reachable:
  assumes "searchOk idx f root s" "nextOk idx root s i"
  shows "i \<in> reachable idx root"
proof (cases "srAncestry s = []")
  case False
  have "set (srAncestry s) \<subseteq> reachable idx root"
    using assms(1) False by (intro path_reachable) (auto simp: searchOk_def ancestryOk_def)
  then have "last (srAncestry s) \<in> reachable idx root" using False by auto
  then show ?thesis using assms(2) False by (auto simp: nextOk_def intro: reachable_step)
qed (use assms(2) in \<open>simp add: nextOk_def\<close>)

text \<open>The error for a node met again: the end of the ancestry, from that node, closes to a cycle.\<close>

lemma cycle_genuine:
  assumes "searchOk idx f root s" "nextOk idx root s i" "stateOf s i = Visiting"
  shows "genuineError idx f root (CycleFound (dropWhile (\<lambda>j. j \<noteq> i) (srAncestry s) @ [i]))"
proof -
  have "i \<in> set (srAncestry s)" using assms by (auto simp: searchOk_def ancestryOk_def)
  then obtain xs ys where a: "srAncestry s = xs @ i # ys" "i \<notin> set xs" by (meson split_list_first)
  have d: "dropWhile (\<lambda>j. j \<noteq> i) (srAncestry s) = i # ys"
    using a by (subst a(1), subst dropWhile_append2) auto
  have ok: "successively (includesSkill idx) (srAncestry s)" "hd (srAncestry s) = root"
    using assms(1) a(1) by (auto simp: searchOk_def ancestryOk_def)
  have "successively (includesSkill idx) (i # ys)" using ok(1) a(1) by (simp add: successively_append_iff)
  moreover have "includesSkill idx (last (i # ys)) i" using assms(2) a(1) by (simp add: nextOk_def)
  ultimately have path: "successively (includesSkill idx) ((i # ys) @ [i])"
    by (subst successively_append_iff) simp
  moreover have "set ((i # ys) @ [i]) \<subseteq> reachable idx root"
    using path_reachable[OF path] next_reachable[OF assms(1,2)] by simp
  ultimately show ?thesis by (simp add: d)
qed

lemma enter_ok:
  assumes "searchOk idx f root s" "nextOk idx root s i" "stateOf s i = Unseen"
  shows "searchOk idx f root (enterNode i s)"
proof -
  have "ancestryOk idx root (enterNode i s)"
    using assms by (auto simp: searchOk_def ancestryOk_def nextOk_def successively_append_iff enterNode_def
        stateOf_def split: if_splits)
  moreover have "visitedOk idx root (enterNode i s)"
    using assms next_reachable[OF assms(1,2)]
    by (auto simp: searchOk_def visitedOk_def enterNode_def stateOf_def split: if_splits)
  moreover have "settled idx f (enterNode i s) j" if "stateOf (enterNode i s) j = Done" for j
    using assms that by (auto simp: searchOk_def settled_def split: if_splits)
  ultimately show ?thesis by (simp add: searchOk_def)
qed

text \<open>Finished nodes are closed under the edges, so a node all of whose includes are finished and that is not
  finished itself is on no cycle.\<close>

lemma settled_closed:
  assumes "searchOk idx f root s" "stateOf s i = Done"
  shows "reachable idx i \<subseteq> {j. stateOf s j = Done}"
  using assms by (intro reachable_closed) (auto simp: searchOk_def settled_def)

lemma no_cycle:
  assumes "searchOk idx f root s" "stateOf s i \<noteq> Done" "\<And>c. includesSkill idx i c \<Longrightarrow> stateOf s c = Done"
  shows "\<not> (includesSkill idx)\<^sup>+\<^sup>+ i i"
proof
  assume "(includesSkill idx)\<^sup>+\<^sup>+ i i"
  then obtain c where "includesSkill idx i c" "i \<in> reachable idx c"
    by (auto simp: reachable_def dest: tranclpD)
  then show False using settled_closed[OF assms(1), of c] assms(2,3) by auto
qed

lemma leave_ok:
  assumes ok: "searchOk idx f root s" and a: "srAncestry s = as @ [i]"
    and ch: "\<And>c. c \<in> set (includesOf idx i) \<Longrightarrow> (f \<longrightarrow> mapHas idx c) \<and> (mapHas idx c \<longrightarrow> stateOf s c = Done)"
  shows "searchOk idx f root (leaveNode i s)" "srAncestry (leaveNode i s) = as"
proof -
  show as: "srAncestry (leaveNode i s) = as" by (simp add: leaveNode_def a)
  have i: "stateOf s i = Visiting" "i \<notin> set as" using ok a by (auto simp: searchOk_def ancestryOk_def)
  have "successively (includesSkill idx) as" "as \<noteq> [] \<longrightarrow> hd as = root"
    using ok a by (auto simp: searchOk_def ancestryOk_def successively_append_iff)
  then have "ancestryOk idx root (leaveNode i s)"
    using ok i a as by (auto simp: searchOk_def ancestryOk_def)
  moreover have "visitedOk idx root (leaveNode i s)"
    using ok i by (auto simp: searchOk_def visitedOk_def leaveNode_def stateOf_def)
  moreover have "settled idx f (leaveNode i s) j" if "stateOf (leaveNode i s) j = Done" for j
  proof (cases "j = i")
    case True
    have "\<not> (includesSkill idx)\<^sup>+\<^sup>+ i i" using ok i ch by (intro no_cycle) (auto simp: includesSkill_def)
    then show ?thesis using True ch by (fastforce simp: settled_def includesSkill_def missingIncludes_def)
  next
    case False
    then show ?thesis using ok that by (auto simp: searchOk_def settled_def)
  qed
  ultimately show "searchOk idx f root (leaveNode i s)" by (simp add: searchOk_def)
qed

text \<open>What a search that returns has done: the invariant again, the ancestry as it was, more nodes finished.\<close>

definition searched :: "catalogIndex \<Rightarrow> bool \<Rightarrow> string \<Rightarrow> searchState \<Rightarrow> includeError option \<times> searchState \<Rightarrow> string set \<Rightarrow> bool" where
  "searched idx f root s r A = (case r of
     (Some e, s') \<Rightarrow> genuineError idx f root e
   | (None, s') \<Rightarrow> searchOk idx f root s' \<and> srAncestry s' = srAncestry s \<and>
       (\<forall>i. i \<in> A \<or> stateOf s i = Done \<longrightarrow> stateOf s' i = Done))"

lemma dfs_correct:
  "dfs n idx f i s = Some r \<Longrightarrow> searchOk idx f root s \<Longrightarrow> nextOk idx root s i \<Longrightarrow> searched idx f root s r {i}"
  "dfsChildren n idx f i cs s = Some r \<Longrightarrow> searchOk idx f root s \<Longrightarrow> srAncestry s \<noteq> [] \<Longrightarrow> last (srAncestry s) = i \<Longrightarrow>
     set cs \<subseteq> set (includesOf idx i) \<Longrightarrow>
     searched idx f root s r {c \<in> set cs. mapHas idx c} \<and> (fst r = None \<and> f \<longrightarrow> (\<forall>c \<in> set cs. mapHas idx c))"
proof (induction n idx f i s and n idx f i cs s arbitrary: r and r rule: dfs_dfsChildren.induct)
  case (2 n idx f i s)
  show ?case
  proof (cases "stateOf s i")
    case Unseen
    let ?e = "enterNode i s"
    obtain e s' where c: "dfsChildren n idx f i (includesOf idx i) ?e = Some (e, s')"
      using "2.prems" Unseen by (auto split: option.splits)
    have a: "srAncestry ?e = srAncestry s @ [i]" by (simp add: enterNode_def)
    have ch: "searched idx f root ?e (e, s') {c \<in> set (includesOf idx i). mapHas idx c}"
      "e = None \<and> f \<longrightarrow> (\<forall>c \<in> set (includesOf idx i). mapHas idx c)"
      using "2.IH"[OF Unseen c] enter_ok[OF "2.prems"(2,3) Unseen] a by auto
    show ?thesis
    proof (cases e)
      case None
      then have "searchOk idx f root s'" "srAncestry s' = srAncestry s @ [i]" using ch a by (auto simp: searched_def)
      note leave = leave_ok[OF this]
      have "r = (None, leaveNode i s')" using "2.prems"(1) Unseen c None by simp
      then show ?thesis using ch None leave by (auto simp: searched_def)
    qed (use "2.prems"(1) Unseen c ch in \<open>auto simp: searched_def\<close>)
  qed (use "2.prems" cycle_genuine in \<open>auto simp: searched_def\<close>)
next
  case (4 n idx f i c cs s)
  show ?case
  proof (cases "mapHas idx c")
    case True
    then obtain e s' where d: "dfs n idx f c s = Some (e, s')" using "4.prems"(1) by (auto split: option.splits)
    have "nextOk idx root s c" using "4.prems" True by (simp add: nextOk_def includesSkill_def)
    then have r1: "searched idx f root s (e, s') {c}" using "4.IH"(2)[OF _ d] True "4.prems"(2) by simp
    show ?thesis
    proof (cases e)
      case None
      then have r2: "dfsChildren n idx f i cs s' = Some r" using "4.prems"(1) True d by simp
      have "srAncestry s' = srAncestry s" "searchOk idx f root s'" using r1 None by (auto simp: searched_def)
      then have "searched idx f root s' r {c \<in> set cs. mapHas idx c} \<and> (fst r = None \<and> f \<longrightarrow> (\<forall>c \<in> set cs. mapHas idx c))"
        using "4.IH"(3)[OF _ d refl None r2] True "4.prems"(3-) by simp
      then show ?thesis using r1 None True by (auto simp: searched_def split: option.splits prod.splits)
    next
      case (Some a)
      then have "r = (Some a, s')" using "4.prems"(1) True d by simp
      then show ?thesis using r1 Some by (simp add: searched_def)
    qed
  next
    case False
    show ?thesis
    proof (cases f)
      case True
      then have "r = (Some (MissingChild c i (srAncestry s)), s)" using "4.prems"(1) False by simp
      then show ?thesis using "4.prems" True False by (auto simp: searched_def searchOk_def ancestryOk_def)
    next
      case nf: False
      then show ?thesis using "4.IH"(1) "4.prems" False by (auto simp: searched_def split: option.splits prod.splits)
    qed
  qed
qed (auto simp: searched_def)

definition onCycle :: "catalogIndex \<Rightarrow> string set \<Rightarrow> string set" where
  "onCycle idx A = {i \<in> A. (includesSkill idx)\<^sup>+\<^sup>+ i i}"

lemma start_ok: "searchOk idx f root startSearch" "nextOk idx root startSearch root"
  by (simp_all add: searchOk_def ancestryOk_def visitedOk_def nextOk_def) (simp_all add: startSearch_def)

lemma validation_ok:
  assumes "validateIncludeGraph root idx f = Some (Inr v)"
  shows "distinct v" "set v = reachable idx root" "onCycle idx (reachable idx root) = {}"
    "f \<Longrightarrow> missingIncludes idx (reachable idx root) = {}"
proof -
  obtain s where d: "dfs (searchFuel idx) idx f root startSearch = Some (None, s)" and v: "v = srVisited s"
    using assms by (auto simp: validateIncludeGraph_def split: option.splits)
  have r: "searchOk idx f root s" "srAncestry s = []" "stateOf s root = Done"
    using dfs_correct(1)[OF d start_ok] by (auto simp: searched_def startSearch_def)
  have closed: "reachable idx root \<subseteq> {i. stateOf s i = Done}" by (rule settled_closed[OF r(1,3)])
  then show "distinct v" "set v = reachable idx root"
    using r by (auto simp: searchOk_def visitedOk_def v)
  show "onCycle idx (reachable idx root) = {}" "f \<Longrightarrow> missingIncludes idx (reachable idx root) = {}"
    using r(1) closed by (fastforce simp: searchOk_def settled_def onCycle_def missingIncludes_def)+
qed

lemma validation_error:
  assumes "validateIncludeGraph root idx f = Some (Inl e)"
  shows "genuineError idx f root e"
proof -
  obtain s where "dfs (searchFuel idx) idx f root startSearch = Some (Some e, s)"
    using assms by (auto simp: validateIncludeGraph_def split: option.splits)
  from dfs_correct(1)[OF this start_ok] show ?thesis by (simp add: searched_def)
qed

lemma path_tranclp:
  "successively R xs \<Longrightarrow> 2 \<le> length xs \<Longrightarrow> R\<^sup>+\<^sup>+ (hd xs) (last xs)"
proof (induction xs)
  case (Cons x xs)
  then obtain y ys where "xs = y # ys" by (cases xs) auto
  then show ?case using Cons by (cases ys) (auto intro: tranclp_into_tranclp2)
qed simp

lemma genuine_defect:
  assumes "genuineError idx f root e"
  shows "f \<and> missingIncludes idx (reachable idx root) \<noteq> {} \<or> onCycle idx (reachable idx root) \<noteq> {}"
proof (cases e)
  case (MissingChild c p path)
  then have "set path \<subseteq> reachable idx root" "last path = p" "path \<noteq> []"
    using assms path_reachable[of idx path root] by auto
  then have "p \<in> reachable idx root" by (metis last_in_set subsetD)
  then show ?thesis using assms MissingChild by (auto simp: missingIncludes_def)
next
  case (CycleFound path)
  then have "(includesSkill idx)\<^sup>+\<^sup>+ (hd path) (hd path)" "path \<noteq> []"
    using assms path_tranclp[of "includesSkill idx" path] by auto
  then show ?thesis using assms CycleFound by (auto simp: onCycle_def intro!: exI[of _ "hd path"])
qed

lemma validation_iff:
  "(\<exists>v. validateIncludeGraph root idx f = Some (Inr v)) \<longleftrightarrow>
    (f \<longrightarrow> missingIncludes idx (reachable idx root) = {}) \<and> onCycle idx (reachable idx root) = {}"
proof (cases "validateIncludeGraph root idx f")
  case (Some r)
  then show ?thesis
    using validation_ok[of root idx f] genuine_defect[OF validation_error, of root idx f]
    by (cases r) auto
qed (use validate_returns in auto)

definition presentIn :: "catalogIndex \<Rightarrow> string list \<Rightarrow> string set" where
  "presentIn idx cs = {c \<in> set cs. mapHas idx c}"

lemma presentIn_Cons:
  "presentIn idx (c # cs) = (if mapHas idx c then insert c (presentIn idx cs) else presentIn idx cs)"
  by (auto simp: presentIn_def)

lemma walk_correct:
  "walkFrom n idx i v = Some v' \<Longrightarrow> distinct v \<Longrightarrow> distinct v' \<and>
     (\<forall>j c. j \<in> set v' - set v \<and> includesSkill idx j c \<longrightarrow> c \<in> set v') \<and> set v' - set v \<subseteq> reachable idx i"
  "walkChildren n idx cs v = Some v' \<Longrightarrow> distinct v \<Longrightarrow> distinct v' \<and>
     (\<forall>j c. j \<in> set v' - set v \<and> includesSkill idx j c \<longrightarrow> c \<in> set v') \<and>
     presentIn idx cs \<subseteq> set v' \<and> set v' - set v \<subseteq> (\<Union>c \<in> presentIn idx cs. reachable idx c)"
proof (induction n idx i v and n idx cs v arbitrary: v' and v' rule: walkFrom_walkChildren.induct)
  case (2 n idx i v)
  show ?case
  proof (cases "i \<in> set v")
    case False
    then have w: "walkChildren n idx (includesOf idx i) (v @ [i]) = Some v'" using "2.prems"(1) by simp
    have d: "distinct (v @ [i])" using "2.prems"(2) False by simp
    have "presentIn idx (includesOf idx i) = {c. includesSkill idx i c}"
      by (simp add: presentIn_def includesSkill_def)
    note ih = "2.IH"[OF False w d, unfolded this]
    have "set v' - set v \<subseteq> reachable idx i"
    proof
      fix j assume j: "j \<in> set v' - set v"
      show "j \<in> reachable idx i"
      proof (cases "j = i")
        case False
        then obtain c where "includesSkill idx i c" "j \<in> reachable idx c" using ih j by auto
        then show ?thesis by (rule reachable_trans[OF reachable_step[OF reachable_root]])
      qed simp
    qed
    moreover have "c \<in> set v'" if "j \<in> set v' - set v" "includesSkill idx j c" for j c
      using ih that by (cases "j = i") auto
    ultimately show ?thesis using ih by blast
  qed (use "2.prems" in auto)
next
  case (4 n idx c cs v)
  show ?case
  proof (cases "c \<in> set v \<or> \<not> mapHas idx c")
    case True
    then have w: "walkChildren n idx cs v = Some v'" using "4.prems"(1) by auto
    note ih = "4.IH"(1)[OF True w "4.prems"(2)]
    have "presentIn idx (c # cs) \<subseteq> set v'"
      using ih True visit_grows(2)[OF w] by (auto simp: presentIn_Cons)
    moreover have "set v' - set v \<subseteq> (\<Union>c \<in> presentIn idx (c # cs). reachable idx c)"
      using ih by (auto simp: presentIn_Cons)
    ultimately show ?thesis using ih by blast
  next
    case False
    then obtain u where u: "walkFrom n idx c v = Some u" "walkChildren n idx cs u = Some v'"
      using "4.prems"(1) by (auto split: option.splits)
    have ih1: "distinct u" "\<And>j d. j \<in> set u - set v \<Longrightarrow> includesSkill idx j d \<Longrightarrow> d \<in> set u"
      "set u - set v \<subseteq> reachable idx c"
      using "4.IH"(2)[OF False u(1) "4.prems"(2)] by auto
    note ih2 = "4.IH"(3)[OF False u ih1(1)]
    have g: "insert c (set v) \<subseteq> set u" "set u \<subseteq> set v'" using visit_grows u by blast+
    have "\<forall>j d. j \<in> set v' - set v \<and> includesSkill idx j d \<longrightarrow> d \<in> set v'" using ih1(2) ih2 g by blast
    moreover have "set v' - set v \<subseteq> (\<Union>c \<in> presentIn idx (c # cs). reachable idx c)"
      using ih1(3) ih2 False by (auto simp: presentIn_Cons)
    moreover have "presentIn idx (c # cs) \<subseteq> set v'" using ih2 g False by (auto simp: presentIn_Cons)
    ultimately show ?thesis using ih2 by blast
  qed
qed (auto simp: presentIn_def)

lemma traverse_exact:
  assumes "traverseIncludes root idx = Some v"
  shows "distinct v" "set v = reachable idx root"
proof -
  have w: "walkFrom (searchFuel idx) idx root [] = Some v" using assms by (simp add: traverseIncludes_def)
  show "distinct v" using walk_correct(1)[OF w] by simp
  have "reachable idx root \<subseteq> set v"
    using walk_correct(1)[OF w] visit_grows(1)[OF w] by (intro reachable_closed) auto
  then show "set v = reachable idx root" using walk_correct(1)[OF w] by auto
qed

definition absentIn :: "catalogIndex \<Rightarrow> string list \<Rightarrow> string set" where
  "absentIn idx cs = {c \<in> set cs. \<not> mapHas idx c}"

lemma absentIn_simps [simp]:
  "absentIn idx [] = {}"
  "absentIn idx (c # cs) = (if mapHas idx c then absentIn idx cs else insert c (absentIn idx cs))"
  by (auto simp: absentIn_def)

lemma missingIncludes_simps [simp]:
  "missingIncludes idx {} = {}"
  "missingIncludes idx (insert i A) = absentIn idx (includesOf idx i) \<union> missingIncludes idx A"
  by (auto simp: missingIncludes_def absentIn_def)

lemma missingIncludes_union: "missingIncludes idx (A \<union> B) = missingIncludes idx A \<union> missingIncludes idx B"
  by (auto simp: missingIncludes_def)

lemma missing_sets:
  "missingFrom n idx i vm = Some vm' \<Longrightarrow> set (fst vm) \<subseteq> set (fst vm') \<and>
     set (snd vm') = set (snd vm) \<union> missingIncludes idx (set (fst vm') - set (fst vm))"
  "missingChildren n idx cs vm = Some vm' \<Longrightarrow> set (fst vm) \<subseteq> set (fst vm') \<and>
     set (snd vm') = set (snd vm) \<union> absentIn idx cs \<union> missingIncludes idx (set (fst vm') - set (fst vm))"
proof (induction n idx i vm and n idx cs vm arbitrary: vm' and vm' rule: missingFrom_missingChildren.induct)
  case (2 n idx i v m)
  show ?case
  proof (cases "i \<in> set v")
    case False
    then have w: "missingChildren n idx (includesOf idx i) (v @ [i], m) = Some vm'" using "2.prems" by simp
    note ih = "2.IH"[OF False w]
    have "set (fst vm') - set v = insert i (set (fst vm') - set (v @ [i]))" using ih False by auto
    then show ?thesis using ih by auto
  qed (use "2.prems" in auto)
next
  case (4 n idx c cs v m)
  show ?case
  proof (cases "mapHas idx c \<and> c \<notin> set v")
    case True
    then have h: "\<not> \<not> mapHas idx c" "c \<notin> set v" by simp_all
    then obtain u where u: "missingFrom n idx c (v, m) = Some u" "missingChildren n idx cs u = Some vm'"
      using "4.prems" by (auto split: option.splits)
    note ih = "4.IH"(2)[OF h u(1)] "4.IH"(3)[OF h u(1) u(2)]
    have "set (fst vm') - set v = (set (fst u) - set v) \<union> (set (fst vm') - set (fst u))" using ih by auto
    then show ?thesis using ih True by (auto simp: missingIncludes_union)
  next
    case False
    then show ?thesis using "4.IH"(1,4) "4.prems" by (auto split: if_splits)
  qed
qed auto

lemma missing_exact:
  assumes "collectAllMissing root idx = Some m"
  shows "set m = missingIncludes idx (reachable idx root)"
proof -
  obtain v where f: "missingFrom (searchFuel idx) idx root ([], []) = Some (v, m)"
    using assms by (auto simp: collectAllMissing_def)
  then have "traverseIncludes root idx = Some v"
    using missing_visits(1)[of "searchFuel idx" idx root "([], [])"] by (simp add: traverseIncludes_def)
  from traverse_exact(2)[OF this] show ?thesis using missing_sets(1)[OF f] by simp
qed

section \<open>Properties\<close>

text \<open>C23: The searches of the include graph return, for every catalog and every root, on graphs with cycles and
  with missing skills: the recursion is never deeper than the catalog is long, plus one.\<close>

theorem include_searches_return:
  "validateIncludes root idx \<noteq> None \<and> validateIncludeCycles root idx \<noteq> None \<and>
   traverseIncludes root idx \<noteq> None \<and> collectAllMissing root idx \<noteq> None"
  using validate_returns traverse_returns missing_returns
  by (simp add: validateIncludes_def validateIncludeCycles_def)

text \<open>C22: The validation accepts exactly the roots from which no missing skill and no cycle can be reached, and
  the cycle check exactly those from which no cycle can. An accepted root's list holds the reachable skills,
  each once. A rejection is genuine: it names a path of the graph from the root to the skill with the missing
  include, or a reachable path that closes on itself.\<close>

theorem include_validation_exact:
  "((\<exists>v. validateIncludes root idx = Some (Inr v)) =
      (missingIncludes idx (reachable idx root) = {} \<and> onCycle idx (reachable idx root) = {})) \<and>
   ((\<exists>v. validateIncludeCycles root idx = Some (Inr v)) = (onCycle idx (reachable idx root) = {})) \<and>
   (case validateIncludes root idx of
      None \<Rightarrow> False
    | Some (Inl e) \<Rightarrow> genuineError idx True root e
    | Some (Inr v) \<Rightarrow> distinct v \<and> set v = reachable idx root)"
  using validation_iff[of root idx] validation_ok(1,2)[of root idx True] validation_error[of root idx True]
    validate_returns[of root idx True]
  by (auto simp: validateIncludes_def validateIncludeCycles_def split: option.splits sum.splits)

text \<open>The traversal lists exactly the skills reachable from the root, each once, whatever cycles the graph has;
  and the ids collected as missing are exactly the includes of reachable skills that the catalog does not have.\<close>

theorem include_walks_exact:
  "distinct (the (traverseIncludes root idx)) \<and> set (the (traverseIncludes root idx)) = reachable idx root \<and>
   set (the (collectAllMissing root idx)) = missingIncludes idx (reachable idx root)"
  using traverse_exact[of root idx] missing_exact[of root idx] traverse_returns[of root idx] missing_returns[of root idx]
  by (auto simp del: not_None_eq simp: option.the_def split: option.splits)

end
