(* ===== verification/SkillHash.thy ===== *)
theory SkillHash
  imports FileSystem IncludeGraph
begin

text \<open>
  The version hash of a skill directory, \<open>assistant/src/skills/version-hash.ts\<close>, and of a skill with all
  it includes, \<open>assistant/src/skills/transitive-version-hash.ts\<close>.

  The directory is an absolute path of the file system of theory \<open>FileSystem\<close>. SHA-256 (its hexadecimal
  digest) is an argument, and so is \<open>readdir\<close>, which lists the entries of a real directory in any order;
  strings stand for bytes. The recursion through links is bounded by fuel, which is proved to be enough.
\<close>

section \<open>The files of a directory\<close>

definition EXCLUDED_NAMES :: "string list" where
  "EXCLUDED_NAMES = [''.vellum-skill-run'', ''node_modules'', ''.git'', ''__pycache__'', ''.DS_Store'']"

text \<open>\<open>lstatSync\<close> does not follow a link in the last segment, \<open>statSync\<close> does.\<close>

definition nodeAt :: "fileTree \<Rightarrow> string list \<Rightarrow> node option" where
  "nodeAt t q = (if q = [] then Some DirNode else t q)"

definition lstatSync :: "fileTree \<Rightarrow> string \<Rightarrow> node option" where
  "lstatSync t p =
    (let ss = splitOn slash p in
     if last ss = [] \<or> last ss = ''.'' \<or> last ss = ''..'' then Option.bind (locate t p) (nodeAt t)
     else Option.bind (walk t False MAXSYMLINKS [] (butlast ss)) (\<lambda>d. t (d @ [last ss])))"

definition statSync :: "fileTree \<Rightarrow> string \<Rightarrow> node option" where
  "statSync t p = Option.bind (locate t p) (nodeAt t)"

definition readdirSync :: "(string list \<Rightarrow> string list) \<Rightarrow> fileTree \<Rightarrow> string \<Rightarrow> string list option" where
  "readdirSync readdir t p =
    (case locate t p of
       None \<Rightarrow> None
     | Some q \<Rightarrow> if nodeAt t q = Some DirNode then Some (readdir q) else None)"

text \<open>\<open>relative\<close> of \<open>node:path\<close>.\<close>

definition relativePath :: "string \<Rightarrow> string \<Rightarrow> string \<Rightarrow> string" where
  "relativePath cwd a b =
    (let f = resolveSegs cwd [a]; t = resolveSegs cwd [b]; n = length (longest_common_prefix f t) in
     join [slash] (replicate (length f - n) ''..'' @ drop n t))"

text \<open>What an entry is: nothing to collect, a directory, also through a link, or a file.\<close>

datatype entryKind = NoEntry | DirEntry | FileEntry

fun kindOf :: "node option \<Rightarrow> entryKind" where
  "kindOf (Some DirNode) = DirEntry"
| "kindOf (Some (FileNode c)) = FileEntry"
| "kindOf _ = NoEntry"

definition classifyEntry :: "fileTree \<Rightarrow> string \<Rightarrow> string \<Rightarrow> entryKind" where
  "classifyEntry t cwd full =
    (case lstatSync t full of
       Some (LinkNode target) \<Rightarrow>
         (case realpathSync t cwd full of None \<Rightarrow> NoEntry | Some resolved \<Rightarrow> kindOf (statSync t resolved))
     | n \<Rightarrow> kindOf n)"

function (sequential) collectFiles ::
    "nat \<Rightarrow> (string list \<Rightarrow> string list) \<Rightarrow> fileTree \<Rightarrow> string \<Rightarrow> string \<Rightarrow> string list \<Rightarrow> string \<Rightarrow> string list option"
  and collectItems ::
    "nat \<Rightarrow> (string list \<Rightarrow> string list) \<Rightarrow> fileTree \<Rightarrow> string \<Rightarrow> string \<Rightarrow> string list \<Rightarrow> string \<Rightarrow> string list \<Rightarrow> string list option" where
  "collectFiles 0 readdir t cwd base ancestors dir = None"
| "collectFiles (Suc n) readdir t cwd base ancestors dir =
     (case realpathSync t cwd dir of
        None \<Rightarrow> Some []
      | Some real \<Rightarrow>
          if real \<in> set ancestors then Some []
          else (case readdirSync readdir t dir of
                  None \<Rightarrow> Some []
                | Some items \<Rightarrow> collectItems n readdir t cwd base (real # ancestors) dir (sort items)))"
| "collectItems n readdir t cwd base ancestors dir [] = Some []"
| "collectItems n readdir t cwd base ancestors dir (name # names) =
     (if name \<in> set EXCLUDED_NAMES then collectItems n readdir t cwd base ancestors dir names
      else
        (let full = joinPaths [dir, name] in
         case (case classifyEntry t cwd full of
                 NoEntry \<Rightarrow> Some []
               | DirEntry \<Rightarrow> collectFiles n readdir t cwd base ancestors full
               | FileEntry \<Rightarrow> Some [relativePath cwd base full]) of
           None \<Rightarrow> None
         | Some here \<Rightarrow> map_option (\<lambda>rest. here @ rest) (collectItems n readdir t cwd base ancestors dir names)))"
  by pat_completeness auto
termination
  by (relation "measures [\<lambda>x. case x of Inl (n, _) \<Rightarrow> n | Inr (n, _) \<Rightarrow> n,
      \<lambda>x. case x of Inl _ \<Rightarrow> 0 | Inr (n, rd, t, cwd, b, a, d, names) \<Rightarrow> Suc (length names)]") auto

section \<open>The hash of a directory\<close>

text \<open>The outer \<open>None\<close>: the recursion runs out of fuel; \<open>ReadFailed\<close>: the exception of \<open>readFileSync\<close>.\<close>

datatype hashFailure = ReadFailed string

fun readAll :: "fileTree \<Rightarrow> string \<Rightarrow> string list \<Rightarrow> hashFailure + (string \<times> string) list" where
  "readAll t skillDir [] = Inr []"
| "readAll t skillDir (p # ps) =
     (case readFileSync t (joinPaths [skillDir, p]) of
        None \<Rightarrow> Inl (ReadFailed p)
      | Some content \<Rightarrow>
          (case readAll t skillDir ps of Inl e \<Rightarrow> Inl e | Inr rest \<Rightarrow> Inr ((p, content) # rest)))"

definition normalizedPath :: "string \<Rightarrow> string" where
  "normalizedPath = map (\<lambda>c. if c = CHR 0x5C then slash else c)"

definition fileText :: "string \<times> string \<Rightarrow> string" where
  "fileText pc = normalizedPath (fst pc) @ [NUL] @ showNat (length (snd pc)) @ [NUL] @ snd pc @ [CHR 0x0A]"

definition versionText :: "(string \<times> string) list \<Rightarrow> string" where
  "versionText pcs = concat (map fileText pcs)"

text \<open>The disk as the hash reads it.\<close>

record skillDisk =
  sdFuel :: nat
  sdReaddir :: "string list \<Rightarrow> string list"
  sdTree :: fileTree
  sdCwd :: string

definition skillFiles :: "skillDisk \<Rightarrow> string \<Rightarrow> (hashFailure + (string \<times> string) list) option" where
  "skillFiles d skillDir =
    map_option (readAll (sdTree d) skillDir)
      (collectFiles (sdFuel d) (sdReaddir d) (sdTree d) (sdCwd d) skillDir [] skillDir)"

definition computeSkillVersionHash :: "(string \<Rightarrow> string) \<Rightarrow> skillDisk \<Rightarrow> string \<Rightarrow> (hashFailure + string) option" where
  "computeSkillVersionHash sha256 d skillDir =
    map_option (\<lambda>r. case r of Inl e \<Rightarrow> Inl e | Inr pcs \<Rightarrow> Inr (''v1:'' @ sha256 (versionText pcs))) (skillFiles d skillDir)"

section \<open>The transitive hash\<close>

text \<open>\<open>HashCycle\<close> and \<open>HashMissing\<close> are the two codes of \<open>TransitiveHashError\<close>.\<close>

datatype transitiveHashError = HashCycle "string list" | HashMissing string | DirectoryFailed hashFailure

fun hashedText :: "(string \<Rightarrow> string) \<Rightarrow> skillDisk \<Rightarrow> catalogIndex \<Rightarrow> string list \<Rightarrow> (transitiveHashError + string) option" where
  "hashedText sha256 d idx [] = Some (Inr [])"
| "hashedText sha256 d idx (i # is') =
     (case mapGet idx i of
        None \<Rightarrow> Some (Inl (HashMissing i))
      | Some skill \<Rightarrow>
         (case computeSkillVersionHash sha256 d (skDirectoryPath skill) of
            None \<Rightarrow> None
          | Some (Inl e) \<Rightarrow> Some (Inl (DirectoryFailed e))
          | Some (Inr dirHash) \<Rightarrow>
             (case hashedText sha256 d idx is' of
                None \<Rightarrow> None
              | Some (Inl e) \<Rightarrow> Some (Inl e)
              | Some (Inr rest) \<Rightarrow> Some (Inr (i @ [NUL] @ dirHash @ [CHR 0x0A] @ rest)))))"

definition computeTransitiveSkillVersionHash ::
  "(string \<Rightarrow> string) \<Rightarrow> skillDisk \<Rightarrow> string \<Rightarrow> catalogIndex \<Rightarrow> (transitiveHashError + string) option" where
  "computeTransitiveSkillVersionHash sha256 d root idx =
    (case validateIncludes root idx of
       None \<Rightarrow> None
     | Some (Inl (CycleFound p)) \<Rightarrow> Some (Inl (HashCycle p))
     | Some (Inl (MissingChild c p path)) \<Rightarrow> Some (Inl (HashMissing c))
     | Some (Inr visited) \<Rightarrow>
         map_option (\<lambda>r. case r of Inl e \<Rightarrow> Inl e | Inr text \<Rightarrow> Inr (''tv1:'' @ sha256 text))
           (hashedText sha256 d idx visited))"

section \<open>The recursion ends\<close>

text \<open>The real paths of the tree that are not yet on the stack of the recursion.\<close>

definition freeReal :: "fileTree \<Rightarrow> string list \<Rightarrow> string set" where
  "freeReal t ancestors = absPath ` {q. realNode t q} - set ancestors"

lemma finite_real: "finite (dom t) \<Longrightarrow> finite {q. realNode t q}"
  by (rule finite_subset[of _ "insert [] (dom t)"]) (auto simp: realNode_def)

lemma card_real: "finite (dom t) \<Longrightarrow> card {q. realNode t q} \<le> Suc (card (dom t))"
proof -
  assume fin: "finite (dom t)"
  have "card {q. realNode t q} \<le> card (insert [] (dom t))"
    using fin by (intro card_mono) (auto simp: realNode_def)
  also have "\<dots> \<le> Suc (card (dom t))" by (rule card_insert_le_m1[of "Suc (card (dom t))", simplified]) simp
  finally show ?thesis .
qed

lemma finite_freeReal [simp]: "finite (dom t) \<Longrightarrow> finite (freeReal t ancestors)"
  by (simp add: freeReal_def finite_real)

lemma card_freeReal: "finite (dom t) \<Longrightarrow> card (freeReal t ancestors) \<le> Suc (card (dom t))"
proof -
  assume fin: "finite (dom t)"
  have "card (freeReal t ancestors) \<le> card (absPath ` {q. realNode t q})"
    unfolding freeReal_def using fin by (intro card_mono finite_imageI finite_real) auto
  also have "\<dots> \<le> card {q. realNode t q}" using fin by (intro card_image_le finite_real)
  finally show ?thesis using card_real[OF fin] by simp
qed

lemma realpath_real: "realpathSync t cwd p = Some r \<Longrightarrow> r \<in> absPath ` {q. realNode t q}"
  using walk_clean_real[OF clean_resolveSegs] by (auto simp: realpathSync_def)

lemma collect_enough:
  "finite (dom t) \<Longrightarrow> card (freeReal t ancestors) < n \<Longrightarrow> collectFiles n readdir t cwd base ancestors dir \<noteq> None"
  "finite (dom t) \<Longrightarrow> card (freeReal t ancestors) < n \<Longrightarrow> collectItems n readdir t cwd base ancestors dir names \<noteq> None"
proof (induction n readdir t cwd base ancestors dir and n readdir t cwd base ancestors dir names
    rule: collectFiles_collectItems.induct)
  case (2 n readdir t cwd base ancestors dir)
  have "card (freeReal t (r # ancestors)) < n"
    if "realpathSync t cwd dir = Some r" "r \<notin> set ancestors" for r
  proof -
    have r: "r \<in> freeReal t ancestors" using that realpath_real by (auto simp: freeReal_def)
    have "freeReal t (r # ancestors) = freeReal t ancestors - {r}" by (auto simp: freeReal_def)
    then have "card (freeReal t (r # ancestors)) < card (freeReal t ancestors)"
      using r "2.prems"(1) by (simp only: card_Diff1_less finite_freeReal)
    then show ?thesis using "2.prems"(2) by simp
  qed
  then show ?case using "2.IH" "2.prems"(1) by (auto split: option.splits)
next
  case (4 n readdir t cwd base ancestors dir name names)
  show ?case
  proof (cases "name \<in> set EXCLUDED_NAMES")
    case True
    then show ?thesis using "4.IH"(1) "4.prems" by simp
  next
    case False
    note rest = "4.IH"(3)[OF False refl _ "4.prems"] and sub = "4.IH"(2)[OF False refl _ "4.prems"]
    show ?thesis
      by (cases "classifyEntry t cwd (joinPaths [dir, name])") (use False rest sub in auto)
  qed
qed auto

lemma collect_more:
  "collectFiles n readdir t cwd base ancestors dir = Some ps \<Longrightarrow> n \<le> m \<Longrightarrow>
     collectFiles m readdir t cwd base ancestors dir = Some ps"
  "collectItems n readdir t cwd base ancestors dir names = Some ps \<Longrightarrow> n \<le> m \<Longrightarrow>
     collectItems m readdir t cwd base ancestors dir names = Some ps"
proof (induction n readdir t cwd base ancestors dir and n readdir t cwd base ancestors dir names
    arbitrary: m ps and m ps rule: collectFiles_collectItems.induct)
  case (2 n readdir t cwd base ancestors dir)
  then obtain k where k: "m = Suc k" "n \<le> k" by (cases m) auto
  show ?case
  proof (cases "realpathSync t cwd dir")
    case (Some r)
    show ?thesis
    proof (cases "r \<in> set ancestors \<or> readdirSync readdir t dir = None")
      case False
      then obtain items where i: "r \<notin> set ancestors" "readdirSync readdir t dir = Some items" by auto
      show ?thesis using "2.IH"[OF Some i _ k(2)] "2.prems"(1) Some i k(1) by simp
    qed (use "2.prems"(1) Some k in auto)
  qed (use "2.prems"(1) k in simp)
next
  case (4 n readdir t cwd base ancestors dir name names)
  show ?case
  proof (cases "name \<in> set EXCLUDED_NAMES")
    case True
    then have "collectItems n readdir t cwd base ancestors dir names = Some ps" using "4.prems"(1) by simp
    then have "collectItems m readdir t cwd base ancestors dir names = Some ps"
      by (rule "4.IH"(1)[OF True _ "4.prems"(2)])
    then show ?thesis using True by simp
  next
    case False
    let ?full = "joinPaths [dir, name]"
    have rest: "collectItems m readdir t cwd base ancestors dir names = Some r"
      if "(case classifyEntry t cwd ?full of NoEntry \<Rightarrow> Some []
            | DirEntry \<Rightarrow> collectFiles n readdir t cwd base ancestors ?full
            | FileEntry \<Rightarrow> Some [relativePath cwd base ?full]) = Some h"
         "collectItems n readdir t cwd base ancestors dir names = Some r" for h r
      by (rule "4.IH"(3)[OF False refl that "4.prems"(2)])
    show ?thesis
    proof (cases "classifyEntry t cwd ?full")
      case DirEntry
      then obtain h r where h: "collectFiles n readdir t cwd base ancestors ?full = Some h"
        "collectItems n readdir t cwd base ancestors dir names = Some r" "ps = h @ r"
        using "4.prems"(1) False by (auto simp: Let_def split: option.splits)
      then show ?thesis
        using "4.IH"(2)[OF False refl DirEntry h(1) "4.prems"(2)] rest[of h r] False DirEntry by (simp add: Let_def)
    qed (use rest "4.prems"(1) False in \<open>auto simp: Let_def\<close>)
  qed
qed auto

section \<open>Characters of the collected paths\<close>

abbreviation lacks :: "string list \<Rightarrow> char \<Rightarrow> bool" where
  "lacks ss c \<equiv> (\<forall>s \<in> set ss. c \<notin> set s)"

lemma normSegs_lacks: "lacks acc c \<Longrightarrow> lacks ss c \<Longrightarrow> c \<noteq> CHR ''.'' \<Longrightarrow> lacks (normSegs up acc ss) c"
proof (induction up acc ss rule: normSegs.induct)
  case (2 up acc s ss)
  have "lacks (butlast acc) c" using "2.prems"(1) by (meson in_set_butlastD)
  then show ?case using 2 by auto
qed simp

lemma joinPaths_lacks:
  assumes "lacks ps c" "c \<noteq> slash" "c \<noteq> CHR ''.''"
  shows "c \<notin> set (joinPaths ps)"
proof -
  let ?p = "join [slash] (filter (\<lambda>p. p \<noteq> []) ps)"
  have "c \<notin> set ?p" using set_join[of "[slash]" "filter (\<lambda>p. p \<noteq> []) ps"] assms by auto
  then have "lacks (normSegs (\<not> isAbsolute ?p) [] (splitOn slash ?p)) c"
    using splitOn_subset assms(3) by (intro normSegs_lacks) fastforce+
  then have "c \<notin> set (join [slash] (normSegs (\<not> isAbsolute ?p) [] (splitOn slash ?p)))"
    using set_join[of "[slash]"] assms(2) by fastforce
  then show ?thesis using assms by (auto simp: joinPaths_def normalize_def Let_def)
qed

lemma resolveSegs_lacks: "c \<notin> set cwd \<Longrightarrow> c \<notin> set p \<Longrightarrow> c \<noteq> CHR ''.'' \<Longrightarrow> lacks (resolveSegs cwd [p]) c"
  unfolding resolveSegs_def by (intro normSegs_lacks) (use splitOn_subset in \<open>fastforce split: if_splits\<close>)+

lemma relativePath_lacks:
  assumes "c \<notin> set cwd" "c \<notin> set b" "c \<noteq> slash" "c \<noteq> CHR ''.''"
  shows "c \<notin> set (relativePath cwd a b)"
proof -
  let ?ss = "\<lambda>k n. replicate k ''..'' @ drop n (resolveSegs cwd [b])"
  have "lacks (?ss k n) c" for k n
    using resolveSegs_lacks[OF assms(1,2,4)] assms(4) by (auto dest: in_set_dropD)
  then have "c \<notin> set (join [slash] (?ss k n))" for k n
    using set_join[of "[slash]" "?ss k n"] assms(3) by fastforce
  then show ?thesis by (simp add: relativePath_def Let_def)
qed

lemma collect_lacks:
  "collectFiles n readdir t cwd base ancestors dir = Some ps \<Longrightarrow> (\<And>q. lacks (readdir q) c) \<Longrightarrow> c \<notin> set cwd \<Longrightarrow>
     c \<notin> set dir \<Longrightarrow> c \<noteq> slash \<Longrightarrow> c \<noteq> CHR ''.'' \<Longrightarrow> lacks ps c"
  "collectItems n readdir t cwd base ancestors dir names = Some ps \<Longrightarrow> (\<And>q. lacks (readdir q) c) \<Longrightarrow> c \<notin> set cwd \<Longrightarrow>
     c \<notin> set dir \<Longrightarrow> c \<noteq> slash \<Longrightarrow> c \<noteq> CHR ''.'' \<Longrightarrow> lacks names c \<Longrightarrow> lacks ps c"
proof (induction n readdir t cwd base ancestors dir and n readdir t cwd base ancestors dir names
    arbitrary: ps and ps rule: collectFiles_collectItems.induct)
  case (2 n readdir t cwd base ancestors dir)
  show ?case
  proof (cases "realpathSync t cwd dir")
    case (Some r)
    show ?thesis
    proof (cases "r \<in> set ancestors \<or> readdirSync readdir t dir = None")
      case False
      then obtain items where i: "r \<notin> set ancestors" "readdirSync readdir t dir = Some items" by auto
      have "lacks items c" using i(2) "2.prems"(2) by (auto simp: readdirSync_def split: option.splits if_splits)
      then show ?thesis using "2.IH"[OF Some i _ "2.prems"(2-6)] "2.prems"(1) Some i by simp
    qed (use "2.prems"(1) Some in \<open>auto split: if_splits\<close>)
  qed (use "2.prems"(1) in simp)
next
  case (4 n readdir t cwd base ancestors dir name names)
  show ?case
  proof (cases "name \<in> set EXCLUDED_NAMES")
    case True
    then show ?thesis using "4.IH"(1)[OF True _ "4.prems"(2-6)] "4.prems"(1,7) by simp
  next
    case False
    let ?full = "joinPaths [dir, name]"
    have full: "c \<notin> set ?full" using "4.prems"(4-7) by (intro joinPaths_lacks) auto
    obtain h r where h: "(case classifyEntry t cwd ?full of NoEntry \<Rightarrow> Some []
            | DirEntry \<Rightarrow> collectFiles n readdir t cwd base ancestors ?full
            | FileEntry \<Rightarrow> Some [relativePath cwd base ?full]) = Some h"
        "collectItems n readdir t cwd base ancestors dir names = Some r" "ps = h @ r"
      using "4.prems"(1) False by (auto simp: Let_def split: option.split_asm)
    have "lacks r c" by (rule "4.IH"(3)[OF False refl h(1,2) "4.prems"(2-6)]) (use "4.prems"(7) in simp)
    moreover have "lacks h c"
      using "4.IH"(2)[OF False refl _ _ "4.prems"(2,3) full "4.prems"(5,6), of h] h(1)
        relativePath_lacks[OF "4.prems"(3) full "4.prems"(5,6)]
      by (cases "classifyEntry t cwd ?full") auto
    ultimately show ?thesis using h(3) by auto
  qed
qed auto

section \<open>What the hash covers\<close>

lemma NUL_normalizedPath: "NUL \<notin> set p \<Longrightarrow> NUL \<notin> set (normalizedPath p)"
  by (auto simp: normalizedPath_def NUL_def)

lemma fileText_cancel:
  assumes "NUL \<notin> set p" "NUL \<notin> set p'" "fileText (p, x) @ u = fileText (p', x') @ u'"
  shows "normalizedPath p = normalizedPath p' \<and> x = x' \<and> u = u'"
proof -
  have "normalizedPath p = normalizedPath p' \<and>
      showNat (length x) @ NUL # x @ CHR 0x0A # u = showNat (length x') @ NUL # x' @ CHR 0x0A # u'"
    using assms by (intro split_first[OF NUL_normalizedPath NUL_normalizedPath]) (simp_all add: fileText_def)
  then have p: "normalizedPath p = normalizedPath p'"
    and "showNat (length x) = showNat (length x') \<and> x @ CHR 0x0A # u = x' @ CHR 0x0A # u'"
    using split_first[OF NUL_showNat NUL_showNat] by auto
  then show ?thesis using showNat_inj[of "length x" "length x'"] by simp
qed

lemma fileText_not_Nil: "fileText pc \<noteq> []"
  by (simp add: fileText_def)

lemma versionText_inj:
  "versionText xs = versionText ys \<Longrightarrow> lacks (map fst xs) NUL \<Longrightarrow> lacks (map fst ys) NUL \<Longrightarrow>
     map (map_prod normalizedPath id) xs = map (map_prod normalizedPath id) ys"
proof (induction xs arbitrary: ys)
  case Nil
  then show ?case using fileText_not_Nil by (cases ys) (auto simp: versionText_def)
next
  case (Cons x xs)
  then obtain y ys' where ys: "ys = y # ys'" using fileText_not_Nil by (cases ys) (auto simp: versionText_def)
  obtain p c p' c' where xy: "x = (p, c)" "y = (p', c')" by fastforce
  have "fileText (p, c) @ versionText xs = fileText (p', c') @ versionText ys'"
    using Cons.prems(1) ys xy by (simp add: versionText_def)
  then have "normalizedPath p = normalizedPath p' \<and> c = c' \<and> versionText xs = versionText ys'"
    using Cons.prems(2,3) ys xy by (intro fileText_cancel) auto
  then show ?case using Cons.IH[of ys'] Cons.prems ys xy by simp
qed

lemma readAll_paths: "readAll t dir ps = Inr pcs \<Longrightarrow> map fst pcs = ps"
  by (induction ps arbitrary: pcs) (auto split: option.splits sum.splits)

text \<open>A disk whose names, as on every POSIX system, have no NUL.\<close>

definition plainNames :: "skillDisk \<Rightarrow> bool" where
  "plainNames d \<longleftrightarrow> (\<forall>q. lacks (sdReaddir d q) NUL) \<and> NUL \<notin> set (sdCwd d)"

lemma skillFiles_lacks:
  assumes "skillFiles d dir = Some (Inr pcs)" "plainNames d" "NUL \<notin> set dir"
  shows "lacks (map fst pcs) NUL"
proof -
  obtain ps where ps: "collectFiles (sdFuel d) (sdReaddir d) (sdTree d) (sdCwd d) dir [] dir = Some ps"
    "readAll (sdTree d) dir ps = Inr pcs"
    using assms(1) by (auto simp: skillFiles_def)
  have "lacks ps NUL"
    by (rule collect_lacks(1)[OF ps(1)]) (use assms(2,3) in \<open>auto simp: plainNames_def NUL_def\<close>)
  then show ?thesis by (simp only: readAll_paths[OF ps(2)])
qed

lemma computeHash_files:
  assumes "computeSkillVersionHash sha256 d dir = Some (Inr h)"
  shows "\<exists>pcs. skillFiles d dir = Some (Inr pcs) \<and> h = ''v1:'' @ sha256 (versionText pcs)"
proof -
  obtain r where "skillFiles d dir = Some r" "(case r of Inl e \<Rightarrow> Inl e | Inr pcs \<Rightarrow> Inr (''v1:'' @ sha256 (versionText pcs))) = Inr h"
    using assms by (auto simp: computeSkillVersionHash_def)
  then show ?thesis by (cases r) auto
qed

text \<open>Two directories have the same hash exactly when the same texts stand under the same normalised paths, in
  the same order, or the digest maps two different texts to one value.\<close>

lemma hash_files:
  assumes "plainNames d" "plainNames d'" "NUL \<notin> set dir" "NUL \<notin> set dir'"
    "skillFiles d dir = Some (Inr pcs)" "skillFiles d' dir' = Some (Inr pcs')"
    "computeSkillVersionHash sha256 d dir = Some (Inr h)" "computeSkillVersionHash sha256 d' dir' = Some (Inr h)"
  shows "map (map_prod normalizedPath id) pcs = map (map_prod normalizedPath id) pcs' \<or>
    versionText pcs \<noteq> versionText pcs' \<and> sha256 (versionText pcs) = sha256 (versionText pcs')"
  using versionText_inj[of pcs pcs'] skillFiles_lacks[OF assms(5,1,3)] skillFiles_lacks[OF assms(6,2,4)]
    computeHash_files[OF assms(7)] computeHash_files[OF assms(8)] assms(5,6) by auto

lemma hash_same_files:
  assumes "skillFiles d dir = Some (Inr pcs)" "skillFiles d' dir' = Some (Inr pcs')"
    "map (map_prod normalizedPath id) pcs = map (map_prod normalizedPath id) pcs'"
  shows "computeSkillVersionHash sha256 d dir = computeSkillVersionHash sha256 d' dir'"
proof -
  have "map fileText xs = map (\<lambda>(p, c). p @ [NUL] @ showNat (length c) @ [NUL] @ c @ [CHR 0x0A])
      (map (map_prod normalizedPath id) xs)" for xs
    by (induction xs) (auto simp: fileText_def)
  from this[of pcs] this[of pcs'] have "map fileText pcs = map fileText pcs'" by (simp only: assms(3))
  then show ?thesis using assms(1,2) by (simp add: computeSkillVersionHash_def versionText_def)
qed

section \<open>What the transitive hash covers\<close>

text \<open>The hash of the directory of a skill, as far as there is one.\<close>

definition directoryHash :: "(string \<Rightarrow> string) \<Rightarrow> skillDisk \<Rightarrow> catalogIndex \<Rightarrow> string \<Rightarrow> string option" where
  "directoryHash sha256 d idx i =
    (case mapGet idx i of
       None \<Rightarrow> None
     | Some skill \<Rightarrow>
         (case computeSkillVersionHash sha256 d (skDirectoryPath skill) of Some (Inr h) \<Rightarrow> Some h | _ \<Rightarrow> None))"

lemma hashedText_ConsE:
  assumes "hashedText sha256 d idx (i # is') = Some (Inr body)"
  obtains h rest where "directoryHash sha256 d idx i = Some h" "hashedText sha256 d idx is' = Some (Inr rest)"
    "body = i @ NUL # h @ CHR 0x0A # rest"
  using assms by (auto simp: directoryHash_def split: option.splits sum.splits)

lemma directoryHash_text:
  assumes "directoryHash sha256 d idx i = Some h" "\<And>x. CHR 0x0A \<notin> set (sha256 x)"
  shows "CHR 0x0A \<notin> set h"
  using assms computeHash_files by (fastforce simp: directoryHash_def split: option.splits sum.splits)

lemma hashedText_inj:
  assumes "\<And>x. CHR 0x0A \<notin> set (sha256 x)"
  shows "hashedText sha256 d idx ids = Some (Inr body) \<Longrightarrow> hashedText sha256 d' idx' ids' = Some (Inr body) \<Longrightarrow>
    lacks ids NUL \<Longrightarrow> lacks ids' NUL \<Longrightarrow>
    ids = ids' \<and> map (directoryHash sha256 d idx) ids = map (directoryHash sha256 d' idx') ids'"
proof (induction ids arbitrary: ids' body)
  case Nil
  show ?case
  proof (cases ids')
    case (Cons a tl')
    then have "hashedText sha256 d' idx' (a # tl') = Some (Inr [])" using Nil.prems by simp
    then show ?thesis by (rule hashedText_ConsE) simp
  qed simp
next
  case (Cons i ids)
  obtain h rest where h: "directoryHash sha256 d idx i = Some h" "hashedText sha256 d idx ids = Some (Inr rest)"
    "body = i @ NUL # h @ CHR 0x0A # rest"
    using Cons.prems(1) by (rule hashedText_ConsE)
  then obtain i' tl' where ids': "ids' = i' # tl'" using Cons.prems(2) by (cases ids') auto
  obtain h' rest' where h': "directoryHash sha256 d' idx' i' = Some h'"
    "hashedText sha256 d' idx' tl' = Some (Inr rest')" "body = i' @ NUL # h' @ CHR 0x0A # rest'"
    using Cons.prems(2) ids' hashedText_ConsE by metis
  have "i = i' \<and> h @ CHR 0x0A # rest = h' @ CHR 0x0A # rest'"
    using Cons.prems(3,4) ids' h(3) h'(3) by (intro split_first) auto
  moreover from this have "h = h' \<and> rest = rest'"
    using directoryHash_text[OF h(1) assms] directoryHash_text[OF h'(1) assms] by (intro split_first) auto
  moreover from this have "hashedText sha256 d' idx' tl' = Some (Inr rest)" using h'(2) by simp
  then have "ids = tl' \<and> map (directoryHash sha256 d idx) ids = map (directoryHash sha256 d' idx') tl'"
    by (rule Cons.IH[OF h(2)]) (use Cons.prems(3,4) ids' in auto)
  ultimately show ?case using h(1) h'(1) ids' by (auto simp del: map_eq_conv)
qed

lemma transitive_text:
  assumes "computeTransitiveSkillVersionHash sha256 d root idx = Some (Inr h)"
  obtains visited body where "validateIncludes root idx = Some (Inr visited)"
    "hashedText sha256 d idx visited = Some (Inr body)" "h = ''tv1:'' @ sha256 body"
proof -
  obtain visited where v: "validateIncludes root idx = Some (Inr visited)"
    using assms by (auto simp: computeTransitiveSkillVersionHash_def split: option.splits sum.splits includeError.splits)
  then obtain r where r: "hashedText sha256 d idx visited = Some r"
    using assms by (auto simp: computeTransitiveSkillVersionHash_def)
  show thesis
  proof (cases r)
    case (Inl e)
    then show thesis using assms v r by (simp add: computeTransitiveSkillVersionHash_def)
  next
    case (Inr body)
    then show thesis using assms v r that by (simp add: computeTransitiveSkillVersionHash_def)
  qed
qed

section \<open>Properties\<close>

text \<open>C26: The collection of the files of a skill directory returns for every finite file tree, whatever cycles its
  links form: fuel for one call per node of the tree, and two more, is enough, and more fuel changes nothing.\<close>

theorem collectFiles_returns:
  assumes "finite (dom t)" "Suc (Suc (card (dom t))) \<le> n"
  shows "\<exists>ps. collectFiles n readdir t cwd base [] dir = Some ps \<and>
    collectFiles (n + k) readdir t cwd base [] dir = Some ps"
proof -
  have "card (freeReal t []) < n" using card_freeReal[OF assms(1), of "[]"] assms(2) by simp
  then obtain ps where "collectFiles n readdir t cwd base [] dir = Some ps"
    using collect_enough(1)[OF assms(1)] by blast
  then show ?thesis using collect_more(1)[of n _ _ _ _ _ _ ps "n + k"] by auto
qed

text \<open>C21: Two skills with the same transitive hash include the same skills in the same order, each with the same
  hash of its directory, unless SHA-256 collides on the two texts that were hashed. So a change of any included
  skill that changes the hash of its directory changes the transitive hash.\<close>

theorem transitive_hash_binds:
  assumes "validateIncludes root idx = Some (Inr visited)" "validateIncludes root' idx' = Some (Inr visited')"
    and "computeTransitiveSkillVersionHash sha256 d root idx = Some (Inr h)"
    and "computeTransitiveSkillVersionHash sha256 d' root' idx' = Some (Inr h)"
    and "\<And>x. CHR 0x0A \<notin> set (sha256 x)" "lacks visited NUL" "lacks visited' NUL"
  shows "visited = visited' \<and> map (directoryHash sha256 d idx) visited = map (directoryHash sha256 d' idx') visited \<or>
    (\<exists>body body'. hashedText sha256 d idx visited = Some (Inr body) \<and>
       hashedText sha256 d' idx' visited' = Some (Inr body') \<and> body \<noteq> body' \<and> sha256 body = sha256 body')"
proof -
  obtain body where t: "hashedText sha256 d idx visited = Some (Inr body)" "h = ''tv1:'' @ sha256 body"
    using transitive_text[OF assms(3)] assms(1) by auto
  obtain body' where t': "hashedText sha256 d' idx' visited' = Some (Inr body')" "h = ''tv1:'' @ sha256 body'"
    using transitive_text[OF assms(4)] assms(2) by auto
  show ?thesis
  proof (cases "body = body'")
    case True
    then show ?thesis using hashedText_inj[OF assms(5) t(1), of d' idx' visited'] t'(1) assms(6,7) by auto
  qed (use t t' in auto)
qed

text \<open>Two directories have the same version hash exactly when the same contents stand under the same normalised
  paths in the same order, unless SHA-256 collides on the two texts that were hashed; the lengths and separators
  leave no other ambiguity.\<close>

theorem version_hash_binds:
  assumes "plainNames d" "plainNames d'" "NUL \<notin> set dir" "NUL \<notin> set dir'"
    and "skillFiles d dir = Some (Inr pcs)" "skillFiles d' dir' = Some (Inr pcs')"
  shows "(computeSkillVersionHash sha256 d dir = computeSkillVersionHash sha256 d' dir') =
    (map (map_prod normalizedPath id) pcs = map (map_prod normalizedPath id) pcs' \<or>
     (versionText pcs \<noteq> versionText pcs' \<and> sha256 (versionText pcs) = sha256 (versionText pcs')))"
proof -
  have h: "computeSkillVersionHash sha256 d dir = Some (Inr (''v1:'' @ sha256 (versionText pcs)))"
    "computeSkillVersionHash sha256 d' dir' = Some (Inr (''v1:'' @ sha256 (versionText pcs')))"
    using assms(5,6) by (simp_all add: computeSkillVersionHash_def)
  show ?thesis
    using hash_files[OF assms(1-6), of sha256 "''v1:'' @ sha256 (versionText pcs)"]
      hash_same_files[OF assms(5,6), of sha256] h by auto
qed

text \<open>A concrete disk: \<open>/s\<close> and \<open>/u\<close> hold the same file, \<open>/s\<close> a link to itself as well; \<open>/v\<close> has a file whose
  name is \<open>a\<close>, a backslash and \<open>b\<close>, and \<open>/w\<close> has a directory \<open>a\<close> with a file \<open>b\<close>.\<close>

definition ex_backslash :: string where
  "ex_backslash = [CHR ''a'', CHR 0x5C, CHR ''b'']"

definition ex_tree :: fileTree where
  "ex_tree = map_of [([''s''], DirNode), ([''s'', ''f''], FileNode ''x''), ([''s'', ''l''], LinkNode ''/s''),
     ([''u''], DirNode), ([''u'', ''f''], FileNode ''x''),
     ([''v''], DirNode), ([''v'', ex_backslash], FileNode ''x''),
     ([''w''], DirNode), ([''w'', ''a''], DirNode), ([''w'', ''a'', ''b''], FileNode ''x'')]"

definition ex_readdir :: "string list \<Rightarrow> string list" where
  "ex_readdir q = (if q = [''s''] then [''l'', ''f''] else if q = [''u''] then [''f''] else if q = [''v''] then [ex_backslash]
     else if q = [''w''] then [''a''] else if q = [''w'', ''a''] then [''b''] else [])"

definition ex_disk :: skillDisk where
  "ex_disk = \<lparr>sdFuel = 12, sdReaddir = ex_readdir, sdTree = ex_tree, sdCwd = ''/''\<rparr>"

lemma ex_files:
  "skillFiles ex_disk ''/s'' = Some (Inr [(''f'', ''x'')])" "skillFiles ex_disk ''/u'' = Some (Inr [(''f'', ''x'')])"
  "skillFiles ex_disk ''/v'' = Some (Inr [(ex_backslash, ''x'')])" "skillFiles ex_disk ''/w'' = Some (Inr [(''a/b'', ''x'')])"
  by code_simp+

lemma ex_plainNames: "plainNames ex_disk"
  by (simp add: plainNames_def ex_disk_def ex_readdir_def ex_backslash_def NUL_def)

lemma ex_dom: "finite (dom ex_tree)" "card (dom ex_tree) \<le> 10"
  unfolding ex_tree_def dom_map_of_conv_image_fst
  by (simp, rule order_trans[OF card_image_le], simp, rule order_trans[OF card_length], simp)

text \<open>A backslash in a file name is hashed as a separator, so these two directories, which hold different files, have
  the same hash under every digest.\<close>

theorem backslash_conflated:
  "skillFiles ex_disk ''/v'' \<noteq> skillFiles ex_disk ''/w'' \<and>
   computeSkillVersionHash sha256 ex_disk ''/v'' = computeSkillVersionHash sha256 ex_disk ''/w''"
  using hash_same_files[OF ex_files(3,4), of sha256]
  by (simp add: ex_files ex_backslash_def normalizedPath_def)

theorem collectFiles_returns_witness:
  "\<exists>ps. collectFiles 12 ex_readdir ex_tree ''/'' ''/s'' [] ''/s'' = Some ps"
  using collectFiles_returns[OF ex_dom(1), of 12 ex_readdir "''/''" "''/s''" "''/s''"] ex_dom(2) by auto

definition ex_digest :: "string \<Rightarrow> string" where
  "ex_digest x = filter (\<lambda>c. c \<noteq> CHR 0x0A) x"

definition ex_skill :: "string \<Rightarrow> skillSummary" where
  "ex_skill dir = \<lparr>skId = ''p'', skDirectoryPath = dir, skIncludes = None\<rparr>"

lemma ex_transitive:
  "validateIncludes ''p'' [(''p'', ex_skill ''/s'')] = Some (Inr [''p''])"
  "validateIncludes ''p'' [(''p'', ex_skill ''/u'')] = Some (Inr [''p''])"
  "computeTransitiveSkillVersionHash ex_digest ex_disk ''p'' [(''p'', ex_skill ''/u'')] =
     computeTransitiveSkillVersionHash ex_digest ex_disk ''p'' [(''p'', ex_skill ''/s'')]"
  "\<exists>h. computeTransitiveSkillVersionHash ex_digest ex_disk ''p'' [(''p'', ex_skill ''/s'')] = Some (Inr h)"
proof -
  have v: "validateIncludes ''p'' [(''p'', ex_skill dir)] = Some (Inr [''p''])" for dir
    by (simp add: validateIncludes_def validateIncludeGraph_def searchFuel_def stateOf_def startSearch_def includesOf_def
        ex_skill_def leaveNode_def enterNode_def numeral_eq_Suc)
  then show "validateIncludes ''p'' [(''p'', ex_skill ''/s'')] = Some (Inr [''p''])"
    "validateIncludes ''p'' [(''p'', ex_skill ''/u'')] = Some (Inr [''p''])" by auto
  have dir: "skDirectoryPath (ex_skill dir) = dir" for dir by (simp add: ex_skill_def)
  have "computeSkillVersionHash ex_digest ex_disk ''/u'' = computeSkillVersionHash ex_digest ex_disk ''/s''"
    by (rule hash_same_files[OF ex_files(2,1) refl])
  then show "computeTransitiveSkillVersionHash ex_digest ex_disk ''p'' [(''p'', ex_skill ''/u'')] =
     computeTransitiveSkillVersionHash ex_digest ex_disk ''p'' [(''p'', ex_skill ''/s'')]"
    by (simp add: computeTransitiveSkillVersionHash_def v dir split: option.split sum.split)
  show "\<exists>h. computeTransitiveSkillVersionHash ex_digest ex_disk ''p'' [(''p'', ex_skill ''/s'')] = Some (Inr h)"
    by (simp add: computeTransitiveSkillVersionHash_def v computeSkillVersionHash_def dir ex_files)
qed

theorem transitive_hash_binds_witness:
  "directoryHash ex_digest ex_disk [(''p'', ex_skill ''/s'')] ''p'' = directoryHash ex_digest ex_disk [(''p'', ex_skill ''/u'')] ''p'' \<or>
   (\<exists>body body'. body \<noteq> body' \<and> ex_digest body = ex_digest body')"
proof -
  obtain h where h: "computeTransitiveSkillVersionHash ex_digest ex_disk ''p'' [(''p'', ex_skill ''/s'')] = Some (Inr h)"
    "computeTransitiveSkillVersionHash ex_digest ex_disk ''p'' [(''p'', ex_skill ''/u'')] = Some (Inr h)"
    using ex_transitive(3,4) by auto
  show ?thesis
    using transitive_hash_binds[OF ex_transitive(1,2) h] by (auto simp: ex_digest_def NUL_def)
qed

theorem version_hash_binds_witness:
  "computeSkillVersionHash ex_digest ex_disk ''/s'' = computeSkillVersionHash ex_digest ex_disk ''/u''"
  using version_hash_binds[OF ex_plainNames ex_plainNames _ _ ex_files(1,2), of ex_digest] by (simp add: NUL_def)

end
