(* ===== verification/InlineCommands.thy ===== *)
theory InlineCommands
  imports HumPrelude "HOL-Library.Multiset"
begin

text \<open>
  Inline commands of skill bodies: the parser of the tokens (an exclamation mark and a command between
  backticks), \<open>assistant/src/skills/inline-command-expansions.ts\<close>, the runner's treatment of a finished process,
  \<open>inline-command-runner.ts\<close>, and the renderer, \<open>inline-command-render.ts\<close>.

  Offsets count characters. A process is what the operating system reports of it (\<open>commandRun\<close>); the renderer
  gets the reports of its commands in the order in which it starts them. Regular expressions are written as the
  scanners they denote.
\<close>

section \<open>Data\<close>

record expansion =
  ieCommand :: string
  ieStart :: nat
  ieEnd :: nat
  iePlaceholder :: nat

datatype expansionReason = EmptyCommand | NestedBackticks | UnmatchedOpening

record expansionError =
  xeRaw :: string
  xeOffset :: nat
  xeReason :: expansionReason

abbreviation backtick :: char where
  "backtick \<equiv> CHR 0x60"

abbreviation bang :: char where
  "bang \<equiv> CHR 0x21"

section \<open>Fenced code blocks\<close>

text \<open>The lines of the multiline regular expression with their offsets; a line ends at LF or CR.\<close>

fun numberLines :: "nat \<Rightarrow> string list \<Rightarrow> (nat \<times> string) list" where
  "numberLines off [] = []"
| "numberLines off (l # ls) = (off, l) # numberLines (off + length l + 1) ls"

definition linesOf :: "string \<Rightarrow> (nat \<times> string) list" where
  "linesOf body = numberLines 0 (splitOn (CHR 0x0A) (map (\<lambda>c. if c = CHR 0x0D then CHR 0x0A else c) body))"

text \<open>The delimiter of a fence line and what follows it.\<close>

definition fenceOf :: "string \<Rightarrow> (string \<times> string) option" where
  "fenceOf line =
    (case line of
       [] \<Rightarrow> None
     | c # cs \<Rightarrow>
         let d = takeWhile (\<lambda>x. x = c) line in
         if (c = backtick \<or> c = CHR 0x7E) \<and> 3 \<le> length d then Some (d, drop (length d) line) else None)"

fun fencedFrom :: "nat \<Rightarrow> (nat \<times> string) option \<Rightarrow> (nat \<times> string) list \<Rightarrow> (nat \<times> nat) list" where
  "fencedFrom len None [] = []"
| "fencedFrom len (Some (i, d)) [] = [(i, len)]"
| "fencedFrom len openFence ((off, line) # ls) =
     (case fenceOf line of
        None \<Rightarrow> fencedFrom len openFence ls
      | Some (d, rest) \<Rightarrow>
          (case openFence of
             None \<Rightarrow> fencedFrom len (Some (off, d)) ls
           | Some (i, d0) \<Rightarrow>
               if hd d = hd d0 \<and> length d0 \<le> length d \<and> (rest = [] \<or> trim rest = [])
               then (i, off + length line) # fencedFrom len None ls
               else fencedFrom len openFence ls))"

definition buildFencedCodeRanges :: "string \<Rightarrow> (nat \<times> nat) list" where
  "buildFencedCodeRanges body = fencedFrom (length body) None (linesOf body)"

definition isInsideFencedCode :: "nat \<Rightarrow> (nat \<times> nat) list \<Rightarrow> bool" where
  "isInsideFencedCode off ranges = list_ex (\<lambda>(a, b). a \<le> off \<and> off < b) ranges"

section \<open>The parser\<close>

text \<open>The matches of the token expression, with the text between the backticks; \<open>off\<close> is the offset of the rest.\<close>

function (sequential) scanTokens :: "nat \<Rightarrow> string \<Rightarrow> (nat \<times> string) list" where
  "scanTokens off (a # b # s) =
     (if a = bang \<and> b = backtick then
        (case dropWhile (\<lambda>c. c \<noteq> backtick) s of
           [] \<Rightarrow> scanTokens (Suc off) (b # s)
         | _ # rest \<Rightarrow>
             (let raw = takeWhile (\<lambda>c. c \<noteq> backtick) s in (off, raw) # scanTokens (off + 3 + length raw) rest))
      else scanTokens (Suc off) (b # s))"
| "scanTokens off s = []"
  by pat_completeness auto
termination
proof (relation "measure (\<lambda>(off, s). length s)")
  fix off a b s c rest raw
  assume "dropWhile (\<lambda>c. c \<noteq> backtick) s = c # rest"
  then have "length rest < length s" using length_dropWhile_le[of "\<lambda>c. c \<noteq> backtick" s] by simp
  then show "((off + 3 + length raw, rest), off, a # b # s) \<in> measure (\<lambda>(off, s). length s)" by simp
qed auto

fun expandTokens :: "(nat \<times> nat) list \<Rightarrow> nat \<Rightarrow> (nat \<times> string) list \<Rightarrow> expansion list \<times> expansionError list" where
  "expandTokens ranges n [] = ([], [])"
| "expandTokens ranges n ((off, raw) # ts) =
     (let tok = [bang, backtick] @ raw @ [backtick] in
      if isInsideFencedCode off ranges then expandTokens ranges n ts
      else if trim raw = [] then
        (case expandTokens ranges n ts of
           (es, xs) \<Rightarrow> (es, \<lparr>xeRaw = tok, xeOffset = off, xeReason = EmptyCommand\<rparr> # xs))
      else if backtick \<in> set raw then
        (case expandTokens ranges n ts of
           (es, xs) \<Rightarrow> (es, \<lparr>xeRaw = tok, xeOffset = off, xeReason = NestedBackticks\<rparr> # xs))
      else
        (case expandTokens ranges (Suc n) ts of
           (es, xs) \<Rightarrow> (\<lparr>ieCommand = trim raw, ieStart = off, ieEnd = off + length tok, iePlaceholder = n\<rparr> # es, xs)))"

fun openers :: "nat \<Rightarrow> string \<Rightarrow> nat list" where
  "openers off (a # b # s) = (if a = bang \<and> b = backtick then off # openers (Suc off) (b # s) else openers (Suc off) (b # s))"
| "openers off s = []"

definition unmatchedErrors :: "string \<Rightarrow> (nat \<times> nat) list \<Rightarrow> nat list \<Rightarrow> expansionError list" where
  "unmatchedErrors body ranges matchedStarts =
    map (\<lambda>off. \<lparr>xeRaw = take 40 (drop off body), xeOffset = off, xeReason = UnmatchedOpening\<rparr>)
      (filter (\<lambda>off. off \<notin> set matchedStarts \<and> \<not> isInsideFencedCode off ranges) (openers 0 body))"

definition parseInlineCommandExpansions :: "string \<Rightarrow> expansion list \<times> expansionError list" where
  "parseInlineCommandExpansions body =
    (let ranges = buildFencedCodeRanges body; ts = scanTokens 0 body in
     case expandTokens ranges 0 ts of
       (es, xs) \<Rightarrow> (es, xs @ unmatchedErrors body ranges (map fst ts)))"

section \<open>The runner\<close>

text \<open>\<open>Closed timedOut code capped raw\<close>: the process has closed; \<open>code\<close> is \<open>None\<close> after a signal.\<close>

datatype commandRun = SpawnThrows | SpawnFails | Closed bool "int option" bool string

datatype failureReason = Timeout | NonZeroExit | BinaryOutput | SpawnFailure

record inlineResult =
  irOutput :: string
  irOk :: bool
  irFailure :: "failureReason option"

abbreviation esc :: char where
  "esc \<equiv> CHR 0x1B"

definition csiChar :: "char \<Rightarrow> bool" where
  "csiChar c = (let n = (of_char c :: nat) in 48 \<le> n \<and> n \<le> 57 \<or> n = 59)"

definition asciiLetter :: "char \<Rightarrow> bool" where
  "asciiLetter c = (let n = (of_char c :: nat) in 65 \<le> n \<and> n \<le> 90 \<or> 97 \<le> n \<and> n \<le> 122)"

text \<open>What follows a control sequence, after its introducer: the final letter ends it.\<close>

definition csiRest :: "string \<Rightarrow> string option" where
  "csiRest s = (case dropWhile csiChar s of [] \<Rightarrow> None | c # r \<Rightarrow> if asciiLetter c then Some r else None)"

text \<open>The text after the last string terminator.\<close>

fun lastTerminator :: "string \<Rightarrow> string option" where
  "lastTerminator (a # b # s) =
     (case lastTerminator (b # s) of
        Some r \<Rightarrow> Some r
      | None \<Rightarrow> if a = esc \<and> b = CHR 0x5C then Some s else None)"
| "lastTerminator s = None"

text \<open>An operating system command runs, greedily, to the first BEL, or else to the last terminator.\<close>

definition oscRest :: "string \<Rightarrow> string option" where
  "oscRest s = (case dropWhile (\<lambda>c. c \<noteq> CHR 0x07) s of [] \<Rightarrow> lastTerminator s | _ # r \<Rightarrow> Some r)"

definition ansiRest :: "string \<Rightarrow> string option" where
  "ansiRest s =
    (case s of
       a # b # r \<Rightarrow> if a = esc \<and> b = CHR 0x5B then csiRest r
                  else if a = esc \<and> b = CHR 0x5D then oscRest r else None
     | _ \<Rightarrow> None)"

lemma length_csiRest: "csiRest s = Some r \<Longrightarrow> length r < length s"
  using length_dropWhile_le[of csiChar s] by (auto simp: csiRest_def split: list.splits if_splits)

lemma length_lastTerminator: "lastTerminator s = Some r \<Longrightarrow> length r < length s"
  by (induction s rule: lastTerminator.induct) (auto split: option.splits if_splits)

lemma length_oscRest: "oscRest s = Some r \<Longrightarrow> length r < length s"
  using length_dropWhile_le[of "\<lambda>c. c \<noteq> CHR 0x07" s] length_lastTerminator[of s r]
  by (auto simp: oscRest_def split: list.splits)

lemma length_ansiRest: "ansiRest s = Some r \<Longrightarrow> length r < length s"
  using length_csiRest length_oscRest
  by (fastforce simp: ansiRest_def split: list.splits if_splits dest: length_csiRest length_oscRest)

function (sequential) stripAnsi :: "string \<Rightarrow> string" where
  "stripAnsi [] = []"
| "stripAnsi (c # s) = (case ansiRest (c # s) of Some r \<Rightarrow> stripAnsi r | None \<Rightarrow> c # stripAnsi s)"
  by pat_completeness auto
termination
  by (relation "measure length") (auto dest: length_ansiRest)

definition controlChar :: "char \<Rightarrow> bool" where
  "controlChar c = (let n = (of_char c :: nat) in n \<le> 31 \<and> n \<noteq> 9 \<and> n \<noteq> 10 \<and> n \<noteq> 13 \<or> n = 127)"

text \<open>More than one tenth, without the rounding of the quotient.\<close>

definition isBinaryish :: "string \<Rightarrow> bool" where
  "isBinaryish s = (s \<noteq> [] \<and> length s < 10 * length (filter controlChar s))"

definition trimEnd :: "string \<Rightarrow> string" where
  "trimEnd s = rev (dropWhile is_ws (rev s))"

definition MAX_OUTPUT_CHARS :: nat where
  "MAX_OUTPUT_CHARS = 20000"

definition failedRun :: "failureReason \<Rightarrow> string \<Rightarrow> inlineResult" where
  "failedRun why msg = \<lparr>irOutput = msg, irOk = False, irFailure = Some why\<rparr>"

definition truncationMark :: string where
  "truncationMark = CHR 0x0A # ''[output truncated]''"

fun showCode :: "int option \<Rightarrow> string" where
  "showCode None = ''null''"
| "showCode (Some k) = (if k < 0 then CHR 0x2D # showNat (nat (- k)) else showNat (nat k))"

fun runInlineCommand :: "nat \<Rightarrow> nat \<Rightarrow> commandRun \<Rightarrow> inlineResult" where
  "runInlineCommand timeoutMs maxChars (Closed timedOut code capped raw) =
     (if timedOut then failedRun Timeout (''Inline command timed out after '' @ showNat timeoutMs @ ''ms.'')
      else if code \<noteq> Some 0 \<and> \<not> (capped \<and> code = None) then
        failedRun NonZeroExit (''Inline command failed (exit code '' @ showCode code @ '').'')
      else
        (let cleaned = stripAnsi raw in
         if isBinaryish cleaned then failedRun BinaryOutput ''Inline command produced binary output.''
         else \<lparr>irOutput = trimEnd (if maxChars < length cleaned then take maxChars cleaned @ truncationMark else cleaned),
               irOk = True, irFailure = None\<rparr>))"
| "runInlineCommand timeoutMs maxChars _ = failedRun SpawnFailure ''Inline command could not be started.''"

section \<open>The renderer\<close>

record renderResult =
  rrBody :: string
  rrExpanded :: nat
  rrFailed :: nat

fun failureReasonToStub :: "failureReason option \<Rightarrow> string" where
  "failureReasonToStub (Some Timeout) = ''command timed out''"
| "failureReasonToStub (Some NonZeroExit) = ''command failed''"
| "failureReasonToStub (Some BinaryOutput) = ''command produced binary output''"
| "failureReasonToStub (Some SpawnFailure) = ''command could not be started''"
| "failureReasonToStub None = ''unknown error''"

definition replaceChar :: "char \<Rightarrow> string \<Rightarrow> string \<Rightarrow> string" where
  "replaceChar c by_text s = concat (map (\<lambda>d. if d = c then by_text else [d]) s)"

definition escapeXmlContent :: "string \<Rightarrow> string" where
  "escapeXmlContent s =
    replaceChar (CHR ''>'') ''&gt;'' (replaceChar (CHR ''<'') ''&lt;'' (replaceChar (CHR ''&'') ''&amp;'' s))"

definition wrapInXml :: "nat \<Rightarrow> string \<Rightarrow> string" where
  "wrapInXml index content =
    ''<inline_skill_command index='' @ [CHR 0x22] @ showNat index @ [CHR 0x22] @ ''>'' @ content @ ''</inline_skill_command>''"

definition replacementOf :: "expansion \<Rightarrow> inlineResult \<Rightarrow> string" where
  "replacementOf e r = wrapInXml (iePlaceholder e)
    (if irOk r then escapeXmlContent (irOutput r)
     else ''[inline command unavailable: '' @ failureReasonToStub (irFailure r) @ '']'')"

definition spliceAt :: "expansion \<Rightarrow> string \<Rightarrow> string \<Rightarrow> string" where
  "spliceAt e replacement s = take (ieStart e) s @ replacement @ drop (ieEnd e) s"

text \<open>\<open>run k command\<close> is the result of the \<open>k\<close>-th command that is started.\<close>

fun renderLoop :: "(nat \<Rightarrow> string \<Rightarrow> inlineResult) \<Rightarrow> nat \<Rightarrow> expansion list \<Rightarrow> renderResult \<Rightarrow> renderResult" where
  "renderLoop run k [] acc = acc"
| "renderLoop run k (e # es) acc =
     (let r = run k (ieCommand e) in
      renderLoop run (Suc k) es
        \<lparr>rrBody = spliceAt e (replacementOf e r) (rrBody acc),
         rrExpanded = rrExpanded acc + (if irOk r then 1 else 0),
         rrFailed = rrFailed acc + (if irOk r then 0 else 1)\<rparr>)"

definition sortedExpansions :: "expansion list \<Rightarrow> expansion list" where
  "sortedExpansions es = sort_key (\<lambda>e. - int (ieStart e)) es"

definition renderInlineCommands :: "(nat \<Rightarrow> string \<Rightarrow> inlineResult) \<Rightarrow> string \<Rightarrow> expansion list \<Rightarrow> renderResult" where
  "renderInlineCommands run body es =
    (if es = [] then \<lparr>rrBody = body, rrExpanded = 0, rrFailed = 0\<rparr>
     else renderLoop run 0 (sortedExpansions es) \<lparr>rrBody = body, rrExpanded = 0, rrFailed = 0\<rparr>)"

section \<open>Tokens\<close>

definition tokenText :: "string \<Rightarrow> string" where
  "tokenText raw = [bang, backtick] @ raw @ [backtick]"

lemma scanTokens_Cons:
  "scanTokens off (a # s) =
    (if take 2 (a # s) = [bang, backtick] \<and> backtick \<in> set (tl s)
     then (let raw = takeWhile (\<lambda>c. c \<noteq> backtick) (tl s) in
           (off, raw) # scanTokens (off + 3 + length raw) (tl (dropWhile (\<lambda>c. c \<noteq> backtick) (tl s))))
     else scanTokens (Suc off) s)"
proof (cases s)
  case (Cons b r)
  show ?thesis
  proof (cases "dropWhile (\<lambda>c. c \<noteq> backtick) r")
    case Nil
    then have "backtick \<notin> set r" unfolding dropWhile_eq_Nil_conv by blast
    then show ?thesis using Cons by (simp add: Nil del: dropWhile_eq_Nil_conv)
  next
    case (Cons c q)
    then have "\<not> (dropWhile (\<lambda>c. c \<noteq> backtick) r = [])" by simp
    then have "backtick \<in> set r" unfolding dropWhile_eq_Nil_conv by blast
    then show ?thesis using \<open>s = b # r\<close> Cons by simp
  qed
qed simp

text \<open>The text of a token, split at its closing backtick.\<close>

lemma closing_backtick:
  assumes "backtick \<in> set r"
  obtains raw rest where "r = raw @ backtick # rest" "backtick \<notin> set raw" "takeWhile (\<lambda>c. c \<noteq> backtick) r = raw"
    "tl (dropWhile (\<lambda>c. c \<noteq> backtick) r) = rest"
proof -
  obtain raw rest where r: "r = raw @ backtick # rest" "backtick \<notin> set raw" using assms by (meson split_list_first)
  have "takeWhile (\<lambda>c. c \<noteq> backtick) r = raw" "dropWhile (\<lambda>c. c \<noteq> backtick) r = backtick # rest"
    using r by (auto simp: takeWhile_append dropWhile_append takeWhile_eq_all_conv)
  then show thesis using that r by simp
qed

text \<open>Tokens in order, each at its offset, the next one behind it.\<close>

inductive tokensFit :: "nat \<Rightarrow> string \<Rightarrow> (nat \<times> string) list \<Rightarrow> bool" where
  "tokensFit off s []"
| "tokensFit (off + length pre + 3 + length raw) rest ts \<Longrightarrow> backtick \<notin> set raw \<Longrightarrow>
     tokensFit off (pre @ tokenText raw @ rest) ((off + length pre, raw) # ts)"

inductive_cases tokensFit_ConsE: "tokensFit off s (t # ts)"

lemma tokensFit_skip:
  assumes "tokensFit (Suc off) s ts"
  shows "tokensFit off (a # s) ts"
  using assms
proof (cases rule: tokensFit.cases)
  case (2 pre raw rest ts')
  have "tokensFit off ((a # pre) @ tokenText raw @ rest) ((off + length (a # pre), raw) # ts')"
    by (rule tokensFit.intros(2)) (use 2 in simp_all)
  then show ?thesis using 2 by simp
qed (auto intro: tokensFit.intros)

lemma scan_fit: "tokensFit off s (scanTokens off s)"
proof (induction "length s" arbitrary: off s rule: less_induct)
  case less
  show ?case
  proof (cases s)
    case (Cons a r)
    show ?thesis
    proof (cases "take 2 s = [bang, backtick] \<and> backtick \<in> set (tl r)")
      case True
      then obtain r' where ab: "s = bang # backtick # r'" using Cons by (cases r) auto
      then have "backtick \<in> set r'" using True Cons by simp
      then obtain raw rest where r': "r' = raw @ backtick # rest" "backtick \<notin> set raw"
        "takeWhile (\<lambda>c. c \<noteq> backtick) r' = raw" "tl (dropWhile (\<lambda>c. c \<noteq> backtick) r') = rest"
        by (rule closing_backtick)
      have sc: "scanTokens off s = (off, raw) # scanTokens (off + 3 + length raw) rest"
        using ab r' True Cons by (simp add: scanTokens_Cons Let_def)
      have "tokensFit (off + 3 + length raw) rest (scanTokens (off + 3 + length raw) rest)"
        by (rule less) (simp add: ab r'(1))
      then have "tokensFit off ([] @ tokenText raw @ rest) ((off + length [], raw) # scanTokens (off + 3 + length raw) rest)"
        using tokensFit.intros(2)[of off "[]" raw rest] r'(2) by (simp add: ac_simps)
      then show ?thesis using sc ab r'(1) by (simp add: tokenText_def)
    next
      case False
      then have "scanTokens off s = scanTokens (Suc off) r" using Cons by (simp only: scanTokens_Cons if_False)
      then show ?thesis using less[of r "Suc off"] Cons by (simp add: tokensFit_skip)
    qed
  qed (simp add: tokensFit.intros)
qed

section \<open>What the parser gives\<close>

text \<open>Expansions from left to right, disjoint, within the first \<open>len\<close> characters.\<close>

fun spaced :: "nat \<Rightarrow> nat \<Rightarrow> expansion list \<Rightarrow> bool" where
  "spaced off len [] \<longleftrightarrow> off \<le> len"
| "spaced off len (e # es) \<longleftrightarrow> off \<le> ieStart e \<and> ieStart e < ieEnd e \<and> spaced (ieEnd e) len es"

lemma spaced_mono: "spaced off len es \<Longrightarrow> off' \<le> off \<Longrightarrow> spaced off' len es"
  by (cases es) auto

text \<open>The text of an expansion is its command, with white space around it, in a token.\<close>

definition standsIn :: "string \<Rightarrow> expansion \<Rightarrow> bool" where
  "standsIn body e \<longleftrightarrow> (\<exists>raw. take (ieEnd e - ieStart e) (drop (ieStart e) body) = tokenText raw \<and>
     backtick \<notin> set raw \<and> trim raw = ieCommand e \<and> ieCommand e \<noteq> [])"

lemma expandTokens_fst:
  "fst (expandTokens ranges n ((off, raw) # ts)) =
    (if isInsideFencedCode off ranges \<or> trim raw = [] \<or> backtick \<in> set raw then fst (expandTokens ranges n ts)
     else \<lparr>ieCommand = trim raw, ieStart = off, ieEnd = off + length (tokenText raw), iePlaceholder = n\<rparr>
       # fst (expandTokens ranges (Suc n) ts))"
  by (simp add: Let_def split_beta tokenText_def)

lemma expand_spaced:
  "tokensFit off s ts \<Longrightarrow> spaced off (off + length s) (fst (expandTokens ranges n ts))"
proof (induction arbitrary: n rule: tokensFit.induct)
  case (2 off pre raw rest ts)
  have len: "off + length (pre @ tokenText raw @ rest) = off + length pre + 3 + length raw + length rest"
    by (simp add: tokenText_def)
  have "spaced (off + length pre + 3 + length raw) (off + length (pre @ tokenText raw @ rest)) (fst (expandTokens ranges m ts))"
    for m
    using "2.IH"[of m] by (simp only: len)
  note IH = this spaced_mono[OF this, of off]
  show ?case using IH
    by (auto simp: expandTokens_fst tokenText_def ac_simps numeral_3_eq_3 simp del: expandTokens.simps)
qed simp

lemma expand_stands:
  "tokensFit off s ts \<Longrightarrow> length ctx = off \<Longrightarrow> list_all (standsIn (ctx @ s)) (fst (expandTokens ranges n ts))"
proof (induction arbitrary: n ctx rule: tokensFit.induct)
  case (2 off pre raw rest ts)
  let ?s = "pre @ tokenText raw @ rest"
  have IH: "list_all (standsIn (ctx @ ?s)) (fst (expandTokens ranges m ts))" for m
    using "2.IH"[of "ctx @ pre @ tokenText raw" m] "2.prems" by (simp add: tokenText_def)
  have "standsIn (ctx @ ?s) \<lparr>ieCommand = trim raw, ieStart = off + length pre,
      ieEnd = off + length pre + length (tokenText raw), iePlaceholder = m\<rparr>" if "trim raw \<noteq> []" for m
    using that "2.hyps"(2) "2.prems" by (auto simp: standsIn_def)
  then show ?case using IH by (simp add: expandTokens_fst del: expandTokens.simps append_assoc)
qed simp

lemma expand_placeholders:
  "map iePlaceholder (fst (expandTokens ranges n ts)) = [n..<n + length (fst (expandTokens ranges n ts))]"
proof (induction ts arbitrary: n)
  case (Cons t ts)
  have "[n..<n + Suc l] = n # [Suc n..<Suc n + l]" for l by (simp add: upt_conv_Cons)
  then show ?case using Cons by (cases t) (simp add: expandTokens_fst del: expandTokens.simps upt_Suc)
qed simp

lemma expand_outside:
  "list_all (\<lambda>e. \<not> isInsideFencedCode (ieStart e) ranges) (fst (expandTokens ranges n ts))"
proof (induction ts arbitrary: n)
  case (Cons t ts)
  then show ?case by (cases t) (simp add: expandTokens_fst del: expandTokens.simps)
qed simp

definition reported :: "expansion list \<times> expansionError list \<Rightarrow> nat set" where
  "reported r = ieStart ` set (fst r) \<union> xeOffset ` set (snd r)"

lemma reported_Cons:
  "\<exists>m. reported (expandTokens ranges n ((off, raw) # ts)) =
    (if isInsideFencedCode off ranges then {} else {off}) \<union> reported (expandTokens ranges m ts)"
  by (cases "trim raw = [] \<or> backtick \<in> set raw")
    (auto simp: reported_def Let_def split_beta intro: exI[of _ n] exI[of _ "Suc n"])

lemma expand_complete:
  "reported (expandTokens ranges n ts) = {off \<in> fst ` set ts. \<not> isInsideFencedCode off ranges}"
proof (induction ts arbitrary: n)
  case (Cons t ts)
  obtain off raw where t: "t = (off, raw)" by fastforce
  show ?case using reported_Cons[of ranges n off raw ts] Cons t by auto
qed (simp add: reported_def)

lemma set_openers: "set (openers off s) = {off + k | k. take 2 (drop k s) = [bang, backtick]}"
proof (induction off s rule: openers.induct)
  case (1 off a b s)
  have "{off + k | k. take 2 (drop k (a # b # s)) = [bang, backtick]} =
      (if a = bang \<and> b = backtick then {off} else {}) \<union> {Suc off + k | k. take 2 (drop k (b # s)) = [bang, backtick]}"
    (is "?l = ?r")
  proof (intro set_eqI iffI)
    fix x assume "x \<in> ?l"
    then obtain k where "x = off + k" "take 2 (drop k (a # b # s)) = [bang, backtick]" by blast
    then show "x \<in> ?r" by (cases k) auto
  next
    fix x assume x: "x \<in> ?r"
    show "x \<in> ?l"
    proof (cases "x = off \<and> a = bang \<and> b = backtick")
      case False
      then obtain k where "x = off + Suc k" "take 2 (drop (Suc k) (a # b # s)) = [bang, backtick]"
        using x by (auto split: if_splits)
      then show ?thesis by blast
    qed (use x in \<open>auto intro!: exI[of _ 0]\<close>)
  qed
  then show ?case using 1 by auto
qed (auto simp: numeral_2_eq_2 drop_Cons' take_Cons')

lemma tokens_openers:
  "tokensFit off s ts \<Longrightarrow> fst ` set ts \<subseteq> {off + k | k. take 2 (drop k s) = [bang, backtick]}"
proof (induction rule: tokensFit.induct)
  case (2 off pre raw rest ts)
  let ?s = "pre @ tokenText raw @ rest"
  have "off + length pre \<in> {off + k | k. take 2 (drop k ?s) = [bang, backtick]}"
    by (rule CollectI, rule exI[of _ "length pre"]) (simp add: tokenText_def)
  moreover have "x \<in> {off + k | k. take 2 (drop k ?s) = [bang, backtick]}" if tl: "x \<in> fst ` set ts" for x
  proof -
    obtain k where k: "x = off + length pre + 3 + length raw + k" "take 2 (drop k rest) = [bang, backtick]"
      using "2.IH" tl by blast
    have "drop (length pre + 3 + length raw + k) ?s = drop k rest" by (simp add: tokenText_def numeral_3_eq_3)
    then show ?thesis using k by (intro CollectI exI[of _ "length pre + 3 + length raw + k"]) simp
  qed
  ultimately show ?case by auto
qed simp

lemma parse_fst:
  "fst (parseInlineCommandExpansions body) = fst (expandTokens (buildFencedCodeRanges body) 0 (scanTokens 0 body))"
  by (simp add: parseInlineCommandExpansions_def Let_def split_beta)

lemma parse_reported:
  "reported (parseInlineCommandExpansions body) =
    {off. take 2 (drop off body) = [bang, backtick] \<and> \<not> isInsideFencedCode off (buildFencedCodeRanges body)}"
proof -
  let ?r = "buildFencedCodeRanges body" and ?ts = "scanTokens 0 body"
  have "reported (parseInlineCommandExpansions body) =
      reported (expandTokens ?r 0 ?ts) \<union> xeOffset ` set (unmatchedErrors body ?r (map fst ?ts))"
    by (auto simp: parseInlineCommandExpansions_def reported_def Let_def split_beta)
  also have "xeOffset ` set (unmatchedErrors body ?r (map fst ?ts)) =
      {off \<in> set (openers 0 body). off \<notin> fst ` set ?ts \<and> \<not> isInsideFencedCode off ?r}"
    by (force simp: unmatchedErrors_def)
  also have "set (openers 0 body) = {off. take 2 (drop off body) = [bang, backtick]}"
    by (simp add: set_openers)
  finally show ?thesis
    using tokens_openers[OF scan_fit, of 0 body] by (auto simp: expand_complete)
qed

section \<open>What the renderer gives\<close>

text \<open>The specification: the text between the expansions, with each expansion replaced, from left to right;
  \<open>off\<close> is the offset of the rest \<open>s\<close> of the body.\<close>

fun replaceTokens :: "nat \<Rightarrow> string \<Rightarrow> (expansion \<times> string) list \<Rightarrow> string" where
  "replaceTokens off s [] = s"
| "replaceTokens off s ((e, r) # ers) =
     take (ieStart e - off) s @ r @ replaceTokens (ieEnd e) (drop (ieEnd e - off) s) ers"

lemma spaced_le: "spaced off len es \<Longrightarrow> off \<le> len"
  by (induction off len es rule: spaced.induct) auto

lemma splices:
  "spaced off (length body) (map fst ers) \<Longrightarrow>
    foldr (\<lambda>(e, r). spliceAt e r) ers body = take off body @ replaceTokens off (drop off body) ers"
proof (induction ers arbitrary: off)
  case (Cons er ers)
  obtain e r where er: "er = (e, r)" by fastforce
  then have sp: "off \<le> ieStart e" "ieStart e < ieEnd e" "spaced (ieEnd e) (length body) (map fst ers)"
    using Cons.prems by auto
  then have le: "ieEnd e \<le> length body" using spaced_le by blast
  have "foldr (\<lambda>(e, r). spliceAt e r) ers body = take (ieEnd e) body @ replaceTokens (ieEnd e) (drop (ieEnd e) body) ers"
    by (rule Cons.IH[OF sp(3)])
  then have "foldr (\<lambda>(e, r). spliceAt e r) (er # ers) body =
      take (ieStart e) body @ r @ replaceTokens (ieEnd e) (drop (ieEnd e) body) ers"
    using er sp(2) le by (simp add: spliceAt_def)
  moreover have "take (ieStart e) body = take off body @ take (ieStart e - off) (drop off body)"
    using sp(1) by (metis le_add_diff_inverse take_add)
  ultimately show ?case using er sp by simp
qed simp

lemma spaced_sorted: "spaced off len es \<Longrightarrow> sorted_wrt (<) (map ieStart es) \<and> (\<forall>e \<in> set es. off \<le> ieStart e)"
proof (induction off len es rule: spaced.induct)
  case (2 off len e es)
  then show ?case by fastforce
qed simp

lemma sortedExpansions_rev:
  assumes "spaced off len es"
  shows "sortedExpansions es = rev es"
  unfolding sortedExpansions_def
proof (rule properties_for_sort_key)
  have "distinct (map ieStart es)" using spaced_sorted[OF assms] strict_sorted_iff by auto
  then have one: "filter (\<lambda>y. - int (ieStart x) = - int (ieStart y)) es = [x]" if "x \<in> set es" for x
    using that by (induction es) (auto simp: filter_empty_conv image_iff)
  show "filter (\<lambda>y. - int (ieStart x) = - int (ieStart y)) (rev es) = filter (\<lambda>y. - int (ieStart x) = - int (ieStart y)) es"
    if "x \<in> set (rev es)" for x
    using one[of x] that by (simp add: rev_filter[symmetric])
  have "sorted_wrt (\<lambda>x y. ieStart x < ieStart y) es" using spaced_sorted[OF assms] by (simp add: sorted_wrt_map)
  then show "sorted (map (\<lambda>e. - int (ieStart e)) (rev es))"
    unfolding sorted_map sorted_wrt_rev by (rule sorted_wrt_mono_rel[rotated]) auto
qed simp

text \<open>The results of the commands, in the order in which they are started, and the loop in terms of them.\<close>

fun resultsOf :: "(nat \<Rightarrow> string \<Rightarrow> inlineResult) \<Rightarrow> nat \<Rightarrow> expansion list \<Rightarrow> inlineResult list" where
  "resultsOf run k [] = []"
| "resultsOf run k (e # es) = run k (ieCommand e) # resultsOf run (Suc k) es"

lemma length_resultsOf [simp]: "length (resultsOf run k es) = length es"
  by (induction run k es rule: resultsOf.induct) auto

lemma renderLoop_eq:
  "renderLoop run k es acc =
    \<lparr>rrBody = fold (\<lambda>(e, r). spliceAt e r) (zip es (map2 replacementOf es (resultsOf run k es))) (rrBody acc),
     rrExpanded = rrExpanded acc + length (filter irOk (resultsOf run k es)),
     rrFailed = rrFailed acc + length (filter (\<lambda>r. \<not> irOk r) (resultsOf run k es))\<rparr>"
  by (induction run k es acc rule: renderLoop.induct) (simp_all add: Let_def)

lemma zip_rev_rev: "length xs = length ys \<Longrightarrow> zip (rev xs) ys = rev (zip xs (rev ys))"
  by (simp add: zip_rev[symmetric])

text \<open>Rendering in one step: the results belong to the expansions from the last one to the first.\<close>

lemma render_spaced:
  assumes "spaced 0 (length body) es" and rs_def: "rs = rev (resultsOf run 0 (rev es))"
  shows "renderInlineCommands run body es =
    \<lparr>rrBody = replaceTokens 0 body (zip es (map2 replacementOf es rs)),
     rrExpanded = length (filter irOk rs), rrFailed = length (filter (\<lambda>r. \<not> irOk r) rs)\<rparr>"
proof (cases "es = []")
  case False
  have len: "length rs = length es" by (simp add: rs_def)
  have r: "resultsOf run 0 (rev es) = rev rs" by (simp add: rs_def)
  have "zip (rev es) (map2 replacementOf (rev es) (rev rs)) = rev (zip es (map2 replacementOf es rs))"
    using len by (simp add: zip_rev_rev rev_map[symmetric])
  then have "fold (\<lambda>(e, r). spliceAt e r) (zip (rev es) (map2 replacementOf (rev es) (rev rs))) body =
      replaceTokens 0 body (zip es (map2 replacementOf es rs))"
    using splices[of 0 body "zip es (map2 replacementOf es rs)"] assms(1) len
    by (simp add: foldr_conv_fold map_fst_zip)
  then show ?thesis
    using False by (simp add: renderInlineCommands_def sortedExpansions_rev[OF assms(1)] renderLoop_eq r
        rev_filter[symmetric])
qed (simp add: renderInlineCommands_def rs_def)

lemma escapeXmlContent_plain: "CHR ''<'' \<notin> set (escapeXmlContent s)" "CHR ''>'' \<notin> set (escapeXmlContent s)"
  by (auto simp: escapeXmlContent_def replaceChar_def)

text \<open>A replacement is one element whose content has no markup of its own.\<close>

definition plainElement :: "expansion \<Rightarrow> string \<Rightarrow> bool" where
  "plainElement e s \<longleftrightarrow> (\<exists>content. s = wrapInXml (iePlaceholder e) content \<and> CHR ''<'' \<notin> set content \<and> CHR ''>'' \<notin> set content)"

lemma replacement_plain: "plainElement e (replacementOf e r)"
proof -
  have "CHR ''<'' \<notin> set (failureReasonToStub f)" "CHR ''>'' \<notin> set (failureReasonToStub f)" for f
    by (induction f rule: failureReasonToStub.induct; simp)+
  then show ?thesis using escapeXmlContent_plain[of "irOutput r"]
    by (cases "irOk r") (auto simp: plainElement_def replacementOf_def)
qed

lemma parse_spaced: "spaced 0 (length body) (fst (parseInlineCommandExpansions body))"
  using expand_spaced[OF scan_fit, of 0 body] by (simp add: parse_fst)

section \<open>Properties\<close>

text \<open>C24: The parser overlooks no token: the offsets of its expansions and of its errors are together exactly the
  places outside fenced code where an exclamation mark stands before a backtick. The expansions are disjoint and in
  order, start outside fenced code, are numbered from 0, and each is a token of the body around its command.\<close>

theorem parser_fails_closed:
  "reported (parseInlineCommandExpansions body) =
     {off. take 2 (drop off body) = [bang, backtick] \<and> \<not> isInsideFencedCode off (buildFencedCodeRanges body)} \<and>
   (let es = fst (parseInlineCommandExpansions body) in
      spaced 0 (length body) es \<and> list_all (standsIn body) es \<and>
      list_all (\<lambda>e. \<not> isInsideFencedCode (ieStart e) (buildFencedCodeRanges body)) es \<and>
      map iePlaceholder es = [0..<length es])"
  using parse_reported parse_spaced expand_stands[OF scan_fit, of "[]" 0 body] expand_outside
    expand_placeholders[of "buildFencedCodeRanges body" 0 "scanTokens 0 body"]
  by (simp add: parse_fst)

text \<open>C25: Rendering by splices from the last token to the first gives the body with every token replaced in place: the
  text between the tokens is unchanged, every replacement is one element whose content opens and closes no tag, and
  every token is counted once, as expanded or as failed.\<close>

theorem render_replaces_tokens:
  "let es = fst (parseInlineCommandExpansions body); r = renderInlineCommands run body es in
   (\<exists>rs. list_all2 plainElement es rs \<and> rrBody r = replaceTokens 0 body (zip es rs)) \<and>
   rrExpanded r + rrFailed r = length es"
proof -
  let ?es = "fst (parseInlineCommandExpansions body)"
  let ?rs = "rev (resultsOf run 0 (rev ?es))"
  have "list_all2 plainElement ?es (map2 replacementOf ?es ?rs)"
    using replacement_plain by (simp add: list_all2_conv_all_nth)
  moreover have "length (filter irOk ?rs) + length (filter (\<lambda>r. \<not> irOk r) ?rs) = length ?es"
    using sum_length_filter_compl[of irOk ?rs] by simp
  ultimately show ?thesis unfolding render_spaced[OF parse_spaced refl] Let_def by auto
qed

text \<open>An opening without its closing backtick is reported, but a later token closes it as well: the text up to there is
  expanded and run, next to the error.\<close>

theorem unmatched_opening_is_run:
  "parseInlineCommandExpansions [bang, backtick, CHR ''a'', CHR '' '', bang, backtick, CHR ''b'', backtick] =
    ([\<lparr>ieCommand = [CHR ''a'', CHR '' '', bang], ieStart = 0, ieEnd = 6, iePlaceholder = 0\<rparr>],
     [\<lparr>xeRaw = [bang, backtick, CHR ''b'', backtick], xeOffset = 4, xeReason = UnmatchedOpening\<rparr>])"
  by code_simp

text \<open>Two operating system commands with the terminator ESC backslash: the pattern takes them for one, and the text
  between them is lost.\<close>

definition ex_link :: "string \<Rightarrow> string" where
  "ex_link u = [esc, CHR 0x5D] @ u @ [esc, CHR 0x5C]"

theorem ansi_erases_text:
  "irOutput (runInlineCommand 10000 MAX_OUTPUT_CHARS
     (Closed False (Some 0) False (ex_link ''8;;u'' @ ''text'' @ ex_link ''8;;'' @ ''rest''))) = ''rest''"
  by code_simp

lemma trimEnd_shorter: "length (trimEnd s) \<le> length s"
  unfolding trimEnd_def by (metis length_dropWhile_le length_rev)

text \<open>The output of a command that counts as successful is at most the cap and the truncation mark long.\<close>

theorem output_bounded:
  assumes "irOk (runInlineCommand timeoutMs maxChars p)"
  shows "length (irOutput (runInlineCommand timeoutMs maxChars p)) \<le> maxChars + length truncationMark"
proof (cases p)
  case (Closed timedOut code capped raw)
  then show ?thesis
    using assms trimEnd_shorter[of "take maxChars (stripAnsi raw) @ truncationMark"] trimEnd_shorter[of "stripAnsi raw"]
    by (auto simp: failedRun_def Let_def split: if_splits)
qed (use assms in \<open>simp_all add: failedRun_def\<close>)

end
