(* ===== verification/RemoteSkills.thy ===== *)
theory RemoteSkills
  imports HumPrelude
begin

text \<open>
  Which remote skills may be installed, \<open>assistant/src/skills/remote-skill-policy.ts\<close>. The audit of skills.sh is
  data of a service, so its risk is any string or missing; the ranks order the risks that are known, and the order of
  the type is the order of the ranks.
\<close>

section \<open>Risks\<close>

datatype skillsShRisk = RiskSafe | RiskLow | RiskMedium | RiskHigh | RiskCritical | RiskUnknown

fun SKILLS_SH_RISK_RANK :: "skillsShRisk \<Rightarrow> nat" where
  "SKILLS_SH_RISK_RANK RiskSafe = 0"
| "SKILLS_SH_RISK_RANK RiskLow = 1"
| "SKILLS_SH_RISK_RANK RiskMedium = 2"
| "SKILLS_SH_RISK_RANK RiskHigh = 3"
| "SKILLS_SH_RISK_RANK RiskCritical = 4"
| "SKILLS_SH_RISK_RANK RiskUnknown = 5"

lemma rank_inject: "SKILLS_SH_RISK_RANK a = SKILLS_SH_RISK_RANK b \<longleftrightarrow> a = b"
  by (cases a; cases b) simp_all

instantiation skillsShRisk :: linorder
begin

definition less_eq_skillsShRisk :: "skillsShRisk \<Rightarrow> skillsShRisk \<Rightarrow> bool" where
  "less_eq_skillsShRisk a b = (SKILLS_SH_RISK_RANK a \<le> SKILLS_SH_RISK_RANK b)"

definition less_skillsShRisk :: "skillsShRisk \<Rightarrow> skillsShRisk \<Rightarrow> bool" where
  "less_skillsShRisk a b = (SKILLS_SH_RISK_RANK a < SKILLS_SH_RISK_RANK b)"

instance
  by standard (auto simp: less_eq_skillsShRisk_def less_skillsShRisk_def rank_inject)

end

text \<open>The labels of the audit, as keys of the rank table.\<close>

definition riskLabels :: "(string \<times> skillsShRisk) list" where
  "riskLabels = [(''safe'', RiskSafe), (''low'', RiskLow), (''medium'', RiskMedium), (''high'', RiskHigh),
     (''critical'', RiskCritical), (''unknown'', RiskUnknown)]"

text \<open>The risk of an audit: no audit, an audit without a risk, or a label.\<close>

definition normalizeSkillsShRisk :: "string option option \<Rightarrow> skillsShRisk" where
  "normalizeSkillsShRisk audit =
    (case audit of
       None \<Rightarrow> RiskUnknown
     | Some None \<Rightarrow> RiskUnknown
     | Some (Some label) \<Rightarrow> orDefault (map_of riskLabels label) RiskUnknown)"

section \<open>The decision\<close>

record remoteSkillPolicy =
  rpBlockSuspicious :: bool
  rpBlockMalware :: bool
  rpMaxSkillsShRisk :: skillsShRisk

definition DEFAULT_REMOTE_SKILL_POLICY :: remoteSkillPolicy where
  "DEFAULT_REMOTE_SKILL_POLICY = \<lparr>rpBlockSuspicious = True, rpBlockMalware = True, rpMaxSkillsShRisk = RiskMedium\<rparr>"

record clawhubModeration =
  cmIsSuspicious :: "bool option"
  cmIsMalwareBlocked :: "bool option"

datatype remoteSkillCandidate =
    Clawhub string "clawhubModeration option"
  | SkillsSh string "string option option"

datatype denyReason = ClawhubSuspicious | ClawhubMalwareBlocked | ClawhubModerationMissing | RiskExceedsThreshold

definition exceedsSkillsShRiskThreshold :: "string option option \<Rightarrow> skillsShRisk \<Rightarrow> bool" where
  "exceedsSkillsShRiskThreshold audit threshold =
    (SKILLS_SH_RISK_RANK threshold < SKILLS_SH_RISK_RANK (normalizeSkillsShRisk audit))"

text \<open>\<open>None\<close>: the installation is allowed.\<close>

fun evaluateRemoteSkillInstall :: "remoteSkillCandidate \<Rightarrow> remoteSkillPolicy \<Rightarrow> denyReason option" where
  "evaluateRemoteSkillInstall (Clawhub slug moderation) policy =
     (case moderation of
        None \<Rightarrow> Some ClawhubModerationMissing
      | Some m \<Rightarrow>
          if rpBlockMalware policy \<and> cmIsMalwareBlocked m = Some True then Some ClawhubMalwareBlocked
          else if rpBlockSuspicious policy \<and> cmIsSuspicious m = Some True then Some ClawhubSuspicious
          else None)"
| "evaluateRemoteSkillInstall (SkillsSh slug audit) policy =
     (if exceedsSkillsShRiskThreshold audit (rpMaxSkillsShRisk policy) then Some RiskExceedsThreshold else None)"

definition isRemoteSkillInstallable :: "remoteSkillCandidate \<Rightarrow> remoteSkillPolicy \<Rightarrow> bool" where
  "isRemoteSkillInstallable candidate policy = (evaluateRemoteSkillInstall candidate policy = None)"

definition filterInstallableRemoteSkills :: "remoteSkillCandidate list \<Rightarrow> remoteSkillPolicy \<Rightarrow> remoteSkillCandidate list" where
  "filterInstallableRemoteSkills skills policy = filter (\<lambda>s. isRemoteSkillInstallable s policy) skills"

section \<open>Facts\<close>

text \<open>One policy is at least as strict as another.\<close>

definition stricter :: "remoteSkillPolicy \<Rightarrow> remoteSkillPolicy \<Rightarrow> bool" where
  "stricter p q \<longleftrightarrow> (rpBlockSuspicious q \<longrightarrow> rpBlockSuspicious p) \<and> (rpBlockMalware q \<longrightarrow> rpBlockMalware p) \<and>
    rpMaxSkillsShRisk p \<le> rpMaxSkillsShRisk q"

lemma exceeds_iff: "exceedsSkillsShRiskThreshold audit threshold \<longleftrightarrow> threshold < normalizeSkillsShRisk audit"
  by (simp add: exceedsSkillsShRiskThreshold_def less_skillsShRisk_def)

text \<open>What a stricter policy installs, a laxer one installs; so tightening the policy only shortens the list.\<close>

theorem install_monotone:
  assumes "stricter p q"
  shows "set (filterInstallableRemoteSkills skills p) \<subseteq> set (filterInstallableRemoteSkills skills q)"
proof -
  have "isRemoteSkillInstallable c q" if "isRemoteSkillInstallable c p" for c
    using that assms
    by (cases c) (auto simp: isRemoteSkillInstallable_def stricter_def exceeds_iff split: option.splits if_splits)
  then show ?thesis by (auto simp: filterInstallableRemoteSkills_def)
qed

text \<open>Missing data never installs: a skill of skills.sh whose audit, risk or label is missing or unknown, unless the
  threshold is above all known risks, and a skill of Clawhub without moderation under every policy.\<close>

theorem missing_data_denied:
  "evaluateRemoteSkillInstall (Clawhub slug None) policy = Some ClawhubModerationMissing \<and>
   (evaluateRemoteSkillInstall (SkillsSh slug audit) policy = None) =
     (normalizeSkillsShRisk audit \<le> rpMaxSkillsShRisk policy) \<and>
   normalizeSkillsShRisk None = RiskUnknown \<and> normalizeSkillsShRisk (Some None) = RiskUnknown \<and>
   (rpMaxSkillsShRisk policy < RiskUnknown) = (rpMaxSkillsShRisk policy \<noteq> RiskUnknown)"
  by (cases "rpMaxSkillsShRisk policy") (auto simp: exceeds_iff normalizeSkillsShRisk_def less_skillsShRisk_def
      less_eq_skillsShRisk_def)

end
