(* ===== verification/Spec2Isabelle.thy ===== *)
theory Spec2Isabelle
  imports HostPolicy TempGrants HttpPolicy GuardianDecision PermissionCheck CommandManifest WorkspaceStaging CommandExecutor HttpExecutor EgressAcquire SkillHash InlineCommands RemoteSkills
begin

text \<open>
  This library models the part of the repository that decides what an assistant may do on its user's
  behalf: which approvals a guardian has given, which grants follow from them and when they are used up, which
  requests and commands the credential executor runs with the user's credentials, what such a command may
  leave behind, and which files the skills of the assistant consist of.

  \<^bold>\<open>How the parts of the program interact\<close>

  A tool call passes the permission check of the assistant (\<open>permissions/checker.ts\<close>,
  \<open>tools/permission-checker.ts\<close>), which asks the gateway for a risk, reads the threshold up to which calls
  are approved automatically, evaluates the approval policy and, if it must, prompts. A call in the name of
  somebody who is not the guardian becomes a guardian request; the guardian's decision resolves the
  request and may mint a scoped grant, which the repeated call consumes. A call that needs a credential
  goes to the credential executor, a process of its own (\<open>credential-executor/src\<close>), which keeps
  persistent and temporary grants, proposes a grant to the guardian when it has none, and runs an HTTP request
  or a command behind an outbound proxy that injects the credential. Commands come from verified bundles of
  the toolstore, work on staged copies of workspace files, and their outputs are scanned and copied back.

  \<^bold>\<open>Theories and sources\<close>

  \<^item> \<open>HumPrelude\<close>: JavaScript strings, maps and tables, sequences of operations, and the interfaces
    \<open>cas_store\<close> (resolution by compare-and-swap), \<open>event_machine\<close> (an invariant) and \<open>credit_machine\<close>
    (an accounting argument). The components instantiate them on their own steps: \<open>guardianCas\<close>,
    \<open>guardianMachine\<close>, \<open>tableMachine\<close>, \<open>decisionMachine\<close>, \<open>sagMachine\<close>, \<open>onceMachine\<close>,
    \<open>cesMachine\<close>, \<open>healthyStore\<close>, \<open>readerMachine\<close>, \<open>riskMachine\<close>.
  \<^item> \<open>GuardianStore\<close> (\<open>memory/canonical-guardian-store.ts\<close>): the tables of requests and deliveries; the
    first resolver wins, and a decision stays unless this very request is updated with another. \<open>ScopedGrants\<close> (\<open>memory/scoped-approval-grants.ts\<close>,
    \<open>approvals/approval-primitive.ts\<close>): the table of grants, with what other writers do between the two
    statements of a consumer; a grant is consumed at most once, by an invocation that fits it.
    \<open>GuardianDecision\<close> (\<open>approvals/guardian-decision-primitive.ts\<close>) composes both with the resolver that is
    awaited in between.
  \<^item> \<open>ApprovalPolicy\<close>, \<open>ThresholdReader\<close>, \<open>RiskCache\<close>, \<open>PermissionCheck\<close> (\<open>permissions/\<close>,
    \<open>tools/permission-checker.ts\<close>): the policy in closed form, the staleness of the thresholds, the
    answers the caches may give, and what a call that was allowed was allowed by. \<open>WorkspacePolicy\<close>
    (\<open>permissions/workspace-policy.ts\<close>): containment of paths.
  \<^item> \<open>GrantStores\<close> and \<open>TempGrants\<close> (\<open>grants/persistent-store.ts\<close>, \<open>temporary-store.ts\<close>), \<open>Proposals\<close>
    (\<open>service-contracts\<close>: canonical JSON, hash, the text that is shown), \<open>PathTemplate\<close> and
    \<open>HttpPolicy\<close> (\<open>http/path-template.ts\<close>, \<open>http/policy.ts\<close>, \<open>grants/rpc-handlers.ts\<close>): the persistent store
    refines a map, and a request is allowed exactly when a grant covers it. \<open>CredentialHandles\<close>
    (\<open>service-contracts/src/handles.ts\<close>, \<open>subjects/\<close>), \<open>ResponseFilter\<close> (\<open>http/response-filter.ts\<close>) and
    \<open>HttpExecutor\<close> (\<open>http/executor.ts\<close>, \<open>http/audit.ts\<close>): the pipeline of an authenticated request; nothing is
    sent without a grant for its target, and the credential is not shown.
  \<^item> \<open>CommandManifest\<close> (\<open>commands/profiles.ts\<close>, \<open>auth-adapters.ts\<close>, \<open>validator.ts\<close>), \<open>Toolstore\<close>
    (\<open>toolstore/\<close>), \<open>WorkspaceStaging\<close> (\<open>commands/workspace.ts\<close>), \<open>OutputScan\<close>
    (\<open>commands/output-scan.ts\<close>) and \<open>CommandExecutor\<close> (\<open>commands/executor.ts\<close>), which composes them with
    the grant stores and the proxy sessions into the pipeline of an authenticated command.
  \<^item> \<open>HostPolicy\<close> (\<open>outbound-proxy/\<close>): host patterns, the choice of the credential, the route.
    \<open>EgressSessions\<close> and \<open>EgressAcquire\<close> (\<open>egress-proxy/src/session-core.ts\<close>): the sessions of the proxy as a
    step relation whose steps are the pieces of code between two awaits, and the lock of a
    conversation.
  \<^item> \<open>IncludeGraph\<close> and \<open>SkillHash\<close> (\<open>skills/include-graph.ts\<close>, \<open>version-hash.ts\<close>,
    \<open>transitive-version-hash.ts\<close>): the graph of skills that include skills, and the hash an approval is pinned
    to. \<open>InlineCommands\<close> (\<open>skills/inline-command-*.ts\<close>): the commands in the text of a skill, parsed, run and
    replaced by their output. \<open>RemoteSkills\<close> (\<open>skills/remote-skill-policy.ts\<close>): which skills may be installed.
  \<^item> \<open>PosixPath\<close>, \<open>FileSystem\<close>, \<open>FileUpdates\<close> and \<open>Regex\<close>: the standard library the sources call, namely
    \<open>node:path\<close>, \<open>node:fs\<close> over a tree with symbolic links (interface \<open>file_tree\<close>), and regular expressions
    with a verified matcher.

  \<^bold>\<open>State and operations\<close>

  The data of the sources are records and datatypes with the names of the source's fields behind a
  prefix; a handler is one function that takes the state, the clock and the generated ids and gives its
  result and the new state. An exception is a value (\<open>Inl\<close>, or \<open>None\<close> where the text of the theory says
  so). What runs concurrently is modelled in one of three ways: as a list of foreign statements between
  two statements of an operation (\<open>ScopedGrants\<close>, \<open>GuardianDecision\<close>), as a function of the tree that
  interferes between two calls (\<open>WorkspaceStaging\<close>), or as an \<open>inductive\<close> step relation
  (\<open>EgressSessions\<close>, \<open>EgressAcquire\<close>) with its reachable states.

  \<^bold>\<open>Bounds and fuel\<close>

  Path resolution follows at most 40 links (\<open>MAXSYMLINKS\<close>), as the kernel does. A consumer of a grant
  retries as often as the source's \<open>MAX_CAS_RETRIES\<close>. The caches hold 256 entries (\<open>RISK_CACHE_MAX\<close>).
  An HTTP request follows at most five redirects (\<open>MAX_REDIRECTS\<close>), over which its loop recurses.
  The include searches take the length of the catalog plus one as the depth of their recursion
  (\<open>searchFuel\<close>), and \<open>include_searches_return\<close> proves it to be enough; for the collection of files any depth
  above the number of nodes of the tree is (\<open>collectFiles_returns\<close>), and more changes nothing. The recursion
  over links of a bundle in \<open>Toolstore\<close> takes its depth as an argument, and the properties hold for
  every depth. All other loops of the sources are structural recursion here, so their definitions are
  total.

  \<^bold>\<open>Parameters\<close>

  Third-party and platform code is an argument: SHA-256, the WHATWG URL parser (interface \<open>url_api\<close>,
  which speaks of http and https addresses only, with the instance \<open>httpUrl\<close>), \<open>tar\<close> (which may leave any links, but
  works below its directory), the order in which a directory is listed, sockets and certificates of the proxy,
  processes and their outputs, the database's other writers, the user's answers, and the answers of the gateway
  over IPC. Each hypothesis about them is in the statement of the property that needs it, and its
  witness instantiates it.

  \<^bold>\<open>Not modelled\<close>

  Strings are bytes or code units below 256, so the order and the case of characters beyond them is not
  covered. The numbers of a JSON value are integers. Log lines, metadata that is only displayed and the formatting of time stamps are left out. The
  transports, the key stores and the refresh of tokens behind the materialisation of credentials, the
  classifiers of the gateway, the download and installation of skills,
  memory, conversations, the agent loop, channels, telephony and every user interface are not
  modelled: they are input and output around services, or declarations and queries of third-party
  libraries, and the parts above take their answers as arguments.
\<close>

end
